(* ===== verification/Go_Base.thy ===== *)
theory Go_Base
  imports Main "HOL-Library.AList" "HOL-Library.Char_ord" "HOL-Library.List_Lexorder"
    "HOL-Library.Product_Lexorder" "HOL-Library.Multiset"
begin

text \<open>
  The prelude of the development: what the Go language gives every component.

  \<^item> Signed 64-bit integers (\<open>int64\<close>, \<open>pool.Bytes\<close>, \<open>time.Duration\<close>) are HOL integers, and
    every sum, difference or product the code computes on them is put through \<open>wrap64\<close>, which
    reduces it to the two's complement range. \<open>in_i64\<close> says that a value is in that range.
  \<^item> \<open>time.Time\<close> is an integer count of nanoseconds. \<open>Time.Add\<close> is a sum and \<open>Time.Sub\<close>
    saturates at the largest and smallest duration, as package time documents.
  \<^item> A Go error is an \<open>option\<close>: \<open>None\<close> is nil. Error texts are not modelled, the sentinel an
    error wraps is.
  \<^item> A Go map is an association list whose keys are distinct: one of the orders in which a
    \<open>range\<close> over the map may visit it. Lookup is \<open>map_of\<close>, assignment \<open>AList.update\<close>, and
    \<open>delete\<close> is \<open>AList.delete\<close>.
  \<^item> Go strings are byte strings and compare bytewise: \<open>string\<close> with the lexicographic order of
    \<open>HOL-Library.List_Lexorder\<close> over \<open>HOL-Library.Char_ord\<close>.
\<close>

named_theorems wrap_simps \<open>removing the wrap-around of values known to be in range\<close>
named_theorems op_defs \<open>definitions of the operations, unfolded together\<close>

section \<open>Signed 64-bit integers\<close>

definition max_i64 :: int where
  "max_i64 = 9223372036854775807"

definition min_i64 :: int where
  "min_i64 = - 9223372036854775808"

definition in_i64 :: "int \<Rightarrow> bool" where
  "in_i64 x \<longleftrightarrow> min_i64 \<le> x \<and> x \<le> max_i64"

definition wrap64 :: "int \<Rightarrow> int" where
  "wrap64 x = (x + 9223372036854775808) mod 18446744073709551616 - 9223372036854775808"

lemmas i64_defs = in_i64_def max_i64_def min_i64_def

lemma wrap64_range: "in_i64 (wrap64 x)"
proof -
  have "0 \<le> (x + 9223372036854775808) mod 18446744073709551616"
    and "(x + 9223372036854775808) mod 18446744073709551616 < 18446744073709551616"
    by simp_all
  then show ?thesis
    unfolding wrap64_def i64_defs by linarith
qed

lemma wrap64_id [wrap_simps]: "in_i64 x \<Longrightarrow> wrap64 x = x"
  unfolding wrap64_def i64_defs by (simp add: mod_pos_pos_trivial)

lemma wrap64_id': "min_i64 \<le> x \<Longrightarrow> x \<le> max_i64 \<Longrightarrow> wrap64 x = x"
  by (rule wrap64_id) (simp add: in_i64_def)

lemma wrap64_idem [simp]: "wrap64 (wrap64 x) = wrap64 x"
  by (rule wrap64_id [OF wrap64_range])

lemma in_i64_zero [simp]: "in_i64 0"
  by (simp add: i64_defs)

text \<open>A value between two in-range values is in range.\<close>

lemma in_i64_between: "in_i64 a \<Longrightarrow> in_i64 b \<Longrightarrow> a \<le> x \<Longrightarrow> x \<le> b \<Longrightarrow> in_i64 x"
  by (simp add: in_i64_def)

lemma in_i64_nonneg: "0 \<le> x \<Longrightarrow> x \<le> b \<Longrightarrow> in_i64 b \<Longrightarrow> in_i64 x"
  by (simp add: i64_defs)

text \<open>The sum of two non-negative in-range values is either exact or reads as negative.\<close>

lemma wrap64_add_nonneg:
  assumes "0 \<le> a" "0 \<le> b" "in_i64 a" "in_i64 b"
  shows "wrap64 (a + b) = (if a + b \<le> max_i64 then a + b else a + b - 18446744073709551616)"
proof (cases "a + b \<le> max_i64")
  case True
  with assms show ?thesis
    by (simp add: wrap64_id' min_i64_def)
next
  case False
  have "(a + b + 9223372036854775808) mod 18446744073709551616
      = (a + b - 9223372036854775808) mod 18446744073709551616"
    using mod_add_self2 [of "a + b - 9223372036854775808" 18446744073709551616]
    by (simp add: algebra_simps)
  also have "\<dots> = a + b - 9223372036854775808"
    using False assms by (intro mod_pos_pos_trivial) (simp_all add: i64_defs)
  finally show ?thesis
    using False by (simp add: wrap64_def)
qed

lemma wrap64_le: "0 \<le> n \<Longrightarrow> wrap64 n \<le> n"
proof -
  assume "0 \<le> n"
  then have "(n + 9223372036854775808) mod 18446744073709551616 \<le> n + 9223372036854775808"
    by (intro zmod_le_nonneg_dividend) simp
  then show ?thesis by (simp add: wrap64_def)
qed

text \<open>Wrapping early or late is the same: a sum taken in any order wraps to the same value.\<close>

lemma wrap64_add_wrap: "wrap64 (wrap64 a + b) = wrap64 (a + b)"
proof -
  have "wrap64 (wrap64 a + b) = ((a + 9223372036854775808) mod 18446744073709551616 + b) mod 18446744073709551616 - 9223372036854775808"
    by (simp add: wrap64_def)
  also have "\<dots> = wrap64 (a + b)" unfolding mod_add_left_eq by (simp add: wrap64_def algebra_simps)
  finally show ?thesis .
qed

lemma foldl_wrap_total: "foldl (\<lambda>t x. wrap64 (t + f x)) (wrap64 a) xs = wrap64 (a + sum_list (map f xs))"
proof (induction xs arbitrary: a)
  case (Cons x xs)
  show ?case using Cons [of "a + f x"] by (simp add: wrap64_add_wrap add.assoc)
qed simp

text \<open>Go's integer division rounds towards zero.\<close>

definition go_div :: "int \<Rightarrow> int \<Rightarrow> int" where
  "go_div a b = sgn a * sgn b * (\<bar>a\<bar> div \<bar>b\<bar>)"

lemma go_div_nonneg: "0 \<le> a \<Longrightarrow> 0 < b \<Longrightarrow> go_div a b = a div b"
  by (cases "a = 0") (simp_all add: go_div_def)

definition sat64 :: "int \<Rightarrow> int" where
  "sat64 x = max min_i64 (min max_i64 x)"

lemma sat64_id: "in_i64 x \<Longrightarrow> sat64 x = x"
  by (simp add: sat64_def i64_defs)

lemma sat64_pos_iff [simp]: "0 < sat64 x \<longleftrightarrow> 0 < x"
  by (auto simp: sat64_def i64_defs)

section \<open>Times and durations\<close>

type_synonym time = int
type_synonym duration = int

definition time_add :: "time \<Rightarrow> duration \<Rightarrow> time" where
  "time_add t d = t + d"

definition time_sub :: "time \<Rightarrow> time \<Rightarrow> duration" where
  "time_sub t u = sat64 (t - u)"

abbreviation Second :: duration where "Second \<equiv> 1000000000"
abbreviation Minute :: duration where "Minute \<equiv> 60000000000"

section \<open>Decimal text\<close>

text \<open>The \<open>%d\<close> verb: a decimal number, with a sign when it is negative.\<close>

fun dec_nat :: "nat \<Rightarrow> string" where
  "dec_nat n = (if n < 10 then [char_of (48 + n)] else dec_nat (n div 10) @ [char_of (48 + n mod 10)])"

declare dec_nat.simps [simp del]

definition dec_int :: "int \<Rightarrow> string" where
  "dec_int i = (if i < 0 then CHR ''-'' # dec_nat (nat (- i)) else dec_nat (nat i))"

section \<open>Go maps as association lists\<close>

type_synonym ('k, 'v) gomap = "('k \<times> 'v) list"

definition gomap_ok :: "('k, 'v) gomap \<Rightarrow> bool" where
  "gomap_ok m \<longleftrightarrow> distinct (map fst m)"

lemma gomap_ok_empty [simp]: "gomap_ok []"
  by (simp add: gomap_ok_def)

lemma gomap_ok_update [simp]: "gomap_ok m \<Longrightarrow> gomap_ok (AList.update k v m)"
  by (simp add: gomap_ok_def distinct_update)

lemma gomap_ok_delete [simp]: "gomap_ok m \<Longrightarrow> gomap_ok (AList.delete k m)"
  by (simp add: gomap_ok_def AList.distinct_delete)

lemma gomap_ok_filter [simp]: "gomap_ok m \<Longrightarrow> gomap_ok (filter P m)"
  by (simp add: gomap_ok_def distinct_map_filter)

lemma gomap_ok_Cons: "gomap_ok ((k, v) # m) \<longleftrightarrow> map_of m k = None \<and> gomap_ok m"
  by (auto simp: gomap_ok_def map_of_eq_None_iff)

lemma map_of_delete_if: "map_of (AList.delete k m) j = (if j = k then None else map_of m j)"
  by (simp add: AList.delete_conv')

lemma map_of_update_if: "map_of (AList.update k v m) j = (if j = k then Some v else map_of m j)"
  by (simp add: AList.update_conv')

lemma set_delete: "set (AList.delete k m) = {(j, v) \<in> set m. j \<noteq> k}"
  by (auto simp: AList.delete_eq)

lemma update_fresh: "map_of m k = None \<Longrightarrow> AList.update k v m = m @ [(k, v)]"
  by (induction m) (auto split: if_splits)

lemma delete_absent: "map_of m k = None \<Longrightarrow> AList.delete k m = m"
  by (induction m) (auto split: if_splits)

lemma delete_append: "AList.delete k (m @ n) = AList.delete k m @ AList.delete k n"
  by (simp add: AList.delete_eq)

lemma delete_update_fresh: "map_of m k = None \<Longrightarrow> AList.delete k (AList.update k v m) = m"
  by (simp add: update_fresh delete_append delete_absent)

text \<open>Two orders of one map are permutations of each other.\<close>

lemma gomap_same_mset:
  assumes "gomap_ok m" "gomap_ok n" "map_of m = map_of n"
  shows "mset m = mset n"
proof -
  have "set m = set n"
    using assms graph_map_of_if_distinct_dom [of m] graph_map_of_if_distinct_dom [of n]
    by (simp add: gomap_ok_def)
  moreover have "distinct m" "distinct n"
    using assms by (auto simp: gomap_ok_def distinct_map)
  ultimately show ?thesis
    by (simp add: set_eq_iff_mset_eq_distinct)
qed

section \<open>Sums over maps\<close>

text \<open>The exact total of a measure over the values of a map, and one step of it.\<close>

definition msum :: "('v \<Rightarrow> int) \<Rightarrow> ('k, 'v) gomap \<Rightarrow> int" where
  "msum f m = sum_list (map f (map snd m))"

lemma msum_empty [simp]: "msum f [] = 0"
  by (simp add: msum_def)

lemma msum_Cons [simp]: "msum f ((k, v) # m) = f v + msum f m"
  by (simp add: msum_def)

lemma msum_append [simp]: "msum f (m @ n) = msum f m + msum f n"
  by (simp add: msum_def)

lemma msum_nonneg: "(\<And>v. v \<in> snd ` set m \<Longrightarrow> 0 \<le> f v) \<Longrightarrow> 0 \<le> msum f m"
  by (induction m) auto

lemma msum_mono: "(\<And>v. v \<in> snd ` set m \<Longrightarrow> f v \<le> g v) \<Longrightarrow> msum f m \<le> msum g m"
proof (induction m)
  case (Cons kv m)
  then show ?case
    by (cases kv) (simp add: add_mono)
qed simp

lemma msum_cong: "(\<And>v. v \<in> snd ` set m \<Longrightarrow> f v = g v) \<Longrightarrow> msum f m = msum g m"
  by (induction m) auto

lemma msum_update_fresh: "map_of m k = None \<Longrightarrow> msum f (AList.update k v m) = msum f m + f v"
  by (simp add: update_fresh)

lemma msum_delete:
  "gomap_ok m \<Longrightarrow> map_of m k = Some v \<Longrightarrow> msum f (AList.delete k m) = msum f m - f v"
proof (induction m)
  case (Cons kv m)
  then show ?case
    by (cases kv) (auto simp: gomap_ok_Cons delete_absent split: if_splits)
qed simp

lemma msum_delete_le:
  assumes "gomap_ok m" and nn: "\<And>v. v \<in> snd ` set m \<Longrightarrow> 0 \<le> f v"
  shows "msum f (AList.delete k m) \<le> msum f m"
proof (cases "map_of m k")
  case None
  then show ?thesis by (simp add: delete_absent)
next
  case (Some v)
  then have "0 \<le> f v" by (intro nn) (force dest: map_of_SomeD)
  then show ?thesis using Some assms(1) by (simp add: msum_delete)
qed

lemma msum_ge_value:
  assumes "map_of m k = Some v" and "gomap_ok m" and nn: "\<And>v. v \<in> snd ` set m \<Longrightarrow> 0 \<le> f v"
  shows "f v \<le> msum f m"
proof -
  have "0 \<le> msum f (AList.delete k m)"
    using nn by (intro msum_nonneg) (auto simp: set_delete)
  then show ?thesis
    using assms(1,2) by (simp add: msum_delete)
qed

lemma msum_same_map:
  assumes "gomap_ok m" "gomap_ok n" "map_of m = map_of n"
  shows "msum f m = msum f n"
proof -
  have "mset (map f (map snd m)) = mset (map f (map snd n))"
    by (simp add: gomap_same_mset [OF assms] del: map_map)
  then show ?thesis
    unfolding msum_def by (metis sum_mset_sum_list)
qed

end
