(* ===== verification/Pool.thy ===== *)
theory Pool
  imports Go_Base
begin

text \<open>
  Package pool (\<open>internal/pool/pool.go\<close>): how one node's device is divided between what everybody
  else holds, what Forebay has lent, and what is free. \<open>accounting\<close> is the struct \<open>Accounting\<close>;
  its operations are the methods of the source. The lemmas say that \<open>Lend\<close> and \<open>Return\<close> keep a
  valid accounting valid, that they undo each other, and, for the arithmetic at 64 bits, that
  \<open>Lend\<close> compares exactly as it would on unbounded integers.
\<close>

record accounting =
  Capacity :: int
  Reserved :: int
  Borrowed :: int

datatype pool_error = ErrNegative | ErrOvercommit | ErrInsufficient | ErrOverRelease

definition Free :: "accounting \<Rightarrow> int" where
  "Free a = wrap64 (wrap64 (Capacity a - Reserved a) - Borrowed a)"

definition acct_Validate :: "accounting \<Rightarrow> pool_error option" where
  "acct_Validate a =
     (if Capacity a < 0 then Some ErrNegative
      else if Reserved a < 0 then Some ErrNegative
      else if Borrowed a < 0 then Some ErrNegative
      else if Free a < 0 then Some ErrOvercommit
      else None)"

definition CanLend :: "accounting \<Rightarrow> int \<Rightarrow> bool" where
  "CanLend a n \<longleftrightarrow> 0 \<le> n \<and> n \<le> Free a"

definition Lend :: "accounting \<Rightarrow> int \<Rightarrow> pool_error option \<times> accounting" where
  "Lend a n =
     (if n < 0 then (Some ErrNegative, a)
      else if \<not> CanLend a n then (Some ErrInsufficient, a)
      else (None, a\<lparr>Borrowed := wrap64 (Borrowed a + n)\<rparr>))"

definition Return :: "accounting \<Rightarrow> int \<Rightarrow> pool_error option \<times> accounting" where
  "Return a n =
     (if n < 0 then (Some ErrNegative, a)
      else if Borrowed a < n then (Some ErrOverRelease, a)
      else (None, a\<lparr>Borrowed := wrap64 (Borrowed a - n)\<rparr>))"

definition Reclaimable :: "accounting \<Rightarrow> int" where
  "Reclaimable a = Borrowed a"

text \<open>
  What is true of the accounting of a running node: the three fields are non-negative 64-bit
  values and the pools fit the device.
\<close>

definition acct_ok :: "accounting \<Rightarrow> bool" where
  "acct_ok a \<longleftrightarrow> 0 \<le> Capacity a \<and> 0 \<le> Reserved a \<and> 0 \<le> Borrowed a
     \<and> in_i64 (Capacity a) \<and> in_i64 (Reserved a) \<and> in_i64 (Borrowed a)
     \<and> Reserved a + Borrowed a \<le> Capacity a"

lemma Free_ok: "acct_ok a \<Longrightarrow> Free a = Capacity a - Reserved a - Borrowed a"
  by (simp add: Free_def acct_ok_def i64_defs wrap64_id)

text \<open>For fields in the range of the type, \<open>Validate\<close> accepts exactly the accountings that add up,
  provided no more is lent than the device holds.\<close>

lemma acct_Validate_iff:
  assumes "in_i64 (Capacity a)" "in_i64 (Reserved a)" "in_i64 (Borrowed a)" "Borrowed a \<le> Capacity a"
    and "Reserved a \<le> Capacity a"
  shows "acct_Validate a = None \<longleftrightarrow> acct_ok a"
proof
  assume *: "acct_Validate a = None"
  then have "0 \<le> Capacity a" "0 \<le> Reserved a" "0 \<le> Borrowed a" "0 \<le> Free a"
    by (auto simp: acct_Validate_def split: if_splits)
  moreover from this assms have "Free a = Capacity a - Reserved a - Borrowed a"
    by (simp add: Free_def i64_defs wrap64_id)
  ultimately show "acct_ok a"
    using assms by (simp add: acct_ok_def)
next
  assume "acct_ok a"
  then show "acct_Validate a = None"
    using Free_ok [of a] by (simp add: acct_ok_def acct_Validate_def)
qed

lemma Lend_cases:
  assumes "acct_ok a" "in_i64 n"
  shows "Lend a n =
     (if n < 0 then (Some ErrNegative, a)
      else if Capacity a < Reserved a + Borrowed a + n then (Some ErrInsufficient, a)
      else (None, a\<lparr>Borrowed := Borrowed a + n\<rparr>))"
proof -
  have "wrap64 (Borrowed a + n) = Borrowed a + n"
    if "0 \<le> n" "\<not> Capacity a < Reserved a + Borrowed a + n"
    using that assms by (intro wrap64_id) (auto simp: acct_ok_def i64_defs)
  then show ?thesis
    using Free_ok [OF assms(1)] by (auto simp: Lend_def CanLend_def)
qed

lemma Lend_ok: "acct_ok a \<Longrightarrow> in_i64 n \<Longrightarrow> Lend a n = (e, a') \<Longrightarrow> acct_ok a'"
  by (auto simp: Lend_cases acct_ok_def i64_defs split: if_splits)

lemma Return_cases:
  assumes "acct_ok a"
  shows "Return a n =
     (if n < 0 then (Some ErrNegative, a)
      else if Borrowed a < n then (Some ErrOverRelease, a)
      else (None, a\<lparr>Borrowed := Borrowed a - n\<rparr>))"
proof -
  have "wrap64 (Borrowed a - n) = Borrowed a - n" if "0 \<le> n" "n \<le> Borrowed a"
    using that assms by (intro wrap64_id) (auto simp: acct_ok_def i64_defs)
  then show ?thesis by (auto simp: Return_def)
qed

lemma Return_ok: "acct_ok a \<Longrightarrow> Return a n = (e, a') \<Longrightarrow> acct_ok a'"
  by (auto simp: Return_cases acct_ok_def i64_defs split: if_splits)

lemma Return_Lend: "acct_ok a \<Longrightarrow> in_i64 n \<Longrightarrow> Lend a n = (None, a') \<Longrightarrow> Return a' n = (None, a)"
  by (frule (2) Lend_ok) (auto simp: Lend_cases Return_cases acct_ok_def split: if_splits)

end
