(* ===== verification/Go_Float.thy ===== *)
theory Go_Float
  imports Complex_Main Go_Base
begin

text \<open>
  Go's \<open>float64\<close>: the finite IEEE 754 doubles as the rational numbers they denote. An
  operation on doubles is the exact rational operation followed by \<open>rnd64\<close>, which rounds to the
  nearest double with ties to even: the 53-bit significand is placed at the exponent of the value
  (\<open>rexp\<close>), or at the fixed exponent of the subnormal numbers. Infinities and NaN are not
  represented: the code computes with byte counts, seconds and shares, whose products stay far
  below the overflow threshold.

  Everything is executable on rationals. The facts the components use are that a value which is
  a double already is not moved (\<open>rnd64_exact\<close>), in particular an integer of at most 53 bits
  (\<open>rnd64_int\<close>), and that rounding keeps the sign.
\<close>

abbreviation pow2 :: "int \<Rightarrow> rat" where
  "pow2 e \<equiv> 2 powi e"

lemma pow2_add: "pow2 (a + b) = pow2 a * pow2 b"
  by (simp add: power_int_add)

lemma pow2_less_iff: "pow2 a < pow2 b \<longleftrightarrow> a < b"
  using power_int_strict_increasing [of a b "2 :: rat"] power_int_increasing [of b a "2 :: rat"]
  by (cases "a < b") auto

section \<open>The exponent of a value\<close>

fun nbits :: "nat \<Rightarrow> nat" where
  "nbits n = (if n = 0 then 0 else Suc (nbits (n div 2)))"

declare nbits.simps [simp del]

lemma nbits_bounds: "0 < n \<Longrightarrow> 2 ^ (nbits n - 1) \<le> n \<and> n < 2 ^ nbits n \<and> 0 < nbits n"
proof (induction n rule: nbits.induct)
  case (1 n)
  show ?case
  proof (cases "n div 2 = 0")
    case True
    with "1.prems" have "n = 1" by simp
    then show ?thesis by (simp add: nbits.simps)
  next
    case False
    with "1.IH" "1.prems" have IH: "2 ^ (nbits (n div 2) - 1) \<le> n div 2" "n div 2 < 2 ^ nbits (n div 2)"
      "0 < nbits (n div 2)" by auto
    have eq: "nbits n = Suc (nbits (n div 2))" using "1.prems" by (simp add: nbits.simps [of n])
    have "(2::nat) ^ nbits (n div 2) = 2 * 2 ^ (nbits (n div 2) - 1)"
      using IH(3) by (simp flip: power_Suc)
    then have "2 ^ nbits (n div 2) \<le> n" using IH(1) by linarith
    moreover have "n < 2 * 2 ^ nbits (n div 2)" using IH(2) by linarith
    ultimately show ?thesis by (simp add: eq)
  qed
qed

lemma nbits_pow2:
  assumes "0 < a"
  shows "pow2 (int (nbits (nat a)) - 1) \<le> of_int a" and "of_int a < pow2 (int (nbits (nat a)))"
proof -
  obtain k where k: "nbits (nat a) = Suc k" and lo: "2 ^ k \<le> nat a" and hi: "nat a < 2 ^ Suc k"
    using nbits_bounds [of "nat a"] assms by (cases "nbits (nat a)") auto
  have lo': "2 ^ k \<le> a" and hi': "a < 2 ^ Suc k"
    using lo hi assms by (auto simp: nat_less_iff le_nat_iff)
  have "pow2 (int k) \<le> of_int a"
    using lo' by (metis of_int_le_iff of_int_numeral of_int_power power_int_of_nat)
  then show "pow2 (int (nbits (nat a)) - 1) \<le> of_int a"
    by (simp add: k)
  have "of_int a < pow2 (int (Suc k))"
    using hi' by (metis of_int_less_iff of_int_numeral of_int_power power_int_of_nat)
  then show "of_int a < pow2 (int (nbits (nat a)))"
    by (simp add: k)
qed

text \<open>The exponent \<open>e\<close> with \<open>2\<^sup>e \<le> |x| < 2\<^bsup>e+1\<^esup>\<close>, from the lengths of numerator and denominator.\<close>

definition rexp :: "rat \<Rightarrow> int" where
  "rexp x = (let (a, b) = quotient_of \<bar>x\<bar>;
                 e = int (nbits (nat a)) - int (nbits (nat b))
             in if pow2 e \<le> \<bar>x\<bar> then e else e - 1)"

lemma quotient_exponent:
  fixes p q :: rat
  assumes "0 < q" and "pow2 (m - 1) \<le> p" "p < pow2 m" and "pow2 (n - 1) \<le> q" "q < pow2 n"
  shows "pow2 (m - n - 1) \<le> p / q" and "p / q < pow2 (m - n + 1)"
proof -
  have "pow2 (m - n - 1) * q \<le> pow2 (m - n - 1) * pow2 n"
    using assms(5) by (intro mult_left_mono) auto
  also have "\<dots> = pow2 (m - 1)" by (simp flip: pow2_add)
  finally show "pow2 (m - n - 1) \<le> p / q"
    using assms by (simp add: pos_le_divide_eq)
  have "p < pow2 (m - n + 1) * pow2 (n - 1)"
    using assms(3) by (simp flip: pow2_add)
  also have "\<dots> \<le> pow2 (m - n + 1) * q"
    using assms(4) by (intro mult_left_mono) auto
  finally show "p / q < pow2 (m - n + 1)"
    using assms(1) by (simp add: pos_divide_less_eq)
qed

lemma rexp_bounds:
  assumes "x \<noteq> 0"
  shows "pow2 (rexp x) \<le> \<bar>x\<bar>" and "\<bar>x\<bar> < pow2 (rexp x + 1)"
proof -
  obtain a b where q: "quotient_of \<bar>x\<bar> = (a, b)" by force
  have b: "0 < b" using q by (rule quotient_of_denom_pos)
  have x: "\<bar>x\<bar> = of_int a / of_int b" using q by (rule quotient_of_div)
  have "0 < \<bar>x\<bar> * of_int b" using assms b by simp
  then have a: "0 < a" using x b by simp
  let ?e = "int (nbits (nat a)) - int (nbits (nat b))"
  have lo: "pow2 (?e - 1) \<le> \<bar>x\<bar>" and hi: "\<bar>x\<bar> < pow2 (?e + 1)"
    using quotient_exponent [OF _ nbits_pow2 [OF a] nbits_pow2 [OF b]] b by (simp_all add: x)
  then show "pow2 (rexp x) \<le> \<bar>x\<bar>" and "\<bar>x\<bar> < pow2 (rexp x + 1)"
    using q by (auto simp: rexp_def Let_def)
qed

section \<open>Rounding to nearest, ties to even\<close>

definition round_half_even :: "rat \<Rightarrow> int" where
  "round_half_even x = (let f = \<lfloor>x\<rfloor>; d = x - of_int f in
     if d < 1 / 2 then f else if 1 / 2 < d then f + 1 else if even f then f else f + 1)"

lemma round_half_even_int [simp]: "round_half_even (of_int n) = n"
  by (simp add: round_half_even_def)

lemma round_half_even_error: "\<bar>of_int (round_half_even x) - x\<bar> \<le> 1 / 2"
proof -
  define f where "f = \<lfloor>x\<rfloor>"
  have f: "of_int f \<le> x" "x < of_int f + 1" unfolding f_def by linarith+
  have "round_half_even x = (if x - of_int f < 1 / 2 then f
      else if 1 / 2 < x - of_int f then f + 1 else if even f then f else f + 1)"
    by (simp add: round_half_even_def Let_def f_def)
  then show ?thesis using f by (simp add: abs_le_iff split: if_splits)
qed

lemma round_half_even_nonneg: "0 \<le> x \<Longrightarrow> 0 \<le> round_half_even x"
  by (auto simp: round_half_even_def Let_def)

definition rnd64 :: "rat \<Rightarrow> rat" where
  "rnd64 x = (if x = 0 then 0 else
     let q = max (rexp x - 52) (- 1074)
     in of_int (round_half_even (x / pow2 q)) * pow2 q)"

lemma rnd64_zero [simp]: "rnd64 0 = 0"
  by (simp add: rnd64_def)

lemma rnd64_nonneg: "0 \<le> x \<Longrightarrow> 0 \<le> rnd64 x"
  by (auto simp: rnd64_def Let_def round_half_even_nonneg)

text \<open>The error of one rounding is at most half a unit in the last place.\<close>

lemma rnd64_error:
  assumes "x \<noteq> 0"
  shows "\<bar>rnd64 x - x\<bar> \<le> pow2 (max (rexp x - 52) (- 1074)) / 2"
proof -
  let ?q = "max (rexp x - 52) (- 1074)"
  have "\<bar>of_int (round_half_even (x / pow2 ?q)) - x / pow2 ?q\<bar> * pow2 ?q \<le> 1 / 2 * pow2 ?q"
    by (intro mult_right_mono round_half_even_error) simp
  moreover have "\<bar>of_int (round_half_even (x / pow2 ?q)) - x / pow2 ?q\<bar> * pow2 ?q
      = \<bar>(of_int (round_half_even (x / pow2 ?q)) - x / pow2 ?q) * pow2 ?q\<bar>"
    by (simp add: abs_mult)
  ultimately show ?thesis
    using assms by (simp add: rnd64_def Let_def left_diff_distrib)
qed

text \<open>A number that is a double already is not moved.\<close>

lemma rnd64_exact:
  assumes "x = of_int m * pow2 k" and "\<bar>m\<bar> < 2 ^ 53" and "- 1074 \<le> k"
  shows "rnd64 x = x"
proof (cases "x = 0")
  case False
  let ?q = "max (rexp x - 52) (- 1074)"
  have "\<bar>of_int m :: rat\<bar> < pow2 53"
    using assms(2) by (metis of_int_abs of_int_less_iff of_int_numeral of_int_power
        power_int_of_nat of_nat_numeral)
  then have "\<bar>of_int m :: rat\<bar> * pow2 k < pow2 53 * pow2 k"
    by (intro mult_strict_right_mono) auto
  then have "\<bar>x\<bar> < pow2 (53 + k)"
    by (simp add: assms(1) abs_mult pow2_add)
  with rexp_bounds(1) [OF False] have "pow2 (rexp x) < pow2 (53 + k)" by linarith
  then have le: "?q \<le> k" using assms(3) by (simp add: pow2_less_iff)
  then obtain n where n: "k = ?q + int n" by (metis zle_iff_zadd)
  have "x / pow2 ?q = of_int (m * 2 ^ n)"
    by (subst assms(1), subst n) (simp add: pow2_add)
  then have "round_half_even (x / pow2 ?q) = m * 2 ^ n"
    by (simp only: round_half_even_int)
  moreover have "of_int (m * 2 ^ n) * pow2 ?q = x"
    using \<open>x / pow2 ?q = of_int (m * 2 ^ n)\<close> by (simp add: divide_eq_eq)
  ultimately show ?thesis
    using False by (simp add: rnd64_def Let_def)
qed simp

corollary rnd64_int: "\<bar>n\<bar> < 2 ^ 53 \<Longrightarrow> rnd64 (of_int n) = of_int n"
  by (rule rnd64_exact [where m = n and k = 0]) auto

section \<open>Conversions and operations\<close>

type_synonym float64 = rat

definition f64_of_int :: "int \<Rightarrow> float64" where
  "f64_of_int n = rnd64 (of_int n)"

definition f64_mul :: "float64 \<Rightarrow> float64 \<Rightarrow> float64" where
  "f64_mul a b = rnd64 (a * b)"

definition f64_div :: "float64 \<Rightarrow> float64 \<Rightarrow> float64" where
  "f64_div a b = rnd64 (a / b)"

definition f64_add :: "float64 \<Rightarrow> float64 \<Rightarrow> float64" where
  "f64_add a b = rnd64 (a + b)"

definition f64_sub :: "float64 \<Rightarrow> float64 \<Rightarrow> float64" where
  "f64_sub a b = rnd64 (a - b)"

text \<open>
  \<open>int64(f)\<close> discards the fraction. For a value outside the range Go leaves the result to the
  implementation; the model takes amd64's, the smallest integer.
\<close>

definition i64_of_f64 :: "float64 \<Rightarrow> int" where
  "i64_of_f64 x = (let n = (if 0 \<le> x then \<lfloor>x\<rfloor> else \<lceil>x\<rceil>) in if in_i64 n then n else min_i64)"

lemma i64_of_f64_range: "in_i64 (i64_of_f64 x)"
  by (simp add: i64_of_f64_def Let_def i64_defs)

lemma f64_of_int_exact: "\<bar>n\<bar> < 2 ^ 53 \<Longrightarrow> f64_of_int n = of_int n"
  by (simp add: f64_of_int_def rnd64_int)

lemma i64_of_f64_of_int: "in_i64 n \<Longrightarrow> i64_of_f64 (of_int n) = n"
  by (simp add: i64_of_f64_def)

end
