(* ===== verification/Lease.thy ===== *)
theory Lease
  imports Pool Go_Float
begin

text \<open>
  Package lease (\<open>internal/lease/lease.go\<close>): the manager of the capacity a node has lent. This
  theory has the data and the operations; \<open>Lease_Inv\<close> has what they guarantee.

  \<open>manager\<close> is the struct \<open>Manager\<close> without its mutex: every method takes the lock for its whole
  body, so the methods are the atomic steps of a manager. The journal is an interface in the
  source; here it is a pair of functions (\<open>journal_ops\<close>) over a journal state carried in the
  manager, and \<open>None\<close> is a manager without one. Each operation is one definition with the
  branches of the source in their order, an error value for each refusal, and the manager it
  leaves behind.
\<close>

section \<open>Classes\<close>

text \<open>\<open>type Class int\<close>: any integer is a value of the type, and three of them are classes.\<close>

type_synonym lease_class = int

definition Opportunistic :: lease_class where "Opportunistic = 0"
definition Elastic :: lease_class where "Elastic = 1"
definition Guaranteed :: lease_class where "Guaranteed = 2"

lemmas class_defs = Opportunistic_def Elastic_def Guaranteed_def

definition class_String :: "lease_class \<Rightarrow> string" where
  "class_String c =
     (if c = Opportunistic then ''opportunistic''
      else if c = Elastic then ''elastic''
      else if c = Guaranteed then ''guaranteed''
      else ''class('' @ dec_int c @ '')'')"

section \<open>Leases, configuration and errors\<close>

record lease =
  lID :: string
  lTenant :: string
  lClass :: lease_class
  lSize :: int
  lGrantedAt :: time
  lTerm :: duration

datatype journal_error = ErrCorrupt | ErrJournalIO

datatype lease_error =
    ErrDuplicate | ErrBadClass | ErrBadTerm | ErrGuaranteeCap | ErrTenantQuota | ErrNoTenant
  | ErrBadQuota | ErrChurning | ErrCooldown | ErrNotRestored | ErrNoDeadline | ErrNoSuchLease
  | ErrPool pool_error | ErrJournal journal_error

definition ParseClass :: "string \<Rightarrow> lease_error + lease_class" where
  "ParseClass s =
     (if s = ''opportunistic'' then Inr Opportunistic
      else if s = ''elastic'' then Inr Elastic
      else if s = ''guaranteed'' then Inr Guaranteed
      else Inl ErrBadClass)"

record quota =
  qBorrowed :: int
  qGuaranteed :: int

record lease_config =
  ReclaimWithin :: duration
  GuaranteedFraction :: float64
  MinTerm :: duration
  ChurnWindow :: duration
  ChurnBudget :: int
  Autonomy :: bool
  Quota :: quota

definition ReclaimDeadline :: "lease_class \<Rightarrow> lease_config \<Rightarrow> duration \<times> bool" where
  "ReclaimDeadline c cf =
     (if c = Opportunistic then (0, True)
      else if c = Elastic then (ReclaimWithin cf, True)
      else (0, False))"

definition class_Valid :: "lease_class \<Rightarrow> bool" where
  "class_Valid c \<longleftrightarrow> Opportunistic \<le> c \<and> c \<le> Guaranteed"

definition ExpiresAt :: "lease \<Rightarrow> time" where
  "ExpiresAt l = time_add (lGrantedAt l) (lTerm l)"

definition Expired :: "lease \<Rightarrow> time \<Rightarrow> bool" where
  "Expired l now \<longleftrightarrow> \<not> now < ExpiresAt l"

definition NodeTenant :: string where
  "NodeTenant = ''system:node''"

definition Bounded :: "quota \<Rightarrow> bool" where
  "Bounded q \<longleftrightarrow> 0 < qBorrowed q \<or> 0 < qGuaranteed q"

definition quota_Validate :: "quota \<Rightarrow> lease_error option" where
  "quota_Validate q =
     (if 0 < qBorrowed q \<and> qBorrowed q < qGuaranteed q then Some ErrBadQuota else None)"

definition DefaultConfig :: lease_config where
  "DefaultConfig = \<lparr>ReclaimWithin = 30 * Second, GuaranteedFraction = 1 / 4, MinTerm = 30 * Second,
     ChurnWindow = 10 * Minute, ChurnBudget = 6, Autonomy = True,
     Quota = \<lparr>qBorrowed = 0, qGuaranteed = 0\<rparr>\<rparr>"

section \<open>The manager\<close>

record 'j journal_ops =
  jSave :: "'j \<Rightarrow> lease list \<Rightarrow> journal_error option \<times> 'j"
  jLoad :: "'j \<Rightarrow> journal_error + lease list"

record 'j manager =
  cfg :: lease_config
  acct :: accounting
  leases :: "(string, lease) gomap"
  reclaims :: "time list"
  journal :: "'j option"
  restored :: bool

text \<open>\<open>New\<close>, without and with the option \<open>WithJournal\<close>.\<close>

definition New :: "accounting \<Rightarrow> lease_config \<Rightarrow> 'j option \<Rightarrow> 'j manager" where
  "New a cf j = \<lparr>cfg = cf, acct = a, leases = [], reclaims = [], journal = j, restored = (j = None)\<rparr>"

text \<open>
  \<open>sortByReclaimOrder\<close> sorts by class, then by grant time, then by identifier. \<open>sort.Slice\<close> is
  not stable, but identifiers are unique in a manager, so the order is total and the result of
  any sorting algorithm is the one of \<open>sort_key\<close>.
\<close>

definition reclaim_key :: "lease \<Rightarrow> int \<times> int \<times> string" where
  "reclaim_key l = (lClass l, lGrantedAt l, lID l)"

definition sortByReclaimOrder :: "lease list \<Rightarrow> lease list" where
  "sortByReclaimOrder ls = sort_key reclaim_key ls"

definition leasesLocked :: "'j manager \<Rightarrow> lease list" where
  "leasesLocked m = sortByReclaimOrder (map snd (leases m))"

definition persistLocked :: "'j journal_ops \<Rightarrow> 'j manager \<Rightarrow> journal_error option \<times> 'j manager" where
  "persistLocked J m =
     (case journal m of
        None \<Rightarrow> (None, m)
      | Some j \<Rightarrow> (case jSave J j (leasesLocked m) of (e, j') \<Rightarrow> (e, m\<lparr>journal := Some j'\<rparr>)))"

definition guaranteedTotal :: "'j manager \<Rightarrow> int" where
  "guaranteedTotal m =
     foldl (\<lambda>t l. if lClass l = Guaranteed then wrap64 (t + lSize l) else t) 0 (map snd (leases m))"

definition guaranteed_limit :: "'j manager \<Rightarrow> int" where
  "guaranteed_limit m = i64_of_f64 (f64_mul (f64_of_int (Capacity (acct m))) (GuaranteedFraction (cfg m)))"

definition GuaranteedFree :: "'j manager \<Rightarrow> int" where
  "GuaranteedFree m =
     (let share = wrap64 (guaranteed_limit m - guaranteedTotal m);
          free = Free (acct m);
          share = (if free < share then free else share)
      in if share < 0 then 0 else share)"

definition releaseLocked :: "'j manager \<Rightarrow> lease \<Rightarrow> lease_error option \<times> 'j manager" where
  "releaseLocked m l =
     (case Return (acct m) (lSize l) of
        (Some e, _) \<Rightarrow> (Some (ErrPool e), m)
      | (None, a) \<Rightarrow> (None, m\<lparr>acct := a, leases := AList.delete (lID l) (leases m)\<rparr>))"

section \<open>Churn and cooldown\<close>

definition recent :: "'j manager \<Rightarrow> time \<Rightarrow> nat" where
  "recent m now =
     length (filter (\<lambda>t. time_add now (wrap64 (- ChurnWindow (cfg m))) < t) (reclaims m))"

definition churning :: "'j manager \<Rightarrow> time \<Rightarrow> bool" where
  "churning m now =
     (if ChurnBudget (cfg m) \<le> 0 \<or> ChurnWindow (cfg m) \<le> 0 then False
      else ChurnBudget (cfg m) \<le> int (recent m now))"

definition retention :: "'j manager \<Rightarrow> duration" where
  "retention m = (if ChurnWindow (cfg m) < MinTerm (cfg m) then MinTerm (cfg m) else ChurnWindow (cfg m))"

definition prune :: "'j manager \<Rightarrow> time \<Rightarrow> 'j manager" where
  "prune m now =
     (let r = retention m in
      if r \<le> 0 then m\<lparr>reclaims := []\<rparr>
      else m\<lparr>reclaims := filter (\<lambda>t. time_add now (wrap64 (- r)) < t) (reclaims m)\<rparr>)"

text \<open>The loop \<open>for i := 1; i < n && d < ChurnWindow; i++ { d *= 2 }\<close>; the first argument is \<open>n - i\<close>.\<close>

fun double_until :: "nat \<Rightarrow> duration \<Rightarrow> duration \<Rightarrow> duration" where
  "double_until 0 w d = d"
| "double_until (Suc k) w d = (if d < w then double_until k w (wrap64 (d * 2)) else d)"

definition cooldownFor :: "'j manager \<Rightarrow> time \<Rightarrow> duration \<times> nat" where
  "cooldownFor m now =
     (let base = MinTerm (cfg m) in
      if base \<le> 0 then (0, 0)
      else let n = recent m now in
      if n \<le> 1 \<or> \<not> Autonomy (cfg m) then (base, n)
      else let d = double_until (n - 1) (ChurnWindow (cfg m)) base;
               d = (if 0 < ChurnWindow (cfg m) \<and> ChurnWindow (cfg m) < d then ChurnWindow (cfg m) else d)
           in (d, n))"

definition inCooldown :: "'j manager \<Rightarrow> time \<Rightarrow> bool \<times> duration" where
  "inCooldown m now =
     (if MinTerm (cfg m) \<le> 0 \<or> reclaims m = [] then (False, 0)
      else let until = time_sub (time_add (last (reclaims m)) (fst (cooldownFor m now))) now
           in if 0 < until then (True, until) else (False, 0))"

definition Churning :: "'j manager \<Rightarrow> time \<Rightarrow> bool \<times> 'j manager" where
  "Churning m now = (churning (prune m now) now, prune m now)"

section \<open>Granting\<close>

definition withinQuota :: "'j manager \<Rightarrow> lease \<Rightarrow> lease_error option" where
  "withinQuota m l =
     (let q = Quota (cfg m) in
      if \<not> Bounded q then None
      else if lTenant l = NodeTenant then None
      else if lTenant l = '''' then Some ErrNoTenant
      else let held = filter (\<lambda>h. lTenant h = lTenant l) (map snd (leases m));
               borrowed = foldl (\<lambda>t h. wrap64 (t + lSize h)) 0 held;
               guaranteed = foldl (\<lambda>t h. if lClass h = Guaranteed then wrap64 (t + lSize h) else t) 0 held
           in if 0 < qBorrowed q \<and> qBorrowed q < wrap64 (borrowed + lSize l) then Some ErrTenantQuota
              else if lClass l = Guaranteed \<and> 0 < qGuaranteed q \<and> qGuaranteed q < wrap64 (guaranteed + lSize l)
              then Some ErrTenantQuota
              else None)"

text \<open>
  The checks \<open>Accept\<close> makes before it lends, in their order, and the lending with its rollback
  when the journal cannot be written.
\<close>

definition accept_checks :: "'j manager \<Rightarrow> lease \<Rightarrow> time \<Rightarrow> lease_error option" where
  "accept_checks m l now =
     (if \<not> restored m then Some ErrNotRestored
      else if \<not> class_Valid (lClass l) then Some ErrBadClass
      else if lTerm l \<le> 0 then Some ErrBadTerm
      else if map_of (leases m) (lID l) \<noteq> None then Some ErrDuplicate
      else if churning m now then Some ErrChurning
      else if fst (inCooldown m now) then Some ErrCooldown
      else if lClass l = Elastic \<and> fst (ReclaimDeadline (lClass l) (cfg m)) \<le> 0 then Some ErrNoDeadline
      else case withinQuota m l of
             Some e \<Rightarrow> Some e
           | None \<Rightarrow>
               if lClass l = Guaranteed \<and> guaranteed_limit m < wrap64 (guaranteedTotal m + lSize l)
               then Some ErrGuaranteeCap
               else None)"

definition Accept :: "'j journal_ops \<Rightarrow> 'j manager \<Rightarrow> lease \<Rightarrow> time \<Rightarrow> lease_error option \<times> 'j manager" where
  "Accept J m0 l now =
     (let m = prune m0 now in
      case accept_checks m l now of
        Some e \<Rightarrow> (Some e, m)
      | None \<Rightarrow>
          (case Lend (acct m) (lSize l) of
             (Some e, _) \<Rightarrow> (Some (ErrPool e), m)
           | (None, a) \<Rightarrow>
               (let l' = l\<lparr>lGrantedAt := now\<rparr>;
                    m1 = m\<lparr>acct := a, leases := AList.update (lID l) l' (leases m)\<rparr>
                in case persistLocked J m1 of
                     (None, m2) \<Rightarrow> (None, m2)
                   | (Some e, m2) \<Rightarrow> (Some (ErrJournal e), snd (releaseLocked m2 l')))))"

section \<open>Releasing, expiring and reclaiming\<close>

definition Release :: "'j journal_ops \<Rightarrow> 'j manager \<Rightarrow> string \<Rightarrow> time \<Rightarrow> int \<times> lease_error option \<times> 'j manager" where
  "Release J m i now =
     (case map_of (leases m) i of
        None \<Rightarrow> (0, Some ErrNoSuchLease, m)
      | Some l \<Rightarrow>
          (case releaseLocked m l of
             (Some e, m1) \<Rightarrow> (0, Some e, m1)
           | (None, m1) \<Rightarrow>
               (case persistLocked J m1 of
                  (Some e, m2) \<Rightarrow> (lSize l, Some (ErrJournal e), m2)
                | (None, m2) \<Rightarrow> (lSize l, None, m2))))"

record reclaim_result =
  Reclaimed :: int
  Shortfall :: int
  rBounded :: bool
  Dropped :: "string list"
  Unfittable :: "string list"
  Err :: "lease_error option"

definition no_result :: reclaim_result where
  "no_result = \<lparr>Reclaimed = 0, Shortfall = 0, rBounded = False, Dropped = [], Unfittable = [], Err = None\<rparr>"

text \<open>The body of the loop of \<open>expireLocked\<close> over the leases in reclaim order.\<close>

fun expire_loop :: "time \<Rightarrow> lease list \<Rightarrow> 'j manager \<Rightarrow> reclaim_result \<Rightarrow> reclaim_result \<times> 'j manager" where
  "expire_loop now [] m res = (res, m)"
| "expire_loop now (l # ls) m res =
     (if \<not> Expired l now then expire_loop now ls m res
      else case releaseLocked m l of
             (Some e, m1) \<Rightarrow> (res\<lparr>Err := Some e\<rparr>, m1)
           | (None, m1) \<Rightarrow>
               expire_loop now ls m1
                 (res\<lparr>Reclaimed := wrap64 (Reclaimed res + lSize l), Dropped := Dropped res @ [lID l]\<rparr>))"

definition expireLocked :: "'j manager \<Rightarrow> time \<Rightarrow> reclaim_result \<times> 'j manager" where
  "expireLocked m now = expire_loop now (leasesLocked m) m no_result"

text \<open>\<open>if err := m.persistLocked(); err != nil && res.Err == nil { res.Err = err }\<close>\<close>

definition persist_into :: "'j journal_ops \<Rightarrow> reclaim_result \<Rightarrow> 'j manager \<Rightarrow> reclaim_result \<times> 'j manager" where
  "persist_into J res m =
     (case persistLocked J m of
        (Some e, m') \<Rightarrow> (if Err res = None then res\<lparr>Err := Some (ErrJournal e)\<rparr> else res, m')
      | (None, m') \<Rightarrow> (res, m'))"

definition Expire :: "'j journal_ops \<Rightarrow> 'j manager \<Rightarrow> time \<Rightarrow> reclaim_result \<times> 'j manager" where
  "Expire J m now =
     (case expireLocked m now of
        (res, m1) \<Rightarrow> if Dropped res \<noteq> [] then persist_into J res m1 else (res, m1))"

text \<open>The ladder of \<open>Reclaim\<close>: the loop over the leases that are left after expiry.\<close>

fun reclaim_loop :: "int \<Rightarrow> lease list \<Rightarrow> 'j manager \<Rightarrow> reclaim_result \<Rightarrow> reclaim_result \<times> 'j manager" where
  "reclaim_loop need [] m res = (res, m)"
| "reclaim_loop need (l # ls) m res =
     (if need \<le> Reclaimed res then (res, m)
      else if lClass l = Guaranteed then reclaim_loop need ls m res
      else case releaseLocked m l of
             (Some e, m1) \<Rightarrow> (res\<lparr>Err := Some e\<rparr>, m1)
           | (None, m1) \<Rightarrow>
               reclaim_loop need ls m1
                 (res\<lparr>Reclaimed := wrap64 (Reclaimed res + lSize l), Dropped := Dropped res @ [lID l],
                      rBounded := (if lClass l = Elastic then True else rBounded res)\<rparr>))"

definition reclaim_ladder :: "int \<Rightarrow> 'j manager \<Rightarrow> reclaim_result \<Rightarrow> reclaim_result \<times> 'j manager" where
  "reclaim_ladder need m res =
     (if Reclaimed res < need then reclaim_loop need (leasesLocked m) m res else (res, m))"

text \<open>The end of \<open>Reclaim\<close>: the shortfall, the history and the journal.\<close>

definition reclaim_finish ::
    "'j journal_ops \<Rightarrow> int \<Rightarrow> time \<Rightarrow> reclaim_result \<times> 'j manager \<Rightarrow> reclaim_result \<times> 'j manager" where
  "reclaim_finish J need now rm =
     (case rm of (res, m) \<Rightarrow>
        let res' = (if Reclaimed res < need then res\<lparr>Shortfall := wrap64 (need - Reclaimed res)\<rparr> else res) in
        if Dropped res' \<noteq> []
        then persist_into J res' (prune (m\<lparr>reclaims := reclaims m @ [now]\<rparr>) now)
        else (res', m))"

definition Reclaim :: "'j journal_ops \<Rightarrow> 'j manager \<Rightarrow> int \<Rightarrow> time \<Rightarrow> reclaim_result \<times> 'j manager" where
  "Reclaim J m need now =
     (if need \<le> 0 then (no_result, m)
      else case expireLocked m now of
        (expired, m1) \<Rightarrow>
          let res = no_result\<lparr>Reclaimed := wrap64 (0 + Reclaimed expired), Dropped := Dropped expired\<rparr> in
          if Err expired \<noteq> None
          then (res\<lparr>Err := Err expired, Shortfall := wrap64 (need - Reclaimed res)\<rparr>, m1)
          else reclaim_finish J need now (reclaim_ladder need m1 res))"

section \<open>Restoring from the journal\<close>

fun restore_loop :: "time \<Rightarrow> lease list \<Rightarrow> 'j manager \<Rightarrow> reclaim_result \<Rightarrow> reclaim_result \<times> 'j manager" where
  "restore_loop now [] m res = (res, m)"
| "restore_loop now (l # ls) m res =
     (if Expired l now then restore_loop now ls m (res\<lparr>Dropped := Dropped res @ [lID l]\<rparr>)
      else case Lend (acct m) (lSize l) of
             (Some e, _) \<Rightarrow> restore_loop now ls m (res\<lparr>Unfittable := Unfittable res @ [lID l]\<rparr>)
           | (None, a) \<Rightarrow>
               restore_loop now ls (m\<lparr>acct := a, leases := AList.update (lID l) l (leases m)\<rparr>) res)"

definition Restore :: "'j journal_ops \<Rightarrow> 'j manager \<Rightarrow> time \<Rightarrow> reclaim_result \<times> journal_error option \<times> 'j manager" where
  "Restore J m now =
     (case journal m of
        None \<Rightarrow> (no_result, None, m)
      | Some j \<Rightarrow>
          (let m0 = m\<lparr>leases := [], acct := (acct m)\<lparr>Borrowed := 0\<rparr>\<rparr> in
           case jLoad J j of
             Inl err \<Rightarrow>
               (case persistLocked J m0 of
                  (Some _, m1) \<Rightarrow> (no_result, Some err, m1)
                | (None, m1) \<Rightarrow> (no_result, Some err, m1\<lparr>restored := True\<rparr>))
           | Inr loaded \<Rightarrow>
               (case restore_loop now loaded m0 no_result of
                  (res, m1) \<Rightarrow>
                    if Dropped res \<noteq> [] \<or> Unfittable res \<noteq> []
                    then (case persistLocked J m1 of
                            (Some e, m2) \<Rightarrow> (res, Some e, m2)
                          | (None, m2) \<Rightarrow> (res, None, m2\<lparr>restored := True\<rparr>))
                    else (res, None, m1\<lparr>restored := True\<rparr>))))"

end
