(* ===== verification/Lease_Inv.thy ===== *)
theory Lease_Inv
  imports Lease
begin

text \<open>
  What the lease manager guarantees.

  \<open>mgr_ok\<close> is the invariant: the pools fit the device, the lent bytes are exactly the sum of the
  sizes of the leases, and every lease is filed under its own identifier. Every operation keeps it
  (\<open>mgr_reach_ok\<close>, by rule induction over the steps of a manager). The loops of \<open>expireLocked\<close>
  and \<open>Reclaim\<close> are shown equal to a closed form, \<open>forget\<close> applied to the leases the ladder
  selects (\<open>ladder\<close>), from which the promises of a reclamation follow. The journal enters through
  the locale \<open>lease_journal\<close>, whose laws the file journal discharges in \<open>File_Journal\<close>.
\<close>

section \<open>The invariant\<close>

definition held :: "'j manager \<Rightarrow> lease set" where
  "held m = snd ` set (leases m)"

definition entry_ok :: "string \<times> lease \<Rightarrow> bool" where
  "entry_ok kv \<longleftrightarrow> lID (snd kv) = fst kv \<and> 0 \<le> lSize (snd kv)"

definition mgr_ok :: "'j manager \<Rightarrow> bool" where
  "mgr_ok m \<longleftrightarrow> acct_ok (acct m) \<and> gomap_ok (leases m) \<and> list_all entry_ok (leases m)
     \<and> Borrowed (acct m) = msum lSize (leases m)"

lemma mgr_ok_entry: "mgr_ok m \<Longrightarrow> (k, l) \<in> set (leases m) \<Longrightarrow> k = lID l \<and> 0 \<le> lSize l"
  by (auto simp: mgr_ok_def entry_ok_def list_all_iff)

lemma mgr_ok_held_size: "mgr_ok m \<Longrightarrow> l \<in> held m \<Longrightarrow> 0 \<le> lSize l"
  by (auto simp: held_def dest: mgr_ok_entry)

lemma mgr_ok_lookup:
  assumes "mgr_ok m"
  shows "map_of (leases m) i = Some l \<longleftrightarrow> l \<in> held m \<and> i = lID l"
proof -
  have "map_of (leases m) i = Some l \<longleftrightarrow> (i, l) \<in> set (leases m)"
    using assms by (simp add: mgr_ok_def gomap_ok_def map_of_eq_Some_iff)
  then show ?thesis
    using assms by (auto simp: held_def dest: mgr_ok_entry intro: rev_image_eqI)
qed

lemma mgr_ok_inj: "mgr_ok m \<Longrightarrow> l \<in> held m \<Longrightarrow> l' \<in> held m \<Longrightarrow> lID l = lID l' \<Longrightarrow> l = l'"
  using mgr_ok_lookup [of m "lID l" l] mgr_ok_lookup [of m "lID l'" l'] by simp

lemma mgr_ok_sizes:
  assumes "mgr_ok m" "l \<in> held m"
  shows "lSize l \<le> Borrowed (acct m)" and "in_i64 (lSize l)"
proof -
  have "map_of (leases m) (lID l) = Some l"
    using assms by (simp add: mgr_ok_lookup)
  then have "lSize l \<le> msum lSize (leases m)"
    using assms mgr_ok_held_size [OF assms(1)]
    by (intro msum_ge_value) (auto simp: mgr_ok_def held_def)
  then show le: "lSize l \<le> Borrowed (acct m)"
    using assms by (simp add: mgr_ok_def)
  show "in_i64 (lSize l)"
    using le assms mgr_ok_held_size [OF assms] by (auto simp: mgr_ok_def acct_ok_def i64_defs)
qed

lemma mgr_ok_cong:
  "acct m' = acct m \<Longrightarrow> leases m' = leases m \<Longrightarrow> mgr_ok m' \<longleftrightarrow> mgr_ok m"
  by (simp add: mgr_ok_def)

lemma New_ok: "acct_ok a \<Longrightarrow> Borrowed a = 0 \<Longrightarrow> mgr_ok (New a cf j)"
  by (simp add: mgr_ok_def New_def)

section \<open>The reclaim order\<close>

lemma set_leasesLocked [simp]: "set (leasesLocked m) = held m"
  by (simp add: leasesLocked_def sortByReclaimOrder_def held_def)

lemma distinct_leasesLocked: "mgr_ok m \<Longrightarrow> distinct (map lID (leasesLocked m))"
proof -
  assume ok: "mgr_ok m"
  have "map lID (map snd (leases m)) = map fst (leases m)"
    using mgr_ok_entry [OF ok] by (auto simp: o_def)
  moreover have "distinct (map fst (leases m))"
    using ok by (simp add: mgr_ok_def gomap_ok_def)
  ultimately have "distinct (map lID (map snd (leases m)))"
    by (simp only:)
  moreover have "mset (map lID (leasesLocked m)) = mset (map lID (map snd (leases m)))"
    by (simp add: leasesLocked_def sortByReclaimOrder_def del: map_map)
  ultimately show ?thesis
    by (metis mset_eq_imp_distinct_iff)
qed

text \<open>
  The order of two leases is the comparison function handed to \<open>sort.Slice\<close>.
\<close>

lemma reclaim_key_less:
  "reclaim_key a < reclaim_key b \<longleftrightarrow>
     (if lClass a \<noteq> lClass b then lClass a < lClass b
      else if lGrantedAt a \<noteq> lGrantedAt b then lGrantedAt a < lGrantedAt b
      else lID a < lID b)"
  by (auto simp: reclaim_key_def less_prod_def less_le)

lemma sorted_leasesLocked: "sorted (map reclaim_key (leasesLocked m))"
  by (simp add: leasesLocked_def sortByReclaimOrder_def)

text \<open>The list does not depend on the order in which the map is visited.\<close>

lemma leasesLocked_same_map:
  assumes "mgr_ok m" "mgr_ok n" "map_of (leases m) = map_of (leases n)"
  shows "leasesLocked m = leasesLocked n"
proof -
  have "mset (leases m) = mset (leases n)"
    using assms by (intro gomap_same_mset) (auto simp: mgr_ok_def)
  then have ms: "mset (map snd (leases m)) = mset (map snd (leases n))"
    by simp
  have "held m = held n"
    using ms by (metis held_def list.set_map mset_eq_setD)
  then have "inj_on reclaim_key (set (leasesLocked m) \<union> set (leasesLocked n))"
    using mgr_ok_inj [OF assms(2)] by (auto simp: inj_on_def reclaim_key_def)
  moreover have "map reclaim_key (leasesLocked m) = map reclaim_key (leasesLocked n)"
  proof -
    have "sort (map reclaim_key (leasesLocked m)) = map reclaim_key (leasesLocked n)"
      using ms by (intro properties_for_sort sorted_leasesLocked)
        (simp add: leasesLocked_def sortByReclaimOrder_def)
    then show ?thesis
      by (simp add: sorted_leasesLocked sort_key_id_if_sorted)
  qed
  ultimately show ?thesis
    by (simp add: inj_on_map_eq_map)
qed

section \<open>Releasing in closed form\<close>

text \<open>
  \<open>forget m ls\<close> is the manager after the leases \<open>ls\<close> have been released: their bytes returned and
  their entries gone.
\<close>

abbreviation sizes :: "lease list \<Rightarrow> int" where
  "sizes ls \<equiv> sum_list (map lSize ls)"

definition forget :: "'j manager \<Rightarrow> lease list \<Rightarrow> 'j manager" where
  "forget m ls = m\<lparr>acct := (acct m)\<lparr>Borrowed := Borrowed (acct m) - sizes ls\<rparr>,
     leases := filter (\<lambda>kv. fst kv \<notin> lID ` set ls) (leases m)\<rparr>"

lemma forget_Nil [simp]: "forget m [] = m"
  by (simp add: forget_def)

lemma forget_append: "forget (forget m ls) ks = forget m (ls @ ks)"
  by (auto simp: forget_def image_Un intro: filter_cong)

lemma forget_sel [simp]:
  "cfg (forget m ls) = cfg m" "reclaims (forget m ls) = reclaims m" "journal (forget m ls) = journal m"
  "restored (forget m ls) = restored m" "Capacity (acct (forget m ls)) = Capacity (acct m)"
  "Reserved (acct (forget m ls)) = Reserved (acct m)"
  "Borrowed (acct (forget m ls)) = Borrowed (acct m) - sizes ls"
  by (simp_all add: forget_def)

lemma held_forget: "mgr_ok m \<Longrightarrow> held (forget m ls) = {l \<in> held m. lID l \<notin> lID ` set ls}"
  by (force simp: held_def forget_def dest: mgr_ok_entry)

lemma releaseLocked_forget:
  assumes "mgr_ok m" "l \<in> held m"
  shows "releaseLocked m l = (None, forget m [l])" and "mgr_ok (forget m [l])"
proof -
  have lk: "map_of (leases m) (lID l) = Some l"
    using assms by (simp add: mgr_ok_lookup)
  have del: "AList.delete (lID l) (leases m) = filter (\<lambda>kv. fst kv \<noteq> lID l) (leases m)"
    by (auto simp: AList.delete_eq intro: filter_cong)
  have ret: "Return (acct m) (lSize l) = (None, (acct m)\<lparr>Borrowed := Borrowed (acct m) - lSize l\<rparr>)"
    using assms mgr_ok_sizes(1) [OF assms] mgr_ok_held_size [OF assms]
    by (simp add: Return_cases mgr_ok_def)
  then show "releaseLocked m l = (None, forget m [l])"
    by (simp add: releaseLocked_def forget_def del)
  have "msum lSize (AList.delete (lID l) (leases m)) = msum lSize (leases m) - lSize l"
    using assms lk by (simp add: msum_delete mgr_ok_def)
  moreover have "gomap_ok (AList.delete (lID l) (leases m))"
    using assms by (simp add: mgr_ok_def)
  moreover have "acct_ok ((acct m)\<lparr>Borrowed := Borrowed (acct m) - lSize l\<rparr>)"
    using assms ret by (auto intro: Return_ok simp: mgr_ok_def)
  ultimately show "mgr_ok (forget m [l])"
    using assms by (simp add: mgr_ok_def forget_def del list_all_iff)
qed

lemma held_step:
  assumes "mgr_ok m" "set (l # ls) \<subseteq> held m" "distinct (map lID (l # ls))"
  shows "set ls \<subseteq> held (forget m [l])"
proof
  fix x assume x: "x \<in> set ls"
  then have "lID x \<in> lID ` set ls" by simp
  with assms(3) have "lID x \<noteq> lID l" by auto
  with x assms show "x \<in> held (forget m [l])"
    by (auto simp: held_forget)
qed

lemma forget_ok:
  "mgr_ok m \<Longrightarrow> set ls \<subseteq> held m \<Longrightarrow> distinct (map lID ls) \<Longrightarrow> mgr_ok (forget m ls)"
proof (induction ls arbitrary: m)
  case (Cons l ls)
  have ok: "mgr_ok (forget m [l])"
    using Cons.prems by (intro releaseLocked_forget) auto
  moreover have "set ls \<subseteq> held (forget m [l])"
    using Cons.prems by (rule held_step)
  ultimately have "mgr_ok (forget (forget m [l]) ls)"
    using Cons.prems by (intro Cons.IH) auto
  then show ?case by (simp add: forget_append)
qed simp

section \<open>The loops in closed form\<close>

lemma sizes_le_Borrowed:
  assumes "mgr_ok m" "set ls \<subseteq> held m" "distinct (map lID ls)"
  shows "0 \<le> sizes ls" and "sizes ls \<le> Borrowed (acct m)"
proof -
  show "0 \<le> sizes ls"
    using assms(2) mgr_ok_held_size [OF assms(1)] by (intro sum_list_nonneg) auto
  show "sizes ls \<le> Borrowed (acct m)"
    using forget_ok [OF assms] by (simp add: mgr_ok_def acct_ok_def)
qed

lemma expire_loop_forget:
  assumes "mgr_ok m" "set ls \<subseteq> held m" "distinct (map lID ls)"
    and "0 \<le> Reclaimed res" "Reclaimed res + Borrowed (acct m) \<le> max_i64"
  shows "expire_loop now ls m res =
    (let es = filter (\<lambda>l. Expired l now) ls in
     (res\<lparr>Reclaimed := Reclaimed res + sizes es, Dropped := Dropped res @ map lID es\<rparr>, forget m es))"
  using assms
proof (induction ls arbitrary: m res)
  case (Cons l ls)
  show ?case
  proof (cases "Expired l now")
    case False
    then show ?thesis
      using Cons.IH [of m res] Cons.prems by simp
  next
    case True
    let ?m = "forget m [l]"
    have l: "l \<in> held m" using Cons.prems by simp
    have rel: "releaseLocked m l = (None, ?m)" and ok: "mgr_ok ?m"
      using releaseLocked_forget [OF Cons.prems(1) l] .
    have sz: "0 \<le> lSize l" "lSize l \<le> Borrowed (acct m)"
      using mgr_ok_held_size [OF Cons.prems(1) l] mgr_ok_sizes(1) [OF Cons.prems(1) l] .
    have w: "wrap64 (Reclaimed res + lSize l) = Reclaimed res + lSize l"
      using sz Cons.prems by (intro wrap64_id) (auto simp: i64_defs)
    have "expire_loop now ls ?m (res\<lparr>Reclaimed := Reclaimed res + lSize l, Dropped := Dropped res @ [lID l]\<rparr>)
        = (let es = filter (\<lambda>l. Expired l now) ls in
     (res\<lparr>Reclaimed := Reclaimed res + lSize l + sizes es, Dropped := Dropped res @ [lID l] @ map lID es\<rparr>, forget ?m es))"
      using Cons.IH [OF ok held_step [OF Cons.prems(1-3)]] Cons.prems sz by (simp add: Let_def)
    then show ?thesis
      using True by (simp add: rel w Let_def forget_append add.assoc)
  qed
qed (simp add: Let_def)

lemma expireLocked_forget:
  assumes "mgr_ok m"
  shows "expireLocked m now =
    (let es = filter (\<lambda>l. Expired l now) (leasesLocked m) in
     (no_result\<lparr>Reclaimed := sizes es, Dropped := map lID es\<rparr>, forget m es))"
proof -
  have "Borrowed (acct m) \<le> max_i64"
    using assms by (simp add: mgr_ok_def acct_ok_def i64_defs)
  then show ?thesis
    unfolding expireLocked_def
    using expire_loop_forget [OF assms _ distinct_leasesLocked [OF assms], of no_result now]
    by (simp add: Let_def no_result_def)
qed

text \<open>
  The leases the ladder takes to find \<open>need\<close> bytes: guaranteed leases are passed over, and the
  rest is taken from the front until the need is met.
\<close>

fun ladder :: "int \<Rightarrow> lease list \<Rightarrow> lease list" where
  "ladder need [] = []"
| "ladder need (l # ls) =
     (if need \<le> 0 then []
      else if lClass l = Guaranteed then ladder need ls
      else l # ladder (need - lSize l) ls)"

lemma ladder_nonpos [simp]: "need \<le> 0 \<Longrightarrow> ladder need ls = []"
  by (cases ls) auto

lemma ladder_subset: "set (ladder need ls) \<subseteq> {l \<in> set ls. lClass l \<noteq> Guaranteed}"
  by (induction need ls rule: ladder.induct) auto

lemma distinct_ladder: "distinct (map lID ls) \<Longrightarrow> distinct (map lID (ladder need ls))"
proof (induction need ls rule: ladder.induct)
  case (2 need l ls)
  have "lID ` set (ladder (need - lSize l) ls) \<subseteq> lID ` set ls"
    using ladder_subset by (intro image_mono) blast
  then show ?case
    using 2 by auto
qed simp

text \<open>
  The ladder takes a prefix of the leases it may take, every one of them when even that is not
  enough, and never one more than it needs.
\<close>

lemma ladder_prefix: "\<exists>rest. filter (\<lambda>l. lClass l \<noteq> Guaranteed) ls = ladder need ls @ rest"
  by (induction need ls rule: ladder.induct) auto

lemma ladder_exhausted:
  "sizes (ladder need ls) < need \<Longrightarrow> ladder need ls = filter (\<lambda>l. lClass l \<noteq> Guaranteed) ls"
  by (induction need ls rule: ladder.induct) (auto split: if_splits)

lemma ladder_minimal: "ladder need ls \<noteq> [] \<Longrightarrow> sizes (butlast (ladder need ls)) < need"
proof (induction need ls rule: ladder.induct)
  case (2 need l ls)
  then show ?case
    by (cases "ladder (need - lSize l) ls = []") (auto split: if_splits)
qed simp

lemma reclaim_loop_forget:
  assumes "mgr_ok m" "set ls \<subseteq> held m" "distinct (map lID ls)"
    and "0 \<le> Reclaimed res" "Reclaimed res + Borrowed (acct m) \<le> max_i64"
  shows "reclaim_loop need ls m res =
    (let ts = ladder (need - Reclaimed res) ls in
     (res\<lparr>Reclaimed := Reclaimed res + sizes ts, Dropped := Dropped res @ map lID ts,
          rBounded := (rBounded res \<or> (\<exists>l\<in>set ts. lClass l = Elastic))\<rparr>, forget m ts))"
  using assms
proof (induction ls arbitrary: m res)
  case (Cons l ls)
  consider "need \<le> Reclaimed res" | "\<not> need \<le> Reclaimed res" "lClass l = Guaranteed"
    | "\<not> need \<le> Reclaimed res" "lClass l \<noteq> Guaranteed" by blast
  then show ?case
  proof cases
    case 3
    let ?m = "forget m [l]"
    let ?r = "res\<lparr>Reclaimed := Reclaimed res + lSize l, Dropped := Dropped res @ [lID l],
                  rBounded := (if lClass l = Elastic then True else rBounded res)\<rparr>"
    have l: "l \<in> held m" using Cons.prems by simp
    have rel: "releaseLocked m l = (None, ?m)" and ok: "mgr_ok ?m"
      using releaseLocked_forget [OF Cons.prems(1) l] .
    have sz: "0 \<le> lSize l" "lSize l \<le> Borrowed (acct m)"
      using mgr_ok_held_size [OF Cons.prems(1) l] mgr_ok_sizes(1) [OF Cons.prems(1) l] .
    have w: "wrap64 (Reclaimed res + lSize l) = Reclaimed res + lSize l"
      using sz Cons.prems by (intro wrap64_id) (auto simp: i64_defs)
    have "reclaim_loop need (l # ls) m res = reclaim_loop need ls ?m ?r"
      using 3 by (simp add: rel w)
    also have "\<dots> = (let ts = ladder (need - Reclaimed ?r) ls in
     (?r\<lparr>Reclaimed := Reclaimed ?r + sizes ts, Dropped := Dropped ?r @ map lID ts,
          rBounded := (rBounded ?r \<or> (\<exists>l\<in>set ts. lClass l = Elastic))\<rparr>, forget ?m ts))"
      using Cons.prems sz by (intro Cons.IH ok held_step [OF Cons.prems(1-3)]) auto
    finally show ?thesis
      using 3 by (auto simp: Let_def forget_append add.assoc diff_diff_eq)
  next
    case 1
    then show ?thesis by simp
  next
    case 2
    then show ?thesis
      using Cons.IH [OF Cons.prems(1) _ _ Cons.prems(4,5)] Cons.prems by simp
  qed
qed (simp add: Let_def)

section \<open>The operations\<close>

lemma persistLocked_frame:
  "persistLocked J m = (e, m') \<Longrightarrow>
     cfg m' = cfg m \<and> acct m' = acct m \<and> leases m' = leases m \<and> reclaims m' = reclaims m
     \<and> restored m' = restored m \<and> (journal m' = None \<longleftrightarrow> journal m = None)"
  by (auto simp: persistLocked_def split: option.splits prod.splits)

lemma persist_into_frame:
  assumes "persist_into J res m = (res', m')"
  shows "cfg m' = cfg m \<and> acct m' = acct m \<and> leases m' = leases m \<and> reclaims m' = reclaims m
     \<and> restored m' = restored m \<and> (journal m' = None \<longleftrightarrow> journal m = None)"
    and "Reclaimed res' = Reclaimed res" "Shortfall res' = Shortfall res" "rBounded res' = rBounded res"
    "Dropped res' = Dropped res" "Unfittable res' = Unfittable res"
    and "Err res' = Err res \<or> (\<exists>e. Err res = None \<and> Err res' = Some (ErrJournal e))"
  using assms persistLocked_frame [of J m]
  by (auto simp: persist_into_def split: option.splits prod.splits if_splits)

lemma prune_frame [simp]:
  "cfg (prune m now) = cfg m" "acct (prune m now) = acct m" "leases (prune m now) = leases m"
  "journal (prune m now) = journal m" "restored (prune m now) = restored m"
  "held (prune m now) = held m" "guaranteedTotal (prune m now) = guaranteedTotal m"
  "guaranteed_limit (prune m now) = guaranteed_limit m"
  by (simp_all add: prune_def Let_def held_def guaranteedTotal_def guaranteed_limit_def)

lemma prune_ok [simp]: "mgr_ok (prune m now) \<longleftrightarrow> mgr_ok m"
  by (simp add: mgr_ok_def)

lemma leasesLocked_forget:
  assumes "mgr_ok m"
  shows "leasesLocked (forget m (filter P (leasesLocked m))) = filter (\<lambda>l. \<not> P l) (leasesLocked m)"
proof -
  have *: "fst kv \<notin> lID ` set (filter P (leasesLocked m)) \<longleftrightarrow> \<not> P (snd kv)"
    if "kv \<in> set (leases m)" for kv
  proof -
    have "snd kv \<in> held m" "lID (snd kv) = fst kv"
      using that mgr_ok_entry [OF assms, of "fst kv" "snd kv"] by (auto simp: held_def)
    then show ?thesis
      by (auto simp: image_iff) (metis mgr_ok_inj [OF assms])+
  qed
  have "filter (\<lambda>kv. fst kv \<notin> lID ` set (filter P (leasesLocked m))) (leases m)
      = filter (\<lambda>kv. \<not> P (snd kv)) (leases m)"
    using * by (intro filter_cong) auto
  then have "map snd (leases (forget m (filter P (leasesLocked m)))) = filter (\<lambda>l. \<not> P l) (map snd (leases m))"
    by (simp add: forget_def filter_map o_def)
  then show ?thesis
    by (simp add: leasesLocked_def sortByReclaimOrder_def filter_sort)
qed

text \<open>
  The abstract account of a reclamation: the leases past their term, and what the ladder takes
  from the live ones for the rest of the need, both in reclaim order.
\<close>

definition reclaim_takes :: "'j manager \<Rightarrow> int \<Rightarrow> time \<Rightarrow> lease list \<times> lease list" where
  "reclaim_takes m need now =
     (let es = filter (\<lambda>l. Expired l now) (leasesLocked m)
      in (es, ladder (need - sizes es) (filter (\<lambda>l. \<not> Expired l now) (leasesLocked m))))"

lemma reclaim_takes_held:
  assumes "mgr_ok m" "reclaim_takes m need now = (es, ts)"
  shows "set (es @ ts) \<subseteq> held m" and "distinct (map lID (es @ ts))"
proof -
  have es: "es = filter (\<lambda>l. Expired l now) (leasesLocked m)"
    and ts: "ts = ladder (need - sizes es) (filter (\<lambda>l. \<not> Expired l now) (leasesLocked m))"
    using assms(2) by (auto simp: reclaim_takes_def Let_def)
  have sub: "set ts \<subseteq> {l \<in> held m. \<not> Expired l now}"
    using ladder_subset [of "need - sizes es" "filter (\<lambda>l. \<not> Expired l now) (leasesLocked m)"]
    by (auto simp: ts)
  then show "set (es @ ts) \<subseteq> held m"
    by (auto simp: es)
  have "distinct (map lID es)" "distinct (map lID ts)"
    unfolding es ts using distinct_leasesLocked [OF assms(1)]
    by (auto intro!: distinct_ladder distinct_map_filter)
  moreover have "lID x \<noteq> lID y" if "x \<in> set es" "y \<in> set ts" for x y
  proof -
    have "x \<in> held m" "Expired x now" "y \<in> held m" "\<not> Expired y now"
      using that sub by (auto simp: es)
    then show ?thesis using mgr_ok_inj [OF assms(1)] by metis
  qed
  then have "lID ` set es \<inter> lID ` set ts = {}"
    by blast
  ultimately show "distinct (map lID (es @ ts))"
    by simp
qed

lemma Reclaim_closed:
  assumes ok: "mgr_ok m" and need: "0 < need" "in_i64 need"
    and run: "Reclaim J m need now = (res, m')" and takes: "reclaim_takes m need now = (es, ts)"
  shows "Reclaimed res = sizes (es @ ts)"
    and "Dropped res = map lID (es @ ts)"
    and "Shortfall res = max 0 (need - Reclaimed res)"
    and "rBounded res \<longleftrightarrow> (\<exists>l\<in>set ts. lClass l = Elastic)"
    and "Err res = None \<or> (\<exists>e. Err res = Some (ErrJournal e))"
    and "acct m' = acct (forget m (es @ ts))" and "leases m' = leases (forget m (es @ ts))"
    and "cfg m' = cfg m" and "restored m' = restored m"
    and "reclaims m' = (if es @ ts = [] then reclaims m
                        else reclaims (prune (m\<lparr>reclaims := reclaims m @ [now]\<rparr>) now))"
    and "if es @ ts = [] then m' = m
         else \<exists>r w. persist_into J r w = (res, m') \<and> acct w = acct (forget m (es @ ts))
           \<and> leases w = leases (forget m (es @ ts)) \<and> journal w = journal m"
proof -
  have es: "es = filter (\<lambda>l. Expired l now) (leasesLocked m)"
    and ts: "ts = ladder (need - sizes es) (filter (\<lambda>l. \<not> Expired l now) (leasesLocked m))"
    using takes by (auto simp: reclaim_takes_def Let_def)
  let ?m1 = "forget m es"
  note all = reclaim_takes_held [OF ok takes]
  have esh: "set es \<subseteq> held m" "distinct (map lID es)" using all by auto
  have ok1: "mgr_ok ?m1" using forget_ok [OF ok esh] .
  have exp: "expireLocked m now = (no_result\<lparr>Reclaimed := sizes es, Dropped := map lID es\<rparr>, ?m1)"
    using expireLocked_forget [OF ok] by (simp add: es Let_def)
  have ll: "leasesLocked ?m1 = filter (\<lambda>l. \<not> Expired l now) (leasesLocked m)"
    unfolding es by (rule leasesLocked_forget [OF ok])
  have b: "Borrowed (acct m) \<le> max_i64" "0 \<le> sizes es" "sizes es \<le> Borrowed (acct m)"
    using ok sizes_le_Borrowed [OF ok esh] by (auto simp: mgr_ok_def acct_ok_def i64_defs)
  have w: "wrap64 (0 + sizes es) = sizes es"
    using b by (simp add: wrap64_id i64_defs)
  let ?r1 = "no_result\<lparr>Reclaimed := sizes es, Dropped := map lID es\<rparr>"
  let ?r2 = "?r1\<lparr>Reclaimed := sizes (es @ ts), Dropped := map lID (es @ ts),
                 rBounded := (\<exists>l\<in>set ts. lClass l = Elastic)\<rparr>"
  have loop: "reclaim_ladder need ?m1 ?r1 = (?r2, forget m (es @ ts))"
  proof (cases "sizes es < need")
    case True
    have "reclaim_loop need (leasesLocked ?m1) ?m1 ?r1 =
      (let ts = ladder (need - Reclaimed ?r1) (leasesLocked ?m1) in
       (?r1\<lparr>Reclaimed := Reclaimed ?r1 + sizes ts, Dropped := Dropped ?r1 @ map lID ts,
            rBounded := (rBounded ?r1 \<or> (\<exists>l\<in>set ts. lClass l = Elastic))\<rparr>, forget ?m1 ts))"
      using b by (intro reclaim_loop_forget ok1 distinct_leasesLocked [OF ok1]) auto
    then show ?thesis
      using True by (simp add: reclaim_ladder_def ll Let_def forget_append no_result_def flip: ts)
  next
    case False
    then have "ts = []" by (simp add: ts)
    then show ?thesis using False by (simp add: reclaim_ladder_def no_result_def)
  qed
  have tot: "0 \<le> sizes (es @ ts)"
    using sizes_le_Borrowed(1) [OF ok all] .
  have sf: "wrap64 (need - sizes (es @ ts)) = need - sizes (es @ ts)" if "sizes (es @ ts) < need"
    using that tot need by (intro wrap64_id) (auto simp: i64_defs)
  let ?r3 = "?r2\<lparr>Shortfall := max 0 (need - sizes (es @ ts))\<rparr>"
  let ?m2 = "prune ((forget m (es @ ts))\<lparr>reclaims := reclaims m @ [now]\<rparr>) now"
  have "Reclaim J m need now = reclaim_finish J need now (?r2, forget m (es @ ts))"
    using need w loop by (simp add: Reclaim_def exp) (simp add: no_result_def)
  also have "\<dots> = (if es @ ts \<noteq> [] then persist_into J ?r3 ?m2 else (?r3, forget m (es @ ts)))"
  proof -
    have "(if Reclaimed ?r2 < need then ?r2\<lparr>Shortfall := wrap64 (need - Reclaimed ?r2)\<rparr> else ?r2) = ?r3"
      using sf by (cases "sizes (es @ ts) < need") (simp_all add: max_def no_result_def)
    moreover have "Dropped ?r3 \<noteq> [] \<longleftrightarrow> es @ ts \<noteq> []" by simp
    ultimately show ?thesis
      by (simp only: reclaim_finish_def prod.case Let_def forget_sel)
  qed
  finally have run': "(res, m') = (if es @ ts \<noteq> [] then persist_into J ?r3 ?m2 else (?r3, forget m (es @ ts)))"
    using run by simp
  have pr: "reclaims (prune ((forget m (es @ ts))\<lparr>reclaims := reclaims m @ [now]\<rparr>) now)
      = reclaims (prune (m\<lparr>reclaims := reclaims m @ [now]\<rparr>) now)"
    by (simp add: prune_def Let_def retention_def)
  show "Reclaimed res = sizes (es @ ts)" "Dropped res = map lID (es @ ts)"
    "Shortfall res = max 0 (need - Reclaimed res)"
    "rBounded res \<longleftrightarrow> (\<exists>l\<in>set ts. lClass l = Elastic)"
    "Err res = None \<or> (\<exists>e. Err res = Some (ErrJournal e))"
    "acct m' = acct (forget m (es @ ts))" "leases m' = leases (forget m (es @ ts))"
    "cfg m' = cfg m" "restored m' = restored m"
    "reclaims m' = (if es @ ts = [] then reclaims m
                    else reclaims (prune (m\<lparr>reclaims := reclaims m @ [now]\<rparr>) now))"
    using run' persist_into_frame [of J ?r3 "prune ((forget m (es @ ts))\<lparr>reclaims := reclaims m @ [now]\<rparr>) now" res m'] pr
    by (auto simp: no_result_def split: if_splits)
  show "if es @ ts = [] then m' = m
     else \<exists>r w. persist_into J r w = (res, m') \<and> acct w = acct (forget m (es @ ts))
       \<and> leases w = leases (forget m (es @ ts)) \<and> journal w = journal m"
  proof (cases "es @ ts = []")
    case False
    then show ?thesis using run' by (intro if_not_P [THEN iffD2] exI [of _ ?r3] exI [of _ ?m2]) auto
  qed (use run' in auto)
qed

section \<open>Granting\<close>

definition grant :: "'j manager \<Rightarrow> lease \<Rightarrow> time \<Rightarrow> 'j manager" where
  "grant m l now = m\<lparr>acct := (acct m)\<lparr>Borrowed := Borrowed (acct m) + lSize l\<rparr>,
     leases := AList.update (lID l) (l\<lparr>lGrantedAt := now\<rparr>) (leases m)\<rparr>"

lemma grant_ok:
  assumes "mgr_ok m" "map_of (leases m) (lID l) = None" "0 \<le> lSize l"
    and "Reserved (acct m) + Borrowed (acct m) + lSize l \<le> Capacity (acct m)"
  shows "mgr_ok (grant m l now)"
proof -
  have "acct_ok ((acct m)\<lparr>Borrowed := Borrowed (acct m) + lSize l\<rparr>)"
    using assms by (auto simp: mgr_ok_def acct_ok_def i64_defs)
  moreover have "msum lSize (AList.update (lID l) (l\<lparr>lGrantedAt := now\<rparr>) (leases m)) = msum lSize (leases m) + lSize l"
    using assms(2) by (simp add: msum_update_fresh)
  moreover have "list_all entry_ok (AList.update (lID l) (l\<lparr>lGrantedAt := now\<rparr>) (leases m))"
    using assms by (simp add: update_fresh entry_ok_def mgr_ok_def)
  ultimately show ?thesis
    using assms(1) by (simp add: mgr_ok_def grant_def)
qed

lemma accept_checks_fresh: "accept_checks m l now = None \<Longrightarrow> map_of (leases m) (lID l) = None"
  by (auto simp: accept_checks_def split: if_splits)

text \<open>What \<open>Accept\<close> does on every branch, with the arithmetic on unbounded integers.\<close>

lemma Accept_closed:
  assumes ok: "mgr_ok m0" and sz: "in_i64 (lSize l)"
  shows "Accept J m0 l now =
    (let m = prune m0 now in
     case accept_checks m l now of
       Some e \<Rightarrow> (Some e, m)
     | None \<Rightarrow>
         if lSize l < 0 then (Some (ErrPool ErrNegative), m)
         else if Capacity (acct m) < Reserved (acct m) + Borrowed (acct m) + lSize l
         then (Some (ErrPool ErrInsufficient), m)
         else (case persistLocked J (grant m l now) of
                 (None, m2) \<Rightarrow> (None, m2)
               | (Some e, m2) \<Rightarrow> (Some (ErrJournal e), m\<lparr>journal := journal m2\<rparr>)))"
proof -
  define m where "m = prune m0 now"
  have okm: "mgr_ok m" using ok by (simp add: m_def)
  note lend = Lend_cases [OF _ sz, of "acct m"]
  have roll: "snd (releaseLocked m2 (l\<lparr>lGrantedAt := now\<rparr>)) = m\<lparr>journal := journal m2\<rparr>"
    if p: "persistLocked J (grant m l now) = (Some e, m2)" and c: "accept_checks m l now = None"
      and s: "0 \<le> lSize l" "Reserved (acct m) + Borrowed (acct m) + lSize l \<le> Capacity (acct m)"
    for e m2
  proof -
    let ?l = "l\<lparr>lGrantedAt := now\<rparr>"
    have fresh: "map_of (leases m) (lID l) = None" using c by (rule accept_checks_fresh)
    have g: "mgr_ok (grant m l now)" using grant_ok [OF okm fresh s] .
    note fr = persistLocked_frame [OF p]
    have "acct_ok (acct m2)" "Borrowed (acct m2) = Borrowed (acct m) + lSize l"
      using fr g okm by (simp_all add: mgr_ok_def) (simp add: grant_def mgr_ok_def)
    then have "Return (acct m2) (lSize ?l) = (None, (acct m2)\<lparr>Borrowed := Borrowed (acct m)\<rparr>)"
      using s okm by (simp add: Return_cases mgr_ok_def acct_ok_def)
    moreover have "AList.delete (lID ?l) (leases m2) = leases m"
      using fr fresh by (simp add: grant_def delete_update_fresh)
    ultimately show ?thesis
      using fr by (simp add: releaseLocked_def grant_def)
  qed
  have "Accept J m0 l now = (case accept_checks m l now of
       Some e \<Rightarrow> (Some e, m)
     | None \<Rightarrow>
         if lSize l < 0 then (Some (ErrPool ErrNegative), m)
         else if Capacity (acct m) < Reserved (acct m) + Borrowed (acct m) + lSize l
         then (Some (ErrPool ErrInsufficient), m)
         else (case persistLocked J (grant m l now) of
                 (None, m2) \<Rightarrow> (None, m2)
               | (Some e, m2) \<Rightarrow> (Some (ErrJournal e), snd (releaseLocked m2 (l\<lparr>lGrantedAt := now\<rparr>)))))"
    using lend okm by (simp add: Accept_def Let_def mgr_ok_def grant_def flip: m_def split: option.split)
  also have "\<dots> = (case accept_checks m l now of
       Some e \<Rightarrow> (Some e, m)
     | None \<Rightarrow>
         if lSize l < 0 then (Some (ErrPool ErrNegative), m)
         else if Capacity (acct m) < Reserved (acct m) + Borrowed (acct m) + lSize l
         then (Some (ErrPool ErrInsufficient), m)
         else (case persistLocked J (grant m l now) of
                 (None, m2) \<Rightarrow> (None, m2)
               | (Some e, m2) \<Rightarrow> (Some (ErrJournal e), m\<lparr>journal := journal m2\<rparr>)))"
    using roll by (auto split: option.split prod.split)
  finally show ?thesis unfolding Let_def m_def .
qed

text \<open>The two outcomes of \<open>Accept\<close>: the lease is recorded, or the books are as they were.\<close>

lemma Accept_granted:
  assumes "mgr_ok m0" "in_i64 (lSize l)" "Accept J m0 l now = (None, m')"
  shows "accept_checks (prune m0 now) l now = None" and "0 \<le> lSize l"
    and "Reserved (acct m0) + Borrowed (acct m0) + lSize l \<le> Capacity (acct m0)"
    and "acct m' = acct (grant m0 l now)" and "leases m' = leases (grant m0 l now)" and "cfg m' = cfg m0"
    and "reclaims m' = reclaims (prune m0 now)" and "restored m' = restored m0"
proof -
  let ?m = "prune m0 now"
  have *: "accept_checks ?m l now = None \<and> 0 \<le> lSize l
      \<and> Reserved (acct m0) + Borrowed (acct m0) + lSize l \<le> Capacity (acct m0)
      \<and> persistLocked J (grant ?m l now) = (None, m')"
    using assms(3) unfolding Accept_closed [OF assms(1,2)] Let_def
    by (auto split: option.splits prod.splits if_splits)
  then have "acct m' = acct (grant ?m l now)" "leases m' = leases (grant ?m l now)"
    "cfg m' = cfg m0" "reclaims m' = reclaims ?m" "restored m' = restored m0"
    using persistLocked_frame [of J "grant ?m l now" None m'] by (auto simp: grant_def)
  then show "accept_checks ?m l now = None" "0 \<le> lSize l"
    "Reserved (acct m0) + Borrowed (acct m0) + lSize l \<le> Capacity (acct m0)"
    "acct m' = acct (grant m0 l now)" "leases m' = leases (grant m0 l now)" "cfg m' = cfg m0"
    "reclaims m' = reclaims ?m" "restored m' = restored m0"
    using * by (auto simp: grant_def)
qed

lemma Accept_refused:
  assumes "mgr_ok m0" "in_i64 (lSize l)" "Accept J m0 l now = (Some e, m')"
  shows "acct m' = acct m0" and "leases m' = leases m0" and "cfg m' = cfg m0" and "restored m' = restored m0"
    and "reclaims m' = reclaims (prune m0 now)"
  using assms(3) unfolding Accept_closed [OF assms(1,2)] Let_def
  by (auto split: option.splits prod.splits if_splits)

lemma Accept_ok:
  assumes "mgr_ok m0" "in_i64 (lSize l)" "Accept J m0 l now = (e, m')"
  shows "mgr_ok m'" and "cfg m' = cfg m0" and "restored m' = restored m0"
proof -
  have "mgr_ok m' \<and> cfg m' = cfg m0 \<and> restored m' = restored m0"
  proof (cases e)
    case None
    note g = Accept_granted [OF assms(1,2), of J now m']
    have "mgr_ok (grant m0 l now)"
      using assms g None accept_checks_fresh [of "prune m0 now" l now] by (intro grant_ok) auto
    then show ?thesis
      using g assms None mgr_ok_cong [of m' "grant m0 l now"] by auto
  next
    case (Some x)
    then show ?thesis
      using Accept_refused [OF assms(1,2), of J now x m'] assms mgr_ok_cong [of m' m0] by auto
  qed
  then show "mgr_ok m'" "cfg m' = cfg m0" "restored m' = restored m0" by auto
qed

section \<open>Release, Expire, Reclaim\<close>

lemma Release_closed:
  assumes ok: "mgr_ok m"
  shows "Release J m i now =
    (case map_of (leases m) i of
       None \<Rightarrow> (0, Some ErrNoSuchLease, m)
     | Some l \<Rightarrow>
         (case persistLocked J (forget m [l]) of
            (Some e, m2) \<Rightarrow> (lSize l, Some (ErrJournal e), m2)
          | (None, m2) \<Rightarrow> (lSize l, None, m2)))"
proof (cases "map_of (leases m) i")
  case (Some l)
  then have "releaseLocked m l = (None, forget m [l])"
    using releaseLocked_forget(1) [OF ok] mgr_ok_lookup [OF ok] by blast
  with Some show ?thesis by (simp add: Release_def)
qed (simp add: Release_def)

lemma Release_ok:
  assumes ok: "mgr_ok m" and run: "Release J m i now = (n, e, m')"
  shows "mgr_ok m'" and "cfg m' = cfg m" and "restored m' = restored m" and "reclaims m' = reclaims m"
    and "held m' = {l \<in> held m. lID l \<noteq> i}"
proof -
  have "mgr_ok m' \<and> cfg m' = cfg m \<and> restored m' = restored m \<and> reclaims m' = reclaims m
      \<and> held m' = {l \<in> held m. lID l \<noteq> i}"
  proof (cases "map_of (leases m) i")
    case None
    then have "m' = m" using run by (simp add: Release_closed [OF ok])
    moreover have "lID l \<noteq> i" if "l \<in> held m" for l
      using None that mgr_ok_lookup [OF ok, of i l] by auto
    ultimately show ?thesis using ok by auto
  next
    case (Some l)
    then have l: "l \<in> held m" "i = lID l" using mgr_ok_lookup [OF ok] by auto
    obtain e' where p: "persistLocked J (forget m [l]) = (e', m')"
      using run Some by (auto simp: Release_closed [OF ok] split: prod.splits option.splits)
    note fr = persistLocked_frame [OF p]
    have "mgr_ok m'"
      using mgr_ok_cong [of m' "forget m [l]"] fr releaseLocked_forget(2) [OF ok l(1)] by simp
    moreover have "held m' = held (forget m [l])" using fr by (simp add: held_def)
    ultimately show ?thesis using fr l by (simp add: held_forget [OF ok])
  qed
  then show "mgr_ok m'" "cfg m' = cfg m" "restored m' = restored m" "reclaims m' = reclaims m"
    "held m' = {l \<in> held m. lID l \<noteq> i}" by auto
qed

lemma Expire_closed:
  assumes ok: "mgr_ok m" and run: "Expire J m now = (res, m')"
  defines "es \<equiv> filter (\<lambda>l. Expired l now) (leasesLocked m)"
  shows "Reclaimed res = sizes es" and "Dropped res = map lID es" and "mgr_ok m'"
    and "acct m' = acct (forget m es)" and "leases m' = leases (forget m es)"
    and "cfg m' = cfg m" and "restored m' = restored m" and "reclaims m' = reclaims m"
    and "Err res = None \<or> (\<exists>e. Err res = Some (ErrJournal e))"
proof -
  let ?r = "no_result\<lparr>Reclaimed := sizes es, Dropped := map lID es\<rparr>"
  have "(res, m') = (if map lID es \<noteq> [] then persist_into J ?r (forget m es) else (?r, forget m es))"
    using run by (auto simp: Expire_def expireLocked_forget [OF ok, of now] es_def Let_def no_result_def
        split: if_splits)
  then have *: "Reclaimed res = sizes es \<and> Dropped res = map lID es \<and> acct m' = acct (forget m es)
      \<and> leases m' = leases (forget m es) \<and> cfg m' = cfg m \<and> restored m' = restored m \<and> reclaims m' = reclaims m
      \<and> (Err res = None \<or> (\<exists>e. Err res = Some (ErrJournal e)))"
    using persist_into_frame [of J ?r "forget m es" res m'] by (auto simp: no_result_def split: if_splits)
  moreover have "mgr_ok (forget m es)"
    using distinct_leasesLocked [OF ok] by (intro forget_ok ok) (auto simp: es_def intro: distinct_map_filter)
  ultimately show "Reclaimed res = sizes es" "Dropped res = map lID es" "mgr_ok m'"
    "acct m' = acct (forget m es)" "leases m' = leases (forget m es)" "cfg m' = cfg m"
    "restored m' = restored m" "reclaims m' = reclaims m" "Err res = None \<or> (\<exists>e. Err res = Some (ErrJournal e))"
    using mgr_ok_cong [of m' "forget m es"] by auto
qed

lemma Reclaim_nonpos: "need \<le> 0 \<Longrightarrow> Reclaim J m need now = (no_result, m)"
  by (simp add: Reclaim_def)

lemma Reclaim_ok:
  assumes ok: "mgr_ok m" and need: "in_i64 need" and run: "Reclaim J m need now = (res, m')"
  shows "mgr_ok m'" and "cfg m' = cfg m" and "restored m' = restored m"
proof -
  have "mgr_ok m' \<and> cfg m' = cfg m \<and> restored m' = restored m"
  proof (cases "0 < need")
    case False
    then show ?thesis using run ok by (simp add: Reclaim_nonpos)
  next
    case True
    obtain es ts where t: "reclaim_takes m need now = (es, ts)" by force
    note c = Reclaim_closed [OF ok True need run t]
    have "mgr_ok (forget m (es @ ts))"
      using reclaim_takes_held [OF ok t] by (intro forget_ok ok)
    then show ?thesis using c mgr_ok_cong [of m' "forget m (es @ ts)"] by auto
  qed
  then show "mgr_ok m'" "cfg m' = cfg m" "restored m' = restored m" by auto
qed

section \<open>What a reclamation promises\<close>

lemma reclaim_takes_split:
  assumes "reclaim_takes m need now = (es, ts)"
  shows "es = filter (\<lambda>l. Expired l now) (leasesLocked m)"
    and "ts = ladder (need - sizes es) (filter (\<lambda>l. \<not> Expired l now) (leasesLocked m))"
  using assms by (auto simp: reclaim_takes_def Let_def)

text \<open>Everything the ladder passes over costs more to drop than everything it takes.\<close>

lemma ladder_cheapest:
  assumes "sorted (map reclaim_key ls)" "distinct (map lID ls)" "l \<in> set (ladder need ls)"
    and "k \<in> set ls" "k \<notin> set (ladder need ls)" "lClass k \<noteq> Guaranteed"
  shows "reclaim_key l < reclaim_key k"
proof -
  obtain rest where r: "filter (\<lambda>l. lClass l \<noteq> Guaranteed) ls = ladder need ls @ rest"
    using ladder_prefix by blast
  then have "k \<in> set rest" using assms(4-6) by (metis (mono_tags, lifting) Un_iff mem_Collect_eq set_append set_filter)
  moreover have "sorted (map reclaim_key (ladder need ls @ rest))"
    using assms(1) unfolding r [symmetric] by (rule sorted_filter)
  ultimately have "reclaim_key l \<le> reclaim_key k"
    using assms(3) by (auto simp: sorted_append)
  moreover have "reclaim_key l \<noteq> reclaim_key k"
    using assms ladder_subset [of need ls] by (auto simp: reclaim_key_def distinct_map inj_on_def)
  ultimately show ?thesis by simp
qed

lemma Reclaim_promise:
  assumes ok: "mgr_ok m" and need: "0 < need" "in_i64 need" and run: "Reclaim J m need now = (res, m')"
  shows "Borrowed (acct m') = Borrowed (acct m) - Reclaimed res"
    and "Shortfall res = max 0 (need - Reclaimed res)"
    and "0 < Shortfall res \<Longrightarrow> \<forall>l\<in>held m'. lClass l = Guaranteed \<and> \<not> Expired l now"
    and "\<forall>l\<in>held m. lClass l = Guaranteed \<and> \<not> Expired l now \<longrightarrow> l \<in> held m'"
    and "\<forall>l\<in>held m - held m'. \<forall>k\<in>held m'. \<not> Expired l now \<and> lClass k \<noteq> Guaranteed \<longrightarrow> reclaim_key l < reclaim_key k"
    and "held m' \<subseteq> held m" and "\<forall>l\<in>held m'. \<not> Expired l now"
    and "(\<forall>l\<in>held m - held m'. Expired l now) \<or> (\<exists>d\<in>held m - held m'. Reclaimed res < need + lSize d)"
proof -
  obtain es ts where t: "reclaim_takes m need now = (es, ts)" by force
  note c = Reclaim_closed [OF ok need run t] and sp = reclaim_takes_split [OF t] and th = reclaim_takes_held [OF ok t]
  let ?live = "filter (\<lambda>l. \<not> Expired l now) (leasesLocked m)"
  have srt: "sorted (map reclaim_key ?live)" "distinct (map lID ?live)"
    using sorted_leasesLocked [of m] distinct_leasesLocked [OF ok] by (auto intro: sorted_filter distinct_map_filter)
  have "held m' = held (forget m (es @ ts))" using c(7) by (simp add: held_def)
  moreover have "lID l \<in> lID ` set (es @ ts) \<longleftrightarrow> l \<in> set (es @ ts)" if "l \<in> held m" for l
    using mgr_ok_inj [OF ok that] th(1) by (auto simp del: set_append)
  ultimately have h: "held m' = {l \<in> held m. l \<notin> set (es @ ts)}"
    by (auto simp: held_forget [OF ok] simp del: set_append)
  have ess: "set es = {l \<in> held m. Expired l now}" using sp(1) by auto
  have tss: "set ts \<subseteq> {l \<in> held m. \<not> Expired l now \<and> lClass l \<noteq> Guaranteed}"
    using ladder_subset [of "need - sizes es" ?live] sp(2) by auto
  show "Borrowed (acct m') = Borrowed (acct m) - Reclaimed res" using c(1,6) by simp
  show sf: "Shortfall res = max 0 (need - Reclaimed res)" by (rule c(3))
  show "\<forall>l\<in>held m'. lClass l = Guaranteed \<and> \<not> Expired l now" if "0 < Shortfall res"
  proof -
    have "sizes ts < need - sizes es" using that sf c(1) by simp
    then have "ts = filter (\<lambda>l. lClass l \<noteq> Guaranteed) ?live"
      using ladder_exhausted [of "need - sizes es" ?live] sp(2) by simp
    then show ?thesis using h ess by auto
  qed
  show "\<forall>l\<in>held m. lClass l = Guaranteed \<and> \<not> Expired l now \<longrightarrow> l \<in> held m'" using h ess tss by auto
  show "held m' \<subseteq> held m" "\<forall>l\<in>held m'. \<not> Expired l now" using h ess by auto
  show "\<forall>l\<in>held m - held m'. \<forall>k\<in>held m'. \<not> Expired l now \<and> lClass k \<noteq> Guaranteed \<longrightarrow> reclaim_key l < reclaim_key k"
  proof (intro ballI impI)
    fix l k assume l: "l \<in> held m - held m'" and k: "k \<in> held m'" and *: "\<not> Expired l now \<and> lClass k \<noteq> Guaranteed"
    have "l \<in> set ts" "k \<in> set ?live" "k \<notin> set ts" using l k * h ess by auto
    then show "reclaim_key l < reclaim_key k" using ladder_cheapest [OF srt] sp(2) * by blast
  qed
  show "(\<forall>l\<in>held m - held m'. Expired l now) \<or> (\<exists>d\<in>held m - held m'. Reclaimed res < need + lSize d)"
  proof (cases "ts = []")
    case True
    then show ?thesis using h ess by auto
  next
    case False
    then have "sizes (butlast ts) < need - sizes es"
      using ladder_minimal [of "need - sizes es" ?live] sp(2) by simp
    moreover have "sizes ts = sizes (butlast ts) + lSize (last ts)"
      using False by (induction ts) auto
    ultimately have "Reclaimed res < need + lSize (last ts)" using c(1) by simp
    moreover have "last ts \<in> held m - held m'" using last_in_set [OF False] h tss by auto
    ultimately show ?thesis by blast
  qed
qed

end
