(* ===== verification/Lease_Run.thy ===== *)
theory Lease_Run
  imports Lease_Inv
begin

text \<open>
  The lease manager over time.

  \<open>mgr_step\<close> is one call of a manager's method, a crash followed by a restart over the same
  journal included; \<open>mgr_live\<close> is a step of one life of the manager. Rule induction over them
  gives the invariants: the books always balance (\<open>mgr_reach_ok\<close>), the guaranteed share and the
  tenant quotas are never exceeded, and the journal always holds every lease that is held. The
  journal is an interface: the locale \<open>lease_journal\<close> states what a manager relies on, and the
  crash consistency of a manager is proved in it once. \<open>File_Journal\<close> interprets it.
\<close>

section \<open>Restoring\<close>

text \<open>\<open>regained\<close>: \<open>m'\<close> is \<open>m\<close> with some leases of \<open>L\<close> that have not expired.\<close>

definition regained :: "time \<Rightarrow> lease set \<Rightarrow> 'j manager \<Rightarrow> 'j manager \<Rightarrow> bool" where
  "regained now L m m' \<longleftrightarrow> mgr_ok m' \<and> held m \<subseteq> held m' \<and> held m' \<subseteq> held m \<union> {l \<in> L. \<not> Expired l now}
    \<and> cfg m' = cfg m \<and> journal m' = journal m \<and> restored m' = restored m \<and> reclaims m' = reclaims m
    \<and> Capacity (acct m') = Capacity (acct m) \<and> Reserved (acct m') = Reserved (acct m)"

lemma restore_add:
  assumes "mgr_ok m" "map_of (leases m) (lID l) = None" "0 \<le> lSize l"
    "Reserved (acct m) + Borrowed (acct m) + lSize l \<le> Capacity (acct m)"
  defines "m1 \<equiv> m\<lparr>acct := (acct m)\<lparr>Borrowed := Borrowed (acct m) + lSize l\<rparr>,
                   leases := AList.update (lID l) l (leases m)\<rparr>"
  shows "mgr_ok m1" and "held m1 = insert l (held m)"
proof -
  have "m1 = grant m l (lGrantedAt l)" by (simp add: m1_def grant_def)
  then show "mgr_ok m1" using grant_ok [OF assms(1-4), of "lGrantedAt l"] by simp
  show "held m1 = insert l (held m)" using assms(2) by (auto simp: held_def update_fresh m1_def)
qed

lemma restore_loop_ok:
  assumes "mgr_ok m" "distinct (map lID ls)" "\<And>l. l \<in> set ls \<Longrightarrow> in_i64 (lSize l)"
    and "\<And>l. l \<in> set ls \<Longrightarrow> map_of (leases m) (lID l) = None"
  shows "regained now (set ls) m (snd (restore_loop now ls m res))"
  using assms
proof (induction ls arbitrary: m res)
  case Nil
  then show ?case by (simp add: regained_def)
next
  case (Cons l ls)
  have l: "in_i64 (lSize l)" "acct_ok (acct m)" "map_of (leases m) (lID l) = None"
    using Cons.prems by (auto simp: mgr_ok_def)
  have ne: "\<And>k. k \<in> set ls \<Longrightarrow> lID k \<noteq> lID l" using Cons.prems(2) by (auto simp: image_iff)
  let ?m = "m\<lparr>acct := (acct m)\<lparr>Borrowed := Borrowed (acct m) + lSize l\<rparr>,
               leases := AList.update (lID l) l (leases m)\<rparr>"
  have skip: "regained now (set (l # ls)) m (snd (restore_loop now ls m r))" for r
    using Cons.IH [of m r] Cons.prems by (auto simp: regained_def)
  show ?case
  proof (cases "\<not> Expired l now \<and> 0 \<le> lSize l \<and> Reserved (acct m) + Borrowed (acct m) + lSize l \<le> Capacity (acct m)")
    case True
    note add = restore_add [OF Cons.prems(1) l(3), of]
    have "regained now (set ls) ?m (snd (restore_loop now ls ?m res))"
      using Cons.prems True add ne by (intro Cons.IH) (auto simp: map_of_update_if)
    then show ?thesis
      using True l add(2) by (auto simp: regained_def Lend_cases)
  next
    case False
    then show ?thesis using skip l by (auto simp: Lend_cases)
  qed
qed

text \<open>When everything that is loaded fits, exactly what has expired is left out.\<close>

lemma restore_loop_fits:
  assumes "mgr_ok m" "distinct (map lID ls)" "\<And>l. l \<in> set ls \<Longrightarrow> 0 \<le> lSize l"
    and "\<And>l. l \<in> set ls \<Longrightarrow> map_of (leases m) (lID l) = None"
    and "Reserved (acct m) + Borrowed (acct m) + sizes ls \<le> Capacity (acct m)"
  shows "\<exists>m'. restore_loop now ls m res
      = (res\<lparr>Dropped := Dropped res @ map lID (filter (\<lambda>l. Expired l now) ls)\<rparr>, m')
    \<and> held m' = held m \<union> {l \<in> set ls. \<not> Expired l now}"
  using assms
proof (induction ls arbitrary: m res)
  case (Cons l ls)
  have nn: "0 \<le> sizes ls" "0 \<le> lSize l" using Cons.prems(3) by (auto intro!: sum_list_nonneg)
  have fresh: "map_of (leases m) (lID l) = None" using Cons.prems by simp
  have ne: "\<And>k. k \<in> set ls \<Longrightarrow> lID k \<noteq> lID l" using Cons.prems(2) by (auto simp: image_iff)
  show ?case
  proof (cases "Expired l now")
    case True
    then have eq: "{k \<in> set (l # ls). \<not> Expired k now} = {k \<in> set ls. \<not> Expired k now}" by auto
    have "Reserved (acct m) + Borrowed (acct m) + sizes ls \<le> Capacity (acct m)"
      using Cons.prems(5) nn by simp
    then show ?thesis
      using Cons.IH [of m "res\<lparr>Dropped := Dropped res @ [lID l]\<rparr>"] Cons.prems True unfolding eq by simp
  next
    case False
    let ?a = "(acct m)\<lparr>Borrowed := Borrowed (acct m) + lSize l\<rparr>"
    let ?m = "m\<lparr>acct := ?a, leases := AList.update (lID l) l (leases m)\<rparr>"
    have s: "Reserved (acct m) + Borrowed (acct m) + lSize l \<le> Capacity (acct m)"
      using Cons.prems(5) nn by simp
    then have lend: "Lend (acct m) (lSize l) = (None, ?a)"
      using Cons.prems(1) nn by (subst Lend_cases) (auto simp: mgr_ok_def acct_ok_def i64_defs)
    note add = restore_add [OF Cons.prems(1) fresh nn(2) s]
    have "\<exists>m'. restore_loop now ls ?m res
      = (res\<lparr>Dropped := Dropped res @ map lID (filter (\<lambda>l. Expired l now) ls)\<rparr>, m')
      \<and> held m' = held ?m \<union> {l \<in> set ls. \<not> Expired l now}"
      using Cons.prems add ne by (intro Cons.IH) (auto simp: map_of_update_if)
    then show ?thesis using False lend by (auto simp: add(2))
  qed
qed simp

definition classes_ok :: "'j manager \<Rightarrow> bool" where
  "classes_ok m \<longleftrightarrow> (\<forall>l\<in>held m. class_Valid (lClass l))"

text \<open>What a journal may be asked to hold, and what a manager's state amounts to.\<close>

definition storable :: "lease list \<Rightarrow> bool" where
  "storable ls \<longleftrightarrow> distinct (map lID ls) \<and> (\<forall>l\<in>set ls. class_Valid (lClass l) \<and> in_i64 (lSize l))"

lemma storable_leasesLocked: "mgr_ok m \<Longrightarrow> classes_ok m \<Longrightarrow> storable (leasesLocked m)"
  by (auto simp: storable_def distinct_leasesLocked classes_ok_def mgr_ok_sizes)

lemma sizes_leasesLocked: "mgr_ok m \<Longrightarrow> sizes (leasesLocked m) = Borrowed (acct m)"
proof -
  assume ok: "mgr_ok m"
  have "mset (map lSize (leasesLocked m)) = mset (map lSize (map snd (leases m)))"
    by (simp add: leasesLocked_def sortByReclaimOrder_def del: map_map)
  then have "sizes (leasesLocked m) = msum lSize (leases m)"
    unfolding msum_def by (metis sum_mset_sum_list)
  then show ?thesis using ok by (simp add: mgr_ok_def)
qed

section \<open>Budgets\<close>

text \<open>
  The bounds a manager enforces when it grants, each as a weight on leases and the most the leases
  held may weigh: the device, the guaranteed share, and each tenant's two quotas.
\<close>

definition gsize :: "lease \<Rightarrow> int" where
  "gsize l = (if lClass l = Guaranteed then lSize l else 0)"

definition tsize :: "string \<Rightarrow> lease \<Rightarrow> int" where
  "tsize t l = (if lTenant l = t then lSize l else 0)"

definition tgsize :: "string \<Rightarrow> lease \<Rightarrow> int" where
  "tgsize t l = (if lTenant l = t \<and> lClass l = Guaranteed then lSize l else 0)"

definition quota_bound :: "'j manager \<Rightarrow> string \<Rightarrow> bool" where
  "quota_bound m t \<longleftrightarrow> Bounded (Quota (cfg m)) \<and> t \<noteq> NodeTenant \<and> t \<noteq> ''''"

definition budgets :: "'j manager \<Rightarrow> ((lease \<Rightarrow> int) \<times> int) set" where
  "budgets m = {(lSize, Capacity (acct m) - Reserved (acct m)), (gsize, max 0 (guaranteed_limit m))}
     \<union> {(tsize t, qBorrowed (Quota (cfg m))) | t. quota_bound m t \<and> 0 < qBorrowed (Quota (cfg m))}
     \<union> {(tgsize t, qGuaranteed (Quota (cfg m))) | t. quota_bound m t \<and> 0 < qGuaranteed (Quota (cfg m))}"

definition affords :: "((lease \<Rightarrow> int) \<times> int) set \<Rightarrow> lease set \<Rightarrow> bool" where
  "affords B L \<longleftrightarrow> finite L \<and> (\<forall>l\<in>L. 0 \<le> lSize l) \<and> (\<forall>(w, b)\<in>B. sum w L \<le> b)"

lemmas weight_defs = gsize_def tsize_def tgsize_def

lemma budgets_cong:
  "cfg m' = cfg m \<Longrightarrow> Capacity (acct m') = Capacity (acct m) \<Longrightarrow> Reserved (acct m') = Reserved (acct m)
   \<Longrightarrow> budgets m' = budgets m"
  by (simp add: budgets_def quota_bound_def guaranteed_limit_def)

lemma budget_weight_nonneg: "(w, b) \<in> budgets m \<Longrightarrow> 0 \<le> lSize l \<Longrightarrow> 0 \<le> w l"
  by (auto simp: budgets_def weight_defs)

lemma affords_subset:
  assumes "affords (budgets m) L" "K \<subseteq> L"
  shows "affords (budgets m) K"
proof -
  have "sum w K \<le> b" if "(w, b) \<in> budgets m" for w b
  proof -
    have "sum w K \<le> sum w L"
      using assms that by (intro sum_mono2) (auto simp: affords_def intro: budget_weight_nonneg)
    then show ?thesis using assms(1) that by (force simp: affords_def)
  qed
  then show ?thesis using assms by (auto simp: affords_def intro: finite_subset)
qed

lemma affords_empty: "acct_ok (acct m) \<Longrightarrow> affords (budgets m) {}"
  by (auto simp: affords_def budgets_def acct_ok_def)

lemma finite_held [simp]: "finite (held m)"
  by (simp add: held_def)

lemma msum_held:
  assumes "mgr_ok m"
  shows "msum w (leases m) = sum w (held m)"
proof -
  have "mset (map lID (leasesLocked m)) = mset (map lID (map snd (leases m)))"
    by (simp add: leasesLocked_def sortByReclaimOrder_def del: map_map)
  then have "distinct (map lID (map snd (leases m)))"
    using distinct_leasesLocked [OF assms] mset_eq_imp_distinct_iff by metis
  then have "distinct (map snd (leases m))" by (simp add: distinct_map del: map_map)
  then show ?thesis
    by (simp add: msum_def held_def sum_list_distinct_conv_sum_set del: map_map)
qed

text \<open>The running totals of the source do not wrap: they are exact sums.\<close>

lemma foldl_wrap_sum:
  assumes "\<And>x. x \<in> set xs \<Longrightarrow> 0 \<le> f x" "0 \<le> a" "a + sum_list (map (\<lambda>x. if P x then f x else 0) xs) \<le> max_i64"
  shows "foldl (\<lambda>t x. if P x then wrap64 (t + f x) else t) a xs = a + sum_list (map (\<lambda>x. if P x then f x else 0) xs)"
  using assms
proof (induction xs arbitrary: a)
  case (Cons x xs)
  have nn: "0 \<le> f x" "0 \<le> sum_list (map (\<lambda>x. if P x then f x else 0) xs)"
    using Cons.prems(1) by (auto intro!: sum_list_nonneg)
  then have w: "wrap64 (a + f x) = a + f x" if "P x"
    using Cons.prems(2,3) nn that unfolding i64_defs by (intro wrap64_id') (auto simp: i64_defs)
  have "foldl (\<lambda>t x. if P x then wrap64 (t + f x) else t) (if P x then a + f x else a) xs
      = (if P x then a + f x else a) + sum_list (map (\<lambda>x. if P x then f x else 0) xs)"
    using Cons.prems nn by (intro Cons.IH) (auto split: if_splits)
  then show ?case using w by auto
qed simp

lemma foldl_held_sum:
  assumes "mgr_ok m"
  shows "foldl (\<lambda>t l. if P l then wrap64 (t + lSize l) else t) 0 (map snd (leases m))
    = sum (\<lambda>l. if P l then lSize l else 0) (held m)"
proof -
  have "msum (\<lambda>l. if P l then lSize l else 0) (leases m) \<le> msum lSize (leases m)"
    using mgr_ok_held_size [OF assms] by (intro msum_mono) (auto simp: held_def)
  then have "sum_list (map (\<lambda>l. if P l then lSize l else 0) (map snd (leases m))) \<le> max_i64"
    using assms by (simp add: msum_def mgr_ok_def acct_ok_def i64_defs del: map_map)
  then have "foldl (\<lambda>t l. if P l then wrap64 (t + lSize l) else t) 0 (map snd (leases m))
      = 0 + sum_list (map (\<lambda>l. if P l then lSize l else 0) (map snd (leases m)))"
    using mgr_ok_held_size [OF assms] by (intro foldl_wrap_sum) (auto simp: held_def)
  then show ?thesis
    using msum_held [OF assms, of "\<lambda>l. if P l then lSize l else 0"] by (simp add: msum_def del: map_map)
qed

lemma guaranteedTotal_exact: "mgr_ok m \<Longrightarrow> guaranteedTotal m = sum gsize (held m)"
  unfolding guaranteedTotal_def gsize_def by (rule foldl_held_sum)

lemma held_grant:
  "map_of (leases m) (lID l) = None \<Longrightarrow> held (grant m l now) = insert (l\<lparr>lGrantedAt := now\<rparr>) (held m)"
  by (auto simp: held_def grant_def update_fresh)

lemma fresh_not_held: "mgr_ok m \<Longrightarrow> map_of (leases m) (lID l) = None \<Longrightarrow> l\<lparr>lGrantedAt := t\<rparr> \<notin> held m"
  using mgr_ok_lookup [of m "lID l" "l\<lparr>lGrantedAt := t\<rparr>"] by auto

lemma sum_if_le_Borrowed:
  assumes "mgr_ok m"
  shows "sum (\<lambda>l. if P l then lSize l else 0) (held m) \<le> Borrowed (acct m)"
    and "0 \<le> sum (\<lambda>l. if P l then lSize l else 0) (held m)"
proof -
  have "sum (\<lambda>l. if P l then lSize l else 0) (held m) \<le> sum lSize (held m)"
    using mgr_ok_held_size [OF assms] by (intro sum_mono) auto
  then show "sum (\<lambda>l. if P l then lSize l else 0) (held m) \<le> Borrowed (acct m)"
    using assms msum_held [OF assms, of lSize] by (simp add: mgr_ok_def)
  show "0 \<le> sum (\<lambda>l. if P l then lSize l else 0) (held m)"
    using mgr_ok_held_size [OF assms] by (intro sum_nonneg) auto
qed

text \<open>The sums a check compares are exact, because what is granted fits the device.\<close>

lemma foldl_filter_if:
  "foldl (\<lambda>t x. if Q x then g t x else t) a (filter P xs) = foldl (\<lambda>t x. if P x \<and> Q x then g t x else t) a xs"
  by (induction xs arbitrary: a) auto

lemma check_sum:
  assumes "mgr_ok m" "0 \<le> lSize l" "Reserved (acct m) + Borrowed (acct m) + lSize l \<le> Capacity (acct m)"
  shows "wrap64 (foldl (\<lambda>t k. if P k then wrap64 (t + lSize k) else t) 0 (map snd (leases m)) + lSize l)
    = sum (\<lambda>k. if P k then lSize k else 0) (held m) + lSize l"
  using assms sum_if_le_Borrowed [OF assms(1), of P]
  by (subst wrap64_id) (auto simp: foldl_held_sum mgr_ok_def acct_ok_def i64_defs)

lemma withinQuota_ok:
  assumes ok: "mgr_ok m" "0 \<le> lSize l" "Reserved (acct m) + Borrowed (acct m) + lSize l \<le> Capacity (acct m)"
    and q: "withinQuota m l = None" "quota_bound m (lTenant l)"
  shows "0 < qBorrowed (Quota (cfg m)) \<Longrightarrow> sum (tsize (lTenant l)) (held m) + lSize l \<le> qBorrowed (Quota (cfg m))"
    and "lClass l = Guaranteed \<Longrightarrow> 0 < qGuaranteed (Quota (cfg m))
      \<Longrightarrow> sum (tgsize (lTenant l)) (held m) + lSize l \<le> qGuaranteed (Quota (cfg m))"
  using q foldl_filter_if [of "\<lambda>_. True" "\<lambda>t h. wrap64 (t + lSize h)" 0 "\<lambda>h. lTenant h = lTenant l" "map snd (leases m)"]
    check_sum [OF ok, of "\<lambda>k. lTenant k = lTenant l"]
    check_sum [OF ok, of "\<lambda>k. lTenant k = lTenant l \<and> lClass k = Guaranteed"]
  by (auto simp: withinQuota_def quota_bound_def Let_def foldl_filter_if tsize_def tgsize_def split: if_splits)

lemma grant_affords:
  assumes ok: "mgr_ok m" "0 \<le> lSize l" "Reserved (acct m) + Borrowed (acct m) + lSize l \<le> Capacity (acct m)"
    and chk: "accept_checks m l now = None" and aff: "affords (budgets m) (held m)"
  shows "affords (budgets m) (held (grant m l t))"
proof -
  let ?l = "l\<lparr>lGrantedAt := t\<rparr>"
  have fresh: "map_of (leases m) (lID l) = None" using chk by (rule accept_checks_fresh)
  have q: "withinQuota m l = None"
    using chk by (auto simp: accept_checks_def split: if_splits option.splits)
  have g: "lClass l = Guaranteed \<Longrightarrow> sum gsize (held m) + lSize l \<le> guaranteed_limit m"
    using chk q check_sum [OF ok, of "\<lambda>k. lClass k = Guaranteed"]
    by (auto simp: accept_checks_def guaranteedTotal_def gsize_def split: if_splits)
  have "sum w (held m) + w ?l \<le> b" if "(w, b) \<in> budgets m" for w b
  proof (cases "w ?l = 0")
    case True
    then show ?thesis using aff that by (auto simp: affords_def)
  next
    case False
    have "sum lSize (held m) = Borrowed (acct m)"
      using ok(1) msum_held [OF ok(1), of lSize] by (simp add: mgr_ok_def)
    then show ?thesis
      using that False ok g withinQuota_ok [OF ok q]
      by (auto simp: budgets_def weight_defs quota_bound_def split: if_splits)
  qed
  then show ?thesis
    using aff ok fresh_not_held [OF ok(1) fresh]
    by (auto simp: affords_def held_grant [OF fresh] add.commute)
qed

section \<open>Steps of a manager\<close>

inductive mgr_live :: "'j journal_ops \<Rightarrow> 'j manager \<Rightarrow> 'j manager \<Rightarrow> bool" for J where
  accept: "in_i64 (lSize l) \<Longrightarrow> Accept J m l now = (e, m') \<Longrightarrow> mgr_live J m m'"
| release: "Release J m i now = (n, e, m') \<Longrightarrow> mgr_live J m m'"
| expire: "Expire J m now = (res, m') \<Longrightarrow> mgr_live J m m'"
| reclaim: "in_i64 need \<Longrightarrow> Reclaim J m need now = (res, m') \<Longrightarrow> mgr_live J m m'"
| churn: "Churning m now = (b, m') \<Longrightarrow> mgr_live J m m'"

text \<open>A restart keeps the journal and the shape of the node, and nothing else.\<close>

inductive mgr_step :: "'j journal_ops \<Rightarrow> 'j manager \<Rightarrow> 'j manager \<Rightarrow> bool" for J where
  live: "mgr_live J m m' \<Longrightarrow> mgr_step J m m'"
| restore: "Restore J m now = (res, e, m') \<Longrightarrow> mgr_step J m m'"
| restart: "mgr_step J m (New ((acct m)\<lparr>Borrowed := 0\<rparr>) (cfg m) (journal m))"

text \<open>
  Every live step drops some leases and writes that down, or grants one and writes that down.
  \<open>journalled\<close> relates the journal before and after to the state that was written.
\<close>

definition journalled :: "'j journal_ops \<Rightarrow> 'j manager \<Rightarrow> 'j manager \<Rightarrow> 'j manager \<Rightarrow> journal_error option \<Rightarrow> bool" where
  "journalled J m w m' e \<longleftrightarrow>
     (case journal m of
        None \<Rightarrow> journal m' = None
      | Some j \<Rightarrow> (\<exists>j'. jSave J j (leasesLocked w) = (e, j') \<and> journal m' = Some j'))"

lemma persistLocked_journalled:
  assumes "persistLocked J w = (e, w')" "journal w = journal m" "journal m' = journal w'"
  shows "journalled J m w m' e"
  using assms by (auto simp: journalled_def persistLocked_def split: option.splits prod.splits)

lemma leasesLocked_cong: "leases m = leases m' \<Longrightarrow> leasesLocked m = leasesLocked m'"
  by (simp add: leasesLocked_def)

definition dropped_step :: "'j journal_ops \<Rightarrow> 'j manager \<Rightarrow> 'j manager \<Rightarrow> bool" where
  "dropped_step J m m' \<longleftrightarrow> (\<exists>ls. set ls \<subseteq> held m \<and> distinct (map lID ls)
     \<and> acct m' = acct (forget m ls) \<and> leases m' = leases (forget m ls)
     \<and> (journal m' = journal m \<or> (\<exists>e. journalled J m (forget m ls) m' e)))"

definition granted_step :: "'j journal_ops \<Rightarrow> 'j manager \<Rightarrow> 'j manager \<Rightarrow> bool" where
  "granted_step J m m' \<longleftrightarrow> (\<exists>l now. accept_checks (prune m now) l now = None \<and> in_i64 (lSize l) \<and> 0 \<le> lSize l
     \<and> Reserved (acct m) + Borrowed (acct m) + lSize l \<le> Capacity (acct m)
     \<and> (acct m' = acct (grant m l now) \<and> leases m' = leases (grant m l now) \<and> journalled J m (grant m l now) m' None
        \<or> acct m' = acct m \<and> leases m' = leases m \<and> (\<exists>e. journalled J m (grant m l now) m' (Some e))))"

lemma journalled_cong:
  "leases w = leases w' \<Longrightarrow> journal m = journal n \<Longrightarrow> journalled J m w m' e = journalled J n w' m' e"
  using leasesLocked_cong [of w w'] by (simp add: journalled_def split: option.split)

lemma dropped_none: "acct m' = acct m \<Longrightarrow> leases m' = leases m \<Longrightarrow> journal m' = journal m \<Longrightarrow> dropped_step J m m'"
  unfolding dropped_step_def by (intro exI [of _ "[]"]) simp

lemma Accept_step:
  assumes ok: "mgr_ok m" and sz: "in_i64 (lSize l)" and run: "Accept J m l now = (e, m')"
  shows "dropped_step J m m' \<or> granted_step J m m'"
proof -
  let ?p = "prune m now"
  obtain e1 m1 where p: "persistLocked J (grant ?p l now) = (e1, m1)" by force
  note fr = persistLocked_frame [OF p]
  have jr: "journalled J m (grant m l now) m'' e1" if "journal m'' = journal m1" for m''
  proof -
    have "journalled J m (grant ?p l now) m'' e1"
      by (rule persistLocked_journalled [OF p _ that]) (simp add: grant_def prune_def Let_def)
    then show ?thesis by (subst journalled_cong [of _ "grant ?p l now"]) (simp_all add: grant_def prune_frame)
  qed
  show ?thesis
  proof (cases "accept_checks ?p l now = None \<and> 0 \<le> lSize l
      \<and> Reserved (acct m) + Borrowed (acct m) + lSize l \<le> Capacity (acct m)")
    case False
    then have "m' = ?p"
      using run unfolding Accept_closed [OF ok sz] Let_def
      by (auto simp: prune_frame split: option.splits if_splits)
    then show ?thesis by (simp add: dropped_none prune_frame)
  next
    case True
    have "granted_step J m m'"
    proof (cases e1)
      case None
      then have "m' = m1" using run True p unfolding Accept_closed [OF ok sz] Let_def by (simp add: prune_frame)
      then have "acct m' = acct (grant m l now)" "leases m' = leases (grant m l now)"
        "journalled J m (grant m l now) m' None"
        using jr [of m'] fr None by (simp_all add: grant_def)
      then show ?thesis unfolding granted_step_def using True sz by blast
    next
      case (Some e2)
      then have "m' = ?p\<lparr>journal := journal m1\<rparr>"
        using run True p unfolding Accept_closed [OF ok sz] Let_def by (simp add: prune_frame)
      then have "acct m' = acct m" "leases m' = leases m" "journalled J m (grant m l now) m' (Some e2)"
        using jr [of m'] Some by simp_all
      then show ?thesis unfolding granted_step_def using True sz by blast
    qed
    then show ?thesis ..
  qed
qed

lemma dropped_persist:
  assumes sub: "set ls \<subseteq> held m" "distinct (map lID ls)"
    and w: "acct w = acct (forget m ls)" "leases w = leases (forget m ls)" "journal w = journal m"
    and p: "persistLocked J w = (e, m')"
  shows "dropped_step J m m'"
proof -
  note fr = persistLocked_frame [OF p]
  have "journalled J m w m' e" by (rule persistLocked_journalled [OF p w(3) refl])
  then have "journalled J m (forget m ls) m' e" by (subst journalled_cong [of _ w]) (simp_all add: w)
  then show ?thesis unfolding dropped_step_def using fr w sub by (intro exI [of _ ls]) auto
qed

lemma dropped_persist_into:
  assumes "set ls \<subseteq> held m" "distinct (map lID ls)"
    and "acct w = acct (forget m ls)" "leases w = leases (forget m ls)" "journal w = journal m"
    and "persist_into J r w = (r', m')"
  shows "dropped_step J m m'"
proof -
  obtain e where "persistLocked J w = (e, m')"
    using assms(6) by (auto simp: persist_into_def split: prod.splits option.splits)
  then show ?thesis using dropped_persist [OF assms(1-5)] by blast
qed

lemma Release_step:
  assumes ok: "mgr_ok m" and run: "Release J m i now = (n, e, m')"
  shows "dropped_step J m m'"
proof (cases "map_of (leases m) i")
  case None
  then show ?thesis using run by (auto simp: Release_def intro: dropped_none)
next
  case (Some l)
  obtain e' where "persistLocked J (forget m [l]) = (e', m')"
    using run Some by (auto simp: Release_closed [OF ok] split: prod.splits option.splits)
  then show ?thesis
    using Some mgr_ok_lookup [OF ok, of i l] by (intro dropped_persist [of "[l]"]) auto
qed

lemma Expire_step:
  assumes ok: "mgr_ok m" and run: "Expire J m now = (res, m')"
  shows "dropped_step J m m'"
proof -
  let ?es = "filter (\<lambda>l. Expired l now) (leasesLocked m)"
  have es: "set ?es \<subseteq> held m" "distinct (map lID ?es)"
    using distinct_leasesLocked [OF ok] by (auto intro: distinct_map_filter)
  show ?thesis
  proof (cases "?es = []")
    case True
    then have "m' = m" using run by (auto simp: Expire_def expireLocked_forget [OF ok] Let_def)
    then show ?thesis by (simp add: dropped_none)
  next
    case False
    then show ?thesis
      using run by (intro dropped_persist_into [OF es])
        (auto simp: Expire_def expireLocked_forget [OF ok] Let_def)
  qed
qed

lemma Reclaim_step:
  assumes ok: "mgr_ok m" and need: "in_i64 need" and run: "Reclaim J m need now = (res, m')"
  shows "dropped_step J m m'"
proof (cases "0 < need")
  case False
  then show ?thesis using run by (auto simp: Reclaim_nonpos intro: dropped_none)
next
  case True
  obtain es ts where t: "reclaim_takes m need now = (es, ts)" by force
  note c = Reclaim_closed(11) [OF ok True need run t]
  show ?thesis
  proof (cases "es @ ts = []")
    case True
    then show ?thesis using c by (simp add: dropped_none)
  next
    case False
    then obtain r w where "persist_into J r w = (res, m')" "acct w = acct (forget m (es @ ts))"
      "leases w = leases (forget m (es @ ts))" "journal w = journal m"
      using c by auto
    then show ?thesis using dropped_persist_into [OF reclaim_takes_held [OF ok t]] by blast
  qed
qed

lemma mgr_live_cases:
  assumes "mgr_live J m m'" "mgr_ok m"
  shows "dropped_step J m m' \<or> granted_step J m m'" and "cfg m' = cfg m" and "restored m' = restored m"
    and "mgr_ok m'"
proof -
  have "(dropped_step J m m' \<or> granted_step J m m') \<and> cfg m' = cfg m \<and> restored m' = restored m \<and> mgr_ok m'"
    using assms
  proof (induction rule: mgr_live.induct)
    case (accept l m now e m')
    then show ?case using Accept_step Accept_ok by metis
  next
    case (release m i now n e m')
    then show ?case using Release_step Release_ok(1-3) by metis
  next
    case (expire m now res m')
    then show ?case using Expire_step Expire_closed(3,6,7) by metis
  next
    case (reclaim need m now res m')
    then show ?case using Reclaim_step Reclaim_ok by metis
  next
    case (churn m now b m')
    then show ?case by (auto simp: Churning_def intro: dropped_none)
  qed
  then show "dropped_step J m m' \<or> granted_step J m m'" "cfg m' = cfg m" "restored m' = restored m" "mgr_ok m'"
    by auto
qed

section \<open>The journal interface\<close>

text \<open>
  The whole invariant of a manager with its journal: the books balance, every bound is respected,
  whatever the journal holds respects every bound too, and once the manager has been restored the
  journal holds every lease that is held.
\<close>

definition recorded :: "'j journal_ops \<Rightarrow> 'j manager \<Rightarrow> bool" where
  "recorded J m \<longleftrightarrow>
     (case journal m of
        None \<Rightarrow> True
      | Some j \<Rightarrow>
          (\<forall>ls. jLoad J j = Inr ls \<longrightarrow> affords (budgets m) (set ls))
          \<and> (restored m \<longrightarrow> (\<exists>ls. jLoad J j = Inr ls \<and> held m \<subseteq> set ls)))"

definition mgr_inv :: "'j journal_ops \<Rightarrow> 'j manager \<Rightarrow> bool" where
  "mgr_inv J m \<longleftrightarrow> mgr_ok m \<and> classes_ok m \<and> affords (budgets m) (held m) \<and> recorded J m"

text \<open>
  The laws the manager relies on. \<open>Load\<close> only ever returns leases with distinct identifiers, valid
  classes and 64-bit sizes; after a successful \<open>Save\<close> it returns what was saved; after a failed
  one it returns what was there before, or what was being saved.
\<close>

locale lease_journal =
  fixes J :: "'j journal_ops"
  assumes load_storable: "jLoad J j = Inr ls \<Longrightarrow> storable ls"
    and save_load: "storable ls \<Longrightarrow> jSave J j ls = (None, j') \<Longrightarrow> jLoad J j' = Inr ls"
    and save_failed: "storable ls \<Longrightarrow> jSave J j ls = (Some e, j') \<Longrightarrow> jLoad J j' = jLoad J j \<or> jLoad J j' = Inr ls"
begin

lemma Restore_ok:
  assumes ok: "mgr_ok m" and run: "Restore J m now = (res, e, m')"
  shows "mgr_ok m'" and "cfg m' = cfg m"
    and "Capacity (acct m') = Capacity (acct m)" and "Reserved (acct m') = Reserved (acct m)"
    and "classes_ok m \<Longrightarrow> classes_ok m'"
proof -
  let ?m0 = "m\<lparr>leases := [], acct := (acct m)\<lparr>Borrowed := 0\<rparr>\<rparr>"
  have ok0: "mgr_ok ?m0"
    using ok by (auto simp: mgr_ok_def acct_ok_def)
  have "\<exists>m1. (m1 = m \<or> mgr_ok m1 \<and> cfg m1 = cfg m \<and> classes_ok m1 \<and> Capacity (acct m1) = Capacity (acct m)
            \<and> Reserved (acct m1) = Reserved (acct m))
      \<and> acct m' = acct m1 \<and> leases m' = leases m1 \<and> cfg m' = cfg m1"
  proof (cases "journal m")
    case None
    then show ?thesis using run by (auto simp: Restore_def)
  next
    case (Some j)
    show ?thesis
    proof (cases "jLoad J j")
      case (Inl err)
      have "mgr_ok ?m0 \<and> classes_ok ?m0" using ok0 by (simp add: classes_ok_def held_def)
      moreover obtain e' m1 where p: "persistLocked J ?m0 = (e', m1)" by force
      moreover have "acct m' = acct m1 \<and> leases m' = leases m1 \<and> cfg m' = cfg m1"
        using run Some Inl p by (auto simp: Restore_def split: option.splits)
      ultimately show ?thesis
        using persistLocked_frame [OF p] by (intro exI [of _ ?m0]) auto
    next
      case (Inr ls)
      obtain r m1 where l: "restore_loop now ls ?m0 no_result = (r, m1)" by force
      note st = load_storable [OF Inr, unfolded storable_def]
      have *: "mgr_ok m1 \<and> held m1 \<subseteq> set ls \<and> cfg m1 = cfg m \<and> Capacity (acct m1) = Capacity (acct m)
          \<and> Reserved (acct m1) = Reserved (acct m)"
        using restore_loop_ok [OF ok0, of ls now no_result] st l by (auto simp: regained_def held_def)
      then have "classes_ok m1" using st by (auto simp: classes_ok_def)
      moreover obtain e' m2 where p: "persistLocked J m1 = (e', m2)" by force
      moreover have "acct m' = acct m1 \<and> leases m' = leases m1 \<and> cfg m' = cfg m1"
        using run Some Inr l p persistLocked_frame [OF p] by (auto simp: Restore_def split: option.splits if_splits)
      ultimately show ?thesis using * by (intro exI [of _ m1]) auto
    qed
  qed
  then show "mgr_ok m'" "cfg m' = cfg m" "Capacity (acct m') = Capacity (acct m)"
    "Reserved (acct m') = Reserved (acct m)" "classes_ok m \<Longrightarrow> classes_ok m'"
    using ok mgr_ok_cong [of m'] by (auto simp: classes_ok_def held_def)
qed

lemma save_cases:
  assumes "journalled J m w m' e" "mgr_ok w" "classes_ok w" "journal m = Some j"
  shows "\<exists>j'. journal m' = Some j' \<and> (jLoad J j' = Inr (leasesLocked w) \<or> e \<noteq> None \<and> jLoad J j' = jLoad J j)"
  using assms save_load [of "leasesLocked w" j] save_failed [of "leasesLocked w" j]
    storable_leasesLocked [OF assms(2,3)]
  by (cases e) (auto simp: journalled_def)

lemma dropped_step_inv:
  assumes inv: "mgr_inv J m" and st: "dropped_step J m m'" and fr: "cfg m' = cfg m" "restored m' = restored m" "mgr_ok m'"
  shows "mgr_inv J m'"
proof -
  obtain ls where ls: "set ls \<subseteq> held m" "distinct (map lID ls)" "acct m' = acct (forget m ls)"
    "leases m' = leases (forget m ls)" "journal m' = journal m \<or> (\<exists>e. journalled J m (forget m ls) m' e)"
    using st unfolding dropped_step_def by blast
  have ok: "mgr_ok m" using inv by (simp add: mgr_inv_def)
  have h: "held m' = held (forget m ls)" using ls by (simp add: held_def)
  then have sub: "held m' \<subseteq> held m" by (auto simp: held_forget [OF ok])
  have b: "budgets m' = budgets m" using ls fr by (intro budgets_cong) simp_all
  have co: "classes_ok (forget m ls)" using inv sub h by (auto simp: mgr_inv_def classes_ok_def)
  have okf: "mgr_ok (forget m ls)" by (rule forget_ok [OF ok ls(1,2)])
  have "affords (budgets m') (held m')" using inv sub b affords_subset by (auto simp: mgr_inv_def)
  moreover have "recorded J m'"
  proof (cases "journal m")
    case None
    then show ?thesis using ls(5) by (auto simp: recorded_def journalled_def)
  next
    case (Some j)
    have old: "recorded J m" using inv by (simp add: mgr_inv_def)
    consider "journal m' = journal m" | j' where "journal m' = Some j'" "jLoad J j' = Inr (leasesLocked (forget m ls))"
      | j' where "journal m' = Some j'" "jLoad J j' = jLoad J j"
      using ls(5) save_cases [OF _ okf co Some] by blast
    then show ?thesis
    proof cases
      case 2
      then show ?thesis using \<open>affords (budgets m') (held m')\<close> h by (simp add: recorded_def)
    qed (use old Some sub b fr in \<open>force simp: recorded_def\<close>)+
  qed
  ultimately show ?thesis using fr inv sub by (auto simp: mgr_inv_def classes_ok_def)
qed

lemma granted_step_inv:
  assumes inv: "mgr_inv J m" and st: "granted_step J m m'" and fr: "cfg m' = cfg m" "restored m' = restored m" "mgr_ok m'"
  shows "mgr_inv J m'"
proof -
  obtain l now where l: "accept_checks (prune m now) l now = None" "0 \<le> lSize l"
      "Reserved (acct m) + Borrowed (acct m) + lSize l \<le> Capacity (acct m)"
    and eff: "acct m' = acct (grant m l now) \<and> leases m' = leases (grant m l now) \<and> journalled J m (grant m l now) m' None
        \<or> acct m' = acct m \<and> leases m' = leases m \<and> (\<exists>e. journalled J m (grant m l now) m' (Some e))"
    using st unfolding granted_step_def by blast
  let ?g = "grant m l now"
  have ok: "mgr_ok m" using inv by (simp add: mgr_inv_def)
  have fresh: "map_of (leases m) (lID l) = None" using accept_checks_fresh [OF l(1)] by simp
  have okg: "mgr_ok ?g" by (rule grant_ok [OF ok fresh l(2,3)])
  have "class_Valid (lClass l)" using l(1) by (auto simp: accept_checks_def split: if_splits)
  then have cog: "classes_ok ?g"
    using inv by (auto simp: classes_ok_def mgr_inv_def held_grant [OF fresh])
  have b: "budgets m' = budgets m" using eff fr by (intro budgets_cong) (auto simp: grant_def)
  have "affords (budgets (prune m now)) (held (grant (prune m now) l now))"
    using inv ok l by (intro grant_affords) (auto simp: mgr_inv_def cong: budgets_cong)
  then have ag: "affords (budgets m) (held ?g)"
    by (simp add: budgets_cong [of "prune m now" m] held_def grant_def)
  have h: "held m' = held ?g \<or> held m' = held m" using eff by (auto simp: held_def)
  then have sub: "held m' \<subseteq> held ?g" by (auto simp: held_grant [OF fresh])
  have "recorded J m'"
  proof (cases "journal m")
    case None
    then show ?thesis using eff by (auto simp: recorded_def journalled_def)
  next
    case (Some j)
    have old: "recorded J m" using inv by (simp add: mgr_inv_def)
    consider j' where "journal m' = Some j'" "jLoad J j' = Inr (leasesLocked ?g)"
      | j' where "journal m' = Some j'" "jLoad J j' = jLoad J j" "held m' = held m"
    proof -
      obtain e where e: "journalled J m ?g m' e" "e \<noteq> None \<longrightarrow> leases m' = leases m" using eff by auto
      show thesis using save_cases [OF e(1) okg cog Some] e(2) that by (auto simp: held_def)
    qed
    then show ?thesis
    proof cases
      case 1
      then show ?thesis using ag b sub by (simp add: recorded_def)
    qed (use old Some b fr in \<open>force simp: recorded_def\<close>)
  qed
  then show ?thesis
    using fr cog sub affords_subset [OF ag sub] b by (auto simp: mgr_inv_def classes_ok_def)
qed

lemma Restore_inv:
  assumes inv: "mgr_inv J m" and run: "Restore J m now = (res, e, m')"
  shows "mgr_inv J m'"
proof (cases "journal m")
  case None
  then show ?thesis using run inv by (simp add: Restore_def)
next
  case (Some j)
  let ?m0 = "m\<lparr>leases := [], acct := (acct m)\<lparr>Borrowed := 0\<rparr>\<rparr>"
  have ok: "mgr_ok m" "classes_ok m" "recorded J m" using inv by (auto simp: mgr_inv_def)
  note r = Restore_ok [OF ok(1) run]
  have b: "budgets m' = budgets m" by (rule budgets_cong [OF r(2-4)])
  obtain m1 where m1: "mgr_ok m1" "classes_ok m1" "journal m1 = Some j" "restored m1 = restored m"
      "affords (budgets m) (held m1)" "leases m' = leases m1"
    and j: "journal m' = Some j \<and> (\<exists>ls. jLoad J j = Inr ls \<and> held m1 \<subseteq> set ls)
        \<or> (\<exists>e. journalled J m m1 m' e \<and> (e \<noteq> None \<longrightarrow> restored m' = restored m \<and>
              (restored m \<longrightarrow> (\<exists>ls. jLoad J j = Inr ls \<and> held m1 \<subseteq> set ls))))"
  proof (cases "jLoad J j")
    case (Inl err)
    obtain e' m2 where p: "persistLocked J ?m0 = (e', m2)" by force
    note fr = persistLocked_frame [OF p]
    have m': "m' = (case e' of None \<Rightarrow> m2\<lparr>restored := True\<rparr> | Some _ \<Rightarrow> m2)"
      using run Some Inl p by (auto simp: Restore_def split: option.splits)
    then have jm: "journal m' = journal m2" "leases m' = leases ?m0" using fr by (auto split: option.splits)
    have "journalled J m ?m0 m' e'" by (rule persistLocked_journalled [OF p _ jm(1)]) simp
    moreover have "\<not> restored m" using ok(3) Some Inl by (auto simp: recorded_def)
    moreover have "mgr_ok ?m0" "classes_ok ?m0" "affords (budgets m) (held ?m0)"
      using ok by (auto simp: mgr_ok_def acct_ok_def classes_ok_def held_def intro!: affords_empty)
    ultimately show ?thesis using Some jm fr m' by (intro that [of ?m0]) auto
  next
    case (Inr ls)
    obtain rs m1 where l: "restore_loop now ls ?m0 no_result = (rs, m1)" by force
    note st = load_storable [OF Inr, unfolded storable_def]
    have ok0: "mgr_ok ?m0" using ok by (auto simp: mgr_ok_def acct_ok_def)
    have m1: "regained now (set ls) ?m0 m1"
      using restore_loop_ok [OF ok0, of ls now no_result] st l by auto
    then have sub: "held m1 \<subseteq> set ls" by (auto simp: regained_def held_def)
    have aff: "affords (budgets m) (held m1)"
      using ok(3) Some Inr sub affords_subset by (auto simp: recorded_def)
    have co: "classes_ok m1" using sub st by (auto simp: classes_ok_def)
    obtain e' m2 where p: "persistLocked J m1 = (e', m2)" by force
    note fr = persistLocked_frame [OF p]
    show ?thesis
    proof (cases "Dropped rs \<noteq> [] \<or> Unfittable rs \<noteq> []")
      case True
      then have m': "m' = (case e' of None \<Rightarrow> m2\<lparr>restored := True\<rparr> | Some _ \<Rightarrow> m2)"
        using run Some Inr l p by (auto simp: Restore_def split: option.splits)
      then have jm: "journal m' = journal m2" "leases m' = leases m1" using fr by (auto split: option.splits)
      have "journalled J m m1 m' e'"
        by (rule persistLocked_journalled [OF p _ jm(1)]) (use m1 in \<open>simp add: regained_def\<close>)
      then show ?thesis
        using m1 aff co Some jm fr m' Inr sub by (intro that [of m1]) (auto simp: regained_def)
    next
      case False
      then have "m' = m1\<lparr>restored := True\<rparr>" using run Some Inr l by (auto simp: Restore_def)
      then show ?thesis
        using m1 aff co Some Inr sub by (intro that [of m1]) (auto simp: regained_def)
    qed
  qed
  have h: "held m' = held m1" using m1 by (simp add: held_def)
  have old: "\<And>ls. jLoad J j = Inr ls \<Longrightarrow> affords (budgets m) (set ls)"
    using ok(3) Some by (simp add: recorded_def)
  have "recorded J m'" using j
  proof (elim disjE exE conjE)
    fix e' assume e': "journalled J m m1 m' e'" "e' \<noteq> None \<longrightarrow> restored m' = restored m \<and>
        (restored m \<longrightarrow> (\<exists>ls. jLoad J j = Inr ls \<and> held m1 \<subseteq> set ls))"
    obtain j' where "journal m' = Some j'" "jLoad J j' = Inr (leasesLocked m1) \<or> e' \<noteq> None \<and> jLoad J j' = jLoad J j"
      using save_cases [OF e'(1) m1(1,2) Some] by blast
    then show ?thesis using e'(2) old m1(5) h b by (auto simp: recorded_def)
  qed (use old b h in \<open>auto simp: recorded_def\<close>)
  then show ?thesis using r m1 h b ok(2) by (simp add: mgr_inv_def)
qed

lemma mgr_step_inv:
  assumes "mgr_step J m m'" "mgr_inv J m"
  shows "mgr_inv J m'"
  using assms
proof (induction rule: mgr_step.induct)
  case (live m m')
  then have "mgr_ok m" by (simp add: mgr_inv_def)
  note c = mgr_live_cases [OF live(1) this]
  then show ?case using dropped_step_inv granted_step_inv live(2) by blast
next
  case (restore m now res e m')
  then show ?case using Restore_inv by blast
next
  case (restart m)
  let ?n = "New ((acct m)\<lparr>Borrowed := 0\<rparr>) (cfg m) (journal m)"
  have a: "acct_ok ((acct m)\<lparr>Borrowed := 0\<rparr>)" using restart by (auto simp: mgr_inv_def mgr_ok_def acct_ok_def)
  then have "mgr_ok ?n" by (intro New_ok) simp_all
  moreover have "held ?n = {}" by (simp add: New_def held_def)
  moreover have "budgets ?n = budgets m" by (intro budgets_cong) (simp_all add: New_def)
  ultimately show ?case
    using restart a affords_empty [of ?n]
    by (auto simp: mgr_inv_def classes_ok_def recorded_def New_def split: option.splits)
qed

lemma mgr_reach_inv:
  assumes "(mgr_step J)\<^sup>*\<^sup>* m m'" "mgr_inv J m"
  shows "mgr_inv J m'"
  using assms by (induction rule: rtranclp_induct) (auto intro: mgr_step_inv)

lemma New_inv:
  assumes "acct_ok a" "Borrowed a = 0" "\<And>j'. j = Some j' \<Longrightarrow> jLoad J j' = Inr [] \<or> (\<exists>e. jLoad J j' = Inl e)"
  shows "mgr_inv J (New a cf j)"
  using assms affords_empty [of "New a cf j"] New_ok [of a cf j]
  by (auto simp: mgr_inv_def classes_ok_def held_def recorded_def New_def split: option.splits)

text \<open>
  Crash consistency. A manager that dies at any point, whatever failed before, and is started again
  over the same journal on the same node gets back every lease it held that has not expired, and
  nothing it recorded fails to fit.
\<close>

lemma crash_recovery:
  assumes inv: "mgr_inv J m" and re: "restored m" "journal m = Some j"
    and run: "Restore J (New ((acct m)\<lparr>Borrowed := 0\<rparr>) (cfg m) (Some j)) now = (res, e, m')"
  shows "Unfittable res = []" and "{l \<in> held m. \<not> Expired l now} \<subseteq> held m'"
    and "\<forall>l\<in>held m'. \<not> Expired l now"
proof -
  let ?n = "New ((acct m)\<lparr>Borrowed := 0\<rparr>) (cfg m) (Some j)"
  have ok: "mgr_ok m" "recorded J m" using inv by (auto simp: mgr_inv_def)
  obtain ls where ls: "jLoad J j = Inr ls" "held m \<subseteq> set ls" "affords (budgets m) (set ls)"
    using ok(2) re by (auto simp: recorded_def)
  note st = load_storable [OF ls(1), unfolded storable_def]
  have dist: "distinct ls" using st by (auto simp: distinct_map)
  have okn: "mgr_ok ?n" using ok(1) by (intro New_ok) (auto simp: mgr_ok_def acct_ok_def)
  have "sum lSize (set ls) \<le> Capacity (acct m) - Reserved (acct m)" and nn: "\<forall>l\<in>set ls. 0 \<le> lSize l"
    using ls(3) by (auto simp: affords_def budgets_def)
  then have fit: "Reserved (acct ?n) + Borrowed (acct ?n) + sizes ls \<le> Capacity (acct ?n)"
    using dist by (simp add: New_def sum_list_distinct_conv_sum_set)
  obtain m1 where m1: "restore_loop now ls ?n no_result
      = (no_result\<lparr>Dropped := map lID (filter (\<lambda>l. Expired l now) ls)\<rparr>, m1)"
    "held m1 = {l \<in> set ls. \<not> Expired l now}"
    using restore_loop_fits [OF okn _ _ _ fit, of now no_result] st nn
    by (auto simp: no_result_def New_def held_def)
  obtain e' m2 where p: "persistLocked J m1 = (e', m2)" by force
  have base: "?n\<lparr>leases := [], acct := (acct ?n)\<lparr>Borrowed := 0\<rparr>\<rparr> = ?n" by (simp add: New_def)
  have "leases m' = leases m1 \<and> Unfittable res = []"
    using run m1(1) ls(1) p persistLocked_frame [OF p] unfolding Restore_def base
    by (auto simp: New_def no_result_def Let_def split: option.splits if_splits)
  then have "held m' = {l \<in> set ls. \<not> Expired l now}" "Unfittable res = []"
    using m1(2) by (simp_all add: held_def)
  then show "Unfittable res = []" "{l \<in> held m. \<not> Expired l now} \<subseteq> held m'" "\<forall>l\<in>held m'. \<not> Expired l now"
    using ls(2) by auto
qed

end

section \<open>What a node can promise\<close>

text \<open>
  \<open>GuaranteedFree\<close> is exact: a guaranteed lease of a size it covers is not refused for want of
  room, and one above it is.
\<close>

lemma GuaranteedFree_exact:
  assumes ok: "mgr_ok m" and lim: "0 \<le> guaranteed_limit m" "in_i64 (guaranteed_limit m)"
  shows "GuaranteedFree m = max 0 (min (guaranteed_limit m - sum gsize (held m))
      (Capacity (acct m) - Reserved (acct m) - Borrowed (acct m)))"
proof -
  have "0 \<le> sum gsize (held m)" "sum gsize (held m) \<le> Borrowed (acct m)"
    using sum_if_le_Borrowed [OF ok, of "\<lambda>l. lClass l = Guaranteed"] by (simp_all add: gsize_def)
  then have "wrap64 (guaranteed_limit m - sum gsize (held m)) = guaranteed_limit m - sum gsize (held m)"
    using ok lim by (intro wrap64_id) (auto simp: mgr_ok_def acct_ok_def i64_defs)
  then show ?thesis
    using ok Free_ok [of "acct m"] by (simp add: GuaranteedFree_def guaranteedTotal_exact mgr_ok_def Let_def)
qed

text \<open>Steps named by the call that makes them.\<close>

lemma step_Restore: "mgr_step J m (snd (snd (Restore J m now)))"
  by (rule mgr_step.restore [of J m now "fst (Restore J m now)" "fst (snd (Restore J m now))"]) simp

lemma step_Accept: "in_i64 (lSize l) \<Longrightarrow> mgr_step J m (snd (Accept J m l now))"
  by (rule mgr_step.live, rule mgr_live.accept [of l J m now "fst (Accept J m l now)"]) simp_all

end
