(* ===== verification/File_Journal.thy ===== *)
theory File_Journal
  imports Lease_Run
begin

text \<open>
  The file journal of package lease (\<open>internal/lease/journal.go\<close>) and its interpretation of the
  interface \<open>lease_journal\<close>.

  The file is modelled by what \<open>encoding/json\<close> reads out of it: it is missing, it cannot be read,
  its text is not a document, or it is a document with the source's fields. The class is stored as
  its text. A term is stored as the text \<open>time.Duration.String\<close> prints; the model keeps a text
  that \<open>time.ParseDuration\<close> accepts as the duration it denotes (\<open>DurationText\<close>) and any other
  text as \<open>BadDuration\<close>. \<open>Save\<close> either fails before the rename, fails after it (the directory
  flush), or succeeds; which of them happens is the next element of a schedule carried in the
  journal's state, so every pattern of failures is a journal.
\<close>

datatype duration_text = DurationText duration | BadDuration

definition duration_String :: "duration \<Rightarrow> duration_text" where
  "duration_String d = DurationText d"

definition ParseDuration :: "duration_text \<Rightarrow> duration option" where
  "ParseDuration t = (case t of DurationText d \<Rightarrow> Some d | BadDuration \<Rightarrow> None)"

text \<open>The on-disk form: \<open>record\<close> and \<open>document\<close> of the source.\<close>

record jrecord =
  rID :: string
  rTenant :: string
  rClass :: string
  rSizeBytes :: int
  rGrantedAt :: time
  rTerm :: duration_text

record document =
  dFormat :: int
  dLeases :: "jrecord list"

definition journalFormat :: int where
  "journalFormat = 1"

datatype journal_file = Missing | Unreadable | Garbage | Doc document

datatype save_fault = NoFault | BeforeRename | AfterRename

record file_journal =
  jfile :: journal_file
  faults :: "save_fault list"

definition to_record :: "lease \<Rightarrow> jrecord" where
  "to_record l = \<lparr>rID = lID l, rTenant = lTenant l, rClass = class_String (lClass l),
     rSizeBytes = lSize l, rGrantedAt = lGrantedAt l, rTerm = duration_String (lTerm l)\<rparr>"

definition next_fault :: "file_journal \<Rightarrow> save_fault" where
  "next_fault j = (case faults j of [] \<Rightarrow> NoFault | f # _ \<Rightarrow> f)"

definition Save :: "file_journal \<Rightarrow> lease list \<Rightarrow> journal_error option \<times> file_journal" where
  "Save j ls =
     (let f = Doc \<lparr>dFormat = journalFormat, dLeases = map to_record ls\<rparr>;
          j1 = j\<lparr>faults := tl (faults j)\<rparr>
      in case next_fault j of
           BeforeRename \<Rightarrow> (Some ErrJournalIO, j1)
         | AfterRename \<Rightarrow> (Some ErrJournalIO, j1\<lparr>jfile := f\<rparr>)
         | NoFault \<Rightarrow> (None, j1\<lparr>jfile := f\<rparr>))"

text \<open>The loop of \<open>Load\<close>, with the identifiers already seen and the leases already read.\<close>

fun load_loop :: "jrecord list \<Rightarrow> string list \<Rightarrow> lease list \<Rightarrow> journal_error + lease list" where
  "load_loop [] seen out = Inr out"
| "load_loop (r # rs) seen out =
     (if rID r \<in> set seen then Inl ErrCorrupt
      else case ParseClass (rClass r) of
             Inl _ \<Rightarrow> Inl ErrCorrupt
           | Inr c \<Rightarrow>
               (case ParseDuration (rTerm r) of
                  None \<Rightarrow> Inl ErrCorrupt
                | Some term \<Rightarrow>
                    load_loop rs (rID r # seen)
                      (out @ [\<lparr>lID = rID r, lTenant = rTenant r, lClass = c, lSize = rSizeBytes r,
                               lGrantedAt = rGrantedAt r, lTerm = term\<rparr>])))"

text \<open>\<open>json.Unmarshal\<close> into an \<open>int64\<close> refuses a number outside its range.\<close>

definition decodes :: "document \<Rightarrow> bool" where
  "decodes d \<longleftrightarrow> list_all (\<lambda>r. in_i64 (rSizeBytes r)) (dLeases d)"

definition Load :: "file_journal \<Rightarrow> journal_error + lease list" where
  "Load j =
     (case jfile j of
        Missing \<Rightarrow> Inr []
      | Unreadable \<Rightarrow> Inl ErrJournalIO
      | Garbage \<Rightarrow> Inl ErrCorrupt
      | Doc d \<Rightarrow>
          if \<not> decodes d then Inl ErrCorrupt
          else if dFormat d \<noteq> journalFormat then Inl ErrCorrupt
          else load_loop (dLeases d) [] [])"

definition file_ops :: "file_journal journal_ops" where
  "file_ops = \<lparr>jSave = Save, jLoad = Load\<rparr>"

section \<open>The laws\<close>

lemma ParseClass_String: "class_Valid c \<Longrightarrow> ParseClass (class_String c) = Inr c"
  by (auto simp: class_Valid_def ParseClass_def class_String_def class_defs)

lemma ParseClass_Valid: "ParseClass s = Inr c \<Longrightarrow> class_Valid c"
  by (auto simp: class_Valid_def ParseClass_def class_defs split: if_splits)

lemma load_loop_to_record:
  "class_Valid (lClass l) \<Longrightarrow>
   load_loop (to_record l # rs) seen out =
     (if lID l \<in> set seen then Inl ErrCorrupt else load_loop rs (lID l # seen) (out @ [l]))"
  by (cases l) (simp add: to_record_def ParseClass_String ParseDuration_def duration_String_def)

lemma load_loop_saved:
  assumes "distinct (map lID ls)" "set seen \<inter> lID ` set ls = {}" "\<forall>l\<in>set ls. class_Valid (lClass l)"
  shows "load_loop (map to_record ls) seen out = Inr (out @ ls)"
  using assms by (induction ls arbitrary: seen out) (auto simp: load_loop_to_record simp del: load_loop.simps(2))

lemma load_loop_storable:
  assumes "load_loop rs seen out = Inr ls" "\<forall>r\<in>set rs. in_i64 (rSizeBytes r)" "storable out"
    and "lID ` set out \<subseteq> set seen"
  shows "storable ls"
  using assms
proof (induction rs arbitrary: seen out)
  case (Cons r rs)
  then obtain c t where c: "rID r \<notin> set seen" "ParseClass (rClass r) = Inr c" "ParseDuration (rTerm r) = Some t"
    by (auto split: if_splits sum.splits option.splits)
  show ?case
    by (rule Cons.IH [of "rID r # seen" "out @ [\<lparr>lID = rID r, lTenant = rTenant r, lClass = c, lSize = rSizeBytes r,
         lGrantedAt = rGrantedAt r, lTerm = t\<rparr>]"])
      (use Cons.prems c ParseClass_Valid [OF c(2)] in \<open>auto simp: storable_def\<close>)
qed simp

lemma Load_saved:
  assumes "storable ls" "jfile j = Doc \<lparr>dFormat = journalFormat, dLeases = map to_record ls\<rparr>"
  shows "Load j = Inr ls"
proof -
  have "decodes \<lparr>dFormat = journalFormat, dLeases = map to_record ls\<rparr>"
    using assms(1) by (auto simp: decodes_def list_all_iff storable_def to_record_def)
  then show ?thesis
    using assms by (simp add: Load_def load_loop_saved storable_def)
qed

interpretation fj: lease_journal file_ops
proof
  show "storable ls" if "jLoad file_ops j = Inr ls" for j ls
    using that by (auto simp: file_ops_def Load_def decodes_def list_all_iff storable_def [of "[]"]
        split: journal_file.splits if_splits intro: load_loop_storable)
  show "jLoad file_ops j' = Inr ls" if "storable ls" "jSave file_ops j ls = (None, j')" for j j' ls
    using that by (auto simp: file_ops_def Save_def Let_def intro!: Load_saved split: save_fault.splits)
  show "jLoad file_ops j' = jLoad file_ops j \<or> jLoad file_ops j' = Inr ls"
    if "storable ls" "jSave file_ops j ls = (Some e, j')" for j j' ls e
    using that Load_saved [of ls j'] by (auto simp: file_ops_def Save_def Let_def Load_def split: save_fault.splits)
qed

end
