(* ===== verification/Lease_Churn.thy ===== *)
theory Lease_Churn
  imports Lease_Inv
begin

text \<open>
  The two brakes on lending after a reclamation: the churn budget and the cooldown. The cooldown
  doubles with every reclamation inside the churn window and stays within the configured bounds,
  and the history \<open>prune\<close> throws away is history neither brake can read.
\<close>

text \<open>What every configuration the agent builds satisfies.\<close>

definition churn_cfg :: "lease_config \<Rightarrow> bool" where
  "churn_cfg c \<longleftrightarrow> in_i64 (MinTerm c) \<and> 0 \<le> ChurnWindow c \<and> ChurnWindow c \<le> 4611686018427387904"

abbreviation cooldown :: "'j manager \<Rightarrow> time \<Rightarrow> duration" where
  "cooldown m now \<equiv> fst (cooldownFor m now)"

lemma double_until_step:
  assumes "0 < d" "d < w" "w \<le> 4611686018427387904"
  shows "wrap64 (d * 2) = 2 * d"
  using assms by (subst wrap64_id) (auto simp: i64_defs)

text \<open>The loop computes \<open>2 ^ k * d\<close>, or stops early at or above the window.\<close>

lemma double_until_value:
  assumes "0 < d" "w \<le> 4611686018427387904"
  shows "double_until k w d = 2 ^ k * d \<or> w \<le> double_until k w d \<and> w \<le> 2 ^ k * d"
    and "d \<le> double_until k w d"
proof -
  have "(double_until k w d = 2 ^ k * d \<or> w \<le> double_until k w d \<and> w \<le> 2 ^ k * d) \<and> d \<le> double_until k w d"
    using assms
  proof (induction k arbitrary: d)
    case (Suc k)
    show ?case
    proof (cases "d < w")
      case True
      then have "wrap64 (d * 2) = 2 * d" using Suc.prems by (intro double_until_step)
      then show ?thesis using Suc.IH [of "2 * d"] Suc.prems True by (auto simp: ac_simps)
    next
      case False
      have "1 * d \<le> 2 ^ Suc k * d"
        using Suc.prems one_le_power [of "2 :: int" "Suc k"] by (intro mult_right_mono) simp_all
      then show ?thesis using False by simp
    qed
  qed simp
  then show "double_until k w d = 2 ^ k * d \<or> w \<le> double_until k w d \<and> w \<le> 2 ^ k * d"
    "d \<le> double_until k w d" by auto
qed

text \<open>The value of the cooldown: the configured term, doubled per reclamation, capped at the window.\<close>

lemma cooldown_value:
  assumes "churn_cfg (cfg m)" "0 < MinTerm (cfg m)"
  shows "cooldown m now =
    (if recent m now \<le> 1 \<or> \<not> Autonomy (cfg m) \<or> ChurnWindow (cfg m) = 0 then MinTerm (cfg m)
     else min (ChurnWindow (cfg m)) (2 ^ (recent m now - 1) * MinTerm (cfg m)))"
proof -
  let ?w = "ChurnWindow (cfg m)" and ?b = "MinTerm (cfg m)" and ?k = "recent m now - 1"
  have w: "?w \<le> 4611686018427387904" "0 \<le> ?w" using assms by (simp_all add: churn_cfg_def)
  have z: "double_until ?k 0 ?b = ?b" using assms(2) by (cases ?k) auto
  show ?thesis
    using assms(2) w z double_until_value(1) [OF assms(2) w(1), of ?k]
    by (auto simp: cooldownFor_def Let_def min_def split: if_splits)
qed

text \<open>Whatever the configuration, the cooldown never exceeds what the history is kept for.\<close>

lemma cooldown_le_retention:
  assumes "churn_cfg (cfg m)" "0 < MinTerm (cfg m)"
  shows "cooldown m now \<le> retention m"
  using assms by (auto simp: cooldown_value retention_def churn_cfg_def intro: min.coboundedI1)

section \<open>Pruning is not observable\<close>

lemma recent_prune:
  assumes "churn_cfg (cfg m)" "0 < ChurnWindow (cfg m)" "in_i64 (MinTerm (cfg m))" "now \<le> t"
  shows "recent (prune m now) t = recent m t"
proof -
  have r: "0 < retention m" "in_i64 (retention m)" "ChurnWindow (cfg m) \<le> retention m" "in_i64 (ChurnWindow (cfg m))"
    using assms by (auto simp: retention_def churn_cfg_def i64_defs)
  with assms(2) have n: "wrap64 (- retention m) = - retention m" "wrap64 (- ChurnWindow (cfg m)) = - ChurnWindow (cfg m)"
    by (auto intro!: wrap64_id simp: i64_defs)
  have "filter (\<lambda>x. t - ChurnWindow (cfg m) < x) (filter (\<lambda>x. now - retention m < x) (reclaims m))
      = filter (\<lambda>x. t - ChurnWindow (cfg m) < x) (reclaims m)"
    using r assms(4) by (auto intro: filter_cong)
  then show ?thesis
    using r n by (simp add: recent_def prune_def Let_def time_add_def)
qed

lemma churning_prune:
  assumes "churn_cfg (cfg m)" "now \<le> t"
  shows "churning (prune m now) t = churning m t"
  using assms recent_prune [of m now t] by (auto simp: churning_def churn_cfg_def)

lemma cooldown_prune:
  assumes "churn_cfg (cfg m)" "0 < MinTerm (cfg m)" "now \<le> t"
  shows "cooldown (prune m now) t = cooldown m t"
proof (cases "ChurnWindow (cfg m) = 0")
  case False
  then have "recent (prune m now) t = recent m t"
    using assms by (intro recent_prune) (auto simp: churn_cfg_def)
  then show ?thesis using assms by (simp add: cooldown_value)
qed (use assms in \<open>simp add: cooldown_value\<close>)

lemma inCooldown_iff:
  "fst (inCooldown m now) \<longleftrightarrow> 0 < MinTerm (cfg m) \<and> reclaims m \<noteq> [] \<and> now < last (reclaims m) + cooldown m now"
  by (auto simp: inCooldown_def Let_def time_sub_def time_add_def)

lemma inCooldown_prune:
  assumes c: "churn_cfg (cfg m)" "now \<le> t" and s: "sorted (reclaims m)"
  shows "fst (inCooldown (prune m now) t) = fst (inCooldown m t)"
proof (cases "0 < MinTerm (cfg m) \<and> reclaims m \<noteq> []")
  case True
  let ?keep = "\<lambda>x. now - retention m < x"
  have r: "0 < retention m" "in_i64 (retention m)"
    using True c(1) by (auto simp: retention_def churn_cfg_def i64_defs)
  then have p: "reclaims (prune m now) = filter ?keep (reclaims m)"
    by (simp add: prune_def Let_def time_add_def wrap64_id i64_defs)
  obtain xs l where xs: "reclaims m = xs @ [l]" using True by (metis append_butlast_last_id)
  have "\<forall>x\<in>set xs. x \<le> l" using s by (auto simp: xs sorted_append)
  show ?thesis
  proof (cases "?keep l")
    case True
    then show ?thesis using c cooldown_prune [of m now t] by (auto simp: inCooldown_iff p xs)
  next
    case False
    then have "reclaims (prune m now) = []"
      using \<open>\<forall>x\<in>set xs. x \<le> l\<close> by (auto simp: p xs filter_empty_conv)
    moreover have "\<not> t < l + cooldown m t"
      using False cooldown_le_retention [of m t] c True by linarith
    ultimately show ?thesis by (simp add: inCooldown_iff xs)
  qed
qed (auto simp: inCooldown_iff prune_def Let_def)

end
