(* ===== verification/Lease_Claims.thy ===== *)
theory Lease_Claims
  imports File_Journal Lease_Churn
begin

text \<open>
  What the lease manager promises, over its file journal: the bounds that hold in every state it can
  be driven to, what a reclaim gives back and spares, grants that happen whole or not at all, what
  survives a crash, the journal's round trip, and the cooldown. The \<open>demo\<close> definitions are the
  concrete managers the witnesses evaluate.
\<close>

section \<open>Leases\<close>

definition demo_acct :: accounting where
  "demo_acct = \<lparr>Capacity = 100, Reserved = 10, Borrowed = 0\<rparr>"

definition demo_lease :: "string \<Rightarrow> lease_class \<Rightarrow> int \<Rightarrow> lease" where
  "demo_lease i c n = \<lparr>lID = i, lTenant = ''t'', lClass = c, lSize = n, lGrantedAt = 0, lTerm = 1000\<rparr>"

definition demo_config :: lease_config where
  "demo_config = DefaultConfig\<lparr>Quota := \<lparr>qBorrowed = 60, qGuaranteed = 30\<rparr>\<rparr>"

text \<open>A first boot, a restore from the missing journal, and two grants; the second \<open>Save\<close> fails
  after its rename.\<close>

definition demo0 :: "file_journal manager" where
  "demo0 = New demo_acct demo_config (Some \<lparr>jfile = Missing, faults = [NoFault, AfterRename]\<rparr>)"

definition demo1 :: "file_journal manager" where
  "demo1 = snd (snd (Restore file_ops demo0 1))"

definition demo2 :: "file_journal manager" where
  "demo2 = snd (Accept file_ops demo1 (demo_lease ''a'' Opportunistic 40) 5)"

definition demo3 :: "file_journal manager" where
  "demo3 = snd (Accept file_ops demo2 (demo_lease ''b'' Elastic 20) 6)"

lemma demo_steps: "(mgr_step file_ops)\<^sup>*\<^sup>* demo0 demo3"
proof -
  have "mgr_step file_ops demo0 demo1" unfolding demo1_def by (rule step_Restore)
  moreover have "mgr_step file_ops demo1 demo2" "mgr_step file_ops demo2 demo3"
    unfolding demo2_def demo3_def by (rule step_Accept, simp add: demo_lease_def i64_defs)+
  ultimately show ?thesis by (meson converse_rtranclp_into_rtranclp rtranclp.rtrancl_refl)
qed

lemma demo_boot: "acct_ok demo_acct" "Borrowed demo_acct = 0"
  "Load \<lparr>jfile = Missing, faults = [NoFault, AfterRename]\<rparr> = Inr []"
  by (simp_all add: demo_acct_def acct_ok_def i64_defs Load_def)

lemma demo3_held: "held demo3 = {demo_lease ''a'' Opportunistic 40\<lparr>lGrantedAt := 5\<rparr>}"
  by code_simp


text \<open>
  C1. However a manager with a file journal is used, restored, crashed and
  restarted, and whatever saves fail on the way: the bytes accounted as lent are exactly the
  bytes of the leases held, lent and reserved bytes fit the device, the guaranteed leases stay
  within the guaranteed share, and no tenant but the node itself exceeds either of its quotas.
\<close>

theorem lease_bounds_hold:
  assumes "acct_ok a" "Borrowed a = 0" "Load j = Inr [] \<or> (\<exists>e. Load j = Inl e)"
    and "(mgr_step file_ops)\<^sup>*\<^sup>* (New a cf (Some j)) m"
  shows "Borrowed (acct m) = sum lSize (held m)
    \<and> Reserved (acct m) + Borrowed (acct m) \<le> Capacity (acct m)
    \<and> sum gsize (held m) \<le> max 0 (guaranteed_limit m)
    \<and> (\<forall>t. quota_bound m t \<and> 0 < qBorrowed (Quota (cfg m)) \<longrightarrow> sum (tsize t) (held m) \<le> qBorrowed (Quota (cfg m)))
    \<and> (\<forall>t. quota_bound m t \<and> 0 < qGuaranteed (Quota (cfg m)) \<longrightarrow> sum (tgsize t) (held m) \<le> qGuaranteed (Quota (cfg m)))"
proof -
  have "mgr_inv file_ops m"
    using assms by (intro fj.mgr_reach_inv [OF assms(4)] fj.New_inv) (auto simp: file_ops_def)
  then have ok: "mgr_ok m" and aff: "affords (budgets m) (held m)" by (auto simp: mgr_inv_def)
  show ?thesis
    using ok aff msum_held [OF ok, of lSize] unfolding affords_def budgets_def
    by (auto simp: mgr_ok_def acct_ok_def)
qed

theorem lease_bounds_hold_witness:
  "(mgr_step file_ops)\<^sup>*\<^sup>* demo0 demo3 \<and> Borrowed (acct demo3) = 40 \<and> sum lSize (held demo3) = 40
   \<and> Borrowed (acct demo3) = sum lSize (held demo3)"
  using lease_bounds_hold [of demo_acct "\<lparr>jfile = Missing, faults = [NoFault, AfterRename]\<rparr>" demo_config demo3]
    demo_boot demo_steps demo3_held
  by (simp add: demo0_def demo_lease_def)

text \<open>
  C2. A reclaim of a positive need takes exactly what it reports off the books, reports
  as shortfall exactly what it did not find, and reports one only when nothing but live
  guaranteed leases is left. It never takes a live guaranteed lease, leaves no expired one
  behind, takes live leases strictly cheapest first, and stops within one lease of the need.
\<close>

theorem reclaim_pays:
  assumes "mgr_ok m" "0 < need" "in_i64 need" "Reclaim J m need now = (res, m')"
  shows "Borrowed (acct m') = Borrowed (acct m) - Reclaimed res
    \<and> Shortfall res = max 0 (need - Reclaimed res)
    \<and> (0 < Shortfall res \<longrightarrow> (\<forall>l\<in>held m'. lClass l = Guaranteed \<and> \<not> Expired l now))
    \<and> held m' \<subseteq> held m
    \<and> (\<forall>l\<in>held m. lClass l = Guaranteed \<and> \<not> Expired l now \<longrightarrow> l \<in> held m')
    \<and> (\<forall>l\<in>held m'. \<not> Expired l now)
    \<and> (\<forall>l\<in>held m - held m'. \<forall>k\<in>held m'. \<not> Expired l now \<and> lClass k \<noteq> Guaranteed \<longrightarrow> reclaim_key l < reclaim_key k)
    \<and> ((\<forall>l\<in>held m - held m'. Expired l now) \<or> (\<exists>d\<in>held m - held m'. Reclaimed res < need + lSize d))"
  by (intro conjI impI) (rule Reclaim_promise [OF assms]; assumption?)+

theorem reclaim_pays_witness:
  "mgr_ok demo2 \<and> (let r = Reclaim file_ops demo2 30 7 in
     Borrowed (acct (snd r)) = Borrowed (acct demo2) - Reclaimed (fst r) \<and> Reclaimed (fst r) = 40 \<and> held (snd r) = {})"
proof -
  have ok: "mgr_ok demo2" by code_simp
  obtain res m' where r: "Reclaim file_ops demo2 30 7 = (res, m')" by force
  have "Borrowed (acct m') = Borrowed (acct demo2) - Reclaimed res"
    using reclaim_pays [OF ok _ _ r] by (simp add: i64_defs)
  moreover have "Reclaimed (fst (Reclaim file_ops demo2 30 7)) = 40" "held (snd (Reclaim file_ops demo2 30 7)) = {}"
    by code_simp+
  ultimately show ?thesis using ok r by (simp add: Let_def)
qed

text \<open>
  C10. A grant that is accepted adds exactly the lease, stamped with the time
  it was accepted, and its bytes; a grant refused for any reason, a failed save included,
  leaves the leases and the accounting as they were.
\<close>

theorem accept_whole_or_nothing:
  assumes "mgr_ok m" "in_i64 (lSize l)" "Accept J m l now = (e, m')"
  shows "mgr_ok m'
    \<and> (e = None \<longrightarrow> held m' = insert (l\<lparr>lGrantedAt := now\<rparr>) (held m) \<and> map_of (leases m) (lID l) = None
         \<and> Borrowed (acct m') = Borrowed (acct m) + lSize l \<and> Capacity (acct m') = Capacity (acct m))
    \<and> (e \<noteq> None \<longrightarrow> leases m' = leases m \<and> acct m' = acct m)"
proof -
  have ok: "mgr_ok m'" using Accept_ok [OF assms] by blast
  have yes: "held m' = insert (l\<lparr>lGrantedAt := now\<rparr>) (held m)" "map_of (leases m) (lID l) = None"
    "Borrowed (acct m') = Borrowed (acct m) + lSize l" "Capacity (acct m') = Capacity (acct m)" if "e = None"
  proof -
    note g = Accept_granted [OF assms(1,2) assms(3) [unfolded that]]
    show fresh: "map_of (leases m) (lID l) = None" using g(1) by (auto simp: accept_checks_def split: if_splits)
    show "held m' = insert (l\<lparr>lGrantedAt := now\<rparr>) (held m)" using g(5) held_grant [OF fresh] by (simp add: held_def)
    show "Borrowed (acct m') = Borrowed (acct m) + lSize l" "Capacity (acct m') = Capacity (acct m)"
      using g(4) by (simp_all add: grant_def)
  qed
  have no: "leases m' = leases m \<and> acct m' = acct m" if "e \<noteq> None"
    using Accept_refused [OF assms(1,2)] assms(3) that by blast
  show ?thesis using ok yes no by blast
qed

theorem accept_whole_or_nothing_witness:
  "fst (Accept file_ops demo1 (demo_lease ''a'' Opportunistic 40) 5) = None
   \<and> held demo2 = insert (demo_lease ''a'' Opportunistic 40\<lparr>lGrantedAt := 5\<rparr>) (held demo1)
   \<and> fst (Accept file_ops demo2 (demo_lease ''b'' Elastic 20) 6) = Some (ErrJournal ErrJournalIO)
   \<and> leases demo3 = leases demo2"
proof -
  have ok: "mgr_ok demo1" "mgr_ok demo2" by code_simp+
  have e: "fst (Accept file_ops demo1 (demo_lease ''a'' Opportunistic 40) 5) = None"
    "fst (Accept file_ops demo2 (demo_lease ''b'' Elastic 20) 6) = Some (ErrJournal ErrJournalIO)" by code_simp+
  show ?thesis
    using accept_whole_or_nothing [OF ok(1), of "demo_lease ''a'' Opportunistic 40" file_ops 5 None demo2]
      accept_whole_or_nothing [OF ok(2), of "demo_lease ''b'' Elastic 20" file_ops 6 "Some (ErrJournal ErrJournalIO)" demo3] e
    unfolding demo2_def demo3_def by (simp add: prod_eq_iff demo_lease_def i64_defs)
qed



text \<open>
  What a successful save wrote is what the next load reads, in order and to the
  last field; after a failed save the load reads the old leases or the new, never a mixture.
\<close>

theorem journal_roundtrip:
  assumes "distinct (map lID ls)" "\<forall>l\<in>set ls. class_Valid (lClass l) \<and> in_i64 (lSize l)" "Save j ls = (e, j')"
  shows "(e = None \<longrightarrow> Load j' = Inr ls) \<and> (e \<noteq> None \<longrightarrow> Load j' = Load j \<or> Load j' = Inr ls)"
  using fj.save_load [of ls j j'] fj.save_failed [of ls j _ j'] assms by (auto simp: file_ops_def storable_def)

text \<open>
  The capacity the manager says it could still promise as guaranteed is
  exactly the room left under both the guaranteed share and the device, never negative.
\<close>

theorem guaranteed_free_exact:
  assumes "mgr_ok m" "0 \<le> guaranteed_limit m" "in_i64 (guaranteed_limit m)"
  shows "GuaranteedFree m = max 0 (min (guaranteed_limit m - sum gsize (held m))
      (Capacity (acct m) - Reserved (acct m) - Borrowed (acct m)))"
  by (rule GuaranteedFree_exact [OF assms])

text \<open>
  After a reclaim the node does not lend again for the minimum term, and with
  autonomy that pause doubles with each further reclaim of the churn window, up to the window.
\<close>

theorem cooldown_doubles:
  assumes "churn_cfg (cfg m)" "0 < MinTerm (cfg m)" "reclaims m \<noteq> []"
  shows "fst (inCooldown m now) \<longleftrightarrow> now < last (reclaims m) +
    (if recent m now \<le> 1 \<or> \<not> Autonomy (cfg m) \<or> ChurnWindow (cfg m) = 0 then MinTerm (cfg m)
     else min (ChurnWindow (cfg m)) (2 ^ (recent m now - 1) * MinTerm (cfg m)))"
  using inCooldown_iff [of m now] cooldown_value [OF assms(1,2), of now] assms(2,3) by simp

text \<open>
  C22. Forgetting reclaims too old to matter changes no later answer: neither
  whether the node churns nor whether it is in its cooldown.
\<close>

theorem prune_unobservable:
  assumes "churn_cfg (cfg m)" "sorted (reclaims m)" "now \<le> t"
  shows "churning (prune m now) t = churning m t \<and> fst (inCooldown (prune m now) t) = fst (inCooldown m t)"
  using churning_prune [OF assms(1,3)] inCooldown_prune [OF assms(1,3,2)] by blast

theorem prune_unobservable_witness:
  "let m = demo2\<lparr>cfg := DefaultConfig\<lparr>MinTerm := 5, ChurnWindow := 10\<rparr>, reclaims := [1, 92, 95]\<rparr> in
     reclaims (prune m 100) = [92, 95] \<and> churning (prune m 100) 103 = churning m 103"
proof -
  let ?m = "demo2\<lparr>cfg := DefaultConfig\<lparr>MinTerm := 5, ChurnWindow := 10\<rparr>, reclaims := [1, 92, 95]\<rparr>"
  have "reclaims (prune ?m 100) = [92, 95]" by code_simp
  then show ?thesis using prune_unobservable [of ?m 100 103] by (simp add: churn_cfg_def i64_defs Let_def)
qed

end
