(* ===== verification/Go_Text.thy ===== *)
theory Go_Text
  imports Go_Base "HOL-Library.Word"
begin

text \<open>
  Bytes and text. A Go string is a list of characters, a \<open>[]byte\<close> a list of 8-bit words, and
  \<open>to_text\<close> and \<open>of_text\<close> are the conversions between them. The rest is what the components use of
  \<open>strings\<close> and \<open>strconv\<close>: prefixes and suffixes, trimming (of ASCII white space), splitting,
  decimal numbers. A decimal number is read back as it was printed.
\<close>

type_synonym bytes = "8 word list"

definition to_text :: "bytes \<Rightarrow> string" where
  "to_text b = map (\<lambda>w. char_of (unat w)) b"

definition of_text :: "string \<Rightarrow> bytes" where
  "of_text s = map (\<lambda>c. of_nat (of_char c)) s"

lemma to_of_text [simp]: "to_text (of_text s) = s"
proof -
  have "char_of (unat (of_nat (of_char c) :: 8 word)) = c" for c
  proof -
    have "(of_char c :: nat) < 256" by simp
    then show ?thesis by (simp add: unat_of_nat)
  qed
  then show ?thesis by (simp add: to_text_def of_text_def o_def)
qed

lemma byte_bound: "unat (w :: 8 word) < 256"
  using unsigned_less [of w] by simp

lemma of_to_text [simp]: "of_text (to_text b) = b"
proof -
  have "of_nat (of_char (char_of (unat w))) = w" for w :: "8 word"
  proof -
    have "unat w < 256" by (rule byte_bound)
    then show ?thesis by simp
  qed
  then show ?thesis by (simp add: to_text_def of_text_def o_def)
qed

lemma length_to_text [simp]: "length (to_text b) = length b"
  by (simp add: to_text_def)

lemma length_of_text [simp]: "length (of_text s) = length s"
  by (simp add: of_text_def)

section \<open>Prefixes, suffixes, white space\<close>

definition HasPrefix :: "string \<Rightarrow> string \<Rightarrow> bool" where
  "HasPrefix s p \<longleftrightarrow> take (length p) s = p"

definition HasSuffix :: "string \<Rightarrow> string \<Rightarrow> bool" where
  "HasSuffix s p \<longleftrightarrow> length p \<le> length s \<and> drop (length s - length p) s = p"

definition TrimSuffix :: "string \<Rightarrow> string \<Rightarrow> string" where
  "TrimSuffix s p = (if HasSuffix s p then take (length s - length p) s else s)"

definition TrimPrefix :: "string \<Rightarrow> string \<Rightarrow> string" where
  "TrimPrefix s p = (if HasPrefix s p then drop (length p) s else s)"

definition is_space :: "char \<Rightarrow> bool" where
  "is_space c \<longleftrightarrow> of_char c \<in> {9, 10, 11, 12, 13, 32 :: nat}"

definition TrimSpace :: "string \<Rightarrow> string" where
  "TrimSpace s = rev (dropWhile is_space (rev (dropWhile is_space s)))"

section \<open>Decimal numbers\<close>

definition is_digit :: "char \<Rightarrow> bool" where
  "is_digit c \<longleftrightarrow> 48 \<le> (of_char c :: nat) \<and> (of_char c :: nat) \<le> 57"

definition digits_val :: "string \<Rightarrow> int" where
  "digits_val ds = foldl (\<lambda>n c. 10 * n + (of_char c - 48)) 0 ds"

text \<open>A sign, as \<open>strconv.Atoi\<close> and \<open>big.Rat.SetString\<close> read one.\<close>

definition take_sign :: "string \<Rightarrow> bool \<times> string" where
  "take_sign s = (case s of [] \<Rightarrow> (False, [])
     | c # r \<Rightarrow> if c = CHR ''-'' then (True, r) else if c = CHR ''+'' then (False, r) else (False, c # r))"

definition Atoi :: "string \<Rightarrow> int option" where
  "Atoi s =
     (case take_sign s of
        (neg, ds) \<Rightarrow>
          if ds = [] \<or> \<not> list_all is_digit ds then None
          else let n = (if neg then - digits_val ds else digits_val ds)
               in if in_i64 n then Some n else None)"

lemma is_digit_char: "k < 10 \<Longrightarrow> is_digit (char_of (48 + k :: nat))"
  by (simp add: is_digit_def)

lemma dec_nat_digits: "list_all is_digit (dec_nat n) \<and> dec_nat n \<noteq> []"
proof (induction n rule: dec_nat.induct)
  case (1 n)
  then show ?case by (subst (1 2) dec_nat.simps) (auto simp: is_digit_char)
qed

lemma digit_value: "k < 10 \<Longrightarrow> of_char (char_of (48 + k :: nat)) = (48 + int k)"
  using of_nat_of_char [of "char_of (48 + k)", where 'a = int] by simp

lemma digits_val_snoc: "digits_val (ds @ [c]) = 10 * digits_val ds + (of_char c - 48)"
  by (simp add: digits_val_def)

lemma digits_val_dec: "digits_val (dec_nat n) = int n"
proof (induction n rule: dec_nat.induct)
  case (1 n)
  show ?case
  proof (cases "n < 10")
    case True
    then show ?thesis by (subst dec_nat.simps) (simp add: digits_val_def digit_value)
  next
    case False
    have "digits_val (dec_nat n) = 10 * int (n div 10) + int (n mod 10)"
      using False 1 by (subst dec_nat.simps) (simp add: digits_val_snoc digit_value)
    moreover have "10 * (n div 10) + n mod 10 = n" by simp
    ultimately show ?thesis by (metis of_nat_add of_nat_mult of_nat_numeral)
  qed
qed

lemma dec_nat_length: "0 < k \<Longrightarrow> n < 10 ^ k \<Longrightarrow> length (dec_nat n) \<le> k"
proof (induction n arbitrary: k rule: dec_nat.induct)
  case (1 n)
  show ?case
  proof (cases "n < 10")
    case True
    then show ?thesis using 1 by (subst dec_nat.simps) simp
  next
    case False
    then obtain j where k: "k = Suc j" "0 < j" using 1(2,3) by (cases k; cases "k - 1") auto
    then have "n div 10 < 10 ^ j" using 1(3) by (simp add: less_mult_imp_div_less mult.commute)
    then show ?thesis using False 1(1) [OF False k(2)] k by (subst dec_nat.simps) simp
  qed
qed

lemma digits_no_space: "list_all is_digit s \<Longrightarrow> \<forall>c\<in>set s. \<not> is_space c"
  by (auto simp: list_all_iff is_digit_def is_space_def)

lemma TrimSpace_id:
  assumes "s = [] \<or> \<not> is_space (hd s)" "s = [] \<or> \<not> is_space (last s)"
  shows "TrimSpace s = s"
proof -
  have "dropWhile is_space s = s" using assms(1) by (cases s) auto
  moreover have "dropWhile is_space (rev s) = rev s"
    using assms(2) by (cases "rev s") (auto simp: hd_rev [symmetric])
  ultimately show ?thesis by (simp add: TrimSpace_def)
qed

datatype num_error = ErrSyntax | ErrRange

text \<open>\<open>strconv.ParseInt(s, 10, 64)\<close>: the value comes with the error, 0 for a text that is no number and
  the nearest end of the range for one out of it.\<close>

definition ParseInt :: "string \<Rightarrow> int \<times> num_error option" where
  "ParseInt s =
     (case take_sign s of
        (neg, ds) \<Rightarrow>
          if ds = [] \<or> \<not> list_all is_digit ds then (0, Some ErrSyntax)
          else let n = (if neg then - digits_val ds else digits_val ds)
               in if max_i64 < n then (max_i64, Some ErrRange)
                  else if n < min_i64 then (min_i64, Some ErrRange) else (n, None))"

text \<open>\<open>strconv.ParseUint(s, 10, bits)\<close>.\<close>

definition ParseUint :: "string \<Rightarrow> nat \<Rightarrow> nat \<times> num_error option" where
  "ParseUint s bits =
     (if s = [] \<or> \<not> list_all is_digit s then (0, Some ErrSyntax)
      else let n = nat (digits_val s) in if 2 ^ bits \<le> n then (2 ^ bits - 1, Some ErrRange) else (n, None))"

lemma digit_not_sign: "is_digit c \<Longrightarrow> c \<noteq> CHR ''-'' \<and> c \<noteq> CHR ''+''"
  by (auto simp: is_digit_def)

lemma take_sign_digits: "list_all is_digit ds \<Longrightarrow> take_sign ds = (False, ds)"
  by (cases ds) (auto simp: take_sign_def dest: digit_not_sign)

lemma ParseInt_dec: "in_i64 n \<Longrightarrow> ParseInt (dec_int n) = (n, None)"
  using dec_nat_digits [of "nat n"] dec_nat_digits [of "nat (- n)"]
  by (auto simp: ParseInt_def dec_int_def take_sign_digits digits_val_dec i64_defs)
    (auto simp: take_sign_def digits_val_dec i64_defs)

lemma ParseInt_range: "in_i64 (fst (ParseInt s))"
  by (auto simp: ParseInt_def Let_def i64_defs split: prod.splits)

lemma ParseUint_dec: "n < 2 ^ bits \<Longrightarrow> ParseUint (dec_nat n) bits = (n, None)"
  using dec_nat_digits [of n] by (simp add: ParseUint_def digits_val_dec)

section \<open>Big-endian numbers\<close>

text \<open>\<open>binary.BigEndian\<close>: the last \<open>n\<close> bytes of a number, most significant first, and back.\<close>

primrec be_bytes :: "nat \<Rightarrow> nat \<Rightarrow> bytes" where
  "be_bytes 0 v = []"
| "be_bytes (Suc n) v = be_bytes n (v div 256) @ [of_nat v]"

definition be_val :: "bytes \<Rightarrow> nat" where
  "be_val bs = foldl (\<lambda>a b. 256 * a + unat b) 0 bs"

lemma length_be_bytes [simp]: "length (be_bytes n v) = n"
  by (induction n arbitrary: v) simp_all

lemma be_val_bytes [simp]: "be_val (be_bytes n v) = v mod 256 ^ n"
proof (induction n arbitrary: v)
  case (Suc n)
  have "be_val (be_bytes (Suc n) v) = 256 * be_val (be_bytes n (v div 256)) + v mod 256"
    by (simp add: be_val_def unat_of_nat)
  then show ?case using Suc by (simp add: mod_mult2_eq)
qed (simp add: be_val_def)

lemma be_val_bound: "be_val bs < 256 ^ length bs"
proof (induction bs rule: rev_induct)
  case (snoc b bs)
  have "unat b < 256" by (rule byte_bound)
  moreover have "256 * be_val bs + 256 \<le> 256 * 256 ^ length bs" using snoc by simp
  ultimately show ?case by (simp add: be_val_def)
qed (simp add: be_val_def)

lemma be_bytes_val [simp]: "be_bytes (length bs) (be_val bs) = bs"
proof (induction bs rule: rev_induct)
  case (snoc b bs)
  have "unat b < 256" by (rule byte_bound)
  then have "(256 * be_val bs + unat b) div 256 = be_val bs" by simp
  moreover have "of_nat (256 * be_val bs + unat b) = b"
  proof (rule unsigned_word_eqI)
    show "unat (of_nat (256 * be_val bs + unat b) :: 8 word) = unat b"
      using \<open>unat b < 256\<close> by (simp add: unat_of_nat del: of_nat_add of_nat_mult)
  qed
  ultimately show ?case using snoc by (simp add: be_val_def)
qed simp

text \<open>A 64-bit signed integer as the unsigned one of the same bits, and back.\<close>

definition u64_of :: "int \<Rightarrow> nat" where
  "u64_of x = nat (x mod 18446744073709551616)"

definition i64_of :: "nat \<Rightarrow> int" where
  "i64_of n = wrap64 (int n)"

lemma u64_of_bound: "u64_of x < 18446744073709551616"
  by (simp add: u64_of_def nat_less_iff)

lemma i64_of_u64: "in_i64 x \<Longrightarrow> i64_of (u64_of x) = x"
proof -
  assume x: "in_i64 x"
  have "wrap64 (x mod 18446744073709551616) = wrap64 x"
    unfolding wrap64_def by (simp add: mod_add_left_eq)
  then show ?thesis using x by (simp add: i64_of_def u64_of_def wrap64_id)
qed

lemma u64_of_i64: "n < 18446744073709551616 \<Longrightarrow> u64_of (i64_of n) = n"
proof -
  assume n: "n < 18446744073709551616"
  have "wrap64 (int n) mod 18446744073709551616 = int n mod 18446744073709551616"
    unfolding wrap64_def by (simp add: mod_diff_left_eq)
  then show ?thesis using n by (simp add: u64_of_def i64_of_def)
qed

section \<open>Splitting\<close>

text \<open>\<open>strings.Split\<close> with a one-byte separator, and \<open>strings.Cut\<close>.\<close>

fun Split :: "string \<Rightarrow> char \<Rightarrow> string list" where
  "Split [] sep = [[]]"
| "Split (c # s) sep =
     (if c = sep then [] # Split s sep
      else case Split s sep of [] \<Rightarrow> [[c]] | w # ws \<Rightarrow> (c # w) # ws)"

definition Cut :: "string \<Rightarrow> char \<Rightarrow> string \<times> string \<times> bool" where
  "Cut s sep =
     (if sep \<in> set s then (takeWhile (\<lambda>c. c \<noteq> sep) s, tl (dropWhile (\<lambda>c. c \<noteq> sep) s), True) else (s, [], False))"

fun Join :: "string list \<Rightarrow> string \<Rightarrow> string" where
  "Join [] sep = []"
| "Join [s] sep = s"
| "Join (s # t # ss) sep = s @ sep @ Join (t # ss) sep"

lemma Split_nonempty [simp]: "Split s sep \<noteq> []"
  by (induction s sep rule: Split.induct) (auto split: list.splits)

lemma Join_Split: "Join (Split s sep) [sep] = s"
proof (induction s sep rule: Split.induct)
  case (2 c s sep)
  then show ?case by (cases "Split s sep"; cases "tl (Split s sep)") auto
qed simp

lemma Split_no_sep: "\<forall>w\<in>set (Split s sep). sep \<notin> set w"
proof (induction s sep rule: Split.induct)
  case (2 c s sep)
  then have "\<forall>w\<in>set (Split s sep). sep \<notin> set w" by (cases "c = sep") blast+
  then show ?case by (cases "Split s sep") simp_all
qed simp

lemma Cut_join: "Cut s sep = (a, b, True) \<Longrightarrow> s = a @ sep # b \<and> sep \<notin> set a"
proof (induction s arbitrary: a)
  case (Cons c s)
  show ?case
  proof (cases "c = sep")
    case False
    then have "Cut s sep = (tl a, b, True) \<and> a = c # tl a" using Cons.prems by (auto simp: Cut_def split: if_splits)
    then show ?thesis using Cons.IH [of "tl a"] False by (metis append_Cons set_ConsD)
  qed (use Cons.prems in \<open>auto simp: Cut_def\<close>)
qed (simp add: Cut_def)

end
