(* ===== verification/Node_Agent.thy ===== *)
theory Node_Agent
  imports File_Journal Go_Text
begin

text \<open>
  Package agent (\<open>internal/agent/agent.go\<close>, \<open>extent.go\<close>): the owner of a node's borrowed pool. The
  state is the directory of the pool (file names with the bytes allocated to each) and the lease
  manager over its file journal. Each system call that can fail has its outcome as an argument,
  so every failure the source handles is a branch here; the callbacks \<open>OnGranted\<close> and
  \<open>OnReleasing\<close> are the fast tier's \<open>AddCapacity\<close> and \<open>Revoke\<close> (\<open>Tier_Race\<close> runs them) and change
  nothing of this state.

  The lemmas: an accepted identifier names a file directly inside the pool that is neither one of
  the agent's own nor one on its way out; every lease held has an extent of its size on disk,
  kept by every operation short of a failed unlink; and startup makes the journal and the disk
  agree whatever it finds.
\<close>

section \<open>Names\<close>

definition agentFilePrefix :: string where
  "agentFilePrefix = ''.forebay-''"

definition lockName :: string where
  "lockName = agentFilePrefix @ ''node.lock''"

definition heartbeatName :: string where
  "heartbeatName = agentFilePrefix @ ''heartbeat''"

definition invalidSuffix :: string where
  "invalidSuffix = ''.invalid''"

datatype agent_error =
    ErrLocked | ErrNoPoolDir | ErrNestedPools | ErrBadLeaseID | ErrNoExtent | ErrDeadlineMissed
  | ErrFS | ErrLease lease_error | ErrUnlinked

text \<open>
  \<open>filepath.Clean\<close> of a name without a separator is the name itself, or a dot for the empty one;
  the last case of the source's switch is reached only for such names.
\<close>

definition validLeaseID :: "string \<Rightarrow> agent_error option" where
  "validLeaseID i =
     (if i = '''' \<or> i = ''.'' \<or> i = ''..'' then Some ErrBadLeaseID
      else if HasPrefix i agentFilePrefix then Some ErrBadLeaseID
      else if HasSuffix i invalidSuffix then Some ErrBadLeaseID
      else if CHR ''/'' \<in> set i then Some ErrBadLeaseID
      else if i \<noteq> (if i = '''' then ''.'' else i) then Some ErrBadLeaseID
      else None)"

text \<open>A file of the pool is named by its last path element.\<close>

definition ExtentPath :: "string \<Rightarrow> agent_error + string" where
  "ExtentPath i = (case validLeaseID i of Some e \<Rightarrow> Inl e | None \<Rightarrow> Inr i)"

section \<open>The layout check\<close>

text \<open>
  Absolute paths are lists of elements. \<open>filepath.Rel\<close> of two absolute paths climbs out of what the
  base has beyond the common prefix and descends into the rest of the target.
\<close>

fun common_prefix :: "string list \<Rightarrow> string list \<Rightarrow> nat" where
  "common_prefix (x # xs) (y # ys) = (if x = y then Suc (common_prefix xs ys) else 0)"
| "common_prefix _ _ = 0"

definition Rel :: "string list \<Rightarrow> string list \<Rightarrow> string list" where
  "Rel base target =
     (let n = common_prefix base target;
          r = replicate (length base - n) ''..'' @ drop n target
      in if r = [] then [''.''] else r)"

fun join_slash :: "string list \<Rightarrow> string" where
  "join_slash [] = ''''"
| "join_slash [x] = x"
| "join_slash (x # y # xs) = x @ ''/'' @ join_slash (y # xs)"

definition hasDotDotPrefix :: "string \<Rightarrow> bool" where
  "hasDotDotPrefix rel \<longleftrightarrow> 2 \<le> length rel \<and> rel ! 0 = CHR ''.'' \<and> rel ! 1 = CHR ''.''"

definition path_within :: "string list \<Rightarrow> string list \<Rightarrow> bool" where
  "path_within parent child =
     (let rel = join_slash (Rel parent child) in rel \<noteq> ''..'' \<and> \<not> hasDotDotPrefix rel)"

record agent_config =
  BorrowedDir :: "string list option"
  JournalDir :: "string list option"
  acLease :: lease_config

text \<open>\<open>None\<close> is a path that was not configured; \<open>JournalDir\<close> is the directory of \<open>JournalPath\<close>.\<close>

definition agent_Validate :: "agent_config \<Rightarrow> agent_error option" where
  "agent_Validate c =
     (case (BorrowedDir c, JournalDir c) of
        (Some b, Some j) \<Rightarrow>
          if b = j \<or> path_within b j then Some ErrNestedPools
          else map_option ErrLease (quota_Validate (Quota (acLease c)))
      | _ \<Rightarrow> Some ErrNoPoolDir)"

section \<open>The agent\<close>

record agent =
  a_cfg :: agent_config
  a_dir :: "(string, int) gomap"
  a_leases :: "file_journal manager"

text \<open>The outcomes of the system calls of \<open>allocate\<close> after the name was free.\<close>

datatype alloc_fault = AllocOk | CreateFails | ReserveFails bool | CloseFails

definition allocate :: "alloc_fault \<Rightarrow> agent \<Rightarrow> string \<Rightarrow> int \<Rightarrow> agent_error option \<times> agent" where
  "allocate fl a i bytes =
     (case ExtentPath i of
        Inl e \<Rightarrow> (Some e, a)
      | Inr path \<Rightarrow>
          if map_of (a_dir a) path \<noteq> None \<or> fl = CreateFails then (Some ErrFS, a)
          else case fl of
                 ReserveFails removed \<Rightarrow>
                   (Some ErrFS, if removed then a else a\<lparr>a_dir := AList.update path 0 (a_dir a)\<rparr>)
               | CloseFails \<Rightarrow> (Some ErrFS, a\<lparr>a_dir := AList.update path bytes (a_dir a)\<rparr>)
               | _ \<Rightarrow> (None, a\<lparr>a_dir := AList.update path bytes (a_dir a)\<rparr>))"

definition Grant :: "alloc_fault \<Rightarrow> agent \<Rightarrow> lease \<Rightarrow> time \<Rightarrow> agent_error option \<times> agent" where
  "Grant fl a l now =
     (case Accept file_ops (a_leases a) l now of
        (Some e, m) \<Rightarrow> (Some (ErrLease e), a\<lparr>a_leases := m\<rparr>)
      | (None, m) \<Rightarrow>
          (case allocate fl (a\<lparr>a_leases := m\<rparr>) (lID l) (lSize l) of
             (Some e, a1) \<Rightarrow>
               (case Release file_ops (a_leases a1) (lID l) now of
                  (_, _, m1) \<Rightarrow> (Some e, a1\<lparr>a_leases := m1\<rparr>))
           | (None, a1) \<Rightarrow> (None, a1)))"

text \<open>\<open>discard\<close> renames and then removes. Either call can fail; a rename replaces its target.\<close>

datatype discard_fault = DiscardOk | RenameFails | RemoveFails

definition discard :: "discard_fault \<Rightarrow> agent \<Rightarrow> string \<Rightarrow> agent_error option \<times> agent" where
  "discard fl a i =
     (case ExtentPath i of
        Inl e \<Rightarrow> (Some e, a)
      | Inr path \<Rightarrow>
          (case map_of (a_dir a) path of
             None \<Rightarrow> (Some ErrNoExtent, a)
           | Some n \<Rightarrow>
               if fl = RenameFails then (Some ErrFS, a)
               else if fl = RemoveFails
               then (Some ErrFS, a\<lparr>a_dir := AList.update (path @ invalidSuffix) n (AList.delete path (a_dir a))\<rparr>)
               else (None, a\<lparr>a_dir := AList.delete (path @ invalidSuffix) (AList.delete path (a_dir a))\<rparr>)))"

definition agent_Release :: "discard_fault \<Rightarrow> agent \<Rightarrow> string \<Rightarrow> time \<Rightarrow> int \<times> agent_error option \<times> agent" where
  "agent_Release fl a i now =
     (case discard fl a i of
        (Some e, a1) \<Rightarrow> (0, Some e, a1)
      | (None, a1) \<Rightarrow>
          (case Release file_ops (a_leases a1) i now of
             (n, e, m) \<Rightarrow> (n, map_option ErrLease e, a1\<lparr>a_leases := m\<rparr>)))"

record reclamation =
  rcResult :: reclaim_result
  rcElapsed :: duration
  rcDeadline :: duration
  rcOverran :: bool
  rcFailed :: "string list"

text \<open>The loop of \<open>ReclaimCapacity\<close> over the leases that were dropped, with a fault for each.\<close>

fun discard_loop :: "discard_fault list \<Rightarrow> agent \<Rightarrow> string list \<Rightarrow> string list \<Rightarrow> string list \<times> agent" where
  "discard_loop fls a [] failed = (failed, a)"
| "discard_loop fls a (i # is) failed =
     (let fl = (case fls of [] \<Rightarrow> DiscardOk | f # _ \<Rightarrow> f) in
      case discard fl a i of
        (e, a1) \<Rightarrow>
          discard_loop (tl fls) a1 is
            (if e \<noteq> None \<and> e \<noteq> Some ErrNoExtent then failed @ [i] else failed))"

definition ReclaimCapacity ::
    "discard_fault list \<Rightarrow> duration \<Rightarrow> agent \<Rightarrow> int \<Rightarrow> time \<Rightarrow> reclamation \<times> agent_error option \<times> agent" where
  "ReclaimCapacity fls elapsed a need now =
     (case Reclaim file_ops (a_leases a) need now of
        (res, m) \<Rightarrow>
          (case discard_loop fls (a\<lparr>a_leases := m\<rparr>) (Dropped res) [] of
             (failed, a1) \<Rightarrow>
               (let deadline = (if rBounded res then ReclaimWithin (acLease (a_cfg a)) else 0);
                    overran = (0 < deadline \<and> deadline < elapsed);
                    rec = \<lparr>rcResult = res, rcElapsed = elapsed, rcDeadline = deadline, rcOverran = overran,
                           rcFailed = failed\<rparr>
                in (rec, if failed \<noteq> [] then Some ErrUnlinked
                         else if overran then Some ErrDeadlineMissed else None, a1))))"

section \<open>Starting\<close>

definition invalidatedExtents :: "string list \<Rightarrow> string list" where
  "invalidatedExtents entries = filter (\<lambda>n. HasSuffix n invalidSuffix) entries"

record reconciliation =
  InvalidatedExtents :: "string list"
  Leftovers :: "string list"
  OrphanExtents :: "string list"
  LeasesWithoutExtents :: "string list"
  rExpired :: "string list"
  rUnfittable :: "string list"
  JournalRecovered :: "journal_error option"

definition no_rec :: reconciliation where
  "no_rec = \<lparr>InvalidatedExtents = [], Leftovers = [], OrphanExtents = [], LeasesWithoutExtents = [],
     rExpired = [], rUnfittable = [], JournalRecovered = None\<rparr>"

text \<open>
  The loop over the entries of the pool: the names still on disk afterwards, what is reported, and
  the directory. \<open>bad\<close> is the set of names whose removal fails.
\<close>

fun sweep :: "string set \<Rightarrow> string list \<Rightarrow> string list \<Rightarrow> (string, int) gomap \<Rightarrow> string list \<Rightarrow> reconciliation
    \<Rightarrow> agent_error option \<times> string list \<times> reconciliation \<times> (string, int) gomap" where
  "sweep bad live [] d seen rec = (None, seen, rec, d)"
| "sweep bad live (n # ns) d seen rec =
     (if n = lockName \<or> n = heartbeatName then sweep bad live ns d seen rec
      else if HasPrefix n agentFilePrefix
      then (if n \<in> bad then (Some ErrFS, seen, rec, d)
            else sweep bad live ns (AList.delete n d) seen (rec\<lparr>Leftovers := Leftovers rec @ [n]\<rparr>))
      else if n \<in> set live then sweep bad live ns d (n # seen) rec
      else if n \<in> bad then (Some ErrFS, n # seen, rec, d)
      else sweep bad live ns (AList.delete n d) (n # seen)
             (if HasSuffix n invalidSuffix then rec else rec\<lparr>OrphanExtents := OrphanExtents rec @ [n]\<rparr>))"

fun drop_missing :: "string list \<Rightarrow> string list \<Rightarrow> time \<Rightarrow> file_journal manager \<Rightarrow> reconciliation
    \<Rightarrow> agent_error option \<times> reconciliation \<times> file_journal manager" where
  "drop_missing interrupted [] now m rec = (None, rec, m)"
| "drop_missing interrupted (i # is) now m rec =
     (case Release file_ops m i now of
        (_, Some e, m1) \<Rightarrow> (Some (ErrLease e), rec, m1)
      | (_, None, m1) \<Rightarrow>
          drop_missing interrupted is now m1
            (if i \<in> set interrupted then rec
             else rec\<lparr>LeasesWithoutExtents := LeasesWithoutExtents rec @ [i]\<rparr>))"

definition reconcile :: "string set \<Rightarrow> agent \<Rightarrow> time \<Rightarrow> agent_error option \<times> reconciliation \<times> agent" where
  "reconcile bad a now =
     (let entries = sort (map fst (a_dir a));
          rec = no_rec\<lparr>InvalidatedExtents := invalidatedExtents entries\<rparr>;
          interrupted = map (\<lambda>n. TrimSuffix n invalidSuffix) (InvalidatedExtents rec);
          live = map lID (leasesLocked (a_leases a))
      in case sweep bad live entries (a_dir a) [] rec of
           (Some e, _, rec1, d) \<Rightarrow> (Some e, rec1, a\<lparr>a_dir := d\<rparr>)
         | (None, onDisk, rec1, d) \<Rightarrow>
             (let missing = sort (filter (\<lambda>i. i \<notin> set onDisk) live) in
              case drop_missing interrupted missing now (a_leases a) rec1 of
                (e, rec2, m) \<Rightarrow> (e, rec2, a\<lparr>a_dir := d, a_leases := m\<rparr>)))"

text \<open>
  \<open>Heartbeat\<close> leaves the published file, or nothing new. \<open>Open\<close> gets the directory and the journal it
  finds, and the outcomes of the calls it makes: whether the directories could be made, the lock
  file opened and locked, the heartbeat published and the pool verified.
\<close>

definition Heartbeat :: "bool \<Rightarrow> agent \<Rightarrow> agent_error option \<times> agent" where
  "Heartbeat works a = (if works then (None, a\<lparr>a_dir := AList.update heartbeatName 0 (a_dir a)\<rparr>) else (Some ErrFS, a))"

record open_env =
  oMkdir :: bool
  oOpenLock :: bool
  oLock :: bool
  oBad :: "string set"
  oHeartbeat :: bool
  oVerify :: bool

definition Open :: "open_env \<Rightarrow> agent_config \<Rightarrow> accounting \<Rightarrow> (string, int) gomap \<Rightarrow> file_journal \<Rightarrow> time
    \<Rightarrow> agent_error + agent \<times> reconciliation" where
  "Open env c acc d j now =
     (case agent_Validate c of
        Some e \<Rightarrow> Inl e
      | None \<Rightarrow>
          if \<not> oMkdir env then Inl ErrFS
          else if \<not> oOpenLock env then Inl ErrFS
          else if \<not> oLock env then Inl ErrLocked
          else
            (let d1 = (if map_of d lockName = None then AList.update lockName 0 d else d) in
             case Restore file_ops (New acc (acLease c) (Some j)) now of
               (res, jerr, m) \<Rightarrow>
                 if jerr \<noteq> None \<and> jerr \<noteq> Some ErrCorrupt then Inl (ErrLease (ErrJournal (the jerr)))
                 else
                   (case reconcile (oBad env) \<lparr>a_cfg = c, a_dir = d1, a_leases = m\<rparr> now of
                      (rerr, rec, a1) \<Rightarrow>
                        (case Heartbeat (oHeartbeat env) a1 of
                           (Some e, _) \<Rightarrow> Inl e
                         | (None, a2) \<Rightarrow>
                             if rerr \<noteq> None then Inl (the rerr)
                             else if \<not> oVerify env then Inl ErrFS
                             else Inr (a2, rec\<lparr>rExpired := Dropped res, rUnfittable := Unfittable res,
                                               JournalRecovered := jerr\<rparr>)))))"

section \<open>Names of extents\<close>

lemma HasPrefix_append [simp]: "HasPrefix (p @ s) p"
  by (simp add: HasPrefix_def)

lemma HasSuffix_append [simp]: "HasSuffix (s @ p) p"
  by (simp add: HasSuffix_def)

lemma validLeaseID_None:
  "validLeaseID i = None \<longleftrightarrow> i \<notin> {'''', ''.'', ''..''} \<and> CHR ''/'' \<notin> set i
     \<and> \<not> HasPrefix i agentFilePrefix \<and> \<not> HasSuffix i invalidSuffix"
  by (auto simp: validLeaseID_def)

lemma ExtentPath_Inr [simp]: "ExtentPath i = Inr p \<longleftrightarrow> p = i \<and> validLeaseID i = None"
  by (auto simp: ExtentPath_def split: option.splits)

lemma valid_apart:
  assumes "validLeaseID i = None"
  shows "i \<noteq> j @ invalidSuffix" and "i \<noteq> lockName" and "i \<noteq> heartbeatName"
  using assms by (auto simp: validLeaseID_None lockName_def heartbeatName_def)

section \<open>Every lease has its extent\<close>

definition backed :: "agent \<Rightarrow> bool" where
  "backed a \<longleftrightarrow> (\<forall>l\<in>held (a_leases a). validLeaseID (lID l) = None \<and> map_of (a_dir a) (lID l) = Some (lSize l))"

definition agent_ok :: "agent \<Rightarrow> bool" where
  "agent_ok a \<longleftrightarrow> mgr_ok (a_leases a) \<and> backed a"

lemma allocate_cases:
  assumes "allocate fl a i n = (e, a')"
  shows "a_leases a' = a_leases a"
    and "e = None \<Longrightarrow> validLeaseID i = None \<and> map_of (a_dir a) i = None \<and> a_dir a' = AList.update i n (a_dir a)"
    and "e \<noteq> None \<Longrightarrow> a_dir a' = a_dir a \<or> validLeaseID i = None \<and> map_of (a_dir a) i = None
        \<and> (\<exists>k. a_dir a' = AList.update i k (a_dir a)) \<and> fl \<in> {ReserveFails False, CloseFails}"
  using assms
  by (auto simp: allocate_def ExtentPath_def split: option.splits if_splits alloc_fault.splits)

lemma held_insert_grant:
  assumes "mgr_ok m" "in_i64 (lSize l)" "Accept J m l now = (None, m1)"
  shows "held m1 = insert (l\<lparr>lGrantedAt := now\<rparr>) (held m)" and "map_of (leases m) (lID l) = None" and "mgr_ok m1"
proof -
  note g = Accept_granted [OF assms]
  show fresh: "map_of (leases m) (lID l) = None" using accept_checks_fresh [OF g(1)] by simp
  have "held m1 = held (grant m l now)" using g(5) by (simp add: held_def)
  then show "held m1 = insert (l\<lparr>lGrantedAt := now\<rparr>) (held m)" using held_grant [OF fresh] by simp
  show "mgr_ok m1" by (rule Accept_ok(1) [OF assms])
qed

lemma id_not_held: "mgr_ok m \<Longrightarrow> map_of (leases m) i = None \<Longrightarrow> l \<in> held m \<Longrightarrow> lID l \<noteq> i"
  using mgr_ok_lookup [of m i l] by auto

text \<open>
  \<open>Grant\<close> on every path: the lease is held and its extent has exactly its size, or nothing more is
  held than before; the disk keeps a stray file only when a call failed after creating one.
\<close>

lemma Grant_cases:
  assumes ok: "agent_ok a" and sz: "in_i64 (lSize l)" and run: "Grant fl a l now = (e, a')"
  shows "agent_ok a'"
    and "e = None \<Longrightarrow> held (a_leases a') = insert (l\<lparr>lGrantedAt := now\<rparr>) (held (a_leases a))
        \<and> a_dir a' = AList.update (lID l) (lSize l) (a_dir a) \<and> map_of (a_dir a) (lID l) = None"
    and "e \<noteq> None \<Longrightarrow> held (a_leases a') = held (a_leases a)
        \<and> (fl \<notin> {ReserveFails False, CloseFails} \<longrightarrow> a_dir a' = a_dir a)"
proof -
  let ?m = "a_leases a"
  have mok: "mgr_ok ?m" and bk: "backed a" using ok by (auto simp: agent_ok_def)
  obtain e1 m1 where acc: "Accept file_ops ?m l now = (e1, m1)" by force
  have "agent_ok a' \<and> (e = None \<longrightarrow> held (a_leases a') = insert (l\<lparr>lGrantedAt := now\<rparr>) (held ?m)
        \<and> a_dir a' = AList.update (lID l) (lSize l) (a_dir a) \<and> map_of (a_dir a) (lID l) = None)
      \<and> (e \<noteq> None \<longrightarrow> held (a_leases a') = held ?m \<and> (fl \<notin> {ReserveFails False, CloseFails} \<longrightarrow> a_dir a' = a_dir a))"
  proof (cases e1)
    case (Some x)
    then have a': "a' = a\<lparr>a_leases := m1\<rparr>" "e = Some (ErrLease x)" using run acc by (simp_all add: Grant_def)
    have "held m1 = held ?m" using Accept_refused(2) [OF mok sz] acc Some by (simp add: held_def)
    then show ?thesis
      using Accept_ok(1) [OF mok sz acc] bk by (simp add: a' agent_ok_def backed_def)
  next
    case None
    note h = held_insert_grant [OF mok sz acc [unfolded None]]
    have ne: "\<forall>k\<in>held ?m. lID k \<noteq> lID l" using id_not_held [OF mok h(2)] by blast
    obtain e2 a1 where al: "allocate fl (a\<lparr>a_leases := m1\<rparr>) (lID l) (lSize l) = (e2, a1)" by force
    note ac = allocate_cases [OF al, simplified]
    show ?thesis
    proof (cases e2)
      case n2: None
      then have a': "a' = a1" "e = None" using run acc None al by (simp_all add: Grant_def)
      have "a_dir a' = AList.update (lID l) (lSize l) (a_dir a)" "validLeaseID (lID l) = None" "map_of (a_dir a) (lID l) = None"
        using ac n2 a' by simp_all
      then show ?thesis
        using h ne bk ac(1) a' by (auto simp: agent_ok_def backed_def map_of_update_if)
    next
      case (Some y)
      obtain n e3 m3 where rel: "Release file_ops m1 (lID l) now = (n, e3, m3)" by (metis prod_cases3)
      then have a': "a' = a1\<lparr>a_leases := m3\<rparr>" "e = Some y"
        using run acc None al Some ac(1) by (simp_all add: Grant_def)
      have h3: "held m3 = held ?m"
        using Release_ok(5) [OF h(3) rel] h(1) ne by auto
      have "backed a'"
        using bk h3 ne ac(3) Some by (auto simp: backed_def a' map_of_update_if)
      then show ?thesis
        using Release_ok(1) [OF h(3) rel] h3 ac(3) Some by (auto simp: a' agent_ok_def)
    qed
  qed
  then show "agent_ok a'"
    "e = None \<Longrightarrow> held (a_leases a') = insert (l\<lparr>lGrantedAt := now\<rparr>) (held (a_leases a))
        \<and> a_dir a' = AList.update (lID l) (lSize l) (a_dir a) \<and> map_of (a_dir a) (lID l) = None"
    "e \<noteq> None \<Longrightarrow> held (a_leases a') = held (a_leases a)
        \<and> (fl \<notin> {ReserveFails False, CloseFails} \<longrightarrow> a_dir a' = a_dir a)" by auto
qed

text \<open>\<open>discard\<close> touches the extent it is given and the name it renames it to, and no other.\<close>

lemma discard_cases:
  assumes "discard fl a i = (e, a')"
  shows "a_leases a' = a_leases a"
    and "j \<noteq> i \<Longrightarrow> validLeaseID j = None \<Longrightarrow> map_of (a_dir a') j = map_of (a_dir a) j"
    and "e = None \<Longrightarrow> validLeaseID i = None \<and> map_of (a_dir a) i \<noteq> None \<and> map_of (a_dir a') i = None"
    and "e \<noteq> None \<Longrightarrow> fl \<noteq> RemoveFails \<Longrightarrow> a_dir a' = a_dir a"
proof -
  show "a_leases a' = a_leases a"
    using assms by (auto simp: discard_def ExtentPath_def split: option.splits if_splits)
  show "map_of (a_dir a') j = map_of (a_dir a) j" if "j \<noteq> i" "validLeaseID j = None"
    using assms that valid_apart(1) [OF that(2), of i]
    by (auto simp: discard_def ExtentPath_def map_of_delete_if map_of_update_if split: option.splits if_splits)
  show "e = None \<Longrightarrow> validLeaseID i = None \<and> map_of (a_dir a) i \<noteq> None \<and> map_of (a_dir a') i = None"
    using assms by (auto simp: discard_def ExtentPath_def map_of_delete_if split: option.splits if_splits)
  show "e \<noteq> None \<Longrightarrow> fl \<noteq> RemoveFails \<Longrightarrow> a_dir a' = a_dir a"
    using assms by (auto simp: discard_def ExtentPath_def split: option.splits if_splits)
qed

lemma agent_Release_ok:
  assumes ok: "agent_ok a" and fl: "fl \<noteq> RemoveFails" and run: "agent_Release fl a i now = (n, e, a')"
  shows "agent_ok a'"
proof -
  obtain e1 a1 where d: "discard fl a i = (e1, a1)" by force
  note dc = discard_cases [OF d]
  show ?thesis
  proof (cases e1)
    case (Some x)
    then have "a' = a1" using run d by (simp add: agent_Release_def)
    then show ?thesis using ok dc fl Some by (simp add: agent_ok_def backed_def)
  next
    case None
    obtain n1 e2 m where r: "Release file_ops (a_leases a) i now = (n1, e2, m)" by (metis prod_cases3)
    then have a': "a' = a1\<lparr>a_leases := m\<rparr>" using run d None dc(1) by (simp add: agent_Release_def)
    have mok: "mgr_ok (a_leases a)" using ok by (simp add: agent_ok_def)
    note ro = Release_ok [OF mok r]
    have "backed a'"
      using ok ro(5) dc(2) by (auto simp: a' backed_def agent_ok_def)
    then show ?thesis using ro(1) by (simp add: agent_ok_def a')
  qed
qed

lemma discard_loop_cases:
  assumes "discard_loop fls a ids failed = (failed', a')"
  shows "a_leases a' = a_leases a \<and> (j \<notin> set ids \<longrightarrow> validLeaseID j = None \<longrightarrow> map_of (a_dir a') j = map_of (a_dir a) j)"
  using assms
proof (induction ids arbitrary: fls a failed)
  case (Cons i ids)
  obtain e a1 where d: "discard (case fls of [] \<Rightarrow> DiscardOk | f # _ \<Rightarrow> f) a i = (e, a1)" by force
  obtain failed1 where "discard_loop (tl fls) a1 ids failed1 = (failed', a')"
    using Cons.prems d by (auto simp: Let_def)
  from Cons.IH [OF this] show ?case using discard_cases(1,2) [OF d] by auto
qed simp

lemma discard_loop_clean:
  assumes "discard_loop [] a ids failed = (failed', a')" "distinct ids"
    "\<forall>i\<in>set ids. validLeaseID i = None \<and> map_of (a_dir a) i \<noteq> None"
  shows "failed' = failed \<and> (\<forall>i\<in>set ids. map_of (a_dir a') i = None)"
  using assms
proof (induction ids arbitrary: a)
  case (Cons i ids)
  obtain e a1 where d: "discard DiscardOk a i = (e, a1)" by force
  have i: "e = None" "map_of (a_dir a1) i = None"
    using d Cons.prems discard_cases(3) [OF d] by (auto simp: discard_def ExtentPath_def split: option.splits)
  have rest: "\<forall>j\<in>set ids. validLeaseID j = None \<and> map_of (a_dir a1) j \<noteq> None"
    using Cons.prems discard_cases(2) [OF d] by (metis distinct.simps(2) list.set_intros(2))
  have l: "discard_loop [] a1 ids failed = (failed', a')" using Cons.prems d i by (simp add: Let_def)
  have "map_of (a_dir a') i = map_of (a_dir a1) i"
    using discard_loop_cases [OF l, of i] Cons.prems by simp
  then show ?case using Cons.IH [OF l _ rest] Cons.prems i by simp
qed simp

lemma ReclaimCapacity_ok:
  assumes ok: "agent_ok a" and need: "in_i64 need" and run: "ReclaimCapacity fls t a need now = (rec, e, a')"
  shows "agent_ok a'"
    and "fls = [] \<Longrightarrow> rcFailed rec = [] \<and> (\<forall>i\<in>set (Dropped (rcResult rec)). map_of (a_dir a') i = None)"
proof -
  let ?m = "a_leases a"
  have mok: "mgr_ok ?m" and bk: "backed a" using ok by (auto simp: agent_ok_def)
  obtain res m where r: "Reclaim file_ops ?m need now = (res, m)" by force
  obtain failed a1 where l: "discard_loop fls (a\<lparr>a_leases := m\<rparr>) (Dropped res) [] = (failed, a1)" by force
  have out: "a' = a1" "rcResult rec = res" "rcFailed rec = failed"
    using run r l by (auto simp: ReclaimCapacity_def Let_def)
  have lm: "a_leases a' = m" using discard_loop_cases [OF l] out by simp
  have held': "held m \<subseteq> held ?m \<and> (\<forall>l\<in>held m. lID l \<notin> set (Dropped res))
      \<and> set (Dropped res) \<subseteq> lID ` held ?m \<and> distinct (Dropped res)"
  proof (cases "0 < need")
    case False
    then show ?thesis using r by (auto simp: Reclaim_nonpos no_result_def)
  next
    case True
    obtain es ts where tk: "reclaim_takes ?m need now = (es, ts)" by force
    note c = Reclaim_closed [OF mok True need r tk] and th = reclaim_takes_held [OF mok tk]
    have "held m = held (forget ?m (es @ ts))" using c(7) by (simp add: held_def)
    then show ?thesis using c(2) th by (auto simp: held_forget [OF mok])
  qed
  have "mgr_ok m" by (rule Reclaim_ok(1) [OF mok need r])
  moreover have "backed a'"
    using bk held' discard_loop_cases [OF l] lm out by (auto simp: backed_def)
  ultimately show "agent_ok a'" using lm by (simp add: agent_ok_def)
  show "rcFailed rec = [] \<and> (\<forall>i\<in>set (Dropped (rcResult rec)). map_of (a_dir a') i = None)" if "fls = []"
  proof -
    have "\<forall>i\<in>set (Dropped res). validLeaseID i = None \<and> map_of (a_dir a) i \<noteq> None"
      using held' bk by (force simp: backed_def)
    then show ?thesis
      using discard_loop_clean [OF l [unfolded that]] held' out by simp
  qed
qed

text \<open>
  A failed unlink in \<open>Release\<close> leaves the lease accounted for with no extent, and releasing it again
  fails the same way every time: the rename has already happened.
\<close>

lemma agent_Release_stuck:
  assumes "validLeaseID i = None" "map_of (a_dir a) i = Some n" "map_of (leases (a_leases a)) i = Some l"
    and "agent_Release RemoveFails a i now = (k, e, a1)"
  shows "k = 0 \<and> e = Some ErrFS \<and> map_of (leases (a_leases a1)) i = Some l
    \<and> agent_Release fl a1 i later = (0, Some ErrNoExtent, a1)"
proof -
  have a1: "a1 = a\<lparr>a_dir := AList.update (i @ invalidSuffix) n (AList.delete i (a_dir a))\<rparr>" "k = 0" "e = Some ErrFS"
    using assms by (auto simp: agent_Release_def discard_def ExtentPath_def)
  have "map_of (a_dir a1) i = None"
    using valid_apart(1) [OF assms(1), of i] by (simp add: a1 map_of_update_if map_of_delete_if)
  then show ?thesis
    using assms by (simp add: a1 agent_Release_def discard_def ExtentPath_def)
qed

section \<open>Startup\<close>

definition own_file :: "string \<Rightarrow> bool" where
  "own_file n \<longleftrightarrow> n = lockName \<or> n = heartbeatName"

lemma own_file_prefix: "own_file n \<Longrightarrow> HasPrefix n agentFilePrefix"
  by (auto simp: own_file_def lockName_def heartbeatName_def)

definition stays :: "string list \<Rightarrow> string \<Rightarrow> bool" where
  "stays live n \<longleftrightarrow> own_file n \<or> \<not> HasPrefix n agentFilePrefix \<and> n \<in> set live"

lemma sweep_None:
  assumes "sweep bad live ns d seen rec = (None, seen', rec', d')"
  shows "map_of d' j = (if j \<in> set ns \<and> \<not> stays live j then None else map_of d j)"
    and "set seen' = set seen \<union> {n \<in> set ns. \<not> HasPrefix n agentFilePrefix}"
proof -
  have "map_of d' j = (if j \<in> set ns \<and> \<not> stays live j then None else map_of d j)
      \<and> set seen' = set seen \<union> {n \<in> set ns. \<not> HasPrefix n agentFilePrefix}"
    using assms
  proof (induction bad live ns d seen rec rule: sweep.induct)
    case (2 bad live n ns d seen rec)
    then show ?case
      using own_file_prefix [of n]
      by (auto simp: stays_def own_file_def map_of_delete_if split: if_splits)
  qed simp
  then show "map_of d' j = (if j \<in> set ns \<and> \<not> stays live j then None else map_of d j)"
    "set seen' = set seen \<union> {n \<in> set ns. \<not> HasPrefix n agentFilePrefix}" by auto
qed

lemma drop_missing_None:
  assumes "drop_missing ir ids now m rec = (None, rec', m')" "mgr_ok m"
  shows "mgr_ok m' \<and> held m' = {l \<in> held m. lID l \<notin> set ids}"
  using assms
proof (induction ids arbitrary: m rec)
  case (Cons i ids)
  obtain n e m1 where r: "Release file_ops m i now = (n, e, m1)" by (metis prod_cases3)
  note ro = Release_ok [OF Cons.prems(2) r]
  obtain rec1 where "drop_missing ir ids now m1 rec1 = (None, rec', m')"
    using Cons.prems(1) r by (auto split: option.splits)
  then show ?case using Cons.IH [OF _ ro(1)] ro(5) by auto
qed simp

lemma reconcile_None:
  assumes ok: "mgr_ok (a_leases a)" and run: "reconcile bad a now = (None, rec, a')"
  shows "mgr_ok (a_leases a')"
    and "held (a_leases a') = {l \<in> held (a_leases a). map_of (a_dir a) (lID l) \<noteq> None \<and> \<not> HasPrefix (lID l) agentFilePrefix}"
    and "map_of (a_dir a') n = (if own_file n \<or> \<not> HasPrefix n agentFilePrefix \<and> n \<in> lID ` held (a_leases a)
          then map_of (a_dir a) n else None)"
proof -
  let ?entries = "sort (map fst (a_dir a))" and ?live = "map lID (leasesLocked (a_leases a))"
  obtain rec0 seen rec1 d where sw: "sweep bad ?live ?entries (a_dir a) [] rec0 = (None, seen, rec1, d)"
    and dm: "\<exists>ir rec2. drop_missing ir (sort (filter (\<lambda>i. i \<notin> set seen) ?live)) now (a_leases a) rec1 = (None, rec2, a_leases a')"
    and d: "a_dir a' = d"
    using run by (auto simp: reconcile_def Let_def split: prod.splits option.splits) blast
  note s = sweep_None [OF sw]
  have live: "set ?live = lID ` held (a_leases a)" by simp
  have dom: "n \<in> set ?entries \<longleftrightarrow> map_of (a_dir a) n \<noteq> None" for n
    by (simp add: map_of_eq_None_iff)
  have seen: "n \<in> set seen \<longleftrightarrow> map_of (a_dir a) n \<noteq> None \<and> \<not> HasPrefix n agentFilePrefix" for n
    using s(2) dom [of n] by auto
  obtain ir rec2 where "drop_missing ir (sort (filter (\<lambda>i. i \<notin> set seen) ?live)) now (a_leases a) rec1 = (None, rec2, a_leases a')"
    using dm by blast
  from drop_missing_None [OF this ok]
  show "mgr_ok (a_leases a')"
    "held (a_leases a') = {l \<in> held (a_leases a). map_of (a_dir a) (lID l) \<noteq> None \<and> \<not> HasPrefix (lID l) agentFilePrefix}"
    using seen by auto
  show "map_of (a_dir a') n = (if own_file n \<or> \<not> HasPrefix n agentFilePrefix \<and> n \<in> lID ` held (a_leases a)
      then map_of (a_dir a) n else None)"
    using s(1) [of n] dom [of n] d live unfolding stays_def by auto
qed

text \<open>Whatever the directory and the journal hold, an agent that starts has one extent per lease and
  nothing else in its pool but its own two files.\<close>

lemma Open_agrees:
  assumes acc: "acct_ok acc" "Borrowed acc = 0" and run: "Open env c acc d j now = Inr (a, rec)"
  shows "mgr_ok (a_leases a)"
    and "{n. map_of (a_dir a) n \<noteq> None} = lID ` held (a_leases a) \<union> {lockName, heartbeatName}"
    and "n \<in> lID ` held (a_leases a) \<Longrightarrow> map_of (a_dir a) n = map_of d n"
proof -
  let ?d1 = "if map_of d lockName = None then AList.update lockName 0 d else d"
  obtain res jerr m where r: "Restore file_ops (New acc (acLease c) (Some j)) now = (res, jerr, m)" by (metis prod_cases3)
  have mok: "mgr_ok m" using fj.Restore_ok(1) [OF New_ok [OF acc] r] .
  obtain rec1 a1 where rc: "reconcile (oBad env) \<lparr>a_cfg = c, a_dir = ?d1, a_leases = m\<rparr> now = (None, rec1, a1)"
    and a: "a = a1\<lparr>a_dir := AList.update heartbeatName 0 (a_dir a1)\<rparr>"
    using run r by (auto simp: Open_def Let_def Heartbeat_def split: option.splits if_splits prod.splits)
  note rn = reconcile_None [OF _ rc, simplified, OF mok]
  show "mgr_ok (a_leases a)" using rn(1) by (simp add: a)
  have np: "\<not> HasPrefix n agentFilePrefix" if "n \<in> lID ` held (a_leases a)" for n
    using that rn(2) by (auto simp: a)
  have held: "n \<in> lID ` held (a_leases a) \<longleftrightarrow> n \<in> lID ` held m \<and> map_of ?d1 n \<noteq> None \<and> \<not> HasPrefix n agentFilePrefix" for n
    using rn(2) by (auto simp: a)
  have dir: "map_of (a_dir a) n = (if n = heartbeatName then Some 0
      else if n = lockName then map_of ?d1 n
      else if \<not> HasPrefix n agentFilePrefix \<and> n \<in> lID ` held m then map_of ?d1 n else None)" for n
    using rn(3) [of n] by (auto simp: a map_of_update_if own_file_def)
  have lock: "map_of ?d1 lockName \<noteq> None" by (auto simp: map_of_update_if)
  have "map_of (a_dir a) n \<noteq> None \<longleftrightarrow> n \<in> lID ` held (a_leases a) \<or> n = lockName \<or> n = heartbeatName" for n
    unfolding dir [of n] held [of n] using lock by (cases "n = heartbeatName"; cases "n = lockName"; simp; argo)
  then show "{n. map_of (a_dir a) n \<noteq> None} = lID ` held (a_leases a) \<union> {lockName, heartbeatName}"
    by blast
  show "map_of (a_dir a) n = map_of d n" if "n \<in> lID ` held (a_leases a)"
  proof -
    have "n \<noteq> lockName" "n \<noteq> heartbeatName" using np [OF that] own_file_prefix by (auto simp: own_file_def)
    then show ?thesis using dir [of n] held [of n] that by (auto simp: map_of_update_if)
  qed
qed

section \<open>The journal outside the pool\<close>

lemma common_prefix_le: "common_prefix xs ys \<le> length xs"
  by (induction xs ys rule: common_prefix.induct) auto

lemma common_prefix_full: "common_prefix xs ys = length xs \<longleftrightarrow> take (length xs) ys = xs"
  by (induction xs ys rule: common_prefix.induct) auto

lemma join_slash_Cons: "join_slash (x # xs) = x @ (if xs = [] then '''' else CHR ''/'' # join_slash xs)"
  by (cases xs) auto

lemma hasDotDot_join:
  assumes "x \<noteq> ''''" "\<not> hasDotDotPrefix x"
  shows "\<not> hasDotDotPrefix (join_slash (x # xs))"
proof (cases x)
  case (Cons a y)
  then show ?thesis using assms by (cases y) (auto simp: join_slash_Cons hasDotDotPrefix_def)
qed (use assms in simp)

text \<open>
  The check for a journal inside the pool is exact for directories whose names do not begin with
  two dots.
\<close>

lemma path_within_iff:
  assumes "\<forall>x\<in>set child. x \<noteq> '''' \<and> \<not> hasDotDotPrefix x"
  shows "path_within parent child \<longleftrightarrow> take (length parent) child = parent"
proof (cases "take (length parent) child = parent")
  case True
  then have n: "common_prefix parent child = length parent" by (simp add: common_prefix_full)
  show ?thesis
  proof (cases "drop (length parent) child")
    case Nil
    then show ?thesis using True n by (simp add: path_within_def Rel_def Let_def hasDotDotPrefix_def)
  next
    case (Cons x xs)
    have "x \<in> set child" using Cons by (metis in_set_dropD list.set_intros(1))
    then have x: "x \<noteq> ''''" "\<not> hasDotDotPrefix x" using assms by auto
    have "\<not> hasDotDotPrefix (join_slash (x # xs))" by (rule hasDotDot_join [OF x])
    moreover have "join_slash (x # xs) \<noteq> ''..''" using calculation by (auto simp: hasDotDotPrefix_def)
    moreover have "\<not> length child \<le> length parent" using Cons by (metis drop_all list.distinct(1))
    ultimately show ?thesis using True n Cons by (simp add: path_within_def Rel_def Let_def)
  qed
next
  case False
  then have "common_prefix parent child < length parent"
    using common_prefix_le [of parent child] common_prefix_full [of parent child] by linarith
  then obtain k where k: "length parent - common_prefix parent child = Suc k"
    by (metis Suc_diff_Suc)
  have "hasDotDotPrefix (join_slash (Rel parent child))"
    using k by (auto simp: Rel_def Let_def join_slash_Cons hasDotDotPrefix_def)
  then show ?thesis using False by (simp add: path_within_def)
qed

end
