(* ===== verification/Pressure.thy ===== *)
theory Pressure
  imports Node_Agent
begin

text \<open>
  The pressure watch (\<open>internal/agent/pressure.go\<close>): what decides that compute needs its disk back.
  One pass, \<open>Step\<close>, measures free space, settles the floor this pass has to keep, asks the sources
  for what they see coming, and reclaims the largest need. A source is an interface in the code;
  here a source is its name and the answer it would give to a floor and the free space, and
  \<open>demand_source\<close> states what the sources promise. The two the agent has are in \<open>Volumes\<close> and
  \<open>Kubelet\<close>.
\<close>

section \<open>Observations\<close>

record pressure =
  pSource :: string
  pNeed :: int

definition shortfall_step :: "pressure \<Rightarrow> pressure \<Rightarrow> pressure" where
  "shortfall_step worst ob = (if pNeed worst < pNeed ob then ob else worst)"

definition no_pressure :: pressure where
  "no_pressure = \<lparr>pSource = ''none'', pNeed = 0\<rparr>"

text \<open>The function \<open>Shortfall\<close>; the name without a prefix is the field of a reclaim result.\<close>

definition worst_pressure :: "pressure list \<Rightarrow> pressure" where
  "worst_pressure observed = foldl shortfall_step no_pressure observed"

record watch_config =
  Headroom :: int
  HeadroomFor :: duration
  MinHeadroom :: int
  Interval :: duration

datatype watch_error = ErrNoHeadroom | ErrTwoFloors | ErrNoMinimum | ErrInterval

definition watch_Validate :: "watch_config \<Rightarrow> watch_error option" where
  "watch_Validate c =
     (if Headroom c \<le> 0 \<and> HeadroomFor c \<le> 0 then Some ErrNoHeadroom
      else if 0 < Headroom c \<and> 0 < HeadroomFor c then Some ErrTwoFloors
      else if 0 < HeadroomFor c \<and> MinHeadroom c \<le> 0 then Some ErrNoMinimum
      else if Interval c \<le> 0 then Some ErrInterval
      else None)"

section \<open>The floor\<close>

text \<open>\<open>time.Duration.Seconds\<close>: whole seconds and the rest, in floating point; Go's division truncates.\<close>

definition Seconds :: "duration \<Rightarrow> float64" where
  "Seconds d = f64_add (f64_of_int (sgn d * (\<bar>d\<bar> div Second)))
                       (f64_div (f64_of_int (sgn d * (\<bar>d\<bar> mod Second))) 1000000000)"

record rate_estimator =
  re_free :: int
  re_borrowed :: int
  re_at :: time
  re_have :: bool

definition rate_observe :: "rate_estimator \<Rightarrow> int \<Rightarrow> int \<Rightarrow> time \<Rightarrow> (float64 \<times> bool) \<times> rate_estimator" where
  "rate_observe r free borrowed now =
     (let r' = \<lparr>re_free = free, re_borrowed = borrowed, re_at = now, re_have = True\<rparr> in
      if \<not> re_have r then ((0, False), r')
      else let elapsed = Seconds (time_sub now (re_at r)) in
      if elapsed \<le> 0 then ((0, False), r')
      else let took = f64_add (f64_of_int (wrap64 (re_free r - free))) (f64_of_int (wrap64 (re_borrowed r - borrowed)));
               took = (if took < 0 then 0 else took)
           in ((f64_div took elapsed, True), r'))"

definition target :: "watch_config \<Rightarrow> float64 \<Rightarrow> bool \<Rightarrow> int" where
  "target c rate known =
     (if 0 < Headroom c then Headroom c
      else if \<not> known then MinHeadroom c
      else let want = i64_of_f64 (f64_mul rate (Seconds (HeadroomFor c)))
           in if MinHeadroom c < want then want else MinHeadroom c)"

section \<open>One pass\<close>

text \<open>
  What a source answers: a need, a need with an error that wraps \<open>Partial\<close>, or another error. The
  time limit \<open>observe\<close> puts on a source turns a source that hangs into one that fails.
\<close>

datatype answer = Need int | PartialNeed int | SourceFails

record source =
  sName :: string
  sObserve :: "watch_config \<Rightarrow> int \<Rightarrow> answer"

record tick =
  tObserved :: pressure
  tReclaimed :: int
  tDegraded :: "string list"
  tShortfall :: int
  tTarget :: int
  tRate :: float64
  tElapsed :: duration
  tBounded :: bool

definition no_tick :: tick where
  "no_tick = \<lparr>tObserved = \<lparr>pSource = '''', pNeed = 0\<rparr>, tReclaimed = 0, tDegraded = [], tShortfall = 0,
     tTarget = 0, tRate = 0, tElapsed = 0, tBounded = False\<rparr>"

fun ask_sources :: "watch_config \<Rightarrow> int \<Rightarrow> source list \<Rightarrow> pressure list \<times> string list" where
  "ask_sources c available [] = ([], [])"
| "ask_sources c available (s # ss) =
     (case ask_sources c available ss of
        (ps, ds) \<Rightarrow>
          (case sObserve s c available of
             Need n \<Rightarrow> (\<lparr>pSource = sName s, pNeed = n\<rparr> # ps, ds)
           | PartialNeed n \<Rightarrow> (\<lparr>pSource = sName s, pNeed = n\<rparr> # ps, sName s # ds)
           | SourceFails \<Rightarrow> (ps, sName s # ds)))"

record watch_state =
  wAgent :: agent
  wRate :: rate_estimator

text \<open>The first half of \<open>Step\<close>: the rate, the floor, and the observation that drives the pass.\<close>

definition observe_pass :: "watch_state \<Rightarrow> watch_config \<Rightarrow> int \<Rightarrow> time \<Rightarrow> source list \<Rightarrow> tick \<times> watch_state" where
  "observe_pass w c available now sources =
     (case rate_observe (wRate w) available (Borrowed (acct (a_leases (wAgent w)))) now of
        ((rate, known), r') \<Rightarrow>
          let tgt = target c rate known;
              asked = ask_sources (c\<lparr>Headroom := tgt\<rparr>) available sources;
              worst = worst_pressure (\<lparr>pSource = ''free space'', pNeed = wrap64 (tgt - available)\<rparr> # fst asked)
          in (no_tick\<lparr>tTarget := tgt, tRate := rate, tDegraded := snd asked, tObserved := worst\<rparr>, w\<lparr>wRate := r'\<rparr>))"

text \<open>\<open>free\<close> is what \<open>FreeSpace\<close> answers, \<open>fls\<close> and \<open>elapsed\<close> are what \<open>ReclaimCapacity\<close> meets and takes,
  \<open>beat\<close> whether the heartbeat can be published.\<close>

definition Step :: "int option \<Rightarrow> discard_fault list \<Rightarrow> duration \<Rightarrow> bool \<Rightarrow> watch_state \<Rightarrow> watch_config \<Rightarrow> time
    \<Rightarrow> source list \<Rightarrow> tick \<times> agent_error option \<times> watch_state" where
  "Step free fls elapsed beat w c now sources =
     (case free of
        None \<Rightarrow> (no_tick, Some ErrFS, w)
      | Some available \<Rightarrow>
          (case observe_pass w c available now sources of
             (t, w1) \<Rightarrow>
               if 0 < pNeed (tObserved t)
               then (case ReclaimCapacity fls elapsed (wAgent w1) (pNeed (tObserved t)) now of
                       (rec, err, a1) \<Rightarrow>
                         let t2 = t\<lparr>tReclaimed := Reclaimed (rcResult rec), tShortfall := Shortfall (rcResult rec),
                                    tElapsed := rcElapsed rec, tBounded := rBounded (rcResult rec)\<rparr>
                         in if err \<noteq> None \<and> err \<noteq> Some ErrDeadlineMissed then (t2, err, w1\<lparr>wAgent := a1\<rparr>)
                            else (t2, fst (Heartbeat beat a1), w1\<lparr>wAgent := snd (Heartbeat beat a1)\<rparr>))
               else (t, fst (Heartbeat beat (wAgent w1)), w1\<lparr>wAgent := snd (Heartbeat beat (wAgent w1))\<rparr>)))"

section \<open>What a pass guarantees\<close>

lemma foldl_shortfall:
  "pNeed (foldl shortfall_step w ps) = Max (insert (pNeed w) (pNeed ` set ps))"
proof (induction ps arbitrary: w)
  case (Cons p ps)
  have "pNeed (shortfall_step w p) = max (pNeed w) (pNeed p)" by (simp add: shortfall_step_def)
  then show ?case
    using Cons by (cases "ps = []") (simp_all add: insert_commute max.assoc max.left_commute max.commute)
qed simp

text \<open>The largest need and never the sum; without any need, none.\<close>

lemma worst_pressure_need: "pNeed (worst_pressure ps) = Max (insert 0 (pNeed ` set ps))"
  by (simp add: worst_pressure_def foldl_shortfall no_pressure_def)

lemma worst_pressure_ge: "p \<in> set ps \<Longrightarrow> pNeed p \<le> pNeed (worst_pressure ps)"
  by (simp add: worst_pressure_need)

lemma foldl_shortfall_mem: "foldl shortfall_step w ps \<in> insert w (set ps)"
  by (induction ps arbitrary: w) (auto simp: shortfall_step_def)

lemma worst_pressure_mem: "0 < pNeed (worst_pressure ps) \<Longrightarrow> worst_pressure ps \<in> set ps"
  using foldl_shortfall_mem [of no_pressure ps] by (auto simp: worst_pressure_def no_pressure_def)

lemma target_floor:
  assumes "watch_Validate c = None"
  shows "0 < target c rate known" and "0 < Headroom c \<Longrightarrow> target c rate known = Headroom c"
    and "Headroom c \<le> 0 \<Longrightarrow> MinHeadroom c \<le> target c rate known"
  using assms by (auto simp: watch_Validate_def target_def Let_def split: if_splits)

lemma target_range:
  "in_i64 (Headroom c) \<Longrightarrow> in_i64 (MinHeadroom c) \<Longrightarrow> in_i64 (target c rate known)"
  by (simp add: target_def Let_def i64_of_f64_range)

text \<open>The sources' answers are 64-bit values.\<close>

definition answer_range :: "answer \<Rightarrow> bool" where
  "answer_range a = (case a of Need n \<Rightarrow> in_i64 n | PartialNeed n \<Rightarrow> in_i64 n | SourceFails \<Rightarrow> True)"

lemma ask_sources_range:
  assumes "\<forall>s\<in>set ss. answer_range (sObserve s c av)" "ask_sources c av ss = (ps, ds)"
  shows "\<forall>p\<in>set ps. in_i64 (pNeed p)"
  using assms
proof (induction ss arbitrary: ps ds)
  case (Cons s ss)
  obtain ps1 ds1 where r: "ask_sources c av ss = (ps1, ds1)" by force
  then show ?case
    using Cons by (cases "sObserve s c av") (auto simp: answer_range_def)
qed simp

lemma observe_pass_need:
  assumes run: "observe_pass w c available now ss = (t, w1)" and v: "watch_Validate c = None"
    and av: "0 \<le> available" "in_i64 available" and c: "in_i64 (Headroom c)" "in_i64 (MinHeadroom c)"
    and ss: "\<forall>s\<in>set ss. \<forall>cf. answer_range (sObserve s cf available)"
  shows "tTarget t - available \<le> pNeed (tObserved t)" and "in_i64 (pNeed (tObserved t))" and "0 \<le> pNeed (tObserved t)"
    and "wAgent w1 = wAgent w" and "0 < tTarget t" and "in_i64 (tTarget t)" and "tReclaimed t = 0" and "tShortfall t = 0"
proof -
  obtain rate known r' where r: "rate_observe (wRate w) available (Borrowed (acct (a_leases (wAgent w)))) now = ((rate, known), r')"
    by (metis surj_pair)
  obtain ps ds where a: "ask_sources (c\<lparr>Headroom := target c rate known\<rparr>) available ss = (ps, ds)" by force
  have t: "tTarget t = target c rate known" "wAgent w1 = wAgent w" "tReclaimed t = 0" "tShortfall t = 0"
    "tObserved t = worst_pressure (\<lparr>pSource = ''free space'', pNeed = wrap64 (tTarget t - available)\<rparr> # ps)"
    using run r a by (auto simp: observe_pass_def Let_def no_tick_def)
  show pos: "0 < tTarget t" and rng: "in_i64 (tTarget t)"
    using target_floor(1) [OF v] target_range [OF c] by (simp_all add: t(1))
  have w: "wrap64 (tTarget t - available) = tTarget t - available"
    using pos rng av by (intro wrap64_id) (auto simp: i64_defs)
  have "\<forall>p\<in>set ps. in_i64 (pNeed p)" using ask_sources_range [OF _ a] ss by blast
  then have "\<forall>n\<in>insert 0 (insert (tTarget t - available) (pNeed ` set ps)). in_i64 n"
    using pos rng av by (auto simp: i64_defs)
  moreover have m: "pNeed (tObserved t) = Max (insert 0 (insert (tTarget t - available) (pNeed ` set ps)))"
    using t(5) w by (simp add: worst_pressure_need)
  ultimately show "in_i64 (pNeed (tObserved t))" by (metis Max_in finite_imageI finite_insert finite_set insert_not_empty)
  show "tTarget t - available \<le> pNeed (tObserved t)" "0 \<le> pNeed (tObserved t)"
    unfolding m by (rule Max_ge, simp, simp)+
qed (use run in \<open>auto simp: observe_pass_def Let_def no_tick_def split: prod.splits\<close>)

lemma Heartbeat_agent_ok: "agent_ok a \<Longrightarrow> agent_ok (snd (Heartbeat b a))"
  using valid_apart(3) by (auto simp: Heartbeat_def agent_ok_def backed_def map_of_update_if)

text \<open>
  A pass keeps the agent consistent, and either restores the floor or reports exactly what is
  missing with nothing left that it could have taken.
\<close>

lemma Step_floor:
  assumes run: "Step (Some available) fls elapsed beat w c now ss = (t, e, w')" and v: "watch_Validate c = None"
    and av: "0 \<le> available" "in_i64 available" and c: "in_i64 (Headroom c)" "in_i64 (MinHeadroom c)"
    and ss: "\<forall>s\<in>set ss. \<forall>cf. answer_range (sObserve s cf available)" and ok: "agent_ok (wAgent w)"
  shows "agent_ok (wAgent w')" and "tTarget t \<le> available + tReclaimed t + tShortfall t"
    and "0 < tShortfall t \<Longrightarrow> \<forall>l\<in>held (a_leases (wAgent w')). lClass l = Guaranteed \<and> \<not> Expired l now"
proof -
  obtain t1 w1 where o: "observe_pass w c available now ss = (t1, w1)" by force
  note on = observe_pass_need [OF o v av c ss]
  have ok1: "agent_ok (wAgent w1)" using ok on(4) by simp
  have m1: "mgr_ok (a_leases (wAgent w1))" using ok1 by (simp add: agent_ok_def)
  have hb: "a_leases (snd (Heartbeat b a)) = a_leases a" for b a by (simp add: Heartbeat_def)
  have "agent_ok (wAgent w') \<and> tTarget t \<le> available + tReclaimed t + tShortfall t
      \<and> (0 < tShortfall t \<longrightarrow> (\<forall>l\<in>held (a_leases (wAgent w')). lClass l = Guaranteed \<and> \<not> Expired l now))"
  proof (cases "0 < pNeed (tObserved t1)")
    case False
    then have "t = t1" "wAgent w' = snd (Heartbeat beat (wAgent w1))" using run o by (auto simp: Step_def)
    then show ?thesis using on False ok1 Heartbeat_agent_ok by auto
  next
    case True
    obtain rec err a1 where rc: "ReclaimCapacity fls elapsed (wAgent w1) (pNeed (tObserved t1)) now = (rec, err, a1)"
      by (metis prod_cases3)
    have w': "wAgent w' = a1 \<or> wAgent w' = snd (Heartbeat beat a1)" and
      t: "tReclaimed t = Reclaimed (rcResult rec)" "tShortfall t = Shortfall (rcResult rec)" "tTarget t = tTarget t1"
      using run o True rc by (auto simp: Step_def Let_def split: if_splits)
    obtain m where r: "Reclaim file_ops (a_leases (wAgent w1)) (pNeed (tObserved t1)) now = (rcResult rec, m)"
      and m: "a_leases a1 = m"
      using rc discard_loop_cases by (fastforce simp: ReclaimCapacity_def Let_def split: prod.splits)
    note p = Reclaim_promise [OF m1 True on(2) r]
    show ?thesis
      using w' t p(2,3) on(1) ReclaimCapacity_ok(1) [OF ok1 on(2) rc] Heartbeat_agent_ok m hb by auto
  qed
  then show "agent_ok (wAgent w')" "tTarget t \<le> available + tReclaimed t + tShortfall t"
    "0 < tShortfall t \<Longrightarrow> \<forall>l\<in>held (a_leases (wAgent w')). lClass l = Guaranteed \<and> \<not> Expired l now" by auto
qed

section \<open>The promise of a demand source\<close>

text \<open>
  The sources that know a demand before it is written report, for a floor and the free space, what
  is missing once the demand is met. The law holds where the arithmetic stays within 64 bits.
\<close>

locale demand_source =
  fixes need :: "'s \<Rightarrow> int \<Rightarrow> int \<Rightarrow> int" and demand :: "'s \<Rightarrow> int" and known :: "'s \<Rightarrow> bool"
  assumes demand_nonneg: "known s \<Longrightarrow> 0 \<le> demand s \<and> in_i64 (demand s)"
    and need_exact: "known s \<Longrightarrow> 0 \<le> hr \<Longrightarrow> 0 \<le> available \<Longrightarrow> in_i64 available \<Longrightarrow>
      hr - available + demand s \<le> max_i64 \<Longrightarrow> need s hr available = hr - available + demand s"
begin

lemma need_covers:
  assumes "known s" "0 \<le> hr" "0 \<le> available" "in_i64 available" "hr - available + demand s \<le> max_i64"
    and "need s hr available \<le> reclaimed"
  shows "hr \<le> available + reclaimed - demand s"
  using need_exact [OF assms(1-5)] assms(6) by simp

lemma need_above_free_space:
  assumes "known s" "0 \<le> hr" "0 \<le> available" "in_i64 available" "hr - available + demand s \<le> max_i64"
  shows "hr - available \<le> need s hr available"
  using need_exact [OF assms] demand_nonneg [OF assms(1)] by simp

end

text \<open>The arithmetic both sources use, and when it is exact.\<close>

definition source_need :: "int \<Rightarrow> int \<Rightarrow> int \<Rightarrow> int" where
  "source_need bytes hr available = wrap64 (hr - wrap64 (available - bytes))"

lemma source_need_exact:
  assumes "0 \<le> bytes" "in_i64 bytes" "0 \<le> hr" "0 \<le> available" "in_i64 available"
    and "hr - available + bytes \<le> max_i64"
  shows "source_need bytes hr available = hr - available + bytes"
proof -
  have "wrap64 (available - bytes) = available - bytes"
    using assms by (intro wrap64_id) (auto simp: i64_defs)
  moreover have "wrap64 (hr - (available - bytes)) = hr - (available - bytes)"
    using assms by (intro wrap64_id) (auto simp: i64_defs)
  ultimately show ?thesis by (simp add: source_need_def)
qed

text \<open>Beyond that it wraps, and the largest demand of all reads as none.\<close>

lemma source_need_wraps:
  assumes "0 \<le> available" "available < hr" "in_i64 hr"
  shows "source_need max_i64 hr available < 0"
proof -
  have "wrap64 (available - max_i64) = available - max_i64"
    using assms by (intro wrap64_id) (auto simp: i64_defs)
  moreover have "hr - (available - max_i64) = hr - available + max_i64" by simp
  moreover have "wrap64 (hr - available + max_i64) = hr - available + max_i64 - 18446744073709551616"
    using wrap64_add_nonneg [of "hr - available" max_i64] assms by (simp add: i64_defs)
  ultimately have "source_need max_i64 hr available = hr - available + max_i64 - 18446744073709551616"
    unfolding source_need_def by metis
  then show ?thesis using assms by (simp add: i64_defs)
qed

end
