(* ===== verification/Volumes.thy ===== *)
theory Volumes
  imports Pressure
begin

text \<open>
  Package volumes (\<open>internal/volumes/volumes.go\<close>): the volumes the node has been asked to serve, and
  the demand they are. The registry is a map from a volume to its size. The total saturates
  instead of wrapping, and does not depend on the order in which the map is visited.
\<close>

type_synonym registry = "(string, int) gomap"

definition NewRegistry :: registry where
  "NewRegistry = []"

definition Published :: "registry \<Rightarrow> string \<Rightarrow> int \<Rightarrow> registry" where
  "Published r i bytes =
     (if i = '''' then r else AList.update i (if bytes < 0 then 0 else bytes) r)"

definition Unpublished :: "registry \<Rightarrow> string \<Rightarrow> registry" where
  "Unpublished r i = AList.delete i r"

fun requested_loop :: "int list \<Rightarrow> int \<Rightarrow> int" where
  "requested_loop [] bytes = bytes"
| "requested_loop (b # bs) bytes =
     (if wrap64 (max_i64 - b) < bytes then max_i64 else requested_loop bs (wrap64 (bytes + b)))"

definition Requested :: "registry \<Rightarrow> nat \<times> int" where
  "Requested r = (length r, requested_loop (map snd r) 0)"

definition volumes_Observe :: "registry \<Rightarrow> watch_config \<Rightarrow> int \<Rightarrow> answer" where
  "volumes_Observe r c available = Need (source_need (snd (Requested r)) (Headroom c) available)"

definition volumes_source :: "registry \<Rightarrow> source" where
  "volumes_source r = \<lparr>sName = ''volume requests'', sObserve = volumes_Observe r\<rparr>"

section \<open>The registry\<close>

definition registry_ok :: "registry \<Rightarrow> bool" where
  "registry_ok r \<longleftrightarrow> gomap_ok r \<and> (\<forall>b\<in>snd ` set r. 0 \<le> b \<and> in_i64 b)"

lemma registry_ops_ok:
  "registry_ok NewRegistry"
  "registry_ok r \<Longrightarrow> in_i64 bytes \<Longrightarrow> registry_ok (Published r i bytes)"
  "registry_ok r \<Longrightarrow> registry_ok (Unpublished r i)"
proof -
  show "registry_ok NewRegistry" by (simp add: registry_ok_def NewRegistry_def)
  show "registry_ok (Unpublished r i)" if "registry_ok r"
    using that by (auto simp: registry_ok_def Unpublished_def set_delete)
  show "registry_ok (Published r i bytes)" if r: "registry_ok r" "in_i64 bytes"
  proof -
    let ?b = "if bytes < 0 then 0 else bytes"
    have g: "gomap_ok (AList.update i ?b r)" using r by (simp add: registry_ok_def)
    have "0 \<le> b \<and> in_i64 b" if "(j, b) \<in> set (AList.update i ?b r)" for j b
    proof -
      have "map_of (AList.update i ?b r) j = Some b" using g that by (simp add: gomap_ok_def)
      then show ?thesis using r by (auto simp: map_of_update_if registry_ok_def split: if_splits dest!: map_of_SomeD)
    qed
    then show ?thesis using g r by (auto simp: registry_ok_def Published_def)
  qed
qed

lemma requested_loop_sat:
  assumes "\<forall>b\<in>set bs. 0 \<le> b \<and> in_i64 b" "0 \<le> acc" "acc \<le> max_i64"
  shows "requested_loop bs acc = min max_i64 (acc + sum_list bs)"
  using assms
proof (induction bs arbitrary: acc)
  case (Cons b bs)
  have nn: "0 \<le> sum_list bs" using Cons.prems by (intro sum_list_nonneg) auto
  have b: "0 \<le> b" "b \<le> max_i64" "wrap64 (max_i64 - b) = max_i64 - b"
    using Cons.prems by (auto simp: i64_defs intro!: wrap64_id)
  show ?case
  proof (cases "max_i64 - b < acc")
    case True
    then show ?thesis using b nn by simp
  next
    case False
    then have "wrap64 (acc + b) = acc + b" using b Cons.prems by (intro wrap64_id') (auto simp: i64_defs)
    then show ?thesis using False b Cons.IH [of "acc + b"] Cons.prems by simp
  qed
qed (simp add: i64_defs)

lemma Requested_sat:
  "registry_ok r \<Longrightarrow> snd (Requested r) = min max_i64 (msum id r)"
  using requested_loop_sat [of "map snd r" 0] by (auto simp: Requested_def msum_def registry_ok_def i64_defs)

text \<open>A repeated publish of one volume counts once.\<close>

lemma Published_again: "map_of (Published (Published r i b) i b) = map_of (Published r i b)"
  by (auto simp: Published_def map_of_update_if)

interpretation vol: demand_source "\<lambda>r. source_need (snd (Requested r))" "\<lambda>r. snd (Requested r)" registry_ok
proof
  fix r :: registry and hr available :: int
  assume r: "registry_ok r"
  have "0 \<le> msum id r" using r by (intro msum_nonneg) (auto simp: registry_ok_def)
  then show d: "0 \<le> snd (Requested r) \<and> in_i64 (snd (Requested r))"
    using r by (auto simp: Requested_sat i64_defs)
  show "source_need (snd (Requested r)) hr available = hr - available + snd (Requested r)"
    if "0 \<le> hr" "0 \<le> available" "in_i64 available" "hr - available + snd (Requested r) \<le> max_i64"
    using d that by (intro source_need_exact) auto
qed

end
