(* ===== verification/Kubelet.thy ===== *)
theory Kubelet
  imports Pressure
begin

text \<open>
  Package kubelet (\<open>internal/kubelet\<close>): what the pods of a node have asked for and not yet written.
  \<open>quantity.go\<close> is modelled on the text of a quantity: the suffix table, the exponent, the decimal
  number and the rounding up to whole bytes, on rational numbers as \<open>math/big\<close> computes. The
  pods are what the kubelet's JSON answers decode to; the HTTP client is not modelled, a failed
  read is \<open>None\<close>.
\<close>

section \<open>Quantities\<close>

datatype quantity_error =
  QEmpty | QTooLong | QNoNumber | QNotNumber | QBadExponent | QHugeExponent | QNegative | QTooLarge

definition maxExponent :: int where "maxExponent = 64"
definition maxQuantityLen :: nat where "maxQuantityLen = 64"

definition suffixes :: "(string \<times> int \<times> int) list" where
  "suffixes =
     [(''Ki'', 2 ^ 10, 0), (''Mi'', 2 ^ 20, 0), (''Gi'', 2 ^ 30, 0),
      (''Ti'', 2 ^ 40, 0), (''Pi'', 2 ^ 50, 0), (''Ei'', 2 ^ 60, 0),
      (''n'', 1, - 9), (''u'', 1, - 6), (''m'', 1, - 3),
      (''k'', 1, 3), (''M'', 1, 6), (''G'', 1, 9),
      (''T'', 1, 12), (''P'', 1, 15), (''E'', 1, 18)]"

text \<open>The loop over the suffixes: the first that ends the number is cut off.\<close>

fun cut_suffix :: "(string \<times> int \<times> int) list \<Rightarrow> string \<Rightarrow> string \<times> int \<times> int" where
  "cut_suffix [] s = (s, 1, 0)"
| "cut_suffix ((p, num, ex) # us) s =
     (if HasSuffix s p then (take (length s - length p) s, num, ex) else cut_suffix us s)"

text \<open>\<open>big.Rat.SetString\<close> on a text of digits, dots and signs: one optional sign, digits with at most
  one dot, at least one digit.\<close>

definition SetString :: "string \<Rightarrow> rat option" where
  "SetString s =
     (case take_sign s of
        (neg, r) \<Rightarrow>
          let whole = takeWhile is_digit r;
              rest = dropWhile is_digit r;
              frac = (case rest of [] \<Rightarrow> [] | c # f \<Rightarrow> if c = CHR ''.'' then f else rest)
          in if (rest \<noteq> [] \<and> hd rest \<noteq> CHR ''.'') \<or> \<not> list_all is_digit frac \<or> (whole = [] \<and> frac = []) then None
             else let v = of_int (digits_val (whole @ frac)) / 10 ^ length frac
                  in Some (if neg then - v else v))"

definition pow10 :: "int \<Rightarrow> int" where
  "pow10 n = (if n \<le> 0 then 1 else 10 ^ nat n)"

definition is_exp :: "char \<Rightarrow> bool" where
  "is_exp c \<longleftrightarrow> c = CHR ''e'' \<or> c = CHR ''E''"

definition split_number :: "string \<Rightarrow> quantity_error + string \<times> int" where
  "split_number number =
     (let mantissa = takeWhile (\<lambda>c. \<not> is_exp c) number;
          rest = dropWhile (\<lambda>c. \<not> is_exp c) number;
          ex = (case rest of [] \<Rightarrow> Inr 0
               | _ # t \<Rightarrow> (case Atoi t of
                   None \<Rightarrow> Inl QBadExponent
                 | Some e \<Rightarrow> if maxExponent < e \<or> e < - maxExponent then Inl QHugeExponent else Inr e))
      in case ex of
           Inl e \<Rightarrow> Inl e
         | Inr e \<Rightarrow>
             if \<not> list_all (\<lambda>c. is_digit c \<or> c = CHR ''.'' \<or> c = CHR ''+'' \<or> c = CHR ''-'') mantissa then Inl QNotNumber
             else if mantissa = [] then Inl QNotNumber
             else Inr (mantissa, e))"

definition ceilBytes :: "rat \<Rightarrow> quantity_error + int" where
  "ceilBytes r =
     (case quotient_of r of
        (p, q) \<Rightarrow>
          let n = (if 0 < p mod q then p div q + 1 else p div q)
          in if in_i64 n then Inr n else Inl QTooLarge)"

definition ParseQuantity :: "string \<Rightarrow> quantity_error + int" where
  "ParseQuantity s =
     (let whole = TrimSpace s in
      if whole = [] then Inl QEmpty
      else if maxQuantityLen < length whole then Inl QTooLong
      else case cut_suffix suffixes whole of
        (number, num, ex) \<Rightarrow>
          if number = [] then Inl QNoNumber
          else case split_number number of
            Inl e \<Rightarrow> Inl e
          | Inr (mantissa, dexp) \<Rightarrow>
              (case SetString mantissa of
                 None \<Rightarrow> Inl QNotNumber
               | Some r \<Rightarrow>
                   if r < 0 then Inl QNegative
                   else ceilBytes (r * of_int num * (of_int (pow10 (ex + dexp)) / of_int (pow10 (- (ex + dexp)))))))"

definition addSaturating :: "int \<Rightarrow> int \<Rightarrow> int" where
  "addSaturating a b = (if wrap64 (max_i64 - a) < b then max_i64 else wrap64 (a + b))"

section \<open>Pods\<close>

record container =
  Requests :: "(string, string) gomap"
  RestartPolicy :: string

definition container_request :: "container \<Rightarrow> quantity_error + int" where
  "container_request c =
     (case map_of (Requests c) ''ephemeral-storage'' of None \<Rightarrow> Inr 0 | Some q \<Rightarrow> ParseQuantity q)"

fun declared_regular :: "container list \<Rightarrow> int \<Rightarrow> quantity_error + int" where
  "declared_regular [] app = Inr app"
| "declared_regular (c # cs) app =
     (case container_request c of Inl e \<Rightarrow> Inl e | Inr n \<Rightarrow> declared_regular cs (addSaturating app n))"

fun declared_init :: "container list \<Rightarrow> int \<Rightarrow> int \<Rightarrow> quantity_error + int" where
  "declared_init [] app biggest = Inr (if app < biggest then biggest else app)"
| "declared_init (c # cs) app biggest =
     (case container_request c of
        Inl e \<Rightarrow> Inl e
      | Inr n \<Rightarrow>
          if RestartPolicy c = ''Always'' then declared_init cs (addSaturating app n) biggest
          else declared_init cs app (if biggest < n then n else biggest))"

definition declared :: "container list \<Rightarrow> container list \<Rightarrow> quantity_error + int" where
  "declared regular init =
     (case declared_regular regular 0 of Inl e \<Rightarrow> Inl e | Inr app \<Rightarrow> declared_init init app 0)"

record pod_item =
  iName :: string
  iNamespace :: string
  iContainers :: "container list"
  iInitContainers :: "container list"
  iPhase :: string

record Pod =
  Namespace :: string
  Name :: string
  Declared :: int
  Used :: int
  Live :: bool

definition Unwritten :: "Pod \<Rightarrow> int" where
  "Unwritten p = (let n = wrap64 (Declared p - Used p) in if 0 < n then n else 0)"

definition pod_key :: "string \<Rightarrow> string \<Rightarrow> string" where
  "pod_key ns n = ns @ ''/'' @ n"

text \<open>\<open>Pods\<close> with the two answers of the kubelet; the second component counts the pods skipped.\<close>

fun pods_loop :: "(string, int) gomap \<Rightarrow> pod_item list \<Rightarrow> Pod list \<times> nat" where
  "pods_loop used [] = ([], 0)"
| "pods_loop used (i # items) =
     (case pods_loop used items of
        (out, skipped) \<Rightarrow>
          (case declared (iContainers i) (iInitContainers i) of
             Inl _ \<Rightarrow> (out, Suc skipped)
           | Inr n \<Rightarrow>
               (\<lparr>Namespace = iNamespace i, Name = iName i, Declared = n,
                 Used = (case map_of used (pod_key (iNamespace i) (iName i)) of None \<Rightarrow> 0 | Some u \<Rightarrow> u),
                 Live = (iPhase i = ''Running'' \<or> iPhase i = ''Pending'')\<rparr> # out, skipped)))"

definition Pods :: "(pod_item list \<times> (string \<times> string \<times> int) list) option \<Rightarrow> Pod list \<times> bool" where
  "Pods resp =
     (case resp of
        None \<Rightarrow> ([], True)
      | Some (items, stats) \<Rightarrow>
          (let used = foldl (\<lambda>m (ns, n, u). AList.update (pod_key ns n) u m) [] stats
           in case pods_loop used items of (out, skipped) \<Rightarrow> (out, 0 < skipped)))"

text \<open>The loop of \<open>Observe\<close>: the total that may still be written, and whether a pod asked for the impossible.\<close>

fun unwritten_loop :: "int \<Rightarrow> Pod list \<Rightarrow> int \<Rightarrow> bool \<Rightarrow> int \<times> bool" where
  "unwritten_loop cap [] acc impossible = (acc, impossible)"
| "unwritten_loop cap (p # ps) acc impossible =
     (if \<not> Live p then unwritten_loop cap ps acc impossible
      else if cap < Declared p then unwritten_loop cap ps acc True
      else unwritten_loop cap ps (addSaturating acc (Unwritten p)) impossible)"

definition kubelet_Observe :: "int \<Rightarrow> Pod list \<times> bool \<Rightarrow> watch_config \<Rightarrow> int \<Rightarrow> answer" where
  "kubelet_Observe cap pods c available =
     (case pods of
        (ps, unread) \<Rightarrow>
          if unread \<and> ps = [] then SourceFails
          else case unwritten_loop cap ps 0 False of
            (unwritten, impossible) \<Rightarrow>
              let need = source_need unwritten (Headroom c) available
              in if unread \<or> impossible then PartialNeed need else Need need)"

section \<open>Reading a quantity\<close>

lemma ceilBytes_ceiling: "ceilBytes r = (if in_i64 \<lceil>r\<rceil> then Inr \<lceil>r\<rceil> else Inl QTooLarge)"
proof -
  obtain p q where pq: "quotient_of r = (p, q)" by force
  have q: "0 < q" using quotient_of_denom_pos [OF pq] .
  have r: "r = of_int p / of_int q" using quotient_of_div [OF pq] .
  have "\<lceil>r\<rceil> = (if 0 < p mod q then p div q + 1 else p div q)"
  proof (cases "p mod q = 0")
    case True
    then show ?thesis using r q by (simp add: ceiling_divide_eq_div zdiv_zminus1_eq_if)
  next
    case False
    then have "0 < p mod q" using q by (simp add: order.not_eq_order_implies_strict)
    then show ?thesis using r q False by (simp add: ceiling_divide_eq_div zdiv_zminus1_eq_if)
  qed
  then show ?thesis by (simp add: ceilBytes_def pq Let_def)
qed

text \<open>Whatever the text, a quantity that is accepted is a count of bytes.\<close>

lemma pow10_pos: "0 < pow10 n"
  by (simp add: pow10_def)

lemma cut_suffix_num: "cut_suffix suffixes s = (t, num, ex) \<Longrightarrow> 0 < num"
  by (auto simp: suffixes_def split: if_splits)

lemma ParseQuantity_range:
  assumes "ParseQuantity s = Inr n"
  shows "0 \<le> n \<and> in_i64 n"
proof -
  obtain t num ex mant d r where c: "cut_suffix suffixes (TrimSpace s) = (t, num, ex)"
    and r: "0 \<le> r" and n: "ceilBytes (r * of_int num * (of_int (pow10 (ex + d)) / of_int (pow10 (- (ex + d))))) = Inr n"
    using assms
    by (auto simp: ParseQuantity_def Let_def not_less simp del: times_divide_eq_right
        split: if_splits prod.splits sum.splits option.splits)
  have "0 \<le> r * of_int num * (of_int (pow10 (ex + d)) / of_int (pow10 (- (ex + d))))"
    using r cut_suffix_num [OF c] pow10_pos by (intro mult_nonneg_nonneg divide_nonneg_pos) (simp_all add: less_imp_le)
  then have "0 \<le> \<lceil>r * of_int num * (of_int (pow10 (ex + d)) / of_int (pow10 (- (ex + d))))\<rceil>"
    by (simp add: le_ceiling_iff order.strict_trans2)
  then show ?thesis using n by (auto simp: ceilBytes_ceiling split: if_splits)
qed

subsection \<open>Plain numbers and binary suffixes\<close>

lemma HasSuffix_set: "HasSuffix s p \<Longrightarrow> set p \<subseteq> set s"
  by (metis HasSuffix_def set_drop_subset)

lemma cut_suffix_none: "\<forall>u\<in>set us. \<not> HasSuffix s (fst u) \<Longrightarrow> cut_suffix us s = (s, 1, 0)"
  by (induction us s rule: cut_suffix.induct) auto

lemma suffixes_letters: "\<forall>u\<in>set suffixes. \<exists>c\<in>set (fst u). \<not> is_digit c"
  by (simp add: suffixes_def is_digit_def)

lemma cut_suffix_digits: "list_all is_digit s \<Longrightarrow> cut_suffix suffixes s = (s, 1, 0)"
  using suffixes_letters HasSuffix_set by (intro cut_suffix_none) (fastforce simp: list_all_iff)

lemma HasSuffix_append2 [simp]:
  "HasSuffix (s @ [a, b]) [c, d] \<longleftrightarrow> a = c \<and> b = d" "HasSuffix (s @ [a, b]) [c] \<longleftrightarrow> b = c"
  by (auto simp: HasSuffix_def drop_append Suc_diff_le)

lemma cut_suffix_binary:
  "(p, num, 0) \<in> set suffixes \<Longrightarrow> cut_suffix suffixes (s @ p) = (s, num, 0)"
  unfolding suffixes_def by (simp only: list.set insert_iff prod.inject empty_iff, elim disjE conjE) simp_all

lemma split_number_digits:
  assumes "list_all is_digit s" "s \<noteq> []"
  shows "split_number s = Inr (s, 0)"
proof -
  have "\<forall>c\<in>set s. \<not> is_exp c" using assms(1) by (auto simp: list_all_iff is_digit_def is_exp_def)
  then have tw: "takeWhile (\<lambda>c. \<not> is_exp c) s = s" "dropWhile (\<lambda>c. \<not> is_exp c) s = []"
    by (simp_all add: takeWhile_eq_all_conv dropWhile_eq_Nil_conv)
  show ?thesis using assms unfolding split_number_def tw Let_def by (simp add: list_all_iff)
qed

lemma SetString_digits:
  assumes "list_all is_digit s" "s \<noteq> []"
  shows "SetString s = Some (of_int (digits_val s))"
proof -
  have "take_sign s = (False, s)"
    using assms by (cases s) (auto simp: take_sign_def is_digit_def)
  moreover have tw: "takeWhile is_digit s = s" "dropWhile is_digit s = []"
    using assms(1) by (simp_all add: list_all_iff takeWhile_eq_all_conv dropWhile_eq_Nil_conv)
  ultimately show ?thesis using assms(2) by (simp only: SetString_def prod.case Let_def tw) simp
qed

text \<open>A number printed plainly, or with a binary suffix, is read back exactly.\<close>

lemma ParseQuantity_binary:
  assumes p: "(p, num, 0) \<in> insert ('''', 1, 0) (set suffixes)" and r: "int n * num \<le> max_i64"
  shows "ParseQuantity (dec_nat n @ p) = Inr (int n * num)"
proof -
  note d = dec_nat_digits [of n]
  have num: "1 \<le> num" using p by (auto simp: suffixes_def)
  then have "int n \<le> int n * num" by (simp add: mult_le_cancel_left1)
  then have "n < 10 ^ 19" using r by (simp add: i64_defs)
  then have len: "length (dec_nat n) \<le> 19" using dec_nat_length [of 19 n] by simp
  have pl: "length p \<le> 2" "p \<noteq> [] \<Longrightarrow> \<not> is_space (last p)" using p by (auto simp: suffixes_def is_space_def)
  have "\<not> is_space (hd (dec_nat n))" "\<not> is_space (last (dec_nat n))"
    using digits_no_space [of "dec_nat n"] d by auto
  then have t: "TrimSpace (dec_nat n @ p) = dec_nat n @ p"
    using d pl(2) by (intro TrimSpace_id) (auto simp: hd_append last_append)
  have c: "cut_suffix suffixes (dec_nat n @ p) = (dec_nat n, num, 0)"
    using p cut_suffix_binary [of p num "dec_nat n"] cut_suffix_digits [of "dec_nat n"] d by auto
  have "0 \<le> int n * num" using num by simp
  then have "in_i64 (int n * num)" using r by (simp add: i64_defs)
  moreover have "\<lceil>rat_of_int (int n) * rat_of_int num\<rceil> = int n * num"
    by (metis ceiling_of_int of_int_mult)
  ultimately show ?thesis
    using d len pl t c split_number_digits [of "dec_nat n"] SetString_digits [of "dec_nat n"]
    by (simp add: ParseQuantity_def Let_def maxQuantityLen_def digits_val_dec pow10_def ceilBytes_ceiling)
qed

section \<open>Demand of the pods\<close>

lemma addSaturating_sat:
  assumes "0 \<le> a" "a \<le> max_i64" "0 \<le> b" "b \<le> max_i64"
  shows "addSaturating a b = min max_i64 (a + b)"
proof -
  have "wrap64 (max_i64 - a) = max_i64 - a" using assms by (intro wrap64_id) (auto simp: i64_defs)
  moreover have "wrap64 (a + b) = a + b" if "a + b \<le> max_i64"
    using assms that by (intro wrap64_id) (auto simp: i64_defs)
  ultimately show ?thesis by (auto simp: addSaturating_def)
qed

definition pod_ok :: "Pod \<Rightarrow> bool" where
  "pod_ok p \<longleftrightarrow> 0 \<le> Declared p \<and> in_i64 (Declared p) \<and> 0 \<le> Used p \<and> in_i64 (Used p)"

lemma Unwritten_value: "pod_ok p \<Longrightarrow> Unwritten p = max 0 (Declared p - Used p)"
  using wrap64_id [of "Declared p - Used p"] by (auto simp: Unwritten_def pod_ok_def i64_defs)

text \<open>The pods that count: alive, and asking for no more than the filesystem holds.\<close>

definition counted :: "int \<Rightarrow> Pod list \<Rightarrow> Pod list" where
  "counted cap ps = filter (\<lambda>p. Live p \<and> Declared p \<le> cap) ps"

lemma unwritten_loop_sum:
  assumes "\<forall>p\<in>set ps. pod_ok p" "0 \<le> acc" "acc \<le> max_i64"
  shows "unwritten_loop cap ps acc imp =
    (min max_i64 (acc + sum_list (map Unwritten (counted cap ps))), imp \<or> (\<exists>p\<in>set ps. Live p \<and> cap < Declared p))"
  using assms
proof (induction ps arbitrary: acc imp)
  case (Cons p ps)
  have u: "0 \<le> Unwritten p" "Unwritten p \<le> max_i64"
    using Cons.prems by (auto simp: Unwritten_value pod_ok_def i64_defs)
  have nn: "0 \<le> sum_list (map Unwritten (counted cap ps))"
    using Cons.prems by (intro sum_list_nonneg) (auto simp: counted_def Unwritten_value)
  have sat: "addSaturating acc (Unwritten p) = min max_i64 (acc + Unwritten p)"
    using Cons.prems u by (intro addSaturating_sat) auto
  then show ?case
    using Cons u nn by (auto simp: counted_def min_def i64_defs)
qed (auto simp: counted_def i64_defs)

definition pods_demand :: "int \<times> Pod list \<Rightarrow> int" where
  "pods_demand cp = fst (unwritten_loop (fst cp) (snd cp) 0 False)"

interpretation pods: demand_source "\<lambda>cp. source_need (pods_demand cp)" pods_demand "\<lambda>cp. \<forall>p\<in>set (snd cp). pod_ok p"
proof
  fix cp :: "int \<times> Pod list" and hr available :: int
  assume p: "\<forall>p\<in>set (snd cp). pod_ok p"
  have "0 \<le> sum_list (map Unwritten (counted (fst cp) (snd cp)))"
    using p by (intro sum_list_nonneg) (auto simp: counted_def Unwritten_value)
  then show d: "0 \<le> pods_demand cp \<and> in_i64 (pods_demand cp)"
    using p by (auto simp: pods_demand_def unwritten_loop_sum i64_defs)
  show "source_need (pods_demand cp) hr available = hr - available + pods_demand cp"
    if "0 \<le> hr" "0 \<le> available" "in_i64 available" "hr - available + pods_demand cp \<le> max_i64"
    using d that by (intro source_need_exact) auto
qed

text \<open>What a pod is charged: the larger of its running containers, sidecars included, and its largest
  init container, both saturating.\<close>

lemma declared_regular_sum:
  assumes "\<forall>c\<in>set cs. \<exists>n. container_request c = Inr n" "0 \<le> app" "app \<le> max_i64"
  shows "declared_regular cs app = Inr (min max_i64 (app + (\<Sum>c\<leftarrow>cs. projr (container_request c))))"
  using assms
proof (induction cs arbitrary: app)
  case (Cons c cs)
  obtain n where n: "container_request c = Inr n" using Cons.prems by auto
  have "0 \<le> n \<and> in_i64 n"
    using n ParseQuantity_range by (auto simp: container_request_def split: option.splits)
  then have sat: "addSaturating app n = min max_i64 (app + n)" "0 \<le> n"
    using Cons.prems by (auto simp: addSaturating_sat i64_defs)
  have "0 \<le> (\<Sum>c\<leftarrow>cs. projr (container_request c))"
  proof (rule sum_list_nonneg)
    fix x assume "x \<in> set (map (\<lambda>c. projr (container_request c)) cs)"
    then obtain c' where "c' \<in> set cs" "x = projr (container_request c')" by auto
    then show "0 \<le> x" using Cons.prems ParseQuantity_range
      by (fastforce simp: container_request_def split: option.splits)
  qed
  then show ?case using n sat Cons.IH [of "min max_i64 (app + n)"] Cons.prems by (auto simp: min_def i64_defs)
qed (simp add: i64_defs)

end
