(* ===== verification/Node_Claims.thy ===== *)
theory Node_Claims
  imports Lease_Claims Volumes Kubelet
begin

text \<open>
  What the node agent promises: every lease it holds has its extent, a reclaim removes the extents it
  reports, opening makes the directory and the leases agree, and a pass of the pressure watch
  keeps the floor or says by how much it fell short. The demand the pass answers to comes from
  the volumes and the pods of the node, whose totals are exact up to saturation.
\<close>

section \<open>The agent\<close>

definition demo_agent_config :: agent_config where
  "demo_agent_config = \<lparr>BorrowedDir = Some [''pool''], JournalDir = Some [''var''], acLease = demo_config\<rparr>"

definition demo_env :: open_env where
  "demo_env = \<lparr>oMkdir = True, oOpenLock = True, oLock = True, oBad = {}, oHeartbeat = True, oVerify = True\<rparr>"

text \<open>A journal with leases \<open>a\<close> and \<open>b\<close>, and a directory with the extent of \<open>a\<close> and an orphan.\<close>

definition demo_file :: file_journal where
  "demo_file = \<lparr>jfile = Doc \<lparr>dFormat = journalFormat, dLeases = map to_record
     [demo_lease ''a'' Opportunistic 40, demo_lease ''b'' Elastic 20]\<rparr>, faults = []\<rparr>"

definition demo_dir :: "(string, int) gomap" where
  "demo_dir = [(''a'', 40), (''z'', 9)]"

definition demo_agent :: agent where
  "demo_agent = fst (projr (Open demo_env demo_agent_config demo_acct demo_dir demo_file 7))"

lemma demo_open: "Open demo_env demo_agent_config demo_acct demo_dir demo_file 7
    = Inr (demo_agent, snd (projr (Open demo_env demo_agent_config demo_acct demo_dir demo_file 7)))"
proof -
  have "case Open demo_env demo_agent_config demo_acct demo_dir demo_file 7 of Inl _ \<Rightarrow> False | Inr _ \<Rightarrow> True" by code_simp
  then show ?thesis by (auto simp: demo_agent_def split: sum.splits)
qed

lemma demo_agent_ok: "agent_ok demo_agent"
  by code_simp

text \<open>
  C9. Whatever directory and journal an agent finds, once it has opened, the files of the
  pool are exactly the extents of the leases it holds and its own two files, each extent with
  the bytes it had, and the accounting matches the leases.
\<close>

theorem open_agrees:
  assumes "acct_ok acc" "Borrowed acc = 0" "Open env c acc d j now = Inr (a, rec)"
  shows "mgr_ok (a_leases a)
    \<and> {n. map_of (a_dir a) n \<noteq> None} = lID ` held (a_leases a) \<union> {lockName, heartbeatName}
    \<and> (\<forall>n\<in>lID ` held (a_leases a). map_of (a_dir a) n = map_of d n)"
  using Open_agrees [OF assms] by blast

theorem open_agrees_witness:
  "lID ` held (a_leases demo_agent) = {''a''}
   \<and> {n. map_of (a_dir demo_agent) n \<noteq> None} = {''a'', lockName, heartbeatName} \<and> map_of (a_dir demo_agent) ''a'' = Some 40"
proof -
  have h: "lID ` held (a_leases demo_agent) = {''a''}" by code_simp
  have "map_of demo_dir ''a'' = Some 40" by (simp add: demo_dir_def)
  then show ?thesis using open_agrees [OF demo_boot(1,2) demo_open] h by auto
qed

text \<open>
  C11. A grant either adds the lease together with a fresh extent of its size, or leaves
  the leases as they were, whatever system call failed; and every lease held keeps its extent.
\<close>

theorem grant_backed:
  assumes "agent_ok a" "in_i64 (lSize l)" "Grant fl a l now = (e, a')"
  shows "agent_ok a'
    \<and> (e = None \<longrightarrow> held (a_leases a') = insert (l\<lparr>lGrantedAt := now\<rparr>) (held (a_leases a))
         \<and> map_of (a_dir a) (lID l) = None \<and> a_dir a' = AList.update (lID l) (lSize l) (a_dir a))
    \<and> (e \<noteq> None \<longrightarrow> held (a_leases a') = held (a_leases a))"
  using Grant_cases [OF assms] by blast

theorem grant_backed_witness:
  "fst (Grant AllocOk demo_agent (demo_lease ''c'' Elastic 5) 8) = None
   \<and> a_dir (snd (Grant AllocOk demo_agent (demo_lease ''c'' Elastic 5) 8)) = AList.update ''c'' 5 (a_dir demo_agent)
   \<and> fst (Grant (ReserveFails True) demo_agent (demo_lease ''c'' Elastic 5) 8) = Some ErrFS
   \<and> held (a_leases (snd (Grant (ReserveFails True) demo_agent (demo_lease ''c'' Elastic 5) 8))) = held (a_leases demo_agent)"
proof -
  have e: "fst (Grant AllocOk demo_agent (demo_lease ''c'' Elastic 5) 8) = None"
    "fst (Grant (ReserveFails True) demo_agent (demo_lease ''c'' Elastic 5) 8) = Some ErrFS" by code_simp+
  show ?thesis
    using grant_backed [OF demo_agent_ok, of "demo_lease ''c'' Elastic 5" AllocOk 8 None]
      grant_backed [OF demo_agent_ok, of "demo_lease ''c'' Elastic 5" "ReserveFails True" 8 "Some ErrFS"] e
    by (simp add: prod_eq_iff demo_lease_def i64_defs)
qed

text \<open>
  C12. A reclaim keeps every remaining lease backed, and when no system call fails
  every lease it dropped has lost its extent by the time it returns.
\<close>

theorem reclaim_unlinks:
  assumes "agent_ok a" "in_i64 need" "ReclaimCapacity fls t a need now = (rec, e, a')"
  shows "agent_ok a'
    \<and> (fls = [] \<longrightarrow> rcFailed rec = [] \<and> (\<forall>i\<in>set (Dropped (rcResult rec)). map_of (a_dir a') i = None))"
  using ReclaimCapacity_ok [OF assms] by blast

theorem reclaim_unlinks_witness:
  "Dropped (rcResult (fst (ReclaimCapacity [] 0 demo_agent 10 9))) = [''a'']
   \<and> map_of (a_dir (snd (snd (ReclaimCapacity [] 0 demo_agent 10 9)))) ''a'' = None"
proof -
  have d: "Dropped (rcResult (fst (ReclaimCapacity [] 0 demo_agent 10 9))) = [''a'']" by code_simp
  then show ?thesis
    using reclaim_unlinks [OF demo_agent_ok, of 10 "[]" 0 9 "fst (ReclaimCapacity [] 0 demo_agent 10 9)"
        "fst (snd (ReclaimCapacity [] 0 demo_agent 10 9))" "snd (snd (ReclaimCapacity [] 0 demo_agent 10 9))"]
    by (simp add: i64_defs)
qed

text \<open>
  A release whose unlink fails after the rename leaves the lease on the books with
  no extent, and no later release can finish it: each is refused for want of the extent.
\<close>

theorem release_stuck:
  assumes "validLeaseID i = None" "map_of (a_dir a) i = Some n" "map_of (leases (a_leases a)) i = Some l"
    and "agent_Release RemoveFails a i now = (k, e, a1)"
  shows "k = 0 \<and> e = Some ErrFS \<and> map_of (leases (a_leases a1)) i = Some l
    \<and> agent_Release fl a1 i later = (0, Some ErrNoExtent, a1)"
  by (rule agent_Release_stuck [OF assms])

text \<open>
  An identifier the agent accepts names a file directly inside the pool: it has no
  separator, is neither the directory nor its parent, and is none of the agent's own files nor
  the name any extent takes on its way out.
\<close>

theorem extent_names:
  assumes "ExtentPath i = Inr p"
  shows "p = i \<and> CHR ''/'' \<notin> set p \<and> p \<notin> {'''', ''.'', ''..''} \<and> p \<noteq> lockName \<and> p \<noteq> heartbeatName
    \<and> (\<forall>j. p \<noteq> j @ invalidSuffix)"
proof -
  have "validLeaseID i = None" "p = i" using assms by (auto simp: ExtentPath_def split: option.splits)
  then show ?thesis using valid_apart [of i] validLeaseID_None [of i] by blast
qed

section \<open>The pressure watch\<close>

text \<open>
  C6. One pass of the watch over any sources: what was free, plus what the pass
  reclaimed, plus the shortfall it reports reaches the floor; a shortfall is reported only when
  nothing but live guaranteed leases is left; and every lease still held is backed.
\<close>

theorem step_keeps_floor:
  assumes "Step (Some available) fls elapsed beat w c now ss = (t, e, w')" "watch_Validate c = None"
    and "0 \<le> available" "in_i64 available" "in_i64 (Headroom c)" "in_i64 (MinHeadroom c)"
    and "\<forall>s\<in>set ss. \<forall>cf. answer_range (sObserve s cf available)" "agent_ok (wAgent w)"
  shows "agent_ok (wAgent w') \<and> tTarget t \<le> available + tReclaimed t + tShortfall t
    \<and> (0 < tShortfall t \<longrightarrow> (\<forall>l\<in>held (a_leases (wAgent w')). lClass l = Guaranteed \<and> \<not> Expired l now))"
  using Step_floor [OF assms] by blast

definition demo_watch :: watch_config where
  "demo_watch = \<lparr>Headroom = 50, HeadroomFor = 0, MinHeadroom = 0, Interval = 1\<rparr>"

definition demo_watch_state :: watch_state where
  "demo_watch_state = \<lparr>wAgent = demo_agent, wRate = \<lparr>re_free = 0, re_borrowed = 0, re_at = 0, re_have = False\<rparr>\<rparr>"

theorem step_keeps_floor_witness:
  "let t = fst (Step (Some 30) [] 0 True demo_watch_state demo_watch 9 [volumes_source [(''v'', 5)]]) in
     tReclaimed t = 40 \<and> tTarget t \<le> 30 + tReclaimed t + tShortfall t"
proof -
  let ?s = "Step (Some 30) [] 0 True demo_watch_state demo_watch 9 [volumes_source [(''v'', 5)]]"
  have v: "watch_Validate demo_watch = None" "in_i64 (Headroom demo_watch)" "in_i64 (MinHeadroom demo_watch)"
    "agent_ok (wAgent demo_watch_state)"
    using demo_agent_ok by (simp_all add: demo_watch_def watch_Validate_def i64_defs demo_watch_state_def)
  have r: "\<forall>s\<in>set [volumes_source [(''v'', 5)]]. \<forall>cf. answer_range (sObserve s cf 30)"
    by (simp add: volumes_source_def volumes_Observe_def answer_range_def source_need_def wrap64_range)
  have "tReclaimed (fst ?s) = 40" by code_simp
  moreover have "tTarget (fst ?s) \<le> 30 + tReclaimed (fst ?s) + tShortfall (fst ?s)"
    using step_keeps_floor [of 30 "[]" 0 True demo_watch_state demo_watch 9 "[volumes_source [(''v'', 5)]]" "fst ?s"
        "fst (snd ?s)" "snd (snd ?s)"] v r by (simp add: i64_defs)
  ultimately show ?thesis by (simp add: Let_def)
qed

text \<open>
  The observation a pass acts on is the largest need any source reported, zero
  when none is positive, and a positive one is the observation of a source that was asked.
\<close>

theorem worst_need_wins:
  shows "pNeed (worst_pressure ps) = Max (insert 0 (pNeed ` set ps))
    \<and> (pNeed (worst_pressure ps) \<le> 0 \<or> worst_pressure ps \<in> set ps)"
  using worst_pressure_need worst_pressure_mem [of ps] by fastforce

section \<open>Demand\<close>

text \<open>
  However volumes are published and withdrawn, the demand they are is the sum
  of their sizes, held at the largest 64-bit number, and as long as the sum with the floor fits
  in 64 bits the need the source reports is exactly what is missing for both.
\<close>

theorem volume_demand_exact:
  assumes "registry_ok r" "0 \<le> Headroom c" "0 \<le> available" "in_i64 available"
    and "Headroom c - available + msum id r \<le> max_i64" "msum id r \<le> max_i64"
  shows "snd (Requested r) = msum id r
    \<and> volumes_Observe r c available = Need (Headroom c - available + msum id r)
    \<and> registry_ok (Published r i (wrap64 n)) \<and> registry_ok (Unpublished r i)"
proof -
  have s: "snd (Requested r) = msum id r" using Requested_sat [OF assms(1)] assms(6) by simp
  have nn: "0 \<le> msum id r" using assms(1) by (intro msum_nonneg) (auto simp: registry_ok_def)
  then have "in_i64 (msum id r)" using assms(6) by (simp add: i64_defs)
  then show ?thesis
    using s nn assms source_need_exact [of "msum id r" "Headroom c" available] registry_ops_ok wrap64_range
    by (simp add: volumes_Observe_def)
qed

text \<open>
  When the demand has saturated and free space is below the floor, the
  need the volume source computes wraps round to a negative number: the pass that should reclaim
  the most is told of no demand at all.
\<close>

theorem saturated_demand_wraps:
  assumes "snd (Requested r) = max_i64" "0 \<le> available" "available < Headroom c" "in_i64 (Headroom c)"
  shows "\<exists>n. volumes_Observe r c available = Need n \<and> n < 0"
  using source_need_wraps [OF assms(2-4)] assms(1) by (simp add: volumes_Observe_def)

text \<open>
  A whole number with no suffix or a binary one is read as that many bytes,
  exactly, as long as they fit in 64 bits.
\<close>

theorem quantity_suffixes:
  assumes "(p, num, 0) \<in> insert ('''', 1, 0) (set suffixes)" "int n * num \<le> max_i64"
  shows "ParseQuantity (dec_nat n @ p) = Inr (int n * num)"
  by (rule ParseQuantity_binary [OF assms])

text \<open>
  Whatever text is read as a quantity, the bytes are a 64-bit number that is not
  negative.
\<close>

theorem quantity_range:
  assumes "ParseQuantity s = Inr n"
  shows "0 \<le> n \<and> in_i64 n"
  by (rule ParseQuantity_range [OF assms])

text \<open>
  The demand of a node's pods is the sum over its live pods, those that declare
  more than the node has left out, of what each declared and has not yet written, held at the
  largest 64-bit number; a pod left out is reported.
\<close>

theorem pod_demand_exact:
  assumes "\<forall>p\<in>set ps. pod_ok p"
  shows "unwritten_loop cap ps 0 False =
    (min max_i64 (\<Sum>p\<leftarrow>counted cap ps. max 0 (Declared p - Used p)), \<exists>p\<in>set ps. Live p \<and> cap < Declared p)"
proof -
  have "map Unwritten (counted cap ps) = map (\<lambda>p. max 0 (Declared p - Used p)) (counted cap ps)"
    using assms by (auto simp: counted_def Unwritten_value)
  then show ?thesis using unwritten_loop_sum [OF assms, of 0 cap False] by (simp add: max_i64_def del: map_eq_conv)
qed

definition demo_pods :: "Pod list" where
  "demo_pods = [\<lparr>Namespace = ''n'', Name = ''a'', Declared = 10, Used = 3, Live = True\<rparr>,
     \<lparr>Namespace = ''n'', Name = ''b'', Declared = 90, Used = 0, Live = True\<rparr>]"

end
