(* ===== verification/Fast_Tier.thy ===== *)
theory Fast_Tier
  imports Go_Base "HOL-Library.Word"
begin

text \<open>
  Package fasttier (\<open>internal/fasttier\<close>): blocks of immutable objects cached on borrowed capacity.

  A slab is one lease's extent cut into slots. Slabs are shared by pointer in the source (a
  placement, the map of slabs and a read in flight all hold the same one), so they live in a heap
  here: a list indexed by the pointer (\<open>slab_ptr\<close>), which only grows. The bytes of an extent are
  the byte list of the slab's file. What the device does is an argument of the operations: a write
  may fail after some bytes (\<open>write_fault\<close>) and a read may fail. The counters \<open>clock\<close> and
  \<open>generation\<close> are \<open>uint64\<close>s and are kept at that width (\<open>inc64\<close>).

  A read of the cache has three parts, \<open>read_begin\<close> under the lock, the read of the slab outside
  it, and \<open>read_end\<close> under it again; \<open>Read\<close> composes them. \<open>Tier_Race\<close> runs other operations in
  between.
\<close>

type_synonym byte = "8 word"

section \<open>Blocks\<close>

record BlockRef =
  Backend :: string
  Object :: string
  Index :: int

record Key =
  kTenant :: string
  Block :: BlockRef

definition BlockRef_String :: "BlockRef \<Rightarrow> string" where
  "BlockRef_String b = Backend b @ ''/'' @ Object b @ ''#'' @ dec_int (Index b)"

definition Key_String :: "Key \<Rightarrow> string" where
  "Key_String k = kTenant k @ '':'' @ BlockRef_String (Block k)"

section \<open>First reads\<close>

text \<open>
  The list of keys in order of their first read, oldest first. The source pairs it with a map
  from a key to its list element; the map's keys are always the elements of the list.
\<close>

record firstReads =
  limit :: int
  f_order :: "Key list"

definition newFirstReads :: "int \<Rightarrow> firstReads" where
  "newFirstReads n = \<lparr>limit = n, f_order = []\<rparr>"

definition sawBefore :: "firstReads \<Rightarrow> Key \<Rightarrow> bool \<times> firstReads" where
  "sawBefore f k =
     (if k \<in> set (f_order f) then (True, f)
      else if limit f \<le> 0 then (False, f)
      else let old = (if limit f \<le> int (length (f_order f)) then tl (f_order f) else f_order f)
           in (False, f\<lparr>f_order := old @ [k]\<rparr>))"

definition f_forget :: "firstReads \<Rightarrow> Key \<Rightarrow> firstReads" where
  "f_forget f k = f\<lparr>f_order := remove1 k (f_order f)\<rparr>"

section \<open>Slabs\<close>

record slab =
  s_lease :: string
  s_file :: "byte list"
  s_closed :: bool
  s_slots :: nat
  s_free :: "nat list"
  s_revoked :: bool

datatype tier_error =
    ErrNoCapacity | ErrWouldEvict | ErrRevoked | ErrTooLarge | ErrIO | ErrOpen | ErrNoWholeBlock
  | ErrAlreadyHeld | ErrConfig

text \<open>
  The content of the extent at the path, or \<open>None\<close> when it cannot be opened or measured. The
  free list counts down, and slots are taken from its end, so slot 0 goes first.
\<close>

definition openSlab :: "string \<Rightarrow> byte list option \<Rightarrow> int \<Rightarrow> tier_error + slab" where
  "openSlab lease f blockSize =
     (case f of
        None \<Rightarrow> Inl ErrOpen
      | Some bytes \<Rightarrow>
          let slots = nat (int (length bytes) div blockSize) in
          if slots = 0 then Inl ErrNoWholeBlock
          else Inr \<lparr>s_lease = lease, s_file = bytes, s_closed = False, s_slots = slots,
                    s_free = rev [0..<slots], s_revoked = False\<rparr>)"

definition take_slot :: "slab \<Rightarrow> (nat \<times> slab) option" where
  "take_slot s =
     (if s_revoked s \<or> s_free s = [] then None
      else Some (last (s_free s), s\<lparr>s_free := butlast (s_free s)\<rparr>))"

definition release_slot :: "slab \<Rightarrow> nat \<Rightarrow> slab" where
  "release_slot s slot = s\<lparr>s_free := s_free s @ [slot]\<rparr>"

text \<open>\<open>WriteAt\<close>: a fault stops it after some of the bytes; a closed file takes none.\<close>

type_synonym write_fault = "nat option"

definition write_at :: "byte list \<Rightarrow> nat \<Rightarrow> byte list \<Rightarrow> byte list" where
  "write_at f off data = take off (f @ replicate (off - length f) 0) @ data @ drop (off + length data) f"

definition slab_write :: "write_fault \<Rightarrow> slab \<Rightarrow> nat \<Rightarrow> byte list \<Rightarrow> int \<Rightarrow> tier_error option \<times> slab" where
  "slab_write w s slot data blockSize =
     (if s_revoked s then (Some ErrRevoked, s)
      else if blockSize < int (length data) then (Some ErrTooLarge, s)
      else if s_closed s then (Some ErrIO, s)
      else case w of
             None \<Rightarrow> (None, s\<lparr>s_file := write_at (s_file s) (slot * nat blockSize) data\<rparr>)
           | Some n \<Rightarrow> (Some ErrIO, s\<lparr>s_file := write_at (s_file s) (slot * nat blockSize) (take n data)\<rparr>))"

text \<open>\<open>ReadAt\<close> fails when the device does, and when the file ends before the buffer is full.\<close>

definition slab_read :: "bool \<Rightarrow> slab \<Rightarrow> nat \<Rightarrow> nat \<Rightarrow> int \<Rightarrow> byte list option" where
  "slab_read fails s slot len blockSize =
     (if s_revoked s then None
      else if s_closed s \<or> fails \<or> length (s_file s) < slot * nat blockSize + len then None
      else Some (take len (drop (slot * nat blockSize) (s_file s))))"

definition slab_revoke :: "slab \<Rightarrow> slab" where
  "slab_revoke s = s\<lparr>s_revoked := True\<rparr>"

definition slab_close :: "slab \<Rightarrow> slab" where
  "slab_close s = s\<lparr>s_closed := True\<rparr>"

section \<open>The cache\<close>

type_synonym slab_ptr = nat

record placement =
  p_slab :: slab_ptr
  p_slot :: nat
  p_length :: nat
  p_used :: nat
  p_gen :: nat

record tier_config =
  BlockSize :: int
  FirstReadLimit :: int

record cache =
  c_cfg :: tier_config
  c_heap :: "slab list"
  c_slabs :: "(string, slab_ptr) gomap"
  c_order :: "string list"
  c_resident :: "(Key, placement) gomap"
  c_first :: firstReads
  c_clock :: nat
  c_generation :: nat
  c_hits :: int
  c_misses :: int

definition inc64 :: "nat \<Rightarrow> nat" where
  "inc64 n = (n + 1) mod 18446744073709551616"

definition NewCache :: "tier_config \<Rightarrow> tier_error + cache" where
  "NewCache c =
     (if BlockSize c \<le> 0 then Inl ErrConfig
      else if FirstReadLimit c < 0 then Inl ErrConfig
      else Inr \<lparr>c_cfg = c, c_heap = [], c_slabs = [], c_order = [], c_resident = [],
                c_first = newFirstReads (FirstReadLimit c), c_clock = 0, c_generation = 0,
                c_hits = 0, c_misses = 0\<rparr>)"

definition upd_slab :: "slab_ptr \<Rightarrow> (slab \<Rightarrow> slab) \<Rightarrow> cache \<Rightarrow> cache" where
  "upd_slab i f c = c\<lparr>c_heap := (c_heap c)[i := f (c_heap c ! i)]\<rparr>"

definition AddCapacity :: "cache \<Rightarrow> string \<Rightarrow> byte list option \<Rightarrow> tier_error option \<times> cache" where
  "AddCapacity c lease extent =
     (case openSlab lease extent (BlockSize (c_cfg c)) of
        Inl e \<Rightarrow> (Some e, c)
      | Inr s \<Rightarrow>
          if map_of (c_slabs c) lease \<noteq> None then (Some ErrAlreadyHeld, c)
          else (None, c\<lparr>c_heap := c_heap c @ [s], c_slabs := AList.update lease (length (c_heap c)) (c_slabs c),
                        c_order := c_order c @ [lease]\<rparr>))"

definition Revoke :: "cache \<Rightarrow> string \<Rightarrow> nat \<times> cache" where
  "Revoke c lease =
     (case map_of (c_slabs c) lease of
        None \<Rightarrow> (0, c)
      | Some s \<Rightarrow>
          (length (filter (\<lambda>kp. p_slab (snd kp) = s) (c_resident c)),
           (upd_slab s (slab_close \<circ> slab_revoke) c)
             \<lparr>c_resident := filter (\<lambda>kp. p_slab (snd kp) \<noteq> s) (c_resident c),
              c_slabs := AList.delete lease (c_slabs c),
              c_order := remove1 lease (c_order c)\<rparr>))"

definition ReclaimOrder :: "cache \<Rightarrow> string list \<Rightarrow> cache" where
  "ReclaimOrder c ls = c\<lparr>c_order := ls\<rparr>"

text \<open>The first critical section of \<open>Read\<close>: a miss, or the placement the read was sent for.\<close>

definition read_begin :: "cache \<Rightarrow> Key \<Rightarrow> placement option \<times> cache" where
  "read_begin c k =
     (case map_of (c_resident c) k of
        None \<Rightarrow> (None, c\<lparr>c_misses := wrap64 (c_misses c + 1)\<rparr>)
      | Some p \<Rightarrow>
          let p' = p\<lparr>p_used := inc64 (c_clock c)\<rparr>
          in (Some p', c\<lparr>c_clock := inc64 (c_clock c), c_resident := AList.update k p' (c_resident c)\<rparr>))"

text \<open>The second one, with what the read outside the lock returned.\<close>

definition read_end :: "cache \<Rightarrow> Key \<Rightarrow> placement \<Rightarrow> byte list option \<Rightarrow> byte list option \<times> cache" where
  "read_end c k p data =
     (let cur = map_of (c_resident c) k;
          same = (case cur of None \<Rightarrow> False | Some q \<Rightarrow> p_gen q = p_gen p)
      in case data of
           None \<Rightarrow>
             (let c1 = (if same then
                          (let c2 = c\<lparr>c_resident := AList.delete k (c_resident c)\<rparr> in
                           if s_revoked (c_heap c2 ! p_slab p) then c2
                           else upd_slab (p_slab p) (\<lambda>s. release_slot s (p_slot p)) c2)
                        else c)
              in (None, c1\<lparr>c_misses := wrap64 (c_misses c1 + 1)\<rparr>))
         | Some bytes \<Rightarrow>
             if \<not> same then (None, c\<lparr>c_misses := wrap64 (c_misses c + 1)\<rparr>)
             else (Some bytes, c\<lparr>c_hits := wrap64 (c_hits c + 1)\<rparr>))"

definition Read :: "bool \<Rightarrow> cache \<Rightarrow> Key \<Rightarrow> byte list option \<times> cache" where
  "Read fails c k =
     (case read_begin c k of
        (None, c1) \<Rightarrow> (None, c1)
      | (Some p, c1) \<Rightarrow>
          read_end c1 k p
            (slab_read fails (c_heap c1 ! p_slab p) (p_slot p) (p_length p) (BlockSize (c_cfg c1))))"

text \<open>The loop over the leases in reclaim order that takes the first free slot.\<close>

fun take_first :: "cache \<Rightarrow> string list \<Rightarrow> (slab_ptr \<times> nat \<times> cache) option" where
  "take_first c [] = None"
| "take_first c (l # ls) =
     (case map_of (c_slabs c) l of
        None \<Rightarrow> take_first c ls
      | Some s \<Rightarrow>
          (case take_slot (c_heap c ! s) of
             None \<Rightarrow> take_first c ls
           | Some (slot, s') \<Rightarrow> Some (s, slot, upd_slab s (\<lambda>_. s') c)))"

text \<open>The least recently used block of a slab: the first one with the smallest \<open>used\<close>.\<close>

fun victim :: "slab_ptr \<Rightarrow> (Key \<times> placement) list \<Rightarrow> (Key \<times> placement) option \<Rightarrow> (Key \<times> placement) option" where
  "victim s [] best = best"
| "victim s ((k, p) # r) best =
     (if p_slab p \<noteq> s then victim s r best
      else case best of
             None \<Rightarrow> victim s r (Some (k, p))
           | Some (_, q) \<Rightarrow> victim s r (if p_used p < p_used q then Some (k, p) else best))"

fun evict_loop :: "cache \<Rightarrow> string list \<Rightarrow> cache option" where
  "evict_loop c [] = None"
| "evict_loop c (l # ls) =
     (case map_of (c_slabs c) l of
        None \<Rightarrow> evict_loop c ls
      | Some s \<Rightarrow>
          (case victim s (c_resident c) None of
             None \<Rightarrow> evict_loop c ls
           | Some (k, p) \<Rightarrow>
               Some ((upd_slab s (\<lambda>s. release_slot s (p_slot p)) c)
                       \<lparr>c_resident := AList.delete k (c_resident c)\<rparr>)))"

definition evictOneLocked :: "cache \<Rightarrow> cache option" where
  "evictOneLocked c = evict_loop c (c_order c)"

definition placeLocked :: "cache \<Rightarrow> bool \<Rightarrow> (tier_error + slab_ptr \<times> nat) \<times> cache" where
  "placeLocked c prefetched =
     (case take_first c (c_order c) of
        Some (s, slot, c1) \<Rightarrow> (Inr (s, slot), c1)
      | None \<Rightarrow>
          if prefetched then (Inl ErrWouldEvict, c)
          else case evictOneLocked c of
                 None \<Rightarrow> (Inl ErrNoCapacity, c)
               | Some c1 \<Rightarrow>
                   (case take_first c1 (c_order c1) of
                      Some (s, slot, c2) \<Rightarrow> (Inr (s, slot), c2)
                    | None \<Rightarrow> (Inl ErrNoCapacity, c1)))"

text \<open>
  \<open>Admit\<close>: the admission rule, with what it records (\<open>admit_worth\<close>), and the placing and writing
  of a block that passed it (\<open>admit_place\<close>).
\<close>

definition admit_worth :: "cache \<Rightarrow> Key \<Rightarrow> bool \<Rightarrow> bool \<times> cache" where
  "admit_worth c k prefetched =
     (if prefetched then (True, c) else (case sawBefore (c_first c) k of (b, f) \<Rightarrow> (b, c\<lparr>c_first := f\<rparr>)))"

definition admit_place :: "write_fault \<Rightarrow> cache \<Rightarrow> Key \<Rightarrow> byte list \<Rightarrow> bool \<Rightarrow> (tier_error + bool) \<times> cache" where
  "admit_place w c k data prefetched =
     (case placeLocked c prefetched of
        (Inl e, c1) \<Rightarrow> (Inl e, c1)
      | (Inr (s, slot), c1) \<Rightarrow>
          (case slab_write w (c_heap c1 ! s) slot data (BlockSize (c_cfg c1)) of
             (Some e, s') \<Rightarrow> (Inl e, upd_slab s (\<lambda>_. release_slot s' slot) c1)
           | (None, s') \<Rightarrow>
               (let p = \<lparr>p_slab = s, p_slot = slot, p_length = length data,
                         p_used = inc64 (c_clock c1), p_gen = inc64 (c_generation c1)\<rparr>
                in (Inr True,
                    (upd_slab s (\<lambda>_. s') c1)
                      \<lparr>c_clock := inc64 (c_clock c1), c_generation := inc64 (c_generation c1),
                       c_resident := AList.update k p (c_resident c1),
                       c_first := f_forget (c_first c1) k\<rparr>))))"

definition Admit :: "write_fault \<Rightarrow> cache \<Rightarrow> Key \<Rightarrow> byte list \<Rightarrow> bool \<Rightarrow> (tier_error + bool) \<times> cache" where
  "Admit w c k data prefetched =
     (if BlockSize (c_cfg c) < int (length data) then (Inl ErrTooLarge, c)
      else if map_of (c_resident c) k \<noteq> None then (Inr False, c)
      else case admit_worth c k prefetched of
             (False, c0) \<Rightarrow> (Inr False, c0)
           | (True, c0) \<Rightarrow> admit_place w c0 k data prefetched)"

record Held =
  hTenant :: string
  hBackend :: string
  hObject :: string

definition held_of :: "Key \<Rightarrow> Held" where
  "held_of k = \<lparr>hTenant = kTenant k, hBackend = Backend (Block k), hObject = Object (Block k)\<rparr>"

definition HeldBlocks :: "cache \<Rightarrow> (Held, nat) gomap" where
  "HeldBlocks c =
     foldl (\<lambda>out k. AList.update (held_of k) (case map_of out (held_of k) of None \<Rightarrow> 1 | Some n \<Rightarrow> n + 1) out)
       [] (map fst (c_resident c))"

definition Resident :: "cache \<Rightarrow> Key \<Rightarrow> bool" where
  "Resident c k \<longleftrightarrow> map_of (c_resident c) k \<noteq> None"

definition Stats :: "cache \<Rightarrow> int \<times> int \<times> nat" where
  "Stats c = (c_hits c, c_misses c, length (c_resident c))"

definition CloseCache :: "cache \<Rightarrow> cache" where
  "CloseCache c =
     (foldl (\<lambda>c ls. upd_slab (snd ls) slab_close c) c (c_slabs c))\<lparr>c_slabs := [], c_resident := []\<rparr>"

end
