(* ===== verification/Fast_Tier_Inv.thy ===== *)
theory Fast_Tier_Inv
  imports Fast_Tier
begin

text \<open>
  The invariant of the fast tier and its preservation by every operation. For each slab the free
  slots, the slots of resident blocks and the slots an operation has taken but not yet filled are
  together exactly the slots of the slab, each once (\<open>tier_inv\<close>): no slot is lost, and no slot
  holds two blocks. From it follows that no operation changes the bytes of a block that stays
  resident, which is what the cache promises its readers.
\<close>

section \<open>Bytes of a slot\<close>

lemma length_write_at:
  "off + length data \<le> length f \<Longrightarrow> length (write_at f off data) = length f"
  by (simp add: write_at_def)

lemma nth_write_at:
  assumes "off + length data \<le> length f" "j < length f"
  shows "write_at f off data ! j = (if off \<le> j \<and> j < off + length data then data ! (j - off) else f ! j)"
  using assms by (auto simp: write_at_def nth_append)

definition slot_bytes :: "byte list \<Rightarrow> nat \<Rightarrow> nat \<Rightarrow> nat \<Rightarrow> byte list" where
  "slot_bytes f bs slot len = take len (drop (slot * bs) f)"

lemma slot_bounds:
  assumes "slot < n" "n * bs \<le> length (f :: byte list)" "len \<le> bs"
  shows "slot * bs + len \<le> length f"
proof -
  have "Suc slot * bs \<le> n * bs" using assms(1) by (intro mult_right_mono) simp_all
  then show ?thesis using assms(2,3) by simp
qed

lemma slot_bytes_same:
  assumes "length data \<le> bs" "slot < n" "n * bs \<le> length f"
  shows "slot_bytes (write_at f (slot * bs) data) bs slot (length data) = data"
proof -
  have "slot * bs + length data \<le> length f" using slot_bounds [OF assms(2,3,1)] .
  then show ?thesis by (simp add: slot_bytes_def write_at_def)
qed

lemma slots_apart:
  assumes "slot \<noteq> (slot' :: nat)" "j < bs" "j' < bs"
  shows "slot * bs + j \<noteq> slot' * bs + j'"
proof
  assume eq: "slot * bs + j = slot' * bs + j'"
  have "(slot * bs + j) div bs = slot" "(slot' * bs + j') div bs = slot'"
    using assms by (simp_all add: div_mult_self3)
  then show False using eq assms(1) by simp
qed

lemma slot_bytes_other:
  assumes "slot \<noteq> slot'" "length data \<le> bs" "len \<le> bs" "slot < n" "slot' < n" "n * bs \<le> length f"
  shows "slot_bytes (write_at f (slot' * bs) data) bs slot len = slot_bytes f bs slot len"
proof -
  have b: "slot' * bs + length data \<le> length f" "slot * bs + len \<le> length f"
    using slot_bounds assms by blast+
  have "write_at f (slot' * bs) data ! (slot * bs + j) = f ! (slot * bs + j)" if "j < len" for j
  proof -
    have "\<not> (slot' * bs \<le> slot * bs + j \<and> slot * bs + j < slot' * bs + length data)"
    proof
      assume a: "slot' * bs \<le> slot * bs + j \<and> slot * bs + j < slot' * bs + length data"
      then obtain j' where "slot * bs + j = slot' * bs + j'" "j' < length data"
        by (metis add_less_cancel_left le_Suc_ex)
      then show False using slots_apart [OF assms(1)] that assms(2,3) by (meson less_le_trans)
    qed
    then show ?thesis using b that nth_write_at [OF b(1), of "slot * bs + j"] by auto
  qed
  then show ?thesis
    using b by (intro nth_equalityI) (auto simp: slot_bytes_def length_write_at)
qed

section \<open>The invariant\<close>

abbreviation c_bs :: "cache \<Rightarrow> nat" where
  "c_bs c \<equiv> nat (BlockSize (c_cfg c))"

definition ptrs :: "cache \<Rightarrow> slab_ptr set" where
  "ptrs c = snd ` set (c_slabs c)"

definition occ :: "(Key, placement) gomap \<Rightarrow> slab_ptr \<Rightarrow> nat multiset" where
  "occ r i = mset (map (p_slot \<circ> snd) (filter (\<lambda>kp. p_slab (snd kp) = i) r))"

definition slab_inv :: "cache \<Rightarrow> nat multiset \<Rightarrow> slab_ptr \<Rightarrow> bool" where
  "slab_inv c T i \<longleftrightarrow> i < length (c_heap c) \<and> \<not> s_revoked (c_heap c ! i) \<and> \<not> s_closed (c_heap c ! i)
     \<and> s_slots (c_heap c ! i) * c_bs c \<le> length (s_file (c_heap c ! i))
     \<and> mset (s_free (c_heap c ! i)) + occ (c_resident c) i + T = mset_set {0..<s_slots (c_heap c ! i)}"

text \<open>\<open>T\<close> says which slots are taken and not yet filled.\<close>

definition tier_inv :: "(slab_ptr \<Rightarrow> nat multiset) \<Rightarrow> cache \<Rightarrow> bool" where
  "tier_inv T c \<longleftrightarrow> 0 < BlockSize (c_cfg c) \<and> gomap_ok (c_slabs c) \<and> distinct (map snd (c_slabs c))
     \<and> gomap_ok (c_resident c)
     \<and> (\<forall>i\<in>ptrs c. slab_inv c (T i) i)
     \<and> (\<forall>(k, p)\<in>set (c_resident c). p_slab p \<in> ptrs c \<and> p_length p \<le> c_bs c \<and> p_gen p \<le> c_generation c)
     \<and> distinct (map (p_gen \<circ> snd) (c_resident c))"

definition tier_ok :: "cache \<Rightarrow> bool" where
  "tier_ok c \<longleftrightarrow> tier_inv (\<lambda>_. {#}) c"

lemma occ_Nil [simp]: "occ [] i = {#}"
  by (simp add: occ_def)

lemma occ_Cons [simp]: "occ ((k, p) # r) i = (if p_slab p = i then add_mset (p_slot p) (occ r i) else occ r i)"
  by (simp add: occ_def)

lemma occ_append [simp]: "occ (r @ q) i = occ r i + occ q i"
  by (simp add: occ_def)

lemma occ_delete:
  "gomap_ok r \<Longrightarrow> map_of r k = Some p \<Longrightarrow>
   occ r i = occ (AList.delete k r) i + (if p_slab p = i then {#p_slot p#} else {#})"
proof (induction r)
  case (Cons kv r)
  obtain j q where kv: "kv = (j, q)" by force
  show ?case
  proof (cases "j = k")
    case True
    then show ?thesis using Cons.prems by (simp add: kv gomap_ok_Cons delete_absent)
  next
    case False
    then show ?thesis using Cons by (simp add: kv gomap_ok_Cons)
  qed
qed simp

lemma occ_update_fresh:
  "map_of r k = None \<Longrightarrow> occ (AList.update k p r) i = occ r i + (if p_slab p = i then {#p_slot p#} else {#})"
  by (simp add: update_fresh)

lemma occ_touch:
  "map_of r k = Some p \<Longrightarrow> p_slab p' = p_slab p \<Longrightarrow> p_slot p' = p_slot p \<Longrightarrow>
   occ (AList.update k p' r) i = occ r i"
proof (induction r)
  case (Cons kv r)
  then show ?case by (cases kv; cases "fst kv = k") simp_all
qed simp

lemma occ_mem: "(k, p) \<in> set r \<Longrightarrow> p_slot p \<in># occ r (p_slab p)"
  by (force simp: occ_def)

text \<open>No two resident blocks share a slot, and a free or taken slot holds no resident block.\<close>

lemma slab_inv_slot:
  assumes "slab_inv c T i" "slot \<in># mset (s_free (c_heap c ! i)) + occ (c_resident c) i + T"
  shows "slot < s_slots (c_heap c ! i)"
proof -
  have "slot \<in># mset_set {0..<s_slots (c_heap c ! i)}" using assms by (simp add: slab_inv_def)
  then show ?thesis by simp
qed

lemma slab_inv_count:
  assumes "slab_inv c T i"
  shows "count (mset (s_free (c_heap c ! i)) + occ (c_resident c) i + T) slot \<le> 1"
proof -
  have "mset (s_free (c_heap c ! i)) + occ (c_resident c) i + T = mset_set {0..<s_slots (c_heap c ! i)}"
    using assms by (simp add: slab_inv_def)
  then show ?thesis by (simp only: count_mset_set') simp
qed

lemma inv_disjoint:
  assumes "slab_inv c T i" "slot \<in># T \<or> slot \<in> set (s_free (c_heap c ! i))"
  shows "slot \<notin># occ (c_resident c) i"
proof
  assume "slot \<in># occ (c_resident c) i"
  then have "0 < count (occ (c_resident c) i) slot" by (simp only: count_greater_zero_iff)
  moreover have "1 \<le> count T slot + count (mset (s_free (c_heap c ! i))) slot"
    using assms(2) by (metis One_nat_def Suc_leI add_gr_0 count_greater_zero_iff set_mset_mset)
  ultimately show False using slab_inv_count [OF assms(1), of slot] by (simp only: count_union)
qed

text \<open>One lemma for every operation that changes one slab and the blocks in it.\<close>

lemma tier_inv_update:
  assumes inv: "tier_inv T c" and i: "i \<in> ptrs c"
    and fr: "c_cfg c' = c_cfg c" "c_slabs c' = c_slabs c" "c_heap c' = (c_heap c)[i := s']"
    and s': "\<not> s_revoked s'" "\<not> s_closed s'" "s_slots s' = s_slots (c_heap c ! i)"
      "length (s_file s') = length (s_file (c_heap c ! i))"
    and bal: "mset (s_free s') + occ (c_resident c') i + T' i
      = mset (s_free (c_heap c ! i)) + occ (c_resident c) i + T i"
    and oth: "\<And>j. j \<noteq> i \<Longrightarrow> T' j = T j \<and> occ (c_resident c') j = occ (c_resident c) j"
    and res: "gomap_ok (c_resident c')" "distinct (map (p_gen \<circ> snd) (c_resident c'))"
      "\<forall>(k, p)\<in>set (c_resident c'). p_slab p \<in> ptrs c \<and> p_length p \<le> c_bs c \<and> p_gen p \<le> c_generation c'"
  shows "tier_inv T' c'"
proof -
  have pt: "ptrs c' = ptrs c" using fr by (simp add: ptrs_def)
  have "slab_inv c' (T' j) j" if "j \<in> ptrs c'" for j
  proof (cases "j = i")
    case True
    have "slab_inv c (T i) i" using inv i by (auto simp: tier_inv_def)
    then show ?thesis using True fr s' bal by (simp add: slab_inv_def)
  next
    case False
    have "slab_inv c (T j) j" using inv that pt by (auto simp: tier_inv_def)
    then show ?thesis using False fr oth [OF False] by (simp add: slab_inv_def)
  qed
  then show ?thesis using inv fr res pt by (simp add: tier_inv_def)
qed

lemma tier_inv_slab: "tier_inv T c \<Longrightarrow> i \<in> ptrs c \<Longrightarrow> slab_inv c (T i) i"
  by (simp add: tier_inv_def)

lemma ptrs_lookup: "map_of (c_slabs c) l = Some i \<Longrightarrow> i \<in> ptrs c"
  by (force simp: ptrs_def dest: map_of_SomeD)

lemma tier_inv_resident:
  "tier_inv T c \<Longrightarrow> (k, p) \<in> set (c_resident c) \<Longrightarrow> p_slab p \<in> ptrs c \<and> p_length p \<le> c_bs c \<and> p_gen p \<le> c_generation c"
  by (auto simp: tier_inv_def)

section \<open>The bytes of resident blocks\<close>

definition block_bytes :: "cache \<Rightarrow> placement \<Rightarrow> byte list" where
  "block_bytes c p = slot_bytes (s_file (c_heap c ! p_slab p)) (c_bs c) (p_slot p) (p_length p)"

text \<open>\<open>keeps c c'\<close>: a block resident in both, in the same occupancy, has the same bytes.\<close>

definition keeps :: "cache \<Rightarrow> cache \<Rightarrow> bool" where
  "keeps c c' \<longleftrightarrow> (\<forall>k p p'. map_of (c_resident c) k = Some p \<longrightarrow> map_of (c_resident c') k = Some p' \<longrightarrow>
     p_gen p' = p_gen p \<longrightarrow>
     p_slab p' = p_slab p \<and> p_slot p' = p_slot p \<and> p_length p' = p_length p \<and> block_bytes c' p' = block_bytes c p)"

section \<open>Taking a slot\<close>

lemma take_first_inv:
  assumes "tier_inv T c" "take_first c ls = Some (i, slot, c')"
  shows "tier_inv (T(i := T i + {#slot#})) c'" and "i \<in> ptrs c"
    and "\<exists>s'. c' = upd_slab i (\<lambda>_. s') c \<and> s_file s' = s_file (c_heap c ! i)"
proof -
  have "i \<in> ptrs c \<and> (\<exists>s'. take_slot (c_heap c ! i) = Some (slot, s') \<and> c' = upd_slab i (\<lambda>_. s') c)"
    using assms(2)
    by (induction c ls rule: take_first.induct) (auto split: option.splits prod.splits dest: ptrs_lookup)
  then obtain s' where i: "i \<in> ptrs c" and t: "take_slot (c_heap c ! i) = Some (slot, s')"
    and c': "c' = upd_slab i (\<lambda>_. s') c" by blast
  have s': "s_free (c_heap c ! i) = s_free s' @ [slot]" "s_revoked s' = s_revoked (c_heap c ! i)"
    "s_closed s' = s_closed (c_heap c ! i)" "s_slots s' = s_slots (c_heap c ! i)" "s_file s' = s_file (c_heap c ! i)"
    using t by (auto simp: take_slot_def split: if_splits)
  have si: "slab_inv c (T i) i" using tier_inv_slab [OF assms(1) i] .
  show "tier_inv (T(i := T i + {#slot#})) c'"
    using assms(1) i si s'
    by (intro tier_inv_update [OF assms(1) i, of c' s'])
      (auto simp: c' upd_slab_def slab_inv_def tier_inv_def)
  show "i \<in> ptrs c" by (rule i)
  show "\<exists>s'. c' = upd_slab i (\<lambda>_. s') c \<and> s_file s' = s_file (c_heap c ! i)" using c' s' by blast
qed

lemma distinct_delete_gens: "distinct (map (p_gen \<circ> snd) r) \<Longrightarrow> distinct (map (p_gen \<circ> snd) (AList.delete k r))"
  by (simp add: AList.delete_eq distinct_map_filter)

text \<open>Dropping a resident block and freeing its slot.\<close>

lemma drop_block_inv:
  assumes inv: "tier_inv T c" and k: "map_of (c_resident c) k = Some p"
  shows "tier_inv T ((upd_slab (p_slab p) (\<lambda>s. release_slot s (p_slot p)) c)\<lparr>c_resident := AList.delete k (c_resident c)\<rparr>)"
proof -
  let ?i = "p_slab p"
  have r: "gomap_ok (c_resident c)" "(k, p) \<in> set (c_resident c)"
    using inv k by (auto simp: tier_inv_def dest: map_of_SomeD)
  have i: "?i \<in> ptrs c" using tier_inv_resident [OF inv r(2)] by simp
  have si: "slab_inv c (T ?i) ?i" by (rule tier_inv_slab [OF inv i])
  show ?thesis
    using inv i si r occ_delete [OF r(1) k]
    by (intro tier_inv_update [OF inv i, where s' = "release_slot (c_heap c ! ?i) (p_slot p)"])
      (auto simp: upd_slab_def release_slot_def slab_inv_def tier_inv_def set_delete distinct_delete_gens)
qed

lemma victim_mem: "victim s r best = Some kp \<Longrightarrow> best = Some kp \<or> kp \<in> set r \<and> p_slab (snd kp) = s"
proof (induction r arbitrary: best)
  case (Cons x r)
  have "\<exists>b. victim s (x # r) best = victim s r b \<and> (b = best \<or> b = Some x \<and> p_slab (snd x) = s)"
    by (cases x; cases best) auto
  then obtain b where b: "victim s r b = Some kp" "b = best \<or> b = Some x \<and> p_slab (snd x) = s"
    using Cons.prems by auto
  show ?case using Cons.IH [OF b(1)] b(2) by auto
qed simp

lemma evict_inv:
  assumes inv: "tier_inv T c" and e: "evict_loop c ls = Some c'"
  shows "tier_inv T c'"
    and "\<exists>k p. map_of (c_resident c) k = Some p
      \<and> c' = (upd_slab (p_slab p) (\<lambda>s. release_slot s (p_slot p)) c)\<lparr>c_resident := AList.delete k (c_resident c)\<rparr>"
proof -
  have "\<exists>k p. (k, p) \<in> set (c_resident c)
      \<and> c' = (upd_slab (p_slab p) (\<lambda>s. release_slot s (p_slot p)) c)\<lparr>c_resident := AList.delete k (c_resident c)\<rparr>"
    using e by (induction c ls rule: evict_loop.induct) (fastforce split: option.splits prod.splits dest: victim_mem)+
  then show ex: "\<exists>k p. map_of (c_resident c) k = Some p
      \<and> c' = (upd_slab (p_slab p) (\<lambda>s. release_slot s (p_slot p)) c)\<lparr>c_resident := AList.delete k (c_resident c)\<rparr>"
    using inv by (auto simp: tier_inv_def gomap_ok_def intro: map_of_is_SomeI)
  then show "tier_inv T c'" using drop_block_inv [OF inv] by blast
qed

section \<open>Placing a block\<close>

text \<open>What finding room may change: blocks can go, and nothing else a reader can see.\<close>

definition makes_room :: "cache \<Rightarrow> cache \<Rightarrow> bool" where
  "makes_room c c' \<longleftrightarrow> c_cfg c' = c_cfg c \<and> c_slabs c' = c_slabs c \<and> c_order c' = c_order c \<and> c_first c' = c_first c
     \<and> c_generation c' = c_generation c \<and> c_clock c' = c_clock c \<and> length (c_heap c') = length (c_heap c)
     \<and> (\<forall>j. s_file (c_heap c' ! j) = s_file (c_heap c ! j))
     \<and> map_of (c_resident c') \<subseteq>\<^sub>m map_of (c_resident c)"

lemma makes_room_refl [simp]: "makes_room c c"
  by (simp add: makes_room_def)

lemma makes_room_trans: "makes_room a b \<Longrightarrow> makes_room b c \<Longrightarrow> makes_room a c"
  by (auto simp: makes_room_def intro: map_le_trans)

lemma list_update_file:
  "s_file s' = s_file (xs ! i) \<Longrightarrow> s_file (xs[i := s'] ! j) = s_file (xs ! j)"
  by (cases "j = i"; cases "i < length xs") (simp_all add: nth_list_update list_update_beyond)

lemma makes_room_upd:
  assumes "s_file s' = s_file (c_heap c ! i)"
  shows "makes_room c (upd_slab i (\<lambda>_. s') c)"
  using assms by (simp add: makes_room_def upd_slab_def list_update_file)

lemma makes_room_drop:
  "makes_room c ((upd_slab i (\<lambda>s. release_slot s n) c)\<lparr>c_resident := AList.delete k (c_resident c)\<rparr>)"
  by (auto simp: makes_room_def upd_slab_def list_update_file release_slot_def map_le_def map_of_delete_if)

lemma placeLocked_inv:
  assumes ok: "tier_ok c" and p: "placeLocked c pf = (r, c1)"
  shows "makes_room c c1"
    and "r = Inl e \<Longrightarrow> tier_ok c1"
    and "r = Inr (i, slot) \<Longrightarrow> tier_inv ((\<lambda>_. {#})(i := {#slot#})) c1 \<and> i \<in> ptrs c1"
    and "pf \<Longrightarrow> c_resident c1 = c_resident c"
proof -
  have inv: "tier_inv (\<lambda>_. {#}) c" using ok by (simp add: tier_ok_def)
  have t: "makes_room b c2 \<and> tier_inv ((\<lambda>_. {#})(i := {#slot#})) c2 \<and> i \<in> ptrs c2 \<and> c_resident c2 = c_resident b"
    if "tier_inv (\<lambda>_. {#}) b" "take_first b ls = Some (i, slot, c2)" for b ls i slot c2
    using take_first_inv [OF that] makes_room_upd by (auto simp: ptrs_def upd_slab_def)
  have e: "makes_room c c2 \<and> tier_inv (\<lambda>_. {#}) c2" if "evictOneLocked c = Some c2" for c2
    using evict_inv [OF inv that [unfolded evictOneLocked_def]] makes_room_drop by blast
  show "makes_room c c1"
    using p t inv e by (auto simp: placeLocked_def split: option.splits if_splits) (metis makes_room_trans)+
  show "r = Inl e \<Longrightarrow> tier_ok c1"
    using p inv e by (auto simp: placeLocked_def tier_ok_def split: option.splits if_splits)
  show "r = Inr (i, slot) \<Longrightarrow> tier_inv ((\<lambda>_. {#})(i := {#slot#})) c1 \<and> i \<in> ptrs c1"
    using p t inv e by (auto simp: placeLocked_def split: option.splits if_splits)
  show "pf \<Longrightarrow> c_resident c1 = c_resident c"
    using p t inv by (auto simp: placeLocked_def split: option.splits if_splits)
qed

text \<open>Writing into a slot that is taken, and giving it back when the write failed.\<close>

lemma slab_write_file:
  assumes "slab_write w s slot data bs = (e, s')"
  shows "s_free s' = s_free s" "s_slots s' = s_slots s" "s_revoked s' = s_revoked s" "s_closed s' = s_closed s"
    and "\<exists>d. s_file s' = s_file s \<or> (length d \<le> length data \<and> int (length data) \<le> bs
          \<and> s_file s' = write_at (s_file s) (slot * nat bs) d \<and> (e = None \<longrightarrow> d = data))"
    and "e = None \<Longrightarrow> s_file s' = write_at (s_file s) (slot * nat bs) data \<and> int (length data) \<le> bs"
proof -
  show "\<exists>d. s_file s' = s_file s \<or> (length d \<le> length data \<and> int (length data) \<le> bs
      \<and> s_file s' = write_at (s_file s) (slot * nat bs) d \<and> (e = None \<longrightarrow> d = data))"
    using assms
    by (intro exI [of _ "case w of None \<Rightarrow> data | Some n \<Rightarrow> take n data"])
      (auto simp: slab_write_def split: if_splits option.splits)
qed (use assms in \<open>auto simp: slab_write_def split: if_splits option.splits\<close>)

lemma tier_inv_taken:
  assumes "tier_inv ((\<lambda>_. {#})(i := {#slot#})) c" "i \<in> ptrs c"
  shows "slot < s_slots (c_heap c ! i)" and "slot \<notin># occ (c_resident c) i"
    and "i < length (c_heap c)" and "s_slots (c_heap c ! i) * c_bs c \<le> length (s_file (c_heap c ! i))"
proof -
  have si: "slab_inv c {#slot#} i" using tier_inv_slab [OF assms] by simp
  show "slot < s_slots (c_heap c ! i)" by (rule slab_inv_slot [OF si]) simp
  show "slot \<notin># occ (c_resident c) i" by (rule inv_disjoint [OF si]) simp
  show "i < length (c_heap c)" "s_slots (c_heap c ! i) * c_bs c \<le> length (s_file (c_heap c ! i))"
    using si by (simp_all add: slab_inv_def)
qed

lemma write_length:
  assumes "tier_inv ((\<lambda>_. {#})(i := {#slot#})) c" "i \<in> ptrs c" "slab_write w (c_heap c ! i) slot data (BlockSize (c_cfg c)) = (e, s')"
  shows "length (s_file s') = length (s_file (c_heap c ! i))"
proof -
  obtain d where "s_file s' = s_file (c_heap c ! i) \<or> length d \<le> length data \<and> int (length data) \<le> BlockSize (c_cfg c)
      \<and> s_file s' = write_at (s_file (c_heap c ! i)) (slot * c_bs c) d"
    using slab_write_file(5) [OF assms(3)] by blast
  then show ?thesis
    using slot_bounds [OF tier_inv_taken(1,4) [OF assms(1,2)], of "length d"]
    by (auto simp: length_write_at)
qed

text \<open>The bytes of the resident blocks are not touched by a write to a taken slot.\<close>

lemma write_block_bytes:
  assumes inv: "tier_inv ((\<lambda>_. {#})(i := {#slot#})) c" "i \<in> ptrs c"
    and w: "slab_write w (c_heap c ! i) slot data (BlockSize (c_cfg c)) = (e, s')"
    and k: "(k, p) \<in> set (c_resident c)" and f: "s_file s2 = s_file s'"
  shows "block_bytes (upd_slab i (\<lambda>_. s2) c) p = block_bytes c p"
proof (cases "p_slab p = i")
  case False
  then show ?thesis by (simp add: block_bytes_def upd_slab_def)
next
  case True
  note tk = tier_inv_taken [OF inv]
  have p: "p_slot p \<in># occ (c_resident c) i" "p_length p \<le> c_bs c"
    using occ_mem [OF k] True tier_inv_resident [OF inv(1) k] by auto
  then have ne: "p_slot p \<noteq> slot" using tk(2) by auto
  have lt: "p_slot p < s_slots (c_heap c ! i)"
    using slab_inv_slot [OF tier_inv_slab [OF inv]] p by simp
  obtain d where d: "s_file s' = s_file (c_heap c ! i) \<or> length d \<le> length data \<and> int (length data) \<le> BlockSize (c_cfg c)
      \<and> s_file s' = write_at (s_file (c_heap c ! i)) (slot * c_bs c) d"
    using slab_write_file(5) [OF w] by blast
  have "slot_bytes (s_file s') (c_bs c) (p_slot p) (p_length p)
      = slot_bytes (s_file (c_heap c ! i)) (c_bs c) (p_slot p) (p_length p)"
    using d slot_bytes_other [OF ne _ p(2) lt tk(1,4), of d] by auto
  then show ?thesis using True tk(3) f by (simp add: block_bytes_def upd_slab_def)
qed

section \<open>Admitting\<close>

lemma makes_room_bytes: "makes_room c c' \<Longrightarrow> block_bytes c' p = block_bytes c p"
  by (simp add: makes_room_def block_bytes_def)

lemma failed_write_ok:
  assumes inv: "tier_inv ((\<lambda>_. {#})(i := {#slot#})) c" "i \<in> ptrs c"
    and w: "slab_write w (c_heap c ! i) slot data (BlockSize (c_cfg c)) = (e, s')"
  shows "tier_ok (upd_slab i (\<lambda>_. release_slot s' slot) c)"
  unfolding tier_ok_def
  using inv tier_inv_slab [OF inv] slab_write_file [OF w] write_length [OF inv w]
  by (intro tier_inv_update [OF inv, where s' = "release_slot s' slot"])
    (auto simp: upd_slab_def release_slot_def slab_inv_def tier_inv_def)

lemma inc64_small: "n < 18446744073709551615 \<Longrightarrow> inc64 n = n + 1"
  by (simp add: inc64_def)

lemma filled_ok:
  assumes inv: "tier_inv ((\<lambda>_. {#})(i := {#slot#})) c" "i \<in> ptrs c" and k: "map_of (c_resident c) k = None"
    and w: "slab_write w (c_heap c ! i) slot data (BlockSize (c_cfg c)) = (None, s')"
    and p: "p_slab p = i" "p_slot p = slot" "p_length p = length data" "p_gen p = Suc (c_generation c)"
    and c': "c_cfg c' = c_cfg c" "c_slabs c' = c_slabs c" "c_heap c' = (c_heap c)[i := s']"
      "c_resident c' = AList.update k p (c_resident c)" "c_generation c' = Suc (c_generation c)"
  shows "tier_ok c'" and "block_bytes c' p = data"
proof -
  note tk = tier_inv_taken [OF inv] and sw = slab_write_file [OF w]
  have "p_gen (snd kp) \<noteq> Suc (c_generation c)" if "kp \<in> set (c_resident c)" for kp
    using tier_inv_resident [OF inv(1), of "fst kp" "snd kp"] that by auto
  then have g: "Suc (c_generation c) \<notin> (p_gen \<circ> snd) ` set (c_resident c)" by force
  have gm: "gomap_ok (c_resident c @ [(k, p)])"
    using gomap_ok_update [of "c_resident c" k p] inv(1) by (simp add: update_fresh [OF k] tier_inv_def)
  have "\<forall>(k, q)\<in>set (c_resident c'). p_slab q \<in> ptrs c \<and> p_length q \<le> c_bs c \<and> p_gen q \<le> c_generation c'"
    using tier_inv_resident [OF inv(1)] sw(6) inv(2) by (fastforce simp: c' update_fresh [OF k] p)
  then show "tier_ok c'"
    unfolding tier_ok_def
    using inv tier_inv_slab [OF inv] sw write_length [OF inv w] g gm
    by (intro tier_inv_update [OF inv, where s' = s'])
      (auto simp: c' p slab_inv_def tier_inv_def update_fresh [OF k])
  have "length data \<le> c_bs c" using sw(6) by auto
  then show "block_bytes c' p = data"
    using slot_bytes_same [OF _ tk(1,4)] sw(6) tk(3) by (simp add: block_bytes_def c' p)
qed

lemma keepsI:
  assumes "\<And>k p p'. map_of (c_resident c) k = Some p \<Longrightarrow> map_of (c_resident c') k = Some p' \<Longrightarrow> p_gen p' = p_gen p
    \<Longrightarrow> p_slab p' = p_slab p \<and> p_slot p' = p_slot p \<and> p_length p' = p_length p \<and> block_bytes c' p' = block_bytes c p"
  shows "keeps c c'"
  unfolding keeps_def using assms by blast

lemma makes_room_fresh: "makes_room c c1 \<Longrightarrow> map_of (c_resident c) k = None \<Longrightarrow> map_of (c_resident c1) k = None"
  by (auto simp: makes_room_def map_le_def dom_def)

lemma makes_room_same:
  "makes_room c c1 \<Longrightarrow> map_of (c_resident c) k = Some p \<Longrightarrow> map_of (c_resident c1) k = Some q \<Longrightarrow> q = p"
  by (auto simp: makes_room_def map_le_def dom_def)

text \<open>A write into a taken slot leaves every other block as it was.\<close>

lemma write_keeps:
  assumes mr: "makes_room c c1" and inv: "tier_inv ((\<lambda>_. {#})(i := {#slot#})) c1" "i \<in> ptrs c1"
    and w: "slab_write w (c_heap c1 ! i) slot data (BlockSize (c_cfg c1)) = (e, s')" and f: "s_file s2 = s_file s'"
    and c': "c_cfg c' = c_cfg c1" "c_heap c' = (c_heap c1)[i := s2]"
      "\<And>j. map_of (c_resident c) j \<noteq> None \<Longrightarrow> map_of (c_resident c') j = map_of (c_resident c1) j"
  shows "keeps c c'"
proof (rule keepsI)
  fix j q q'
  assume j: "map_of (c_resident c) j = Some q" "map_of (c_resident c') j = Some q'" "p_gen q' = p_gen q"
  then have q': "map_of (c_resident c1) j = Some q'" using c'(3) by auto
  have eq: "q' = q" by (rule makes_room_same [OF mr j(1) q'])
  have "block_bytes c' q' = block_bytes (upd_slab i (\<lambda>_. s2) c1) q'"
    by (simp add: block_bytes_def c' upd_slab_def)
  also have "\<dots> = block_bytes c1 q'"
    by (rule write_block_bytes [OF inv w map_of_SomeD [OF q'] f])
  finally show "p_slab q' = p_slab q \<and> p_slot q' = p_slot q \<and> p_length q' = p_length q \<and> block_bytes c' q' = block_bytes c q"
    using makes_room_bytes [OF mr] eq by simp
qed

lemma tier_ok_first [simp]: "tier_ok (c\<lparr>c_first := f\<rparr>) \<longleftrightarrow> tier_ok c"
  by (simp add: tier_ok_def tier_inv_def ptrs_def slab_inv_def)

lemma keeps_first: "keeps (c\<lparr>c_first := f\<rparr>) c' \<longleftrightarrow> keeps c c'"
  by (simp add: keeps_def block_bytes_def)

lemma keeps_room: "makes_room c c' \<Longrightarrow> keeps c c'"
  by (intro keepsI) (auto simp: makes_room_bytes makes_room_def map_le_def dom_def)

text \<open>What an admission leaves behind: a block with the bytes it was given, or at most fewer blocks.\<close>

definition admitted :: "cache \<Rightarrow> Key \<Rightarrow> byte list \<Rightarrow> tier_error + bool \<Rightarrow> cache \<Rightarrow> bool" where
  "admitted c k data r c' \<longleftrightarrow> tier_ok c' \<and> keeps c c' \<and> c_cfg c' = c_cfg c \<and>
    (if r = Inr True
     then \<exists>p. map_of (c_resident c) k = None \<and> map_of (c_resident c') k = Some p \<and> block_bytes c' p = data
            \<and> p_length p = length data \<and> p_gen p = Suc (c_generation c) \<and> c_generation c' = Suc (c_generation c)
     else c_generation c' = c_generation c \<and> map_of (c_resident c') \<subseteq>\<^sub>m map_of (c_resident c))"

lemma admit_place_inv:
  assumes ok: "tier_ok c" and k: "map_of (c_resident c) k = None" and g: "c_generation c < 18446744073709551615"
    and run: "admit_place w c k data pf = (r, c')"
  shows "admitted c k data r c'"
proof -
  obtain q c1 where pl: "placeLocked c pf = (q, c1)" by force
  note pi = placeLocked_inv [OF ok pl]
  note mr = pi(1)
  show ?thesis
  proof (cases q)
    case (Inl e)
    then have "c' = c1" "r = Inl e" using run pl by (simp_all add: admit_place_def)
    then show ?thesis using pi(2) Inl mr keeps_room by (auto simp: admitted_def makes_room_def)
  next
    case (Inr x)
    obtain i slot where q: "q = Inr (i, slot)" using Inr by (cases x) auto
    have inv: "tier_inv ((\<lambda>_. {#})(i := {#slot#})) c1" "i \<in> ptrs c1" using pi(3) q by auto
    obtain e s' where w: "slab_write w (c_heap c1 ! i) slot data (BlockSize (c_cfg c1)) = (e, s')" by force
    show ?thesis
    proof (cases e)
      case (Some x)
      then have c': "c' = upd_slab i (\<lambda>_. release_slot s' slot) c1" "r = Inl x"
        using run pl q w by (simp_all add: admit_place_def)
      have "keeps c c'" by (rule write_keeps [OF mr inv w, of "release_slot s' slot"])
          (simp_all add: c' upd_slab_def release_slot_def)
      then show ?thesis
        using failed_write_ok [OF inv w] mr by (simp add: admitted_def c' makes_room_def upd_slab_def)
    next
      case None
      define p where "p = \<lparr>p_slab = i, p_slot = slot, p_length = length data,
        p_used = inc64 (c_clock c1), p_gen = inc64 (c_generation c1)\<rparr>"
      have c': "c' = (upd_slab i (\<lambda>_. s') c1)\<lparr>c_clock := inc64 (c_clock c1), c_generation := inc64 (c_generation c1),
          c_resident := AList.update k p (c_resident c1), c_first := f_forget (c_first c1) k\<rparr>" "r = Inr True"
        using run pl q w None by (simp_all add: admit_place_def p_def)
      have gen: "c_generation c1 = c_generation c" "inc64 (c_generation c1) = Suc (c_generation c)"
        using mr g by (simp_all add: makes_room_def inc64_small)
      have "tier_ok c'" "block_bytes c' p = data"
        using filled_ok [OF inv makes_room_fresh [OF mr k] w [unfolded None], of p c'] gen
        by (simp_all add: c' p_def upd_slab_def)
      moreover have "keeps c c'"
        by (rule write_keeps [OF mr inv w refl]) (use k in \<open>auto simp: c' upd_slab_def map_of_update_if\<close>)
      ultimately show ?thesis
        using mr gen k by (auto simp: admitted_def c' makes_room_def upd_slab_def map_of_update_if p_def)
    qed
  qed
qed

lemma admitted_first: "admitted (c\<lparr>c_first := f\<rparr>) k data r c' = admitted c k data r c'"
  by (simp add: admitted_def keeps_first)

lemma Admit_inv:
  assumes ok: "tier_ok c" and g: "c_generation c < 18446744073709551615" and run: "Admit w c k data pf = (r, c')"
  shows "admitted c k data r c'"
proof (cases "BlockSize (c_cfg c) < int (length data) \<or> map_of (c_resident c) k \<noteq> None")
  case True
  then have "c' = c" "r \<noteq> Inr True" using run by (auto simp: Admit_def split: if_splits)
  then show ?thesis using ok by (simp add: admitted_def keeps_def)
next
  case False
  obtain b f where b: "admit_worth c k pf = (b, c\<lparr>c_first := f\<rparr>)"
  proof (cases pf)
    case True
    then show thesis by (intro that [of True "c_first c"]) (simp add: admit_worth_def)
  next
    case False
    obtain s f where "sawBefore (c_first c) k = (s, f)" by force
    then show thesis using that [of s f] False by (simp add: admit_worth_def)
  qed
  show ?thesis
  proof (cases b)
    case True
    then have "admit_place w (c\<lparr>c_first := f\<rparr>) k data pf = (r, c')"
      using run b False by (simp add: Admit_def)
    then have "admitted (c\<lparr>c_first := f\<rparr>) k data r c'"
      using ok g False by (intro admit_place_inv) simp_all
    then show ?thesis by (simp add: admitted_first)
  next
    case nb: False
    then have "c' = c\<lparr>c_first := f\<rparr>" "r = Inr False" using run b False by (auto simp: Admit_def)
    then show ?thesis using ok by (auto simp: admitted_def keeps_def block_bytes_def)
  qed
qed

section \<open>The other operations\<close>

lemma NewCache_ok: "NewCache cf = Inr c \<Longrightarrow> tier_ok c"
  by (auto simp: NewCache_def tier_ok_def tier_inv_def ptrs_def split: if_splits)

lemma openSlab_inv:
  assumes "openSlab l f bs = Inr s" "0 < bs"
  shows "\<not> s_revoked s" "\<not> s_closed s" "s_slots s * nat bs \<le> length (s_file s)"
    "mset (s_free s) = mset_set {0..<s_slots s}"
proof -
  obtain bytes where f: "f = Some bytes" using assms(1) by (cases f) (auto simp: openSlab_def)
  have "nat (int (length bytes) div bs) * nat bs = nat (int (length bytes) div bs * bs)"
    using assms(2) by (simp add: nat_mult_distrib pos_imp_zdiv_nonneg_iff)
  also have "\<dots> \<le> length bytes"
    using assms(2) by (simp add: nat_le_iff mult.commute pos_mod_sign minus_mod_eq_mult_div [symmetric])
  finally show "\<not> s_revoked s" "\<not> s_closed s" "s_slots s * nat bs \<le> length (s_file s)"
    "mset (s_free s) = mset_set {0..<s_slots s}"
    using assms(1) f by (auto simp: openSlab_def Let_def split: if_splits)
qed

lemma AddCapacity_inv:
  assumes ok: "tier_ok c" and run: "AddCapacity c l f = (e, c')"
  shows "tier_ok c'" and "keeps c c'" and "c_resident c' = c_resident c" and "c_generation c' = c_generation c"
    and "c_cfg c' = c_cfg c"
proof -
  have inv: "tier_inv (\<lambda>_. {#}) c" using ok by (simp add: tier_ok_def)
  have lt: "i < length (c_heap c)" if "i \<in> ptrs c" for i
    using tier_inv_slab [OF inv that] by (simp add: slab_inv_def)
  have plt: "p_slab p < length (c_heap c)" if "(k, p) \<in> set (c_resident c)" for k p
    using tier_inv_resident [OF inv that] lt by blast
  have "c' = c \<or> (\<exists>s. openSlab l f (BlockSize (c_cfg c)) = Inr s \<and> map_of (c_slabs c) l = None
      \<and> c' = c\<lparr>c_heap := c_heap c @ [s], c_slabs := c_slabs c @ [(l, length (c_heap c))], c_order := c_order c @ [l]\<rparr>)"
    using run by (auto simp: AddCapacity_def update_fresh split: sum.splits if_splits)
  then show "tier_ok c'" "keeps c c'" "c_resident c' = c_resident c" "c_generation c' = c_generation c"
    "c_cfg c' = c_cfg c"
  proof (safe)
    fix s assume s: "openSlab l f (BlockSize (c_cfg c)) = Inr s" and l: "map_of (c_slabs c) l = None"
    let ?c = "c\<lparr>c_heap := c_heap c @ [s], c_slabs := c_slabs c @ [(l, length (c_heap c))], c_order := c_order c @ [l]\<rparr>"
    have "0 < BlockSize (c_cfg c)" using inv by (simp add: tier_inv_def)
    note so = openSlab_inv [OF s this]
    have o0: "occ (c_resident c) (length (c_heap c)) = {#}"
      using plt by (force simp: occ_def filter_empty_conv)
    have "slab_inv ?c {#} i" if "i \<in> ptrs ?c" for i
    proof (cases "i = length (c_heap c)")
      case True
      then show ?thesis using so o0 by (simp add: slab_inv_def)
    next
      case False
      then have i: "i \<in> ptrs c" using that by (auto simp: ptrs_def)
      then show ?thesis using tier_inv_slab [OF inv i] lt [OF i] by (simp add: slab_inv_def nth_append)
    qed
    moreover have "gomap_ok (c_slabs ?c)"
      using inv gomap_ok_update [of "c_slabs c" l "length (c_heap c)"] l by (simp add: tier_inv_def update_fresh)
    moreover have "length (c_heap c) \<notin> snd ` set (c_slabs c)" using lt by (auto simp: ptrs_def)
    ultimately show "tier_ok ?c"
      using inv by (auto simp: tier_ok_def tier_inv_def ptrs_def)
    show "keeps c ?c"
      by (intro keepsI) (auto simp: block_bytes_def nth_append dest!: map_of_SomeD plt)
  qed (use ok in \<open>auto simp: keeps_def\<close>)
qed

lemma occ_filter: "j \<noteq> i \<Longrightarrow> occ (filter (\<lambda>kp. p_slab (snd kp) \<noteq> i) r) j = occ r j"
proof (induction r)
  case (Cons kp r)
  then show ?case by (cases kp) simp
qed simp

lemma map_of_filter_Some: "gomap_ok m \<Longrightarrow> map_of (filter P m) k = Some v \<Longrightarrow> map_of m k = Some v"
  by (auto simp: gomap_ok_def intro!: map_of_is_SomeI dest: map_of_SomeD)

lemma Revoke_inv:
  assumes ok: "tier_ok c" and run: "Revoke c l = (n, c')"
  shows "tier_ok c'" and "keeps c c'" and "c_generation c' = c_generation c" and "c_cfg c' = c_cfg c"
    and "map_of (c_resident c') \<subseteq>\<^sub>m map_of (c_resident c)"
proof -
  have inv: "tier_inv (\<lambda>_. {#}) c" using ok by (simp add: tier_ok_def)
  have "c' = c \<or> (\<exists>i. map_of (c_slabs c) l = Some i \<and> c' = (upd_slab i (slab_close \<circ> slab_revoke) c)
             \<lparr>c_resident := filter (\<lambda>kp. p_slab (snd kp) \<noteq> i) (c_resident c),
              c_slabs := AList.delete l (c_slabs c), c_order := remove1 l (c_order c)\<rparr>)"
    using run by (auto simp: Revoke_def split: option.splits)
  then show "tier_ok c'" "keeps c c'" "c_generation c' = c_generation c" "c_cfg c' = c_cfg c"
    "map_of (c_resident c') \<subseteq>\<^sub>m map_of (c_resident c)"
  proof (safe)
    fix i assume l: "map_of (c_slabs c) l = Some i"
    let ?c = "(upd_slab i (slab_close \<circ> slab_revoke) c)
             \<lparr>c_resident := filter (\<lambda>kp. p_slab (snd kp) \<noteq> i) (c_resident c),
              c_slabs := AList.delete l (c_slabs c), c_order := remove1 l (c_order c)\<rparr>"
    have dist: "distinct (map snd (c_slabs c))" "gomap_ok (c_slabs c)" using inv by (auto simp: tier_inv_def)
    have pt: "ptrs ?c = ptrs c - {i}"
    proof -
      have 1: "m = l" if "(m, i) \<in> set (c_slabs c)" for m
        using that dist(1) map_of_SomeD [OF l] by (fastforce simp: distinct_map inj_on_def)
      have 2: "j = i" if "(l, j) \<in> set (c_slabs c)" for j
        using that l dist(2) by (simp add: gomap_ok_def)
      have "(fst mj \<noteq> l) = (snd mj \<noteq> i)" if "mj \<in> set (c_slabs c)" for mj
        using that 1 [of "fst mj"] 2 [of "snd mj"] by (metis prod.collapse)
      then have "set (AList.delete l (c_slabs c)) = {mj \<in> set (c_slabs c). snd mj \<noteq> i}"
        unfolding set_delete by fastforce
      then have "ptrs ?c = snd ` {mj \<in> set (c_slabs c). snd mj \<noteq> i}" by (simp add: ptrs_def upd_slab_def)
      then show ?thesis by (auto simp: ptrs_def)
    qed
    have "slab_inv ?c {#} j" if "j \<in> ptrs ?c" for j
    proof -
      have j: "j \<in> ptrs c" "j \<noteq> i" using that pt by auto
      have oc: "occ (filter (\<lambda>kp. p_slab (snd kp) \<noteq> i) (c_resident c)) j = occ (c_resident c) j"
        by (rule occ_filter [OF j(2)])
      show ?thesis using tier_inv_slab [OF inv j(1)] j(2) oc by (simp add: slab_inv_def upd_slab_def)
    qed
    moreover have "distinct (map snd (AList.delete l (c_slabs c)))"
      using dist by (simp add: AList.delete_eq distinct_map_filter)
    ultimately show "tier_ok ?c"
      using inv pt by (auto simp: tier_ok_def tier_inv_def upd_slab_def distinct_map_filter)
    have g: "gomap_ok (c_resident c)" using inv by (simp add: tier_inv_def)
    have other: "p_slab p \<noteq> i" if "map_of (filter (\<lambda>kp. p_slab (snd kp) \<noteq> i) (c_resident c)) k = Some p" for k p
      using map_of_SomeD [OF that] by auto
    show "keeps c ?c"
    proof (rule keepsI)
      fix j q q'
      assume j: "map_of (c_resident c) j = Some q" "map_of (c_resident ?c) j = Some q'"
      then have "q' = q" "p_slab q' \<noteq> i"
        using map_of_filter_Some [OF g, of _ j q'] other [of j q'] by (simp_all add: upd_slab_def)
      then show "p_slab q' = p_slab q \<and> p_slot q' = p_slot q \<and> p_length q' = p_length q
          \<and> block_bytes ?c q' = block_bytes c q"
        by (simp add: block_bytes_def upd_slab_def)
    qed
    show "map_of (c_resident ?c) \<subseteq>\<^sub>m map_of (c_resident c)"
      using map_of_filter_Some [OF g] by (fastforce simp: map_le_def)
    show "c_generation ?c = c_generation c" "c_cfg ?c = c_cfg c" by (simp_all add: upd_slab_def)
  qed (use ok in \<open>auto simp: keeps_def\<close>)
qed

lemma tier_ok_order: "tier_ok (c\<lparr>c_order := ls\<rparr>) = tier_ok c"
  by (simp add: tier_ok_def tier_inv_def ptrs_def slab_inv_def)

lemma tier_ok_counters: "tier_ok (c\<lparr>c_misses := x\<rparr>) = tier_ok c" "tier_ok (c\<lparr>c_hits := y\<rparr>) = tier_ok c"
  by (simp_all add: tier_ok_def tier_inv_def ptrs_def slab_inv_def)

lemma keeps_counters: "keeps c (c'\<lparr>c_misses := x\<rparr>) = keeps c c'" "keeps c (c'\<lparr>c_hits := y\<rparr>) = keeps c c'"
  by (simp_all add: keeps_def block_bytes_def)

lemma keeps_refl [simp]: "keeps c c"
  by (simp add: keeps_def)

lemma read_begin_inv:
  assumes ok: "tier_ok c" and run: "read_begin c k = (r, c')"
  shows "tier_ok c'" and "keeps c c'" and "c_generation c' = c_generation c" and "c_cfg c' = c_cfg c"
    and "r = Some p \<Longrightarrow> \<exists>q. map_of (c_resident c) k = Some q \<and> p = q\<lparr>p_used := inc64 (c_clock c)\<rparr>
          \<and> map_of (c_resident c') = (map_of (c_resident c))(k \<mapsto> p) \<and> c_heap c' = c_heap c"
    and "r = None \<Longrightarrow> map_of (c_resident c) k = None \<and> c' = c\<lparr>c_misses := wrap64 (c_misses c + 1)\<rparr>"
proof -
  have inv: "tier_inv (\<lambda>_. {#}) c" using ok by (simp add: tier_ok_def)
  have "tier_ok c' \<and> keeps c c' \<and> c_generation c' = c_generation c \<and> c_cfg c' = c_cfg c"
  proof (cases "map_of (c_resident c) k")
    case None
    then show ?thesis using run ok by (auto simp: read_begin_def tier_ok_counters keeps_counters)
  next
    case (Some q)
    let ?q = "q\<lparr>p_used := inc64 (c_clock c)\<rparr>"
    have c': "c' = c\<lparr>c_clock := inc64 (c_clock c), c_resident := AList.update k ?q (c_resident c)\<rparr>"
      using run Some by (auto simp: read_begin_def Let_def)
    have mem: "(k, q) \<in> set (c_resident c)" using Some by (rule map_of_SomeD)
    have i: "p_slab q \<in> ptrs c" using tier_inv_resident [OF inv mem] by simp
    have gens: "map (p_gen \<circ> snd) (AList.update k ?q r) = map (p_gen \<circ> snd) r" if "map_of r k = Some q" for r
      using that by (induction r) (auto split: if_splits)
    have upd: "(j, p) \<in> set (AList.update k ?q (c_resident c)) \<Longrightarrow>
        \<exists>p0. (j, p0) \<in> set (c_resident c) \<and> p_slab p = p_slab p0 \<and> p_length p = p_length p0 \<and> p_gen p = p_gen p0" for j p
    proof -
      assume m: "(j, p) \<in> set (AList.update k ?q (c_resident c))"
      have "gomap_ok (AList.update k ?q (c_resident c))" using inv by (simp add: tier_inv_def)
      then have "map_of (AList.update k ?q (c_resident c)) j = Some p"
        using m by (simp add: gomap_ok_def)
      then show ?thesis using mem by (auto simp: map_of_update_if dest: map_of_SomeD split: if_splits)
    qed
    have "tier_inv (\<lambda>_. {#}) c'"
      using inv i Some tier_inv_slab [OF inv i] gens [OF Some] occ_touch [OF Some, of ?q]
      by (intro tier_inv_update [OF inv i, where s' = "c_heap c ! p_slab q"])
        (auto simp: c' tier_inv_def slab_inv_def dest!: upd)
    moreover have "keeps c c'"
      using Some by (intro keepsI) (auto simp: c' map_of_update_if block_bytes_def split: if_splits)
    ultimately show ?thesis by (simp add: tier_ok_def c')
  qed
  then show "tier_ok c'" "keeps c c'" "c_generation c' = c_generation c" "c_cfg c' = c_cfg c" by auto
  show "r = Some p \<Longrightarrow> \<exists>q. map_of (c_resident c) k = Some q \<and> p = q\<lparr>p_used := inc64 (c_clock c)\<rparr>
      \<and> map_of (c_resident c') = (map_of (c_resident c))(k \<mapsto> p) \<and> c_heap c' = c_heap c"
    using run by (auto simp: read_begin_def Let_def AList.update_conv' split: option.splits)
  show "r = None \<Longrightarrow> map_of (c_resident c) k = None \<and> c' = c\<lparr>c_misses := wrap64 (c_misses c + 1)\<rparr>"
    using run by (auto simp: read_begin_def Let_def split: option.splits)
qed

text \<open>
  \<open>p\<close> is the placement a read was sent for: if its occupancy is still the current one, it still
  says where the block is.
\<close>

definition sent_for :: "cache \<Rightarrow> Key \<Rightarrow> placement \<Rightarrow> bool" where
  "sent_for c k p \<longleftrightarrow> (\<forall>q. map_of (c_resident c) k = Some q \<longrightarrow> p_gen q = p_gen p \<longrightarrow>
     p_slab q = p_slab p \<and> p_slot q = p_slot p \<and> p_length q = p_length p)"

lemma read_end_inv:
  assumes ok: "tier_ok c" and p: "sent_for c k p" and run: "read_end c k p data = (r, c')"
  shows "tier_ok c'" and "keeps c c'" and "c_generation c' = c_generation c" and "c_cfg c' = c_cfg c"
    and "map_of (c_resident c') \<subseteq>\<^sub>m map_of (c_resident c)"
    and "r = Some d \<Longrightarrow> data = Some d \<and> (\<exists>q. map_of (c_resident c) k = Some q \<and> p_gen q = p_gen p)"
proof -
  have inv: "tier_inv (\<lambda>_. {#}) c" using ok by (simp add: tier_ok_def)
  have "c' = c\<lparr>c_misses := wrap64 (c_misses c + 1)\<rparr> \<or> c' = c\<lparr>c_hits := wrap64 (c_hits c + 1)\<rparr>
      \<or> (\<exists>q d. map_of (c_resident c) k = Some q \<and>
          d = (upd_slab (p_slab q) (\<lambda>s. release_slot s (p_slot q)) c)\<lparr>c_resident := AList.delete k (c_resident c)\<rparr>
          \<and> c' = d\<lparr>c_misses := wrap64 (c_misses d + 1)\<rparr>)"
  proof (cases "data = None \<and> (\<exists>q. map_of (c_resident c) k = Some q \<and> p_gen q = p_gen p)")
    case True
    then obtain q where q: "map_of (c_resident c) k = Some q" "p_gen q = p_gen p" by blast
    have same: "p_slab p = p_slab q" "p_slot p = p_slot q" using p q by (auto simp: sent_for_def)
    have "p_slab q \<in> ptrs c" using tier_inv_resident [OF inv map_of_SomeD [OF q(1)]] by simp
    then have "\<not> s_revoked (c_heap c ! p_slab q)" using tier_inv_slab [OF inv] by (simp add: slab_inv_def)
    then show ?thesis
      using run True q same by (auto simp: read_end_def Let_def upd_slab_def)
  next
    case False
    then show ?thesis using run by (auto simp: read_end_def Let_def split: option.splits if_splits)
  qed
  then show "tier_ok c'" "keeps c c'" "c_generation c' = c_generation c" "c_cfg c' = c_cfg c"
    "map_of (c_resident c') \<subseteq>\<^sub>m map_of (c_resident c)"
    using ok drop_block_inv [OF inv] keeps_room [OF makes_room_drop] makes_room_drop [unfolded makes_room_def]
    by (auto simp: tier_ok_counters keeps_counters tier_ok_def [symmetric])
  show "r = Some d \<Longrightarrow> data = Some d \<and> (\<exists>q. map_of (c_resident c) k = Some q \<and> p_gen q = p_gen p)"
    using run by (auto simp: read_end_def Let_def split: option.splits if_splits)
qed

lemma ReclaimOrder_inv: "tier_ok c \<Longrightarrow> tier_ok (ReclaimOrder c ls) \<and> keeps c (ReclaimOrder c ls)"
  by (simp add: ReclaimOrder_def tier_ok_order keeps_def block_bytes_def)

lemma CloseCache_frame:
  "c_cfg (CloseCache c) = c_cfg c" "c_generation (CloseCache c) = c_generation c"
  "c_resident (CloseCache c) = []" "c_slabs (CloseCache c) = []"
proof -
  have "c_cfg (foldl (\<lambda>c ls. upd_slab (snd ls) slab_close c) c xs) = c_cfg c
      \<and> c_generation (foldl (\<lambda>c ls. upd_slab (snd ls) slab_close c) c xs) = c_generation c" for xs :: "(string \<times> slab_ptr) list" and c
    by (induction xs arbitrary: c) (simp_all add: upd_slab_def)
  then show "c_cfg (CloseCache c) = c_cfg c" "c_generation (CloseCache c) = c_generation c"
    "c_resident (CloseCache c) = []" "c_slabs (CloseCache c) = []"
    by (simp_all add: CloseCache_def)
qed

lemma CloseCache_inv: "tier_ok c \<Longrightarrow> tier_ok (CloseCache c) \<and> keeps c (CloseCache c)"
  using CloseCache_frame [of c] by (auto simp: tier_ok_def tier_inv_def ptrs_def keeps_def)

section \<open>Reading\<close>

text \<open>
  A read that nothing interrupts returns exactly the bytes of the block when it is resident and
  the device answers, and a miss otherwise.
\<close>

lemma Read_result:
  assumes ok: "tier_ok c"
  shows "fst (Read fails c k) = (case map_of (c_resident c) k of
      None \<Rightarrow> None | Some p \<Rightarrow> if fails then None else Some (block_bytes c p))"
proof (cases "map_of (c_resident c) k")
  case None
  then show ?thesis by (simp add: Read_def read_begin_def)
next
  case (Some q)
  have inv: "tier_inv (\<lambda>_. {#}) c" using ok by (simp add: tier_ok_def)
  note r = tier_inv_resident [OF inv map_of_SomeD [OF Some]]
  have si: "slab_inv c {#} (p_slab q)" using tier_inv_slab [OF inv] r by simp
  have "p_slot q < s_slots (c_heap c ! p_slab q)"
    using slab_inv_slot [OF si] occ_mem [OF map_of_SomeD [OF Some]] by simp
  then have "p_slot q * c_bs c + p_length q \<le> length (s_file (c_heap c ! p_slab q))"
    using slot_bounds si r by (auto simp: slab_inv_def)
  then show ?thesis
    using Some si
    by (auto simp: Read_def read_begin_def Let_def slab_read_def slab_inv_def read_end_def map_of_update_if
        block_bytes_def slot_bytes_def)
qed

text \<open>An admission changes the placement of no other key: it can only drop it.\<close>

lemma take_first_resident: "take_first c ls = Some (i, slot, c') \<Longrightarrow> c_resident c' = c_resident c"
  by (induction c ls rule: take_first.induct) (auto simp: upd_slab_def split: option.splits prod.splits)

lemma evict_resident: "evict_loop c ls = Some c' \<Longrightarrow> \<exists>k. c_resident c' = AList.delete k (c_resident c)"
  by (induction c ls rule: evict_loop.induct) (auto split: option.splits prod.splits)

lemma place_resident: "placeLocked c pf = (r, c') \<Longrightarrow> map_of (c_resident c') j = Some q \<Longrightarrow> map_of (c_resident c) j = Some q"
  by (auto simp: placeLocked_def evictOneLocked_def map_of_delete_if split: option.splits if_splits
      dest!: take_first_resident evict_resident)

lemma Admit_others:
  assumes "Admit w c k data pf = (r, c')" "map_of (c_resident c') j = Some q" "j \<noteq> k"
  shows "map_of (c_resident c) j = Some q"
  using assms
  by (auto simp: Admit_def admit_place_def admit_worth_def Let_def upd_slab_def map_of_update_if
      split: if_splits prod.splits sum.splits option.splits bool.splits dest: place_resident)

text \<open>A predicted block never evicts: what is resident before its admission stays so.\<close>

lemma Admit_prefetch_keeps:
  assumes ok: "tier_ok c" and run: "Admit w c k data pf = (r, c')" and pf: "pf" and j: "map_of (c_resident c) j = Some p"
  shows "map_of (c_resident c') j = Some p"
proof -
  have "map_of (c_resident c') j = Some p" if k: "map_of (c_resident c) k = None" "admit_place w c k data pf = (r, c')"
  proof -
    obtain q c1 where pl: "placeLocked c pf = (q, c1)" by force
    have r1: "c_resident c1 = c_resident c" by (rule placeLocked_inv(4) [OF ok pl pf])
    have ne: "j \<noteq> k" using j k(1) by auto
    show ?thesis
      using k(2) pl r1 j ne
      by (auto simp: admit_place_def Let_def upd_slab_def map_of_update_if split: sum.splits option.splits prod.splits)
  qed
  then show ?thesis
    using run pf j by (auto simp: Admit_def admit_worth_def split: if_splits)
qed

lemma gomap_filter:
  "gomap_ok m \<Longrightarrow> map_of (filter (\<lambda>kp. Q (snd kp)) m) k =
    (case map_of m k of None \<Rightarrow> None | Some p \<Rightarrow> if \<not> Q p then None else Some p)"
proof (induction m)
  case (Cons kv m)
  then show ?case by (cases kv) (auto simp: gomap_ok_Cons map_of_eq_None_iff split: option.splits)
qed simp

end
