(* ===== verification/Tier_Race.thy ===== *)
theory Tier_Race
  imports Fast_Tier_Inv
begin

text \<open>
  Concurrent use of the fast tier. \<open>Cache.Read\<close> drops the lock while it reads the slab, so between
  \<open>read_begin\<close> and \<open>read_end\<close> other operations may evict the block, reuse its slot, and admit the
  same key again. The state below is the cache with the reads in flight, each with the bytes
  copied so far. A step is an operation under the lock, or one byte copied by one reader, in any
  order and at any time: a read torn by a write in progress copies some bytes before the write
  and some after it.

  The log lists every admission, with its generation. It is not part of the program: it is what a
  reader is promised an entry of. The invariant \<open>race_inv\<close> is preserved by every step, and says
  that as long as the occupancy a reader was sent for is still the current one, what it has copied
  are bytes of the block it asked for. Steps stop at \<open>2 ^ 64 - 1\<close> admissions, where the
  generation would come round.
\<close>

record flight =
  fl_key :: Key
  fl_place :: placement
  fl_buf :: "byte option list"

record race =
  r_cache :: cache
  r_reads :: "flight list"
  r_log :: "(nat \<times> Key \<times> byte list) list"

definition copy_byte :: "cache \<Rightarrow> flight \<Rightarrow> nat \<Rightarrow> flight" where
  "copy_byte c f j =
     f\<lparr>fl_buf := (fl_buf f)[j := Some (s_file (c_heap c ! p_slab (fl_place f)) ! (p_slot (fl_place f) * c_bs c + j))]\<rparr>"

definition start_read :: "race \<Rightarrow> Key \<Rightarrow> race" where
  "start_read s k =
     (case read_begin (r_cache s) k of
        (None, c) \<Rightarrow> s\<lparr>r_cache := c\<rparr>
      | (Some p, c) \<Rightarrow> s\<lparr>r_cache := c, r_reads := \<lparr>fl_key = k, fl_place = p, fl_buf = replicate (p_length p) None\<rparr> # r_reads s\<rparr>)"

text \<open>A finished read: every byte was copied, or the device failed.\<close>

definition finish_read :: "race \<Rightarrow> flight \<Rightarrow> bool \<Rightarrow> byte list option \<times> race" where
  "finish_read s f fails =
     (case read_end (r_cache s) (fl_key f) (fl_place f) (if fails then None else Some (map the (fl_buf f))) of
        (r, c) \<Rightarrow> (r, s\<lparr>r_cache := c, r_reads := remove1 f (r_reads s)\<rparr>))"

definition race_admit :: "write_fault \<Rightarrow> race \<Rightarrow> Key \<Rightarrow> byte list \<Rightarrow> bool \<Rightarrow> race" where
  "race_admit w s k data pf =
     (case Admit w (r_cache s) k data pf of
        (r, c) \<Rightarrow> s\<lparr>r_cache := c,
                    r_log := (if r = Inr True then (c_generation c, k, data) # r_log s else r_log s)\<rparr>)"

inductive race_step :: "race \<Rightarrow> race \<Rightarrow> bool" where
  start: "race_step s (start_read s k)"
| copy: "i < length (r_reads s) \<Longrightarrow> j < length (fl_buf (r_reads s ! i)) \<Longrightarrow>
    race_step s (s\<lparr>r_reads := (r_reads s)[i := copy_byte (r_cache s) (r_reads s ! i) j]\<rparr>)"
| finish: "f \<in> set (r_reads s) \<Longrightarrow> fails \<or> None \<notin> set (fl_buf f) \<Longrightarrow> race_step s (snd (finish_read s f fails))"
| admit: "c_generation (r_cache s) < 18446744073709551615 \<Longrightarrow> race_step s (race_admit w s k data pf)"
| add: "race_step s (s\<lparr>r_cache := snd (AddCapacity (r_cache s) l extent)\<rparr>)"
| revoke: "race_step s (s\<lparr>r_cache := snd (Revoke (r_cache s) l)\<rparr>)"
| order: "race_step s (s\<lparr>r_cache := ReclaimOrder (r_cache s) ls\<rparr>)"
| close_all: "race_step s (s\<lparr>r_cache := CloseCache (r_cache s)\<rparr>)"

definition race_init :: "cache \<Rightarrow> race" where
  "race_init c = \<lparr>r_cache = c, r_reads = [], r_log = []\<rparr>"

section \<open>The invariant\<close>

definition flight_ok :: "cache \<Rightarrow> flight \<Rightarrow> bool" where
  "flight_ok c f \<longleftrightarrow> p_gen (fl_place f) \<le> c_generation c \<and> length (fl_buf f) = p_length (fl_place f)
     \<and> sent_for c (fl_key f) (fl_place f)
     \<and> (\<forall>q j b. map_of (c_resident c) (fl_key f) = Some q \<longrightarrow> p_gen q = p_gen (fl_place f) \<longrightarrow>
          j < length (fl_buf f) \<longrightarrow> fl_buf f ! j = Some b \<longrightarrow> b = block_bytes c q ! j)"

definition log_ok :: "cache \<Rightarrow> (nat \<times> Key \<times> byte list) list \<Rightarrow> bool" where
  "log_ok c lg \<longleftrightarrow> (\<forall>k p. map_of (c_resident c) k = Some p \<longrightarrow> (p_gen p, k, block_bytes c p) \<in> set lg)"

definition race_inv :: "race \<Rightarrow> bool" where
  "race_inv s \<longleftrightarrow> tier_ok (r_cache s) \<and> log_ok (r_cache s) (r_log s) \<and> (\<forall>f\<in>set (r_reads s). flight_ok (r_cache s) f)"

text \<open>What an operation does to the occupancies: it keeps the bytes of the old ones, and a new one
  has a generation no reader holds.\<close>

definition tier_op :: "cache \<Rightarrow> cache \<Rightarrow> bool" where
  "tier_op c c' \<longleftrightarrow> tier_ok c' \<and> keeps c c' \<and> c_cfg c' = c_cfg c \<and> c_generation c \<le> c_generation c'
     \<and> (\<forall>k q'. map_of (c_resident c') k = Some q' \<longrightarrow>
          (\<exists>q. map_of (c_resident c) k = Some q \<and> p_gen q = p_gen q') \<or> c_generation c < p_gen q')"

lemma tier_op_le:
  "tier_ok c' \<Longrightarrow> keeps c c' \<Longrightarrow> c_cfg c' = c_cfg c \<Longrightarrow> c_generation c' = c_generation c
   \<Longrightarrow> map_of (c_resident c') \<subseteq>\<^sub>m map_of (c_resident c) \<Longrightarrow> tier_op c c'"
  by (auto simp: tier_op_def map_le_def dom_def)

lemma flight_ok_op:
  assumes op: "tier_op c c'" and f: "flight_ok c f"
  shows "flight_ok c' f"
proof -
  have old: "\<exists>q. map_of (c_resident c) (fl_key f) = Some q \<and> p_gen q = p_gen (fl_place f)
      \<and> p_slab q' = p_slab q \<and> p_slot q' = p_slot q \<and> p_length q' = p_length q \<and> block_bytes c' q' = block_bytes c q"
    if q': "map_of (c_resident c') (fl_key f) = Some q'" "p_gen q' = p_gen (fl_place f)" for q'
  proof -
    have "\<not> c_generation c < p_gen q'" using f q' by (simp add: flight_ok_def)
    then obtain q where "map_of (c_resident c) (fl_key f) = Some q" "p_gen q = p_gen q'"
      using op q'(1) unfolding tier_op_def by blast
    moreover have "keeps c c'" using op by (simp add: tier_op_def)
    ultimately show ?thesis using q' unfolding keeps_def by metis
  qed
  have gen: "c_generation c \<le> c_generation c'" using op by (simp add: tier_op_def)
  show ?thesis
    unfolding flight_ok_def sent_for_def
  proof (intro conjI allI impI)
    show "p_gen (fl_place f) \<le> c_generation c'" "length (fl_buf f) = p_length (fl_place f)"
      using f gen by (simp_all add: flight_ok_def)
    fix q' assume q': "map_of (c_resident c') (fl_key f) = Some q'" "p_gen q' = p_gen (fl_place f)"
    obtain q where q: "map_of (c_resident c) (fl_key f) = Some q" "p_gen q = p_gen (fl_place f)"
      "p_slab q' = p_slab q" "p_slot q' = p_slot q" "p_length q' = p_length q" "block_bytes c' q' = block_bytes c q"
      using old [OF q'] by blast
    show "p_slab q' = p_slab (fl_place f)" "p_slot q' = p_slot (fl_place f)" "p_length q' = p_length (fl_place f)"
      using f q by (simp_all add: flight_ok_def sent_for_def)
    show "b = block_bytes c' q' ! j" if "j < length (fl_buf f)" "fl_buf f ! j = Some b" for j b
      using f q that by (simp add: flight_ok_def)
  qed
qed

lemma log_ok_le:
  assumes "tier_op c c'" "map_of (c_resident c') \<subseteq>\<^sub>m map_of (c_resident c)" "log_ok c lg"
  shows "log_ok c' lg"
  unfolding log_ok_def
proof (intro allI impI)
  fix k p assume p: "map_of (c_resident c') k = Some p"
  then have "map_of (c_resident c) k = Some p" using assms(2) by (force simp: map_le_def dom_def)
  then show "(p_gen p, k, block_bytes c' p) \<in> set lg"
    using assms(1,3) p by (auto simp: log_ok_def tier_op_def keeps_def)
qed

lemma race_inv_op:
  assumes inv: "race_inv s" and op: "tier_op (r_cache s) c'" and lg: "log_ok c' lg"
    and rd: "\<And>f. f \<in> set rs \<Longrightarrow> f \<in> set (r_reads s) \<or> flight_ok c' f"
  shows "race_inv (s\<lparr>r_cache := c', r_reads := rs, r_log := lg\<rparr>)"
  using assms flight_ok_op [OF op] by (auto simp: race_inv_def tier_op_def)

section \<open>Every step keeps it\<close>

lemma admit_op:
  assumes ok: "tier_ok c" and g: "c_generation c < 18446744073709551615" and run: "Admit w c k data pf = (r, c')"
    and lg: "log_ok c lg"
  shows "tier_op c c'" and "log_ok c' (if r = Inr True then (c_generation c', k, data) # lg else lg)"
proof -
  have a: "admitted c k data r c'" by (rule Admit_inv [OF ok g run])
  have fr: "tier_ok c'" "keeps c c'" "c_cfg c' = c_cfg c" using a by (simp_all add: admitted_def)
  have "tier_op c c' \<and> log_ok c' (if r = Inr True then (c_generation c', k, data) # lg else lg)"
  proof (cases "r = Inr True")
    case False
    then have le: "c_generation c' = c_generation c" "map_of (c_resident c') \<subseteq>\<^sub>m map_of (c_resident c)"
      using a by (auto simp: admitted_def)
    then show ?thesis using tier_op_le [OF fr le] log_ok_le [OF tier_op_le [OF fr le] le(2) lg] False by simp
  next
    case True
    then obtain p where p: "map_of (c_resident c) k = None" "map_of (c_resident c') k = Some p" "block_bytes c' p = data"
      "p_gen p = Suc (c_generation c)" "c_generation c' = Suc (c_generation c)"
      using a by (auto simp: admitted_def)
    have old: "map_of (c_resident c) j = Some q" if "map_of (c_resident c') j = Some q" "j \<noteq> k" for j q
      using Admit_others [OF run] that by blast
    have "tier_op c c'"
      unfolding tier_op_def using fr p old by (metis Suc_n_not_le_n lessI nat_le_linear option.inject)
    moreover have "log_ok c' ((c_generation c', k, data) # lg)"
      unfolding log_ok_def
    proof (intro allI impI)
      fix j q assume q: "map_of (c_resident c') j = Some q"
      show "(p_gen q, j, block_bytes c' q) \<in> set ((c_generation c', k, data) # lg)"
      proof (cases "j = k")
        case True
        then show ?thesis using p q by simp
      next
        case False
        then have "map_of (c_resident c) j = Some q" using old q by blast
        then show ?thesis using lg fr(2) q by (auto simp: log_ok_def keeps_def)
      qed
    qed
    ultimately show ?thesis using True by simp
  qed
  then show "tier_op c c'" "log_ok c' (if r = Inr True then (c_generation c', k, data) # lg else lg)" by auto
qed

lemma nth_block_bytes:
  assumes ok: "tier_ok c" and q: "map_of (c_resident c) k = Some q" and j: "j < p_length q"
  shows "block_bytes c q ! j = s_file (c_heap c ! p_slab q) ! (p_slot q * c_bs c + j)"
    and "length (block_bytes c q) = p_length q"
proof -
  have inv: "tier_inv (\<lambda>_. {#}) c" using ok by (simp add: tier_ok_def)
  note r = tier_inv_resident [OF inv map_of_SomeD [OF q]]
  have si: "slab_inv c {#} (p_slab q)" using tier_inv_slab [OF inv] r by simp
  have "p_slot q < s_slots (c_heap c ! p_slab q)"
    using slab_inv_slot [OF si] occ_mem [OF map_of_SomeD [OF q]] by simp
  then have "p_slot q * c_bs c + p_length q \<le> length (s_file (c_heap c ! p_slab q))"
    using slot_bounds si r by (auto simp: slab_inv_def)
  then show "block_bytes c q ! j = s_file (c_heap c ! p_slab q) ! (p_slot q * c_bs c + j)"
    "length (block_bytes c q) = p_length q"
    using j by (simp_all add: block_bytes_def slot_bytes_def)
qed

lemma copy_ok:
  assumes ok: "tier_ok c" and f: "flight_ok c f" and j: "j < length (fl_buf f)"
  shows "flight_ok c (copy_byte c f j)"
proof -
  let ?p = "fl_place f"
  have "fl_buf (copy_byte c f j) ! i = Some b \<Longrightarrow> b = block_bytes c q ! i"
    if q: "map_of (c_resident c) (fl_key f) = Some q" "p_gen q = p_gen ?p" and i: "i < length (fl_buf f)" for q i b
  proof (cases "i = j")
    case True
    have "p_slab q = p_slab ?p \<and> p_slot q = p_slot ?p \<and> p_length q = p_length ?p"
      using f q by (simp add: flight_ok_def sent_for_def)
    moreover assume "fl_buf (copy_byte c f j) ! i = Some b"
    ultimately show ?thesis
      using True j f nth_block_bytes(1) [OF ok q(1), of j] by (simp add: copy_byte_def flight_ok_def)
  next
    case False
    moreover assume "fl_buf (copy_byte c f j) ! i = Some b"
    ultimately show ?thesis using f q i by (simp add: copy_byte_def flight_ok_def)
  qed
  then show ?thesis using f by (simp add: flight_ok_def copy_byte_def)
qed

lemma start_read_inv:
  assumes inv: "race_inv s"
  shows "race_inv (start_read s k)"
proof -
  let ?c = "r_cache s"
  have ok: "tier_ok ?c" and lg: "log_ok ?c (r_log s)" using inv by (auto simp: race_inv_def)
  obtain r c where b: "read_begin ?c k = (r, c)" by force
  note rb = read_begin_inv [OF ok b]
  show ?thesis
  proof (cases r)
    case None
    have c: "c = ?c\<lparr>c_misses := wrap64 (c_misses ?c + 1)\<rparr>" using rb(6) None by simp
    have op: "tier_op ?c c" by (rule tier_op_le [OF rb(1,2,4,3)]) (simp add: c)
    have "log_ok c (r_log s)" by (rule log_ok_le [OF op _ lg]) (simp add: c)
    then have "race_inv (s\<lparr>r_cache := c, r_reads := r_reads s, r_log := r_log s\<rparr>)"
      by (intro race_inv_op [OF inv op]) auto
    then show ?thesis using b None by (simp add: start_read_def)
  next
    case (Some p)
    then obtain q where q: "map_of (c_resident ?c) k = Some q" "p = q\<lparr>p_used := inc64 (c_clock ?c)\<rparr>"
      "map_of (c_resident c) = (map_of (c_resident ?c))(k \<mapsto> p)" "c_heap c = c_heap ?c"
      using rb(5) by blast
    have bb: "block_bytes c x = block_bytes ?c x" for x using q(4) rb(4) by (simp add: block_bytes_def)
    have op: "tier_op ?c c" using rb q by (auto simp: tier_op_def)
    have lg': "log_ok c (r_log s)"
      using lg q by (auto simp: log_ok_def bb) (simp add: block_bytes_def)
    have "p_gen p \<le> c_generation c"
      using tier_inv_resident [of "\<lambda>_. {#}" ?c k q] ok q rb(3) by (auto simp: tier_ok_def dest: map_of_SomeD)
    then have "flight_ok c \<lparr>fl_key = k, fl_place = p, fl_buf = replicate (p_length p) None\<rparr>"
      using q by (auto simp: flight_ok_def sent_for_def)
    then have "race_inv (s\<lparr>r_cache := c, r_reads := \<lparr>fl_key = k, fl_place = p, fl_buf = replicate (p_length p) None\<rparr> # r_reads s,
        r_log := r_log s\<rparr>)"
      by (intro race_inv_op [OF inv op lg']) auto
    then show ?thesis using b Some by (simp add: start_read_def)
  qed
qed

lemma finish_read_inv:
  assumes inv: "race_inv s" and f: "f \<in> set (r_reads s)"
  shows "race_inv (snd (finish_read s f fails))"
proof -
  let ?d = "if fails then None else Some (map the (fl_buf f))"
  have ok: "tier_ok (r_cache s)" "log_ok (r_cache s) (r_log s)" "flight_ok (r_cache s) f"
    using inv f by (auto simp: race_inv_def)
  obtain r c where e: "read_end (r_cache s) (fl_key f) (fl_place f) ?d = (r, c)" by force
  have "sent_for (r_cache s) (fl_key f) (fl_place f)" using ok(3) by (simp add: flight_ok_def)
  note re = read_end_inv [OF ok(1) this e]
  have op: "tier_op (r_cache s) c" by (rule tier_op_le [OF re(1,2,4,3,5)])
  have "race_inv (s\<lparr>r_cache := c, r_reads := remove1 f (r_reads s), r_log := r_log s\<rparr>)"
    by (intro race_inv_op [OF inv op log_ok_le [OF op re(5) ok(2)]]) (use set_remove1_subset [of f "r_reads s"] in blast)
  then show ?thesis using e by (simp add: finish_read_def)
qed

lemma race_step_inv: "race_step s s' \<Longrightarrow> race_inv s \<Longrightarrow> race_inv s'"
proof (induction rule: race_step.induct)
  case (start s k)
  then show ?case by (rule start_read_inv)
next
  case (copy i s j)
  then have "flight_ok (r_cache s) (copy_byte (r_cache s) (r_reads s ! i) j)"
    by (intro copy_ok) (auto simp: race_inv_def)
  then show ?case using copy by (auto simp: race_inv_def dest: set_update_subset_insert [THEN subsetD])
next
  case (finish f s fails)
  then show ?case by (intro finish_read_inv)
next
  case (admit s w k data pf)
  obtain r c where a: "Admit w (r_cache s) k data pf = (r, c)" by force
  have ok: "tier_ok (r_cache s)" "log_ok (r_cache s) (r_log s)" using admit by (auto simp: race_inv_def)
  note op = admit_op [OF ok(1) admit(1) a ok(2)]
  have "race_inv (s\<lparr>r_cache := c, r_reads := r_reads s,
      r_log := (if r = Inr True then (c_generation c, k, data) # r_log s else r_log s)\<rparr>)"
    by (intro race_inv_op [OF admit(2) op]) simp
  then show ?case using a by (simp add: race_admit_def)
next
  case (add s l extent)
  obtain e c where a: "AddCapacity (r_cache s) l extent = (e, c)" by force
  have ok: "tier_ok (r_cache s)" "log_ok (r_cache s) (r_log s)" using add by (auto simp: race_inv_def)
  note i = AddCapacity_inv [OF ok(1) a]
  have op: "tier_op (r_cache s) c" by (rule tier_op_le [OF i(1,2,5,4)]) (simp add: i(3))
  have "race_inv (s\<lparr>r_cache := c, r_reads := r_reads s, r_log := r_log s\<rparr>)"
    using i(3) by (intro race_inv_op [OF add op log_ok_le [OF op _ ok(2)]]) simp_all
  then show ?case using a by simp
next
  case (revoke s l)
  obtain n c where a: "Revoke (r_cache s) l = (n, c)" by force
  have ok: "tier_ok (r_cache s)" "log_ok (r_cache s) (r_log s)" using revoke by (auto simp: race_inv_def)
  note i = Revoke_inv [OF ok(1) a]
  have op: "tier_op (r_cache s) c" by (rule tier_op_le [OF i(1,2,4,3,5)])
  have "race_inv (s\<lparr>r_cache := c, r_reads := r_reads s, r_log := r_log s\<rparr>)"
    by (intro race_inv_op [OF revoke op log_ok_le [OF op i(5) ok(2)]]) simp
  then show ?case using a by simp
next
  case (order s ls)
  have ok: "tier_ok (r_cache s)" "log_ok (r_cache s) (r_log s)" using order by (auto simp: race_inv_def)
  have op: "tier_op (r_cache s) (ReclaimOrder (r_cache s) ls)"
    using ReclaimOrder_inv [OF ok(1), of ls] by (intro tier_op_le) (simp_all add: ReclaimOrder_def)
  have "race_inv (s\<lparr>r_cache := ReclaimOrder (r_cache s) ls, r_reads := r_reads s, r_log := r_log s\<rparr>)"
    by (intro race_inv_op [OF order op log_ok_le [OF op _ ok(2)]]) (simp_all add: ReclaimOrder_def)
  then show ?case by simp
next
  case (close_all s)
  have ok: "tier_ok (r_cache s)" "log_ok (r_cache s) (r_log s)" using close_all by (auto simp: race_inv_def)
  have op: "tier_op (r_cache s) (CloseCache (r_cache s))"
    using CloseCache_inv [OF ok(1)] by (intro tier_op_le) (simp_all add: CloseCache_frame)
  have "race_inv (s\<lparr>r_cache := CloseCache (r_cache s), r_reads := r_reads s, r_log := r_log s\<rparr>)"
    by (intro race_inv_op [OF close_all op log_ok_le [OF op _ ok(2)]]) (simp_all add: CloseCache_frame)
  then show ?case by simp
qed

lemma race_reach_inv: "race_step\<^sup>*\<^sup>* s s' \<Longrightarrow> race_inv s \<Longrightarrow> race_inv s'"
  by (induction rule: rtranclp_induct) (auto intro: race_step_inv)

lemma race_init_inv: "NewCache cf = Inr c \<Longrightarrow> race_inv (race_init c)"
  using NewCache_ok [of cf c] by (auto simp: race_inv_def race_init_def log_ok_def NewCache_def split: if_splits)

text \<open>A read that succeeds returns the bytes of an admission of the key it asked for.\<close>

lemma finished_read_admitted:
  assumes inv: "race_inv s" and f: "f \<in> set (r_reads s)" and full: "None \<notin> set (fl_buf f)"
    and hit: "fst (finish_read s f fails) = Some d"
  shows "(p_gen (fl_place f), fl_key f, d) \<in> set (r_log s)"
proof -
  let ?c = "r_cache s" and ?d = "if fails then None else Some (map the (fl_buf f))"
  have ok: "tier_ok ?c" "log_ok ?c (r_log s)" "flight_ok ?c f" using inv f by (auto simp: race_inv_def)
  obtain r c where e: "read_end ?c (fl_key f) (fl_place f) ?d = (r, c)" by force
  have sf: "sent_for ?c (fl_key f) (fl_place f)" using ok(3) by (simp add: flight_ok_def)
  have "r = Some d" using hit e by (simp add: finish_read_def)
  then obtain q where q: "map_of (c_resident ?c) (fl_key f) = Some q" "p_gen q = p_gen (fl_place f)"
    and d: "\<not> fails" "d = map the (fl_buf f)"
    using read_end_inv(6) [OF ok(1) sf e] by (auto split: if_splits)
  have len: "length (fl_buf f) = p_length q"
    using ok(3) sf q by (simp add: flight_ok_def sent_for_def)
  have "d = block_bytes ?c q"
  proof (rule nth_equalityI)
    show "length d = length (block_bytes ?c q)"
      using len d nth_block_bytes(2) [OF ok(1) q(1), of 0] by (cases "p_length q") (simp_all add: block_bytes_def slot_bytes_def)
    fix j assume j: "j < length d"
    then obtain b where b: "fl_buf f ! j = Some b" using full d by (metis length_map not_None_eq nth_mem)
    then have "b = block_bytes ?c q ! j" using ok(3) q j d by (simp add: flight_ok_def)
    then show "d ! j = block_bytes ?c q ! j" using b j d by simp
  qed
  then show ?thesis using ok(2) q unfolding log_ok_def by metis
qed

end
