(* ===== verification/Tier_Claims.thy ===== *)
theory Tier_Claims
  imports Tier_Race "HOL-Library.Code_Target_Nat"
begin

text \<open>
  What the fast tier promises: no slot is lost or given out twice whatever is admitted, evicted,
  revoked and read concurrently; a block that was admitted is read back as it was written; a read
  that raced an eviction or a revocation is a miss, never another block's bytes; and capacity that
  is revoked takes with it exactly the blocks it held.
\<close>

section \<open>A small tier\<close>

definition demo_key :: "nat \<Rightarrow> Key" where
  "demo_key n = \<lparr>kTenant = ''t'', Block = \<lparr>Backend = ''b'', Object = ''o'', Index = int n\<rparr>\<rparr>"

definition demo_tier_config :: tier_config where
  "demo_tier_config = \<lparr>BlockSize = 2, FirstReadLimit = 4\<rparr>"

definition demo_cache0 :: cache where
  "demo_cache0 = projr (NewCache demo_tier_config)"

definition demo_cache1 :: cache where
  "demo_cache1 = snd (AddCapacity demo_cache0 ''l'' (Some [0, 0, 0, 0]))"

definition demo_cache2 :: cache where
  "demo_cache2 = snd (Admit None demo_cache1 (demo_key 1) [7, 8] True)"

lemma demo_cache_new: "NewCache demo_tier_config = Inr demo_cache0"
  by (simp add: demo_cache0_def NewCache_def demo_tier_config_def)

lemma demo_cache1_ok: "tier_ok demo_cache1"
proof -
  have "tier_ok demo_cache0" using race_init_inv [OF demo_cache_new] by (simp add: race_inv_def race_init_def)
  then show ?thesis unfolding demo_cache1_def by (metis AddCapacity_inv(1) prod.collapse)
qed

definition demo_race1 :: race where
  "demo_race1 = (race_init demo_cache0)\<lparr>r_cache := demo_cache1\<rparr>"

definition demo_race2 :: race where
  "demo_race2 = race_admit None demo_race1 (demo_key 1) [7, 8] True"

definition demo_race3 :: race where
  "demo_race3 = start_read demo_race2 (demo_key 1)"

definition demo_race5 :: race where
  "demo_race5 =
     (let s = demo_race3\<lparr>r_reads := (r_reads demo_race3)[0 := copy_byte (r_cache demo_race3) (r_reads demo_race3 ! 0) 0]\<rparr>
      in s\<lparr>r_reads := (r_reads s)[0 := copy_byte (r_cache s) (r_reads s ! 0) 1]\<rparr>)"

lemma demo_race_steps: "race_step\<^sup>*\<^sup>* (race_init demo_cache0) demo_race5"
proof -
  have c1: "r_cache (race_init demo_cache0) = demo_cache0" by (simp add: race_init_def)
  have "race_step (race_init demo_cache0) demo_race1"
    using race_step.add [of "race_init demo_cache0" "''l''" "Some [0, 0, 0, 0]"] c1
    by (simp add: demo_race1_def demo_cache1_def)
  moreover have "race_step demo_race1 demo_race2"
    unfolding demo_race2_def by (rule race_step.admit) code_simp
  moreover have "race_step demo_race2 demo_race3" unfolding demo_race3_def by (rule race_step.start)
  moreover have "race_step\<^sup>*\<^sup>* demo_race3 demo_race5"
  proof -
    let ?s = "demo_race3\<lparr>r_reads := (r_reads demo_race3)[0 := copy_byte (r_cache demo_race3) (r_reads demo_race3 ! 0) 0]\<rparr>"
    have "race_step demo_race3 ?s" by (rule race_step.copy) code_simp+
    moreover have "race_step ?s demo_race5"
      unfolding demo_race5_def Let_def by (rule race_step.copy) code_simp+
    ultimately show ?thesis by (meson rtranclp.rtrancl_refl rtranclp.rtrancl_into_rtrancl)
  qed
  ultimately show ?thesis by (meson converse_rtranclp_into_rtranclp)
qed

section \<open>Slots\<close>

text \<open>
  C8. In every state the tier can reach, with any interleaving of reads and any
  failures, each slab's free slots and the slots of the blocks resident in it are together each
  of its slots exactly once, and every resident block lies in a live slab and inside its file.
\<close>

theorem slots_conserved:
  assumes "NewCache cf = Inr c0" "race_step\<^sup>*\<^sup>* (race_init c0) s" "c = r_cache s"
  shows "(\<forall>i\<in>ptrs c. \<not> s_revoked (c_heap c ! i) \<and> s_slots (c_heap c ! i) * c_bs c \<le> length (s_file (c_heap c ! i))
        \<and> mset (s_free (c_heap c ! i)) + occ (c_resident c) i = mset_set {0..<s_slots (c_heap c ! i)})
    \<and> (\<forall>(k, p)\<in>set (c_resident c). p_slab p \<in> ptrs c \<and> p_length p \<le> c_bs c)"
proof -
  have "tier_inv (\<lambda>_. {#}) c"
    using race_reach_inv [OF assms(2) race_init_inv [OF assms(1)]] assms(3) by (simp add: race_inv_def tier_ok_def)
  then show ?thesis by (auto simp: tier_inv_def slab_inv_def)
qed

theorem slots_conserved_witness:
  "ptrs (r_cache demo_race5) = {0} \<and> mset (s_free (c_heap (r_cache demo_race5) ! 0)) + occ (c_resident (r_cache demo_race5)) 0
     = mset_set {0..<s_slots (c_heap (r_cache demo_race5) ! 0)}"
proof -
  have "ptrs (r_cache demo_race5) = {0}" by code_simp
  then show ?thesis using slots_conserved [OF demo_cache_new demo_race_steps refl] by simp
qed

text \<open>
  C4. A read copies bytes outside the lock while blocks are admitted, evicted and
  revoked around it. When it finishes with a hit, what it returns are exactly the bytes of one
  admission of the block it asked for.
\<close>

theorem racing_read_safe:
  assumes "NewCache cf = Inr c0" "race_step\<^sup>*\<^sup>* (race_init c0) s" "f \<in> set (r_reads s)" "None \<notin> set (fl_buf f)"
    and "fst (finish_read s f fails) = Some d"
  shows "(p_gen (fl_place f), fl_key f, d) \<in> set (r_log s)"
  by (rule finished_read_admitted [OF race_reach_inv [OF assms(2) race_init_inv [OF assms(1)]] assms(3-5)])

theorem racing_read_safe_witness:
  "fst (finish_read demo_race5 (hd (r_reads demo_race5)) False) = Some [7, 8] \<and> (1, demo_key 1, [7, 8]) \<in> set (r_log demo_race5)"
proof -
  have v: "hd (r_reads demo_race5) \<in> set (r_reads demo_race5)" "None \<notin> set (fl_buf (hd (r_reads demo_race5)))"
    "fst (finish_read demo_race5 (hd (r_reads demo_race5)) False) = Some [7, 8]"
    "p_gen (fl_place (hd (r_reads demo_race5))) = 1" "fl_key (hd (r_reads demo_race5)) = demo_key 1" by code_simp+
  then show ?thesis using racing_read_safe [OF demo_cache_new demo_race_steps v(1-3)] by simp
qed

text \<open>
  C13. A block that was admitted is read back byte for byte, no block that stays
  resident changes, and a block that was not admitted changes nothing but what had to be evicted.
\<close>

theorem admit_then_read:
  assumes "tier_ok c" "c_generation c < 18446744073709551615" "Admit w c k data pf = (r, c')"
  shows "tier_ok c' \<and> (r = Inr True \<longrightarrow> fst (Read False c' k) = Some data)
    \<and> (\<forall>j d. j \<noteq> k \<and> fst (Read False c' j) = Some d \<longrightarrow> fst (Read False c j) = Some d)
    \<and> (pf \<longrightarrow> (\<forall>j d. fst (Read False c j) = Some d \<longrightarrow> fst (Read False c' j) = Some d))"
proof -
  note ad = Admit_inv [OF assms]
  have ok: "tier_ok c'" and kp: "keeps c c'" using ad by (auto simp: admitted_def)
  have hit: "fst (Read False c' k) = Some data" if "r = Inr True"
    using ad that by (auto simp: admitted_def Read_result [OF ok])
  have other: "fst (Read False c j) = Some d" if d: "j \<noteq> k" "fst (Read False c' j) = Some d" for j d
  proof -
    obtain q where q: "map_of (c_resident c') j = Some q" "d = block_bytes c' q"
      using d(2) by (auto simp: Read_result [OF ok] split: option.splits)
    have p: "map_of (c_resident c) j = Some q" by (rule Admit_others [OF assms(3) q(1) d(1)])
    then have "block_bytes c' q = block_bytes c q" using kp q(1) by (auto simp: keeps_def)
    then show ?thesis using p q(2) by (simp add: Read_result [OF assms(1)])
  qed
  have stays: "fst (Read False c' j) = Some d" if d: "pf" "fst (Read False c j) = Some d" for j d
  proof -
    obtain p where p: "map_of (c_resident c) j = Some p" "d = block_bytes c p"
      using d(2) by (auto simp: Read_result [OF assms(1)] split: option.splits)
    have q: "map_of (c_resident c') j = Some p" by (rule Admit_prefetch_keeps [OF assms(1,3) d(1) p(1)])
    then have "block_bytes c' p = block_bytes c p" using kp p(1) unfolding keeps_def by blast
    then show ?thesis using q p(2) by (simp add: Read_result [OF ok])
  qed
  show ?thesis using ok hit other stays by blast
qed

theorem admit_then_read_witness:
  "fst (Admit None demo_cache1 (demo_key 1) [7, 8] True) = Inr True \<and> fst (Read False demo_cache2 (demo_key 1)) = Some [7, 8]"
proof -
  have e: "fst (Admit None demo_cache1 (demo_key 1) [7, 8] True) = Inr True" "c_generation demo_cache1 < 18446744073709551615"
    by code_simp+
  then show ?thesis
    using admit_then_read [OF demo_cache1_ok e(2), of None "demo_key 1" "[7, 8]" True "Inr True" demo_cache2]
    by (simp add: demo_cache2_def prod_eq_iff)
qed

text \<open>
  Revoking a lease's capacity drops exactly the blocks that lay in it, reports how
  many they were, and leaves every other block readable as it was.
\<close>

theorem revoke_exact:
  assumes "tier_ok c" "map_of (c_slabs c) l = Some i" "Revoke c l = (n, c')"
  shows "tier_ok c' \<and> n = length (filter (\<lambda>kp. p_slab (snd kp) = i) (c_resident c)) \<and> i \<notin> ptrs c'
    \<and> (\<forall>k. fst (Read False c' k) =
        (case map_of (c_resident c) k of None \<Rightarrow> None | Some p \<Rightarrow> if p_slab p = i then None else fst (Read False c k)))"
proof -
  have ok: "tier_ok c'" and kp: "keeps c c'" using Revoke_inv [OF assms(1,3)] by auto
  have shape: "n = length (filter (\<lambda>kp. p_slab (snd kp) = i) (c_resident c))"
    "c_resident c' = filter (\<lambda>kp. p_slab (snd kp) \<noteq> i) (c_resident c)" "c_slabs c' = AList.delete l (c_slabs c)"
    using assms(2,3) by (auto simp: Revoke_def)
  have g: "gomap_ok (c_resident c)" "gomap_ok (c_slabs c)" "distinct (map snd (c_slabs c))"
    using assms(1) by (auto simp: tier_ok_def tier_inv_def)
  have res: "map_of (c_resident c') k =
      (case map_of (c_resident c) k of None \<Rightarrow> None | Some p \<Rightarrow> if p_slab p = i then None else Some p)" for k
    unfolding shape(2) using gomap_filter [OF g(1), of "\<lambda>p. p_slab p \<noteq> i" k] by (auto split: option.splits)
  have "i \<notin> ptrs c'"
    unfolding ptrs_def shape(3) set_delete
    using g(3) map_of_SomeD [OF assms(2)] by (fastforce simp: distinct_map inj_on_def)
  moreover have "fst (Read False c' k) = (case map_of (c_resident c) k of None \<Rightarrow> None
      | Some p \<Rightarrow> if p_slab p = i then None else fst (Read False c k))" for k
  proof (cases "map_of (c_resident c) k")
    case (Some p)
    have "block_bytes c' p = block_bytes c p" if "p_slab p \<noteq> i"
    proof -
      have "map_of (c_resident c') k = Some p" using Some res [of k] that by simp
      then show ?thesis using kp Some unfolding keeps_def by blast
    qed
    then show ?thesis using Some res [of k] by (auto simp: Read_result [OF ok] Read_result [OF assms(1)])
  qed (simp add: Read_result [OF ok] res)
  ultimately show ?thesis using ok shape(1) by blast
qed

end
