(* ===== verification/Proto_Wire.thy ===== *)
theory Proto_Wire
  imports Go_Text
begin

unbundle bit_operations_syntax

text \<open>
  Package protowire (\<open>internal/protowire/protowire.go\<close>): the part of the protocol buffer encoding CSI
  needs. Bytes are 8-bit words and varints carry 64-bit words, with the shifts and masks of the
  source. Encoders return what they append. \<open>Next\<close> decodes one field; every message is read by
  \<open>walk\<close>, the loop over \<open>Next\<close> that each decoder of the source spells out.

  The lemmas: a varint and each kind of field are read back exactly with what follows them, the
  decoder always advances (so \<open>walk\<close> ends on every input), and no input makes it read past the
  end.
\<close>

datatype proto_error = ErrTruncated | ErrWireType | ErrFieldNumber

section \<open>Varints\<close>

function uvarint_bytes :: "64 word \<Rightarrow> bytes" where
  "uvarint_bytes v =
     (if v < 128 then [ucast v] else (ucast v OR 128) # uvarint_bytes (drop_bit 7 v))"
  by auto

lemma unat_drop7: "unat (drop_bit 7 (v :: 64 word)) = unat v div 128"
  by (simp add: drop_bit_eq_div unat_div)

termination uvarint_bytes
proof (relation "measure unat")
  fix v :: "64 word" assume "\<not> v < 128"
  then have "128 \<le> unat v" by (simp add: word_le_nat_alt not_less)
  then show "(drop_bit 7 v, v) \<in> measure unat" by (simp add: unat_drop7)
qed simp

declare uvarint_bytes.simps [simp del]

definition appendUvarint :: "bytes \<Rightarrow> 64 word \<Rightarrow> bytes" where
  "appendUvarint b v = b @ uvarint_bytes v"

fun uvarint_loop :: "nat \<Rightarrow> 64 word \<Rightarrow> bytes \<Rightarrow> proto_error + 64 word \<times> bytes" where
  "uvarint_loop i v [] = Inl ErrTruncated"
| "uvarint_loop i v (c # bs) =
     (if i = 9 \<and> 1 < c then Inl ErrTruncated
      else let v' = v OR push_bit (7 * i) (ucast (c AND 127))
           in if c < 128 then Inr (v', bs) else uvarint_loop (Suc i) v' bs)"

definition uvarint :: "bytes \<Rightarrow> proto_error + 64 word \<times> bytes" where
  "uvarint b = uvarint_loop 0 0 b"

section \<open>Fields\<close>

definition WireVarint :: nat where "WireVarint = 0"
definition WireFixed64 :: nat where "WireFixed64 = 1"
definition WireBytes :: nat where "WireBytes = 2"
definition WireFixed32 :: nat where "WireFixed32 = 5"

lemmas wire_defs = WireVarint_def WireFixed64_def WireBytes_def WireFixed32_def

definition appendTag :: "bytes \<Rightarrow> nat \<Rightarrow> nat \<Rightarrow> bytes" where
  "appendTag b field wire = appendUvarint b (push_bit 3 (of_nat field) OR of_nat wire)"

definition AppendVarint :: "bytes \<Rightarrow> nat \<Rightarrow> 64 word \<Rightarrow> bytes" where
  "AppendVarint b field v = appendUvarint (appendTag b field WireVarint) v"

definition AppendBool :: "bytes \<Rightarrow> nat \<Rightarrow> bool \<Rightarrow> bytes" where
  "AppendBool b field v = AppendVarint b field (if v then 1 else 0)"

definition AppendString :: "bytes \<Rightarrow> nat \<Rightarrow> bytes \<Rightarrow> bytes" where
  "AppendString b field s = appendUvarint (appendTag b field WireBytes) (of_nat (length s)) @ s"

definition AppendMessage :: "bytes \<Rightarrow> nat \<Rightarrow> bytes \<Rightarrow> bytes" where
  "AppendMessage b field msg = appendUvarint (appendTag b field WireBytes) (of_nat (length msg)) @ msg"

definition AppendStringMap :: "bytes \<Rightarrow> nat \<Rightarrow> bytes list \<Rightarrow> (bytes \<times> bytes) list \<Rightarrow> bytes" where
  "AppendStringMap b field keys m =
     foldl (\<lambda>b k. AppendMessage b field
              (AppendString (AppendString [] 1 k) 2 (case map_of m k of None \<Rightarrow> [] | Some v \<Rightarrow> v))) b keys"

record Field =
  Number :: nat
  Wire :: nat
  Varint :: "64 word"
  Bytes :: bytes

definition Bool_field :: "Field \<Rightarrow> bool" where
  "Bool_field f \<longleftrightarrow> Varint f \<noteq> 0"

definition Int64_field :: "Field \<Rightarrow> int" where
  "Int64_field f = sint (Varint f)"

text \<open>Little-endian fixed-width numbers: \<open>for i := 7; i >= 0; i-- { v = v<<8 | b[i] }\<close>.\<close>

definition fixed_val :: "bytes \<Rightarrow> 64 word" where
  "fixed_val bs = foldr (\<lambda>c v. push_bit 8 v OR ucast c) bs 0"

definition Next :: "bytes \<Rightarrow> proto_error + Field \<times> bytes" where
  "Next b =
     (case uvarint b of
        Inl e \<Rightarrow> Inl e
      | Inr (tag, rest) \<Rightarrow>
          (let num = unat (drop_bit 3 tag); wire = unat (tag AND 7);
               f = \<lparr>Number = num, Wire = wire, Varint = 0, Bytes = []\<rparr>
           in if num = 0 then Inl ErrFieldNumber
              else if wire = WireVarint then
                (case uvarint rest of Inl e \<Rightarrow> Inl e | Inr (v, rest') \<Rightarrow> Inr (f\<lparr>Varint := v\<rparr>, rest'))
              else if wire = WireBytes then
                (case uvarint rest of
                   Inl e \<Rightarrow> Inl e
                 | Inr (n, rest') \<Rightarrow>
                     if length rest' < unat n then Inl ErrTruncated
                     else Inr (f\<lparr>Bytes := take (unat n) rest'\<rparr>, drop (unat n) rest'))
              else if wire = WireFixed64 then
                (if length rest < 8 then Inl ErrTruncated
                 else Inr (f\<lparr>Varint := fixed_val (take 8 rest)\<rparr>, drop 8 rest))
              else if wire = WireFixed32 then
                (if length rest < 4 then Inl ErrTruncated
                 else Inr (f\<lparr>Varint := fixed_val (take 4 rest)\<rparr>, drop 4 rest))
              else Inl ErrWireType))"

section \<open>The decoder advances\<close>

lemma uvarint_loop_shorter: "uvarint_loop i v b = Inr (w, rest) \<Longrightarrow> length rest < length b"
  by (induction i v b rule: uvarint_loop.induct) (auto simp: Let_def split: if_splits)

lemma uvarint_shorter: "uvarint b = Inr (w, rest) \<Longrightarrow> length rest < length b"
  unfolding uvarint_def by (rule uvarint_loop_shorter)

lemma Next_shorter: "Next b = Inr (f, rest) \<Longrightarrow> length rest < length b"
  by (auto simp: Next_def Let_def split: sum.splits prod.splits if_splits dest!: uvarint_shorter)

text \<open>The loop \<open>for len(b) > 0 { f, rest, err := Next(b); ...; b = rest }\<close> around what a decoder does with a field.\<close>

function walk :: "('a \<Rightarrow> Field \<Rightarrow> proto_error + 'a) \<Rightarrow> 'a \<Rightarrow> bytes \<Rightarrow> proto_error + 'a" where
  "walk step a b =
     (if b = [] then Inr a
      else case Next b of
             Inl e \<Rightarrow> Inl e
           | Inr (f, rest) \<Rightarrow> (case step a f of Inl e \<Rightarrow> Inl e | Inr a' \<Rightarrow> walk step a' rest))"
  by auto

termination walk
  by (relation "measure (\<lambda>(_, _, b). length b)") (auto dest: Next_shorter)

declare walk.simps [simp del]

section \<open>Round trips\<close>

lemma ucast_low7: "ucast (ucast v AND 127 :: 8 word) = (v AND 127 :: 64 word)"
  by (rule bit_word_eqI) (auto simp: bit_simps numeral_eq_Suc less_Suc_eq)

lemma split7: "(v AND 127) OR push_bit 7 (drop_bit 7 v) = (v :: 64 word)"
proof -
  have "v AND 127 = take_bit 7 v" by (simp add: take_bit_eq_mask mask_eq_exp_minus_1)
  then show ?thesis by (intro bit_word_eqI) (auto simp: bit_simps, metis le_add_diff_inverse not_less)
qed

lemma low7_small: "v < 128 \<Longrightarrow> v AND 127 = (v :: 64 word)"
proof -
  assume "v < 128"
  then have "unat (drop_bit 7 v) = 0" by (simp add: unat_drop7 word_less_nat_alt)
  then have "drop_bit 7 v = 0" by (simp only: unat_eq_0)
  then show ?thesis using split7 [of v] by simp
qed

lemma or128_low: "(c OR 128) AND 127 = (c AND 127 :: 8 word)"
proof -
  have "(128 :: 8 word) AND 127 = 0" by simp
  then show ?thesis by (simp add: bit.conj_disj_distrib2)
qed

lemma or128_big: "\<not> (c OR 128 :: 8 word) < 128"
proof -
  have "(128 :: 8 word) AND (c OR 128) = 128" by (rule bit_word_eqI) (auto simp: bit_simps)
  then have "(128 :: 8 word) \<le> c OR 128" by (metis word_and_le1 and.commute word_and_le2)
  then show ?thesis by simp
qed

text \<open>
  After \<open>i\<close> bytes the value left fits what is left of the 64 bits. The tenth byte is at most 1.
\<close>

lemma uvarint_loop_bytes:
  assumes "i \<le> 9" "unat v < 2 ^ (64 - 7 * i)"
  shows "uvarint_loop i acc (uvarint_bytes v @ rest) = Inr (acc OR push_bit (7 * i) v, rest)"
  using assms
proof (induction v arbitrary: i acc rule: uvarint_bytes.induct)
  case (1 v)
  show ?case
  proof (cases "v < 128")
    case True
    have "\<not> (i = 9 \<and> 1 < (ucast v :: 8 word))"
    proof
      assume a: "i = 9 \<and> 1 < (ucast v :: 8 word)"
      then have "unat v < 2" using 1(3) by simp
      then have "unat (ucast v :: 8 word) < 2" by (simp add: unsigned_ucast_eq take_bit_nat_eq_self)
      then show False using a by (simp add: word_less_nat_alt)
    qed
    moreover have "(ucast v :: 8 word) < 128"
      using True by (simp add: word_less_nat_alt unsigned_ucast_eq take_bit_nat_eq_self)
    ultimately show ?thesis
      using True by (subst uvarint_bytes.simps) (simp add: Let_def ucast_low7 low7_small)
  next
    case False
    have "128 \<le> unat v" using False by (simp add: word_le_nat_alt not_less)
    then have i: "i < 9" using 1(2,3) by (cases "i = 9") auto
    have "unat (drop_bit 7 v) < 2 ^ (64 - 7 * Suc i)"
    proof -
      have "(2 :: nat) ^ (64 - 7 * i) = 2 ^ (64 - 7 * Suc i) * 128"
      proof -
        have "64 - 7 * i = (64 - 7 * Suc i) + 7" using i by simp
        then show ?thesis by (simp only: power_add) simp
      qed
      then show ?thesis using 1(3) by (simp add: unat_drop7 less_mult_imp_div_less)
    qed
    then have IH: "uvarint_loop (Suc i) a (uvarint_bytes (drop_bit 7 v) @ rest)
        = Inr (a OR push_bit (7 * Suc i) (drop_bit 7 v), rest)" for a
      using 1(1) [OF False, of "Suc i"] i by simp
    have "push_bit (7 * i) (v AND 127) OR push_bit (7 * Suc i) (drop_bit 7 v)
        = push_bit (7 * i) ((v AND 127) OR push_bit 7 (drop_bit 7 v))"
      by (simp add: push_bit_or push_bit_push_bit add.commute)
    then have eq: "acc OR push_bit (7 * i) (v AND 127) OR push_bit (7 * Suc i) (drop_bit 7 v) = acc OR push_bit (7 * i) v"
      by (simp add: split7 or.assoc)
    show ?thesis
      using False i IH eq
      by (subst uvarint_bytes.simps) (simp add: Let_def or128_low or128_big ucast_low7 or.assoc)
  qed
qed

lemma uvarint_roundtrip: "uvarint (uvarint_bytes v @ rest) = Inr (v, rest)"
  using uvarint_loop_bytes [of 0 v 0 rest] unsigned_less [of v, where 'a = nat] by (simp add: uvarint_def)

text \<open>A tag carries a field number below \<open>2 ^ 61\<close> and a wire type below 8.\<close>

definition tag_word :: "nat \<Rightarrow> nat \<Rightarrow> 64 word" where
  "tag_word field wire = push_bit 3 (of_nat field) OR of_nat wire"

lemma tag_word_val:
  assumes "field < 2 ^ 61" "wire < 8"
  shows "unat (drop_bit 3 (tag_word field wire)) = field" and "unat (tag_word field wire AND 7) = wire"
proof -
  have f: "unat (of_nat field :: 64 word) = field" using assms by (simp add: unat_of_nat)
  have w: "take_bit 3 (of_nat wire) = (of_nat wire :: 64 word)"
    using assms by (simp add: take_bit_of_nat take_bit_nat_eq_self)
  have "drop_bit 3 (of_nat wire :: 64 word) = drop_bit 3 (take_bit 3 (of_nat wire))" by (simp only: w)
  then have "drop_bit 3 (of_nat wire :: 64 word) = 0" by (simp add: drop_bit_take_bit)
  then have "drop_bit 3 (tag_word field wire) = drop_bit 3 (push_bit 3 (of_nat field))"
    by (simp add: tag_word_def drop_bit_or)
  also have "\<dots> = (of_nat field :: 64 word)"
  proof -
    have "push_bit 3 (of_nat field :: 64 word) = of_nat (field * 8)" by (simp add: push_bit_eq_mult)
    moreover have "unat (of_nat (field * 8) :: 64 word) = field * 8"
      using assms by (simp add: unat_of_nat del: of_nat_mult)
    ultimately have "unat (drop_bit 3 (push_bit 3 (of_nat field :: 64 word))) = field"
      by (simp add: drop_bit_eq_div unat_div del: of_nat_mult)
    then show ?thesis using f by (metis unsigned_word_eqI)
  qed
  finally show "unat (drop_bit 3 (tag_word field wire)) = field" using f by simp
  have "tag_word field wire AND 7 = take_bit 3 (tag_word field wire)"
    by (simp add: take_bit_eq_mask mask_eq_exp_minus_1)
  also have "\<dots> = of_nat wire"
    by (simp add: tag_word_def take_bit_or take_bit_push_bit w)
  finally show "unat (tag_word field wire AND 7) = wire" using assms by (simp add: unat_of_nat)
qed

lemma Next_varint:
  assumes "0 < n" "n < 2 ^ 61"
  shows "Next (AppendVarint [] n v @ b) = Inr (\<lparr>Number = n, Wire = WireVarint, Varint = v, Bytes = []\<rparr>, b)"
  using tag_word_val [of n 0] assms
  by (simp add: Next_def AppendVarint_def appendTag_def appendUvarint_def wire_defs uvarint_roundtrip Let_def
      tag_word_def)

lemma Next_string:
  assumes "0 < n" "n < 2 ^ 61" "length s < 2 ^ 64"
  shows "Next (AppendString [] n s @ b) = Inr (\<lparr>Number = n, Wire = WireBytes, Varint = 0, Bytes = s\<rparr>, b)"
  using tag_word_val [of n 2] assms
  by (simp add: Next_def AppendString_def appendTag_def appendUvarint_def wire_defs uvarint_roundtrip Let_def
      unat_of_nat tag_word_def)

lemma AppendMessage_string: "AppendMessage b n m = AppendString b n m"
  by (simp add: AppendMessage_def AppendString_def)

lemma Append_prefix:
  "AppendVarint b n v = b @ AppendVarint [] n v" "AppendString b n s = b @ AppendString [] n s"
  "AppendMessage b n s = b @ AppendString [] n s" "AppendBool b n c = b @ AppendVarint [] n (if c then 1 else 0)"
  by (simp_all add: AppendVarint_def AppendString_def AppendMessage_def AppendBool_def appendTag_def appendUvarint_def)

lemma Append_nonempty [simp]: "AppendVarint [] n v \<noteq> []" "AppendString [] n s \<noteq> []"
  by (auto simp: AppendVarint_def AppendString_def appendTag_def appendUvarint_def uvarint_bytes.simps)

text \<open>A decoder reads the fields of a message one after the other.\<close>

lemma walk_Nil [simp]: "walk step a [] = Inr a"
  by (simp add: walk.simps)

lemma walk_varint:
  assumes "0 < n" "n < 2 ^ 61"
  shows "walk step a (AppendVarint [] n v @ b) =
    (case step a \<lparr>Number = n, Wire = WireVarint, Varint = v, Bytes = []\<rparr> of Inl e \<Rightarrow> Inl e | Inr a' \<Rightarrow> walk step a' b)"
  by (subst walk.simps) (simp add: Next_varint [OF assms])

lemma walk_string:
  assumes "0 < n" "n < 2 ^ 61" "length s < 2 ^ 64"
  shows "walk step a (AppendString [] n s @ b) =
    (case step a \<lparr>Number = n, Wire = WireBytes, Varint = 0, Bytes = s\<rparr> of Inl e \<Rightarrow> Inl e | Inr a' \<Rightarrow> walk step a' b)"
  by (subst walk.simps) (simp add: Next_string [OF assms])

section \<open>Maps\<close>

text \<open>\<open>StringMap\<close> decodes one entry and assigns it.\<close>

definition entry_step :: "bytes \<times> bytes \<Rightarrow> Field \<Rightarrow> proto_error + bytes \<times> bytes" where
  "entry_step kv f =
     Inr (if Number f = 1 \<and> Wire f = WireBytes then (Bytes f, snd kv)
          else if Number f = 2 \<and> Wire f = WireBytes then (fst kv, Bytes f) else kv)"

definition StringMap :: "(bytes \<times> bytes) list \<Rightarrow> bytes \<Rightarrow> proto_error + (bytes \<times> bytes) list" where
  "StringMap m entry =
     (case walk entry_step ([], []) entry of Inl e \<Rightarrow> Inl e | Inr (k, v) \<Rightarrow> Inr (AList.update k v m))"

lemma StringMap_entry:
  assumes "length k < 2 ^ 64" "length v < 2 ^ 64"
  shows "StringMap m (AppendString (AppendString [] 1 k) 2 v) = Inr (AList.update k v m)"
  using walk_string [of 1 k entry_step "([], [])" "AppendString [] 2 v"] walk_string [of 2 v entry_step "(k, [])" "[]"] assms
  by (simp add: StringMap_def Append_prefix(2) [of "AppendString [] 1 k"] entry_step_def del: One_nat_def)

section \<open>The decoder stays inside its input\<close>

lemma uvarint_loop_suffix: "uvarint_loop i v b = Inr (w, rest) \<Longrightarrow> \<exists>pre. b = pre @ rest \<and> pre \<noteq> []"
proof (induction i v b rule: uvarint_loop.induct)
  case (2 i v c bs)
  show ?case
  proof (cases "c < 128")
    case True
    then show ?thesis using 2 by (intro exI [of _ "[c]"]) (auto simp: Let_def split: if_splits)
  next
    case False
    then obtain pre where "bs = pre @ rest" using 2 by (auto simp: Let_def split: if_splits)
    then show ?thesis by (intro exI [of _ "c # pre"]) simp
  qed
qed simp

lemma uvarint_suffix: "uvarint b = Inr (w, rest) \<Longrightarrow> \<exists>pre. b = pre @ rest \<and> pre \<noteq> []"
  unfolding uvarint_def by (rule uvarint_loop_suffix)

lemma Next_inside:
  assumes "Next b = Inr (f, rest)"
  shows "\<exists>pre. b = pre @ Bytes f @ rest \<and> pre \<noteq> [] \<or> b = pre @ rest \<and> pre \<noteq> [] \<and> Bytes f = []"
proof -
  obtain tag r1 where t: "uvarint b = Inr (tag, r1)" using assms by (auto simp: Next_def split: sum.splits)
  obtain p1 where p1: "b = p1 @ r1" "p1 \<noteq> []" using uvarint_suffix [OF t] by blast
  have "\<exists>p2. r1 = p2 @ Bytes f @ rest \<or> r1 = p2 @ rest \<and> Bytes f = []"
  proof (cases "unat (tag AND 7) = WireFixed64 \<or> unat (tag AND 7) = WireFixed32")
    case True
    then have "Bytes f = [] \<and> (rest = drop 8 r1 \<or> rest = drop 4 r1)"
      using assms t by (auto simp: Next_def Let_def wire_defs split: if_splits)
    then show ?thesis by (metis append_take_drop_id)
  next
    case False
    then obtain n r2 where n: "uvarint r1 = Inr (n, r2)"
      "Bytes f = [] \<and> rest = r2 \<or> Bytes f = take (unat n) r2 \<and> rest = drop (unat n) r2"
      using assms t by (auto simp: Next_def Let_def split: if_splits sum.splits)
    obtain p2 where p2: "r1 = p2 @ r2" using uvarint_suffix [OF n(1)] by blast
    have "r2 = Bytes f @ rest \<or> r2 = rest \<and> Bytes f = []" using n(2) by auto
    then show ?thesis using p2 by blast
  qed
  then show ?thesis using p1 by (metis append_assoc append_is_Nil_conv)
qed

end
