(* ===== verification/Csi.thy ===== *)
theory Csi
  imports Volumes Kubelet Proto_Wire
begin

text \<open>
  Package csi (\<open>internal/csi\<close>): the Container Storage Interface driver. The messages are decoded from
  and encoded to bytes with \<open>Proto_Wire\<close>; the handlers are functions from a request's bytes to a
  reply's bytes or a gRPC status code. The resolver is an argument (it asks the Kubernetes API).
  The node half keeps the mount table, which the kernel keeps in the source, and tells the volume
  registry of \<open>Volumes\<close> what was mounted; the outcomes of \<open>mount(8)\<close> and of reading the table are
  arguments.
\<close>

definition Text :: "Field \<Rightarrow> string" where
  "Text f = to_text (Bytes f)"

section \<open>Messages\<close>

record mount_cap =
  FSType :: string
  Flags :: "string list"

record vol_cap =
  Mount :: "mount_cap option"
  vBlock :: bool
  AccessMode :: int

definition mount_step :: "mount_cap \<Rightarrow> Field \<Rightarrow> proto_error + mount_cap" where
  "mount_step m g =
     Inr (if Number g = 1 then m\<lparr>FSType := Text g\<rparr>
          else if Number g = 2 then m\<lparr>Flags := Flags m @ [Text g]\<rparr> else m)"

definition mode_step :: "vol_cap \<Rightarrow> Field \<Rightarrow> proto_error + vol_cap" where
  "mode_step c g = Inr (if Number g = 1 then c\<lparr>AccessMode := Int64_field g\<rparr> else c)"

definition cap_step :: "vol_cap \<Rightarrow> Field \<Rightarrow> proto_error + vol_cap" where
  "cap_step c f =
     (if Number f = 1 then Inr (c\<lparr>vBlock := True\<rparr>)
      else if Number f = 2 then
        (case walk mount_step \<lparr>FSType = [], Flags = []\<rparr> (Bytes f) of
           Inl e \<Rightarrow> Inl e | Inr m \<Rightarrow> Inr (c\<lparr>Mount := Some m\<rparr>))
      else if Number f = 3 then walk mode_step c (Bytes f)
      else Inr c)"

definition no_cap :: vol_cap where
  "no_cap = \<lparr>Mount = None, vBlock = False, AccessMode = 0\<rparr>"

definition decodeVolumeCapability :: "bytes \<Rightarrow> proto_error + vol_cap" where
  "decodeVolumeCapability b = walk cap_step no_cap b"

definition encode_mount :: "mount_cap \<Rightarrow> bytes" where
  "encode_mount m =
     foldl (\<lambda>b fl. AppendString b 2 (of_text fl))
       (if FSType m \<noteq> [] then AppendString [] 1 (of_text (FSType m)) else []) (Flags m)"

definition encodeVolumeCapability :: "vol_cap \<Rightarrow> bytes" where
  "encodeVolumeCapability c =
     (let out = (if vBlock c then AppendMessage [] 1 [] else []);
          out = (case Mount c of None \<Rightarrow> out | Some m \<Rightarrow> AppendMessage out 2 (encode_mount m))
      in AppendMessage out 3 (AppendVarint [] 1 (of_int (AccessMode c))))"

record create_request =
  crName :: string
  crCapabilities :: "vol_cap list"
  crParameters :: "(bytes \<times> bytes) list"

definition create_step :: "create_request \<Rightarrow> Field \<Rightarrow> proto_error + create_request" where
  "create_step r f =
     (if Number f = 1 then Inr (r\<lparr>crName := Text f\<rparr>)
      else if Number f = 3 then
        (case decodeVolumeCapability (Bytes f) of
           Inl e \<Rightarrow> Inl e | Inr c \<Rightarrow> Inr (r\<lparr>crCapabilities := crCapabilities r @ [c]\<rparr>))
      else if Number f = 4 then
        (case StringMap (crParameters r) (Bytes f) of Inl e \<Rightarrow> Inl e | Inr m \<Rightarrow> Inr (r\<lparr>crParameters := m\<rparr>))
      else Inr r)"

definition DecodeCreateVolume :: "bytes \<Rightarrow> proto_error + create_request" where
  "DecodeCreateVolume b = walk create_step \<lparr>crName = [], crCapabilities = [], crParameters = []\<rparr> b"

record volume =
  vID :: string
  vBytes :: int
  vContext :: "(string \<times> string) list"

definition sortedKeys :: "(string \<times> string) list \<Rightarrow> string list" where
  "sortedKeys m = sort (map fst m)"

definition text_map :: "(string \<times> string) list \<Rightarrow> (bytes \<times> bytes) list" where
  "text_map m = map (\<lambda>(k, v). (of_text k, of_text v)) m"

definition EncodeCreateVolume :: "volume \<Rightarrow> bytes" where
  "EncodeCreateVolume v =
     (let vol = (if 0 < vBytes v then AppendVarint [] 1 (of_int (vBytes v)) else []);
          vol = AppendString vol 2 (of_text (vID v));
          vol = AppendStringMap vol 3 (map of_text (sortedKeys (vContext v))) (text_map (vContext v))
      in AppendMessage [] 1 vol)"

definition delete_step :: "string \<Rightarrow> Field \<Rightarrow> proto_error + string" where
  "delete_step r f = Inr (if Number f = 1 then Text f else r)"

definition DecodeDeleteVolume :: "bytes \<Rightarrow> proto_error + string" where
  "DecodeDeleteVolume b = walk delete_step [] b"

record validate_request =
  vrVolumeID :: string
  vrCapabilities :: "vol_cap list"
  vrContext :: "(bytes \<times> bytes) list"

definition validate_step :: "validate_request \<Rightarrow> Field \<Rightarrow> proto_error + validate_request" where
  "validate_step r f =
     (if Number f = 1 then Inr (r\<lparr>vrVolumeID := Text f\<rparr>)
      else if Number f = 2 then
        (case StringMap (vrContext r) (Bytes f) of Inl e \<Rightarrow> Inl e | Inr m \<Rightarrow> Inr (r\<lparr>vrContext := m\<rparr>))
      else if Number f = 3 then
        (case decodeVolumeCapability (Bytes f) of
           Inl e \<Rightarrow> Inl e | Inr c \<Rightarrow> Inr (r\<lparr>vrCapabilities := vrCapabilities r @ [c]\<rparr>))
      else Inr r)"

definition DecodeValidate :: "bytes \<Rightarrow> proto_error + validate_request" where
  "DecodeValidate b = walk validate_step \<lparr>vrVolumeID = [], vrCapabilities = [], vrContext = []\<rparr> b"

definition EncodeValidate :: "bool \<Rightarrow> vol_cap list \<Rightarrow> string \<Rightarrow> bytes" where
  "EncodeValidate confirmed caps why =
     (let out = (if confirmed
                 then AppendMessage [] 1 (foldl (\<lambda>c vc. AppendMessage c 2 (encodeVolumeCapability vc)) [] caps)
                 else [])
      in if why \<noteq> [] then AppendString out 2 (of_text why) else out)"

record publish_request =
  prVolumeID :: string
  prTargetPath :: string
  prCapability :: "vol_cap option"
  prReadOnly :: bool
  prContext :: "(bytes \<times> bytes) list"

definition publish_step :: "publish_request \<Rightarrow> Field \<Rightarrow> proto_error + publish_request" where
  "publish_step r f =
     (if Number f = 1 then Inr (r\<lparr>prVolumeID := Text f\<rparr>)
      else if Number f = 4 then Inr (r\<lparr>prTargetPath := Text f\<rparr>)
      else if Number f = 5 then
        (case decodeVolumeCapability (Bytes f) of Inl e \<Rightarrow> Inl e | Inr c \<Rightarrow> Inr (r\<lparr>prCapability := Some c\<rparr>))
      else if Number f = 6 then Inr (r\<lparr>prReadOnly := Bool_field f\<rparr>)
      else if Number f = 8 then
        (case StringMap (prContext r) (Bytes f) of Inl e \<Rightarrow> Inl e | Inr m \<Rightarrow> Inr (r\<lparr>prContext := m\<rparr>))
      else Inr r)"

definition DecodeNodePublish :: "bytes \<Rightarrow> proto_error + publish_request" where
  "DecodeNodePublish b =
     walk publish_step \<lparr>prVolumeID = [], prTargetPath = [], prCapability = None, prReadOnly = False, prContext = []\<rparr> b"

definition unpublish_step :: "string \<times> string \<Rightarrow> Field \<Rightarrow> proto_error + string \<times> string" where
  "unpublish_step r f =
     Inr (if Number f = 1 then (Text f, snd r) else if Number f = 2 then (fst r, Text f) else r)"

definition DecodeNodeUnpublish :: "bytes \<Rightarrow> proto_error + string \<times> string" where
  "DecodeNodeUnpublish b = walk unpublish_step ([], []) b"

definition EncodePluginInfo :: "string \<Rightarrow> string \<Rightarrow> bytes" where
  "EncodePluginInfo name ver =
     (let out = AppendString [] 1 (of_text name) in if ver \<noteq> [] then AppendString out 2 (of_text ver) else out)"

definition EncodePluginCapabilities :: bytes where
  "EncodePluginCapabilities = AppendMessage [] 1 (AppendMessage [] 1 (AppendVarint [] 1 1))"

definition EncodeProbe :: "bool \<Rightarrow> bytes" where
  "EncodeProbe ready = AppendMessage [] 1 (AppendBool [] 1 ready)"

definition EncodeControllerCapabilities :: bytes where
  "EncodeControllerCapabilities = AppendMessage [] 1 (AppendMessage [] 1 (AppendVarint [] 1 1))"

definition EncodeNodeInfo :: "string \<Rightarrow> int \<Rightarrow> bytes" where
  "EncodeNodeInfo nodeID maxVolumes =
     (let out = AppendString [] 1 (of_text nodeID)
      in if 0 < maxVolumes then AppendVarint out 2 (of_int maxVolumes) else out)"

definition EncodeNodeCapabilities :: bytes where
  "EncodeNodeCapabilities = []"

section \<open>A capability survives the wire\<close>

lemma encode_mount_concat:
  "encode_mount m =
     (if FSType m \<noteq> [] then AppendString [] 1 (of_text (FSType m)) else [])
       @ concat (map (\<lambda>fl. AppendString [] 2 (of_text fl)) (Flags m))"
proof -
  have "foldl (\<lambda>b fl. AppendString b 2 (of_text fl)) b fls
      = b @ concat (map (\<lambda>fl. AppendString [] 2 (of_text fl)) fls)" for b fls
  proof (induction fls arbitrary: b)
    case (Cons fl fls)
    then show ?case using Append_prefix(2) [of b 2 "of_text fl"] by simp
  qed simp
  then show ?thesis by (simp add: encode_mount_def)
qed

lemma length_AppendString: "length s \<le> length (AppendString [] n s)"
  by (simp add: AppendString_def)

lemma walk_mount_flags:
  assumes "\<forall>fl\<in>set fls. length fl < 2 ^ 64"
  shows "walk mount_step m (concat (map (\<lambda>fl. AppendString [] 2 (of_text fl)) fls)) = Inr (m\<lparr>Flags := Flags m @ fls\<rparr>)"
  using assms
  by (induction fls arbitrary: m) (simp_all add: walk_string mount_step_def Text_def)

lemma walk_mount:
  assumes "length (encode_mount m) < 2 ^ 64"
  shows "walk mount_step \<lparr>FSType = [], Flags = []\<rparr> (encode_mount m) = Inr m"
proof -
  have "length fl \<le> length (encode_mount m)" if "fl \<in> set (Flags m)" for fl
  proof -
    have "length (AppendString [] 2 (of_text fl)) \<le> length (concat (map (\<lambda>fl. AppendString [] 2 (of_text fl)) (Flags m)))"
      using that by (simp add: length_concat member_le_sum_list)
    then show ?thesis using length_AppendString [of "of_text fl" 2] by (simp add: encode_mount_concat)
  qed
  then have fls: "\<forall>fl\<in>set (Flags m). length fl < 2 ^ 64" using assms by fastforce
  have "length (FSType m) < 2 ^ 64" if "FSType m \<noteq> []"
    using that assms length_AppendString [of "of_text (FSType m)" 1] by (simp add: encode_mount_concat)
  then show ?thesis
    using walk_mount_flags [OF fls]
    by (cases "FSType m = []")
      (auto simp: encode_mount_concat walk_string mount_step_def Text_def simp del: One_nat_def)
qed

lemma sint_of_i64: "in_i64 a \<Longrightarrow> sint (of_int a :: 64 word) = a"
  by (simp add: signed_of_int i64_defs signed_take_bit_int_eq_self)

definition cap_wire_ok :: "vol_cap \<Rightarrow> bool" where
  "cap_wire_ok c \<longleftrightarrow>
     in_i64 (AccessMode c) \<and> (case Mount c of None \<Rightarrow> True | Some m \<Rightarrow> length (encode_mount m) < 2 ^ 64)"

lemma uvarint_bytes_short: "unat v < 2 ^ (7 * Suc k) \<Longrightarrow> length (uvarint_bytes v) \<le> Suc k"
proof (induction k arbitrary: v)
  case 0
  then have "v < 128" by (simp add: word_less_nat_alt)
  then show ?case by (simp add: uvarint_bytes.simps)
next
  case (Suc k)
  have "(2 :: nat) ^ (7 * Suc (Suc k)) = 2 ^ (7 * Suc k) * 128" by (simp add: power_add)
  then have "unat (drop_bit 7 v) < 2 ^ (7 * Suc k)"
    using Suc.prems by (simp add: unat_drop7 less_mult_imp_div_less)
  then show ?case using Suc.IH [of "drop_bit 7 v"] by (subst uvarint_bytes.simps) simp
qed

lemma AppendVarint_short: "length (AppendVarint [] n v) \<le> 20"
proof -
  have "length (uvarint_bytes w) \<le> 10" for w :: "64 word"
    using uvarint_bytes_short [of w 9] unsigned_less [of w, where 'a = nat] by simp
  then show ?thesis by (simp add: AppendVarint_def appendTag_def appendUvarint_def add_mono [where b = 10 and d = 10, simplified])
qed

lemma decode_encode_capability:
  assumes "cap_wire_ok c"
  shows "decodeVolumeCapability (encodeVolumeCapability c) = Inr c"
proof -
  have mode: "walk cap_step a (AppendString [] 3 (AppendVarint [] 1 (of_int (AccessMode c))))
      = Inr (a\<lparr>AccessMode := AccessMode c\<rparr>)" for a
  proof -
    have "length (AppendVarint [] 1 (of_int (AccessMode c))) < 2 ^ 64"
      using AppendVarint_short [of 1 "of_int (AccessMode c)"] by simp
    moreover have "walk mode_step a (AppendVarint [] 1 (of_int (AccessMode c))) = Inr (a\<lparr>AccessMode := AccessMode c\<rparr>)"
      using walk_varint [of 1 mode_step a "of_int (AccessMode c)" "[]"] assms
      by (simp add: mode_step_def Int64_field_def sint_of_i64 cap_wire_ok_def)
    ultimately show ?thesis
      using walk_string [of 3 "AppendVarint [] 1 (of_int (AccessMode c))" cap_step a "[]"] by (simp add: cap_step_def)
  qed
  have mnt: "walk cap_step a (AppendString [] 2 (encode_mount m) @ b) = walk cap_step (a\<lparr>Mount := Some m\<rparr>) b"
    if "Mount c = Some m" for a m b
    using that assms by (simp add: walk_string cap_step_def walk_mount cap_wire_ok_def)
  have blk: "walk cap_step a (AppendString [] 1 [] @ b) = walk cap_step (a\<lparr>vBlock := True\<rparr>) b" for a b
    by (simp add: walk_string cap_step_def)
  show ?thesis
    by (cases "Mount c"; cases "vBlock c")
      (auto simp: decodeVolumeCapability_def encodeVolumeCapability_def Let_def Append_prefix(3) mode mnt blk no_cap_def
        simp del: One_nat_def intro!: vol_cap.equality)
qed

end
