(* ===== verification/Grpc_Wire.thy ===== *)
theory Grpc_Wire
  imports Go_Text
begin

text \<open>
  Package grpcwire (\<open>internal/grpcwire\<close>): unary gRPC calls over HTTP/2. HTTP/2 itself is the standard
  library's; a request is its method, path, headers and body, a reply its status, body and
  trailers. The server is the map from methods to handlers with \<open>serveHTTP\<close>; the client is \<open>Call\<close>
  over a function that carries the request. Handlers are functions from a deadline and a request
  to an error or a reply.

  The lemmas: status messages and framed messages come back as they were sent, and a call over
  the server returns exactly what the handler answered, an error with its code and its text.
\<close>

section \<open>Status\<close>

abbreviation (input) OK :: nat where "OK \<equiv> 0"
abbreviation (input) Canceled :: nat where "Canceled \<equiv> 1"
abbreviation (input) Unknown :: nat where "Unknown \<equiv> 2"
abbreviation (input) InvalidArgument :: nat where "InvalidArgument \<equiv> 3"
abbreviation (input) DeadlineExceeded :: nat where "DeadlineExceeded \<equiv> 4"
abbreviation (input) NotFound :: nat where "NotFound \<equiv> 5"
abbreviation (input) ResourceExhausted :: nat where "ResourceExhausted \<equiv> 8"
abbreviation (input) FailedPrecondition :: nat where "FailedPrecondition \<equiv> 9"
abbreviation (input) Unimplemented :: nat where "Unimplemented \<equiv> 12"
abbreviation (input) Internal :: nat where "Internal \<equiv> 13"
abbreviation (input) Unavailable :: nat where "Unavailable \<equiv> 14"

definition Code_String :: "nat \<Rightarrow> string" where
  "Code_String c =
     (if c = OK then ''OK'' else if c = Canceled then ''Canceled'' else if c = Unknown then ''Unknown''
      else if c = InvalidArgument then ''InvalidArgument'' else if c = ResourceExhausted then ''ResourceExhausted''
      else if c = DeadlineExceeded then ''DeadlineExceeded'' else if c = NotFound then ''NotFound''
      else if c = FailedPrecondition then ''FailedPrecondition'' else if c = Unimplemented then ''Unimplemented''
      else if c = Internal then ''Internal'' else if c = Unavailable then ''Unavailable''
      else ''Code('' @ dec_nat c @ '')'')"

record status =
  Code :: nat
  Message :: string

definition Status_Error :: "status \<Rightarrow> string" where
  "Status_Error s = ''rpc '' @ Code_String (Code s) @ '': '' @ Message s"

text \<open>An error a handler returns is a \<open>Status\<close> or a plain one with its text.\<close>

datatype rpc_error = StatusErr status | PlainErr string

definition Errorf :: "nat \<Rightarrow> string \<Rightarrow> rpc_error" where
  "Errorf c msg = StatusErr \<lparr>Code = c, Message = msg\<rparr>"

definition CodeOf :: "rpc_error option \<Rightarrow> nat" where
  "CodeOf e = (case e of None \<Rightarrow> OK | Some (StatusErr s) \<Rightarrow> Code s | Some (PlainErr _) \<Rightarrow> Unknown)"

section \<open>Status messages\<close>

definition hex_digit :: "nat \<Rightarrow> char" where
  "hex_digit n = char_of (if n < 10 then 48 + n else 55 + n)"

definition hex_val :: "char \<Rightarrow> nat option" where
  "hex_val c =
     (let n = of_char c in
      if 48 \<le> n \<and> n \<le> 57 then Some (n - 48)
      else if 65 \<le> n \<and> n \<le> 70 then Some (n - 55)
      else if 97 \<le> n \<and> n \<le> 102 then Some (n - 87) else None)"

definition plain :: "char \<Rightarrow> bool" where
  "plain c \<longleftrightarrow> \<not> ((of_char c :: nat) < 32 \<or> 126 < (of_char c :: nat) \<or> c = CHR ''%'')"

definition encode_char :: "char \<Rightarrow> string" where
  "encode_char c =
     (if plain c then [c] else [CHR ''%'', hex_digit (of_char c div 16), hex_digit (of_char c mod 16)])"

definition encodeMessage :: "string \<Rightarrow> string" where
  "encodeMessage s = concat (map encode_char s)"

function decode_loop :: "string \<Rightarrow> string" where
  "decode_loop [] = []"
| "decode_loop (c # s) =
     (if c = CHR ''%'' \<and> 2 \<le> length s then
        (case (hex_val (s ! 0), hex_val (s ! 1)) of
           (Some a, Some b) \<Rightarrow> char_of (16 * a + b) # decode_loop (drop 2 s)
         | _ \<Rightarrow> c # decode_loop s)
      else c # decode_loop s)"
  by pat_completeness auto

termination decode_loop
  by (relation "measure length") auto

definition decodeMessage :: "string \<Rightarrow> string" where
  "decodeMessage s = (if CHR ''%'' \<notin> set s then s else decode_loop s)"

lemma hex_val_digit [simp]: "n < 16 \<Longrightarrow> hex_val (hex_digit n) = Some n"
  by (simp add: hex_val_def hex_digit_def)

lemma decode_loop_encode: "decode_loop (encodeMessage s @ t) = s @ decode_loop t"
proof (induction s)
  case (Cons c s)
  have "16 * (of_char c div 16) + of_char c mod 16 = (of_char c :: nat)" by simp
  moreover have "(of_char c :: nat) div 16 < 16" by (simp add: less_mult_imp_div_less)
  ultimately show ?case using Cons by (auto simp: encodeMessage_def encode_char_def plain_def)
qed (simp add: encodeMessage_def)

lemma decode_loop_plain: "CHR ''%'' \<notin> set s \<Longrightarrow> decode_loop s = s"
  by (induction s rule: decode_loop.induct) auto

lemma message_roundtrip: "decodeMessage (encodeMessage s) = s"
  using decode_loop_encode [of s "[]"] by (auto simp: decodeMessage_def dest: decode_loop_plain)

lemma hex_digit_printable: "n < 16 \<Longrightarrow> 32 \<le> (of_char (hex_digit n) :: nat) \<and> (of_char (hex_digit n) :: nat) \<le> 126"
  by (simp add: hex_digit_def)

lemma message_printable: "c \<in> set (encodeMessage s) \<Longrightarrow> 32 \<le> (of_char c :: nat) \<and> (of_char c :: nat) \<le> 126"
proof -
  assume "c \<in> set (encodeMessage s)"
  then obtain d where d: "c \<in> set (encode_char d)" by (auto simp: encodeMessage_def)
  have "(of_char d :: nat) div 16 < 16" "(of_char d :: nat) mod 16 < 16" by (simp_all add: less_mult_imp_div_less)
  then show ?thesis
    using d hex_digit_printable [of "of_char d div 16"] hex_digit_printable [of "of_char d mod 16"]
    by (cases "plain d") (auto simp: encode_char_def plain_def)
qed

section \<open>Framing\<close>

definition maxMessage :: nat where
  "maxMessage = 4 * 1024 * 1024"

definition frame :: "bytes \<Rightarrow> bytes" where
  "frame msg = 0 # be_bytes 4 (length msg) @ msg"

definition readMessage :: "bytes \<Rightarrow> rpc_error + bytes" where
  "readMessage r =
     (if r = [] then Inl (Errorf InvalidArgument ''the stream carried no message'')
      else if length r < 5 then Inl (Errorf InvalidArgument ''reading the message header: unexpected EOF'')
      else if hd r \<noteq> 0 then Inl (Errorf Unimplemented ''compressed messages are not accepted'')
      else let n = be_val (take 4 (drop 1 r)) in
        if maxMessage < n then
          Inl (Errorf ResourceExhausted (''a message of '' @ dec_nat n @ '' bytes, over the '' @ dec_nat maxMessage @ '' limit''))
        else if length (drop 5 r) < n then
          Inl (Errorf InvalidArgument (''the message ended after fewer than the '' @ dec_nat n @ '' bytes it declared''))
        else Inr (take n (drop 5 r)))"

lemma frame_roundtrip: "length msg \<le> maxMessage \<Longrightarrow> readMessage (frame msg @ rest) = Inr msg"
  by (simp add: readMessage_def frame_def maxMessage_def Let_def)

lemma readMessage_bound: "readMessage r = Inr msg \<Longrightarrow> length msg \<le> maxMessage \<and> length msg \<le> length r - 5"
  by (auto simp: readMessage_def Let_def min_def split: if_splits)

section \<open>Deadlines\<close>

definition timeout :: "string \<Rightarrow> int option" where
  "timeout v =
     (if length v < 2 then None
      else case ParseInt (butlast v) of
        (n, err) \<Rightarrow>
          if err \<noteq> None \<or> n < 0 then None
          else let u = (if last v = CHR ''H'' then Some (3600 * Second) else if last v = CHR ''M'' then Some Minute
                        else if last v = CHR ''S'' then Some Second else if last v = CHR ''m'' then Some 1000000
                        else if last v = CHR ''u'' then Some 1000 else if last v = CHR ''n'' then Some 1 else None)
               in case u of None \<Rightarrow> None | Some unit \<Rightarrow> Some (wrap64 (n * unit)))"

definition timeout_header :: "int option \<Rightarrow> string" where
  "timeout_header left =
     (case left of None \<Rightarrow> [] | Some d \<Rightarrow> if 0 < d then dec_int (d div 1000) @ ''u'' else [])"

lemma timeout_header_never_later:
  assumes "0 < d" "in_i64 d"
  shows "timeout (timeout_header (Some d)) = Some (d div 1000 * 1000)" and "d div 1000 * 1000 \<le> d"
proof -
  have le: "d div 1000 * 1000 \<le> d" using div_mult_mod_eq [of d 1000] pos_mod_sign [of 1000 d] by linarith
  moreover have nn: "0 \<le> d div 1000" using assms by (simp add: pos_imp_zdiv_nonneg_iff)
  ultimately have "in_i64 (d div 1000)" "in_i64 (d div 1000 * 1000)"
    using assms(2) by (auto intro!: in_i64_nonneg [of _ d])
  moreover have "dec_int (d div 1000) \<noteq> []" using dec_nat_digits nn by (simp add: dec_int_def)
  ultimately show "timeout (timeout_header (Some d)) = Some (d div 1000 * 1000)"
    using assms nn by (auto simp: timeout_def timeout_header_def ParseInt_dec wrap64_id Let_def neq_Nil_conv)
  show "d div 1000 * 1000 \<le> d" by (rule le)
qed

text \<open>
  A number of hours gRPC allows (at most eight digits) overflows the nanoseconds of a duration, and
  the deadline that comes out can already have passed.
\<close>

lemma timeout_wraps: "timeout ''99999999H'' = Some (- 8934885074191032320)"
  by (simp add: timeout_def ParseInt_def take_sign_def is_digit_def digits_val_def i64_defs wrap64_def Let_def)

section \<open>The server\<close>

type_synonym handler = "int option \<Rightarrow> bytes \<Rightarrow> rpc_error + bytes"
type_synonym server = "(string, handler) gomap"

text \<open>\<open>Register\<close> panics on a malformed or a repeated name: \<open>None\<close>.\<close>

definition Register :: "server \<Rightarrow> string \<Rightarrow> handler option \<Rightarrow> server option" where
  "Register s m h =
     (if \<not> HasPrefix m ''/'' \<or> count_list m (CHR ''/'') \<noteq> 2 then None
      else case h of
        None \<Rightarrow> None
      | Some f \<Rightarrow> if map_of s m \<noteq> None then None else Some (AList.update m f s))"

record http_request =
  qMethod :: string
  qPath :: string
  qContentType :: string
  qTimeout :: string
  qBody :: bytes

record http_reply =
  pStatus :: nat
  pBody :: bytes
  pTrailer :: "(string \<times> string) option"

definition finish :: "bytes \<Rightarrow> rpc_error option \<Rightarrow> http_reply" where
  "finish body err =
     \<lparr>pStatus = 200, pBody = body,
      pTrailer = Some (dec_nat (CodeOf err),
        case err of None \<Rightarrow> [] | Some (StatusErr s) \<Rightarrow> encodeMessage (Message s) | Some (PlainErr e) \<Rightarrow> encodeMessage e)\<rparr>"

text \<open>The outcome of writing the reply is an argument: \<open>None\<close> or the error's text with what was sent.\<close>

definition serveHTTP :: "server \<Rightarrow> (string \<times> bytes) option \<Rightarrow> http_request \<Rightarrow> http_reply" where
  "serveHTTP s wfault r =
     (if qMethod r \<noteq> ''POST'' then \<lparr>pStatus = 405, pBody = of_text ''grpc requires POST'', pTrailer = None\<rparr>
      else if \<not> HasPrefix (qContentType r) ''application/grpc'' then
        \<lparr>pStatus = 415, pBody = of_text (''not a grpc content type: '' @ qContentType r), pTrailer = None\<rparr>
      else case map_of s (qPath r) of
        None \<Rightarrow> finish [] (Some (Errorf Unimplemented (qPath r @ '' is not served by this driver'')))
      | Some h \<Rightarrow>
          (case readMessage (qBody r) of
             Inl e \<Rightarrow> finish [] (Some e)
           | Inr req \<Rightarrow>
               (case h (timeout (qTimeout r)) req of
                  Inl e \<Rightarrow> finish [] (Some e)
                | Inr resp \<Rightarrow>
                    (case wfault of
                       Some (e, sent) \<Rightarrow> finish sent (Some (Errorf Internal (''writing the reply: '' @ e)))
                     | None \<Rightarrow> finish (frame resp) None))))"

section \<open>The client\<close>

definition read_status :: "(string \<times> string) option \<Rightarrow> rpc_error option" where
  "read_status t =
     (let raw = (case t of None \<Rightarrow> [] | Some (c, _) \<Rightarrow> c) in
      if raw = [] then Some (Errorf Internal ''the reply carried no grpc-status'')
      else case ParseUint raw 32 of
        (code, err) \<Rightarrow>
          if err \<noteq> None then Some (Errorf Internal (''unreadable grpc-status '' @ raw))
          else if code = OK then None
          else Some (StatusErr \<lparr>Code = code, Message = decodeMessage (case t of None \<Rightarrow> [] | Some (_, m) \<Rightarrow> m)\<rparr>))"

text \<open>What the transport does with a request is an argument: an error's text or a reply.\<close>

definition Call :: "(http_request \<Rightarrow> string + http_reply) \<Rightarrow> int option \<Rightarrow> string \<Rightarrow> bytes \<Rightarrow> rpc_error + bytes" where
  "Call send left fullMethod req =
     (case send \<lparr>qMethod = ''POST'', qPath = fullMethod, qContentType = ''application/grpc+proto'',
                  qTimeout = timeout_header left, qBody = frame req\<rparr> of
        Inl e \<Rightarrow> Inl (Errorf Unavailable (''calling '' @ fullMethod @ '': '' @ e))
      | Inr resp \<Rightarrow>
          if pStatus resp \<noteq> 200 then
            Inl (Errorf Unavailable (fullMethod @ '' answered HTTP '' @ dec_nat (pStatus resp) @ '': ''
                   @ TrimSpace (to_text (take 1024 (pBody resp)))))
          else case read_status (pTrailer resp) of
            Some st \<Rightarrow> Inl st
          | None \<Rightarrow> readMessage (pBody resp))"

text \<open>What a caller should see: the handler's answer, or the status it failed with.\<close>

definition served :: "server \<Rightarrow> int option \<Rightarrow> string \<Rightarrow> bytes \<Rightarrow> rpc_error + bytes" where
  "served s left m req =
     (case map_of s m of
        None \<Rightarrow> Inl (Errorf Unimplemented (m @ '' is not served by this driver''))
      | Some h \<Rightarrow>
          (case h (timeout (timeout_header left)) req of
             Inl (StatusErr st) \<Rightarrow> Inl (StatusErr st)
           | Inl (PlainErr e) \<Rightarrow> Inl (Errorf Unknown e)
           | Inr resp \<Rightarrow> Inr resp))"

lemma read_status_finish:
  assumes "CodeOf err < 2 ^ 32" "CodeOf err = OK \<longleftrightarrow> err = None"
  shows "read_status (pTrailer (finish b err)) =
    (case err of None \<Rightarrow> None | Some (StatusErr st) \<Rightarrow> Some (StatusErr st) | Some (PlainErr e) \<Rightarrow> Some (Errorf Unknown e))"
  using assms dec_nat_digits [of "CodeOf err"] ParseUint_dec [of "CodeOf err" 32]
  by (auto simp: read_status_def finish_def Let_def message_roundtrip Errorf_def CodeOf_def split: option.splits rpc_error.splits)

lemma HasPrefix_grpc: "HasPrefix ''application/grpc+proto'' ''application/grpc''"
  by (simp add: HasPrefix_def)

theorem call_returns_answer:
  assumes "length req \<le> maxMessage"
    and "\<And>h d resp. map_of s m = Some h \<Longrightarrow> h d req = Inr resp \<Longrightarrow> length resp \<le> maxMessage"
    and "\<And>h d st. map_of s m = Some h \<Longrightarrow> h d req = Inl (StatusErr st) \<Longrightarrow> Code st < 2 ^ 32 \<and> Code st \<noteq> OK"
  shows "Call (\<lambda>r. Inr (serveHTTP s None r)) left m req = served s left m req"
proof -
  have rd: "readMessage (frame req) = Inr req" using frame_roundtrip [of req "[]"] assms(1) by simp
  have fin: "pStatus (finish b e) = 200" "pBody (finish b e) = b" for b e by (simp_all add: finish_def)
  have un: "read_status (pTrailer (finish b (Some (Errorf c e)))) = Some (Errorf c e)" if "c < 2 ^ 32" "c \<noteq> OK" for b c e
    using read_status_finish [of "Some (Errorf c e)" b] that by (simp add: CodeOf_def Errorf_def)
  show ?thesis
  proof (cases "map_of s m")
    case None
    then show ?thesis by (simp add: Call_def serveHTTP_def HasPrefix_grpc served_def fin un)
  next
    case (Some h)
    let ?a = "h (timeout (timeout_header left)) req"
    have call: "Call (\<lambda>r. Inr (serveHTTP s None r)) left m req =
        (let p = (case ?a of Inl e \<Rightarrow> finish [] (Some e) | Inr resp \<Rightarrow> finish (frame resp) None)
         in case read_status (pTrailer p) of Some st \<Rightarrow> Inl st | None \<Rightarrow> readMessage (pBody p))"
      using Some by (cases ?a) (simp_all add: Call_def serveHTTP_def HasPrefix_grpc rd fin Let_def)
    show ?thesis
    proof (cases ?a)
      case (Inr resp)
      then show ?thesis
        using call Some assms(2) [OF Some Inr] frame_roundtrip [of resp "[]"] read_status_finish [of None "frame resp"]
        by (simp add: served_def fin CodeOf_def)
    next
      case (Inl e)
      then show ?thesis
        using call Some assms(3) [OF Some] read_status_finish [of "Some e" "[]"]
        by (cases e) (auto simp: served_def CodeOf_def)
    qed
  qed
qed

end
