(* ===== verification/Csi_Driver.thy ===== *)
theory Csi_Driver
  imports Csi Grpc_Wire
begin

text \<open>
  The handlers of package csi (\<open>internal/csi/driver.go\<close>, \<open>mount.go\<close>, \<open>resolve.go\<close>): from a request's
  bytes to a reply's bytes or a gRPC status. The controller's resolver, the node's mounter and its
  observer are interfaces in the source: the resolver is an argument (\<open>Datasets_Resolve\<close> is the one
  over the Kubernetes API, whose answer is its argument), the mounter is an argument with \<open>NFS\<close> as
  the provider, and the observer is the registry of \<open>Volumes\<close>. What \<open>mount(8)\<close>, \<open>umount(8)\<close>,
  \<open>mkdir\<close> and reading the mount table do to a call is an argument. Error texts stop at what
  \<open>%v\<close> adds for a decoder's error.

  The lemmas: an accepted object is mounted inside the export and read-only, a repeated publish
  or unpublish changes nothing (\<open>mounter\<close>, interpreted on \<open>NFS\<close>), nothing is ever stacked, and a
  mounted volume's size is what the controller resolved.
\<close>

section \<open>Requests\<close>

definition proto_text :: "proto_error \<Rightarrow> string" where
  "proto_text e =
     (case e of ErrTruncated \<Rightarrow> ''protowire: the message ended inside a field''
      | ErrWireType \<Rightarrow> ''protowire: unknown wire type''
      | ErrFieldNumber \<Rightarrow> ''protowire: field number must be positive'')"

definition unreadable :: "proto_error \<Rightarrow> rpc_error" where
  "unreadable e = Errorf InvalidArgument (''unreadable request: '' @ proto_text e)"

definition ctx_get :: "(bytes \<times> bytes) list \<Rightarrow> string \<Rightarrow> string" where
  "ctx_get m k = (case map_of m (of_text k) of None \<Rightarrow> [] | Some v \<Rightarrow> to_text v)"

record driver_cfg =
  NodeID :: string
  cVersion :: string
  Access :: string
  Export :: string
  MountFlags :: "string list"
  HasMounter :: bool
  HasObserver :: bool

definition csi_New :: "driver_cfg \<Rightarrow> string option" where
  "csi_New c =
     (if NodeID c = [] \<and> HasMounter c then Some ''csi: a node plugin needs the name of its node''
      else if HasMounter c \<and> Access c = [] then Some ''csi: a node plugin needs the address of the access layer''
      else if HasMounter c \<and> Export c = [] then Some ''csi: a node plugin needs the export the access layer publishes''
      else None)"

definition describe :: "vol_cap \<Rightarrow> string" where
  "describe c =
     (if vBlock c then ''a block device''
      else case Mount c of
        Some m \<Rightarrow> if FSType m \<noteq> [] then ''a '' @ FSType m @ '' filesystem with access mode '' @ dec_int (AccessMode c)
                  else ''a filesystem with access mode '' @ dec_int (AccessMode c)
      | None \<Rightarrow> ''a filesystem with access mode '' @ dec_int (AccessMode c))"

definition accessMultiNodeReaderOnly :: int where
  "accessMultiNodeReaderOnly = 3"

fun acceptable :: "vol_cap list \<Rightarrow> status option" where
  "acceptable [] = None"
| "acceptable (c # cs) =
     (if vBlock c then Some \<lparr>Code = InvalidArgument,
        Message = ''this driver serves a filesystem and was asked for '' @ describe c\<rparr>
      else if AccessMode c \<noteq> accessMultiNodeReaderOnly then Some \<lparr>Code = InvalidArgument,
        Message = ''a dataset is immutable and is served read-only to many readers, and this asked for '' @ describe c\<rparr>
      else acceptable cs)"

definition datasetFrom :: "(bytes \<times> bytes) list \<Rightarrow> rpc_error + string \<times> string" where
  "datasetFrom params =
     (let v = TrimSpace (ctx_get params ''dataset'') in
      if v = [] then Inl (Errorf InvalidArgument
        ''the storage class does not say which dataset it hands out, so set its dataset parameter to namespace/name'')
      else case Cut v (CHR ''/'') of
        (ns, n, found) \<Rightarrow>
          if \<not> found \<or> ns = [] \<or> n = [] then
            Inl (Errorf InvalidArgument (''a dataset is named namespace/name, got '' @ v))
          else Inr (ns, n))"

section \<open>The controller half\<close>

definition resolved_volume :: "string \<Rightarrow> string \<Rightarrow> string \<Rightarrow> int \<Rightarrow> volume" where
  "resolved_volume ns n object nbytes =
     \<lparr>vID = ns @ ''/'' @ n, vBytes = nbytes,
      vContext = [(''object'', object), (''dataset'', ns @ ''/'' @ n), (''bytes'', dec_int nbytes)]\<rparr>"

definition createVolume :: "(string \<Rightarrow> string \<Rightarrow> rpc_error + string \<times> int) \<Rightarrow> bytes \<Rightarrow> rpc_error + bytes" where
  "createVolume resolve req =
     (case DecodeCreateVolume req of
        Inl e \<Rightarrow> Inl (unreadable e)
      | Inr r \<Rightarrow>
          if crName r = [] then Inl (Errorf InvalidArgument ''a volume needs a name'')
          else if crCapabilities r = [] then Inl (Errorf InvalidArgument ''a volume needs at least one capability'')
          else case acceptable (crCapabilities r) of
            Some e \<Rightarrow> Inl (StatusErr e)
          | None \<Rightarrow>
              (case datasetFrom (crParameters r) of
                 Inl e \<Rightarrow> Inl e
               | Inr (ns, n) \<Rightarrow>
                   (case resolve ns n of
                      Inl e \<Rightarrow> Inl e
                    | Inr (object, nbytes) \<Rightarrow> Inr (EncodeCreateVolume (resolved_volume ns n object nbytes)))))"

definition deleteVolume :: "bytes \<Rightarrow> rpc_error + bytes" where
  "deleteVolume req =
     (case DecodeDeleteVolume req of
        Inl e \<Rightarrow> Inl (unreadable e)
      | Inr v \<Rightarrow> if v = [] then Inl (Errorf InvalidArgument ''a delete needs a volume id'') else Inr [])"

definition validate :: "bytes \<Rightarrow> rpc_error + bytes" where
  "validate req =
     (case DecodeValidate req of
        Inl e \<Rightarrow> Inl (unreadable e)
      | Inr r \<Rightarrow>
          if vrVolumeID r = [] then Inl (Errorf InvalidArgument ''a validation needs a volume id'')
          else if vrCapabilities r = [] then Inl (Errorf InvalidArgument ''a validation needs at least one capability'')
          else case acceptable (vrCapabilities r) of
            Some e \<Rightarrow> Inr (EncodeValidate False [] (Status_Error e))
          | None \<Rightarrow> Inr (EncodeValidate True (vrCapabilities r) []))"

text \<open>\<open>Datasets.Resolve\<close>: what the API server said of the dataset is an argument.\<close>

datatype api_answer =
    ApiNotFound
  | ApiFailed string
  | ApiDataset string "(bool \<times> int \<times> string) option"

definition because :: "string \<Rightarrow> string" where
  "because reason = (if reason = [] then [] else '': '' @ reason)"

definition Datasets_Resolve :: "(string \<Rightarrow> string \<Rightarrow> api_answer) \<Rightarrow> string \<Rightarrow> string \<Rightarrow> rpc_error + string \<times> int" where
  "Datasets_Resolve api ns n =
     (let which = ns @ ''/'' @ n in
      case api ns n of
        ApiNotFound \<Rightarrow> Inl (Errorf NotFound (''no dataset '' @ which))
      | ApiFailed e \<Rightarrow> Inl (Errorf Unavailable (''reading dataset '' @ which @ '': '' @ e))
      | ApiDataset object st \<Rightarrow>
          if object = [] then Inl (Errorf FailedPrecondition (''dataset '' @ which @ '' names no object in the store''))
          else case st of
            None \<Rightarrow> Inl (Errorf Unavailable (''dataset '' @ which @ '' has not been reconciled yet''))
          | Some (present, nbytes, reason) \<Rightarrow>
              if \<not> present then Inl (Errorf FailedPrecondition (''dataset '' @ which @ '' is declared but its object ''
                 @ object @ '' is not in the store'' @ because reason))
              else Inr (object, nbytes))"

section \<open>The node half\<close>

text \<open>\<open>path.Join("/", ...)\<close>: empty and dot segments go, a double dot takes the one before it.\<close>

fun clean :: "string list \<Rightarrow> string list \<Rightarrow> string list" where
  "clean acc [] = rev acc"
| "clean acc (s # ss) =
     (if s = [] \<or> s = ''.'' then clean acc ss
      else if s = ''..'' then clean (tl acc) ss else clean (s # acc) ss)"

definition join_root :: "string list \<Rightarrow> string" where
  "join_root elems = ''/'' @ Join (clean [] (concat (map (\<lambda>e. Split e (CHR ''/'')) elems))) ''/''"

definition csi_source :: "driver_cfg \<Rightarrow> string \<Rightarrow> rpc_error + string" where
  "csi_source dc object =
     (let refuse = Inl (Errorf InvalidArgument (''the object '' @ object @ '' does not name a dataset inside the export''))
      in if object = [] then refuse
         else if list_ex (\<lambda>s. s = [] \<or> s = ''.'' \<or> s = ''..'') (Split object (CHR ''/'')) then refuse
         else Inr (Access dc @ '':'' @ join_root [Export dc, object]))"

definition observe :: "driver_cfg \<Rightarrow> string \<Rightarrow> (bytes \<times> bytes) list \<Rightarrow> registry \<Rightarrow> registry" where
  "observe dc volumeID ctx reg =
     (if \<not> HasObserver dc then reg
      else let b = fst (ParseInt (ctx_get ctx ''bytes'')) in Published reg volumeID (if b < 0 then 0 else b))"

definition csi_forget :: "driver_cfg \<Rightarrow> string \<Rightarrow> registry \<Rightarrow> registry" where
  "csi_forget dc volumeID reg = (if \<not> HasObserver dc then reg else Unpublished reg volumeID)"

type_synonym 's mount_op = "string \<Rightarrow> string \<Rightarrow> string list \<Rightarrow> 's \<Rightarrow> string + 's"
type_synonym 's umount_op = "string \<Rightarrow> 's \<Rightarrow> string + 's"

definition nodePublish :: "driver_cfg \<Rightarrow> 's mount_op \<Rightarrow> bytes \<Rightarrow> 's \<times> registry \<Rightarrow> ('s \<times> registry) \<times> (rpc_error + bytes)" where
  "nodePublish dc mnt req st =
     (case DecodeNodePublish req of
        Inl e \<Rightarrow> (st, Inl (unreadable e))
      | Inr r \<Rightarrow>
          if prVolumeID r = [] then (st, Inl (Errorf InvalidArgument ''a publish needs a volume id''))
          else if prTargetPath r = [] then (st, Inl (Errorf InvalidArgument ''a publish needs a target path''))
          else case prCapability r of
            None \<Rightarrow> (st, Inl (Errorf InvalidArgument ''a publish needs a volume capability''))
          | Some c \<Rightarrow>
              (case acceptable [c] of
                 Some e \<Rightarrow> (st, Inl (StatusErr e))
               | None \<Rightarrow>
                   let object = ctx_get (prContext r) ''object'' in
                   if object = [] then (st, Inl (Errorf InvalidArgument
                     (''the volume context does not say which object backs '' @ prVolumeID r
                        @ '', which the controller sets when it resolves the dataset'')))
                   else case csi_source dc object of
                     Inl e \<Rightarrow> (st, Inl e)
                   | Inr src \<Rightarrow>
                       (case mnt src (prTargetPath r) (MountFlags dc) (fst st) of
                          Inl e \<Rightarrow> (st, Inl (Errorf Internal (''mounting '' @ src @ '' at '' @ prTargetPath r @ '': '' @ e)))
                        | Inr s' \<Rightarrow> ((s', observe dc (prVolumeID r) (prContext r) (snd st)), Inr []))))"

definition nodeUnpublish :: "driver_cfg \<Rightarrow> 's umount_op \<Rightarrow> bytes \<Rightarrow> 's \<times> registry \<Rightarrow> ('s \<times> registry) \<times> (rpc_error + bytes)" where
  "nodeUnpublish dc umnt req st =
     (case DecodeNodeUnpublish req of
        Inl e \<Rightarrow> (st, Inl (unreadable e))
      | Inr (v, tgt) \<Rightarrow>
          if v = [] then (st, Inl (Errorf InvalidArgument ''an unpublish needs a volume id''))
          else if tgt = [] then (st, Inl (Errorf InvalidArgument ''an unpublish needs a target path''))
          else case umnt tgt (fst st) of
            Inl e \<Rightarrow> (st, Inl (Errorf Internal (''unmounting '' @ tgt @ '': '' @ e)))
          | Inr s' \<Rightarrow> ((s', csi_forget dc v (snd st)), Inr []))"

section \<open>NFS\<close>

text \<open>
  A mount is its target, its source and its options. The node's table lists them, the latest first.
  \<open>nfs_env\<close> says whether the table could be read, whether the mount point could be made and
  whether the command succeeded.
\<close>

type_synonym mount_table = "(string \<times> string \<times> string list) list"

record nfs_env =
  tableReadable :: bool
  mkdirOk :: bool
  execOk :: bool

definition table_targets :: "mount_table \<Rightarrow> string list" where
  "table_targets = map fst"

definition nfs_Mount :: "nfs_env \<Rightarrow> mount_table mount_op" where
  "nfs_Mount e src tgt flags t =
     (if \<not> tableReadable e then Inl ''reading the mount table''
      else if tgt \<in> set (table_targets t) then Inr t
      else if \<not> mkdirOk e then Inl ''making the mount point''
      else if \<not> execOk e then Inl ''mount''
      else Inr ((tgt, src, ''ro'' # flags) # t))"

text \<open>\<open>umount\<close> uncovers what the latest mount at the target covered.\<close>

fun umount :: "string \<Rightarrow> mount_table \<Rightarrow> mount_table" where
  "umount tgt [] = []"
| "umount tgt (m # ms) = (if fst m = tgt then ms else m # umount tgt ms)"

definition nfs_Unmount :: "nfs_env \<Rightarrow> mount_table umount_op" where
  "nfs_Unmount e tgt t =
     (if \<not> tableReadable e then Inl ''reading the mount table''
      else if tgt \<notin> set (table_targets t) then Inr t
      else if \<not> execOk e then Inl ''umount''
      else Inr (umount tgt t))"

text \<open>What the node half may rely on: a mount makes the target mounted, an unmount makes it not
  mounted, neither touches another target, and repeating either changes nothing.\<close>

locale mounter =
  fixes mnt :: "'e \<Rightarrow> 's mount_op" and umnt :: "'e \<Rightarrow> 's umount_op"
    and mounted_at :: "'s \<Rightarrow> string \<Rightarrow> bool" and sound :: "'s \<Rightarrow> bool"
  assumes mnt_mounts: "sound s \<Longrightarrow> mnt e src t fl s = Inr s' \<Longrightarrow> sound s' \<and> (\<forall>u. mounted_at s' u \<longleftrightarrow> u = t \<or> mounted_at s u)"
    and mnt_again: "mounted_at s t \<Longrightarrow> mnt e src t fl s = Inr s' \<Longrightarrow> s' = s"
    and umnt_unmounts: "sound s \<Longrightarrow> umnt e t s = Inr s' \<Longrightarrow> sound s' \<and> (\<forall>u. mounted_at s' u \<longleftrightarrow> u \<noteq> t \<and> mounted_at s u)"
    and umnt_again: "\<not> mounted_at s t \<Longrightarrow> umnt e t s = Inr s' \<Longrightarrow> s' = s"
begin

lemma publish_cases:
  assumes "nodePublish dc (mnt e) req (s, reg) = (st', Inr out)"
  obtains r src s' where "DecodeNodePublish req = Inr r" "prVolumeID r \<noteq> []" "prTargetPath r \<noteq> []"
    "csi_source dc (ctx_get (prContext r) ''object'') = Inr src"
    "mnt e src (prTargetPath r) (MountFlags dc) s = Inr s'"
    "st' = (s', observe dc (prVolumeID r) (prContext r) reg)"
  using assms by (auto simp: nodePublish_def Let_def split: sum.splits if_splits option.splits)

lemma unpublish_cases:
  assumes "nodeUnpublish dc (umnt e) req (s, reg) = (st', Inr out)"
  obtains v t s' where "DecodeNodeUnpublish req = Inr (v, t)" "v \<noteq> []" "t \<noteq> []" "umnt e t s = Inr s'"
    "st' = (s', csi_forget dc v reg)"
  using assms by (auto simp: nodeUnpublish_def split: sum.splits if_splits prod.splits)

lemma publish_mounts:
  assumes "sound s" "nodePublish dc (mnt e) req (s, reg) = ((s', reg'), Inr out)" "DecodeNodePublish req = Inr r"
  shows "sound s' \<and> (\<forall>u. mounted_at s' u \<longleftrightarrow> u = prTargetPath r \<or> mounted_at s u)"
  using assms(2)
proof (cases rule: publish_cases)
  case (1 r' src s'')
  then show ?thesis using mnt_mounts [OF assms(1), of e src "prTargetPath r"] assms(3) by simp
qed

text \<open>The orchestrator repeats a publish it did not hear the answer to: the second changes nothing.\<close>

lemma publish_twice:
  assumes "sound s" "nodePublish dc (mnt e) req (s, reg) = (st1, Inr out)"
    and "nodePublish dc (mnt e') req st1 = (st2, Inr out')" and "registry_ok reg"
  shows "fst st2 = fst st1 \<and> map_of (snd st2) = map_of (snd st1)"
  using assms(2)
proof (cases rule: publish_cases)
  case (1 r src s1)
  have m: "mounted_at s1 (prTargetPath r)" using mnt_mounts [OF assms(1) 1(5)] by simp
  have second: "nodePublish dc (mnt e') req (s1, snd st1) = (st2, Inr out')" using assms(3) 1(6) by simp
  then show ?thesis
  proof (cases rule: publish_cases)
    case (1 r' src' s2)
    then have "r' = r" "s2 = s1" using \<open>DecodeNodePublish req = Inr r\<close> mnt_again [OF m] by auto
    moreover have "map_of (observe dc v ctx (observe dc v ctx reg)) = map_of (observe dc v ctx reg)" for v ctx
      by (auto simp: observe_def Published_def map_of_update_if fun_eq_iff Let_def)
    ultimately show ?thesis using 1 \<open>st1 = (s1, _)\<close> by simp
  qed
qed

lemma unpublish_unmounts:
  assumes "sound s" "nodeUnpublish dc (umnt e) req (s, reg) = ((s', reg'), Inr out)" "DecodeNodeUnpublish req = Inr (v, t)"
  shows "sound s' \<and> (\<forall>u. mounted_at s' u \<longleftrightarrow> u \<noteq> t \<and> mounted_at s u)"
  using assms(2)
proof (cases rule: unpublish_cases)
  case (1 v' t' s'')
  then show ?thesis using umnt_unmounts [OF assms(1), of e t] assms(3) by simp
qed

end

definition table_ok :: "mount_table \<Rightarrow> bool" where
  "table_ok t \<longleftrightarrow> distinct (table_targets t)"

lemma umount_targets: "table_ok t \<Longrightarrow> set (table_targets (umount u t)) = set (table_targets t) - {u}"
  by (induction u t rule: umount.induct) (auto simp: table_ok_def table_targets_def image_iff)

lemma umount_ok: "table_ok t \<Longrightarrow> table_ok (umount u t)"
proof (induction u t rule: umount.induct)
  case (2 u m ms)
  then show ?case using umount_targets [of ms u] by (auto simp: table_ok_def table_targets_def)
qed (simp add: table_ok_def)

interpretation nfs: mounter nfs_Mount nfs_Unmount "\<lambda>t u. u \<in> set (table_targets t)" table_ok
proof
  show "table_ok s' \<and> (\<forall>u. u \<in> set (table_targets s') \<longleftrightarrow> u = t \<or> u \<in> set (table_targets s))"
    if "table_ok s" "nfs_Mount e src t fl s = Inr s'" for e src t fl s s'
    using that by (auto simp: nfs_Mount_def table_ok_def table_targets_def split: if_splits)
  show "table_ok s' \<and> (\<forall>u. u \<in> set (table_targets s') \<longleftrightarrow> u \<noteq> t \<and> u \<in> set (table_targets s))"
    if "table_ok s" "nfs_Unmount e t s = Inr s'" for e t s s'
    using that umount_ok [OF that(1)] umount_targets [OF that(1)] by (auto simp: nfs_Unmount_def split: if_splits)
qed (auto simp: nfs_Mount_def nfs_Unmount_def split: if_splits)

section \<open>What is mounted\<close>

lemma clean_plain: "\<forall>s\<in>set ss. s \<noteq> [] \<and> s \<noteq> ''.'' \<and> s \<noteq> ''..'' \<Longrightarrow> clean acc ss = rev acc @ ss"
  by (induction acc ss rule: clean.induct) auto

lemma clean_append: "clean acc (ss @ ts) = clean (rev (clean acc ss)) ts"
  by (induction acc ss rule: clean.induct) auto

text \<open>The levels of the path that is mounted: those of the export, then the object's own, untouched.\<close>

lemma csi_source_inside:
  assumes "csi_source dc object = Inr src"
  shows "src = Access dc @ '':/'' @ Join (clean [] (Split (Export dc) (CHR ''/'')) @ Split object (CHR ''/'')) ''/''"
    and "object \<noteq> []" "''..'' \<notin> set (Split object (CHR ''/''))" "[] \<notin> set (Split object (CHR ''/''))"
proof -
  have ok: "object \<noteq> []" "\<forall>s\<in>set (Split object (CHR ''/'')). s \<noteq> [] \<and> s \<noteq> ''.'' \<and> s \<noteq> ''..''"
    using assms by (auto simp: csi_source_def Let_def list_ex_iff split: if_splits)
  then show "object \<noteq> []" "''..'' \<notin> set (Split object (CHR ''/''))" "[] \<notin> set (Split object (CHR ''/''))" by auto
  show "src = Access dc @ '':/'' @ Join (clean [] (Split (Export dc) (CHR ''/'')) @ Split object (CHR ''/'')) ''/''"
    using assms clean_plain [OF ok(2)]
    by (auto simp: csi_source_def Let_def join_root_def clean_append split: if_splits)
qed

definition read_only :: "mount_table \<Rightarrow> bool" where
  "read_only t \<longleftrightarrow> (\<forall>(_, _, opts)\<in>set t. hd opts = ''ro'' \<and> opts \<noteq> [])"

text \<open>The node half as steps: publishes and unpublishes of any requests, under any outcomes of the
  node's commands.\<close>

inductive node_step :: "driver_cfg \<Rightarrow> mount_table \<times> registry \<Rightarrow> mount_table \<times> registry \<Rightarrow> bool" for dc where
  publish: "nodePublish dc (nfs_Mount e) req st = (st', out) \<Longrightarrow> node_step dc st st'"
| unpublish: "nodeUnpublish dc (nfs_Unmount e) req st = (st', out) \<Longrightarrow> node_step dc st st'"

lemma nodePublish_keeps: "nodePublish dc mnt req st = (st', Inl er) \<Longrightarrow> st' = st"
  by (auto simp: nodePublish_def Let_def split: sum.splits if_splits option.splits)

lemma nodeUnpublish_keeps: "nodeUnpublish dc umnt req st = (st', Inl er) \<Longrightarrow> st' = st"
  by (auto simp: nodeUnpublish_def split: sum.splits if_splits prod.splits)

lemma umount_subset: "set (umount u t) \<subseteq> set t"
  by (induction u t rule: umount.induct) auto

definition node_inv :: "mount_table \<times> registry \<Rightarrow> bool" where
  "node_inv st \<longleftrightarrow> table_ok (fst st) \<and> read_only (fst st) \<and> registry_ok (snd st)"

lemma observe_ok: "registry_ok reg \<Longrightarrow> registry_ok (observe dc v ctx reg)"
  using ParseInt_range by (auto simp: observe_def Let_def intro!: registry_ops_ok)

lemma node_step_inv:
  assumes "node_step dc st st'" "node_inv st"
  shows "node_inv st'"
  using assms
proof (induction rule: node_step.induct)
  case (publish e req st st' out)
  show ?case
  proof (cases out)
    case (Inr b)
    then have "nodePublish dc (nfs_Mount e) req (fst st, snd st) = (st', Inr b)" using publish by simp
    then show ?thesis
    proof (cases rule: nfs.publish_cases)
      case (1 r src s')
      then have "read_only s'" using publish.prems by (auto simp: nfs_Mount_def node_inv_def read_only_def split: if_splits)
      then show ?thesis using 1 nfs.mnt_mounts [OF _ 1(5)] publish.prems observe_ok by (auto simp: node_inv_def)
    qed
  qed (use publish nodePublish_keeps in blast)
next
  case (unpublish e req st st' out)
  show ?case
  proof (cases out)
    case (Inr b)
    then have "nodeUnpublish dc (nfs_Unmount e) req (fst st, snd st) = (st', Inr b)" using unpublish by simp
    then show ?thesis
    proof (cases rule: nfs.unpublish_cases)
      case (1 v t s')
      then have "set s' \<subseteq> set (fst st)" using umount_subset by (auto simp: nfs_Unmount_def split: if_splits)
      then have "read_only s'" using unpublish.prems by (auto simp: node_inv_def read_only_def)
      then show ?thesis
        using 1 nfs.umnt_unmounts [OF _ 1(4)] unpublish.prems by (auto simp: node_inv_def csi_forget_def registry_ops_ok)
    qed
  qed (use unpublish nodeUnpublish_keeps in blast)
qed

theorem node_reach_inv: "(node_step dc)\<^sup>*\<^sup>* ([], NewRegistry) st \<Longrightarrow> node_inv st"
proof (induction rule: rtranclp_induct)
  case base
  show ?case by (simp add: node_inv_def table_ok_def table_targets_def read_only_def registry_ops_ok)
next
  case (step y z)
  then show ?case using node_step_inv by blast
qed

section \<open>What the registry says\<close>

lemma published_size:
  assumes "nodePublish dc (nfs_Mount e) req (t, reg) = ((t', reg'), Inr out)" "HasObserver dc"
    and "DecodeNodePublish req = Inr r" "ctx_get (prContext r) ''bytes'' = dec_int n" "0 \<le> n" "in_i64 n"
  shows "map_of reg' (prVolumeID r) = Some n"
  using assms(1)
proof (cases rule: nfs.publish_cases)
  case (1 r' src s')
  then show ?thesis using assms(2-) by (auto simp: observe_def Let_def ParseInt_dec Published_def map_of_update_if)
qed

lemma ctx_get_text: "map_of (text_map m) (of_text k) = Some (of_text v) \<Longrightarrow> ctx_get (text_map m) k = v"
  by (simp add: ctx_get_def)

lemma of_text_eq [simp]: "of_text a = of_text b \<longleftrightarrow> a = b"
  by (metis to_of_text)

text \<open>
  The driver keeps no account of who uses a volume: when the first of two pods that mounted it on the
  node goes, the registry forgets the volume while the other mount is still there.
\<close>

theorem shared_volume_forgotten:
  assumes "DecodeNodePublish q1 = Inr r1" "DecodeNodePublish q2 = Inr r2" "DecodeNodeUnpublish q3 = Inr (v, prTargetPath r1)"
    and "prVolumeID r1 = v" "prVolumeID r2 = v" "prTargetPath r1 \<noteq> prTargetPath r2" "HasObserver dc"
    and "table_ok t" "registry_ok reg"
    and "nodePublish dc (nfs_Mount e1) q1 (t, reg) = ((t1, reg1), Inr o1)"
    and "nodePublish dc (nfs_Mount e2) q2 (t1, reg1) = ((t2, reg2), Inr o2)"
    and "nodeUnpublish dc (nfs_Unmount e3) q3 (t2, reg2) = ((t3, reg3), Inr o3)"
  shows "prTargetPath r2 \<in> set (table_targets t3) \<and> map_of reg3 v = None"
proof -
  have ok1: "table_ok t1" using nfs.publish_mounts [OF assms(8,10,1)] by blast
  have ok2: "table_ok t2 \<and> prTargetPath r2 \<in> set (table_targets t2)" using nfs.publish_mounts [OF ok1 assms(11,2)] by blast
  have "prTargetPath r2 \<in> set (table_targets t3)"
    using nfs.unpublish_unmounts [OF conjunct1 [OF ok2] assms(12,3)] ok2 assms(6) by simp
  moreover have "map_of reg3 v = None"
    using assms(12)
  proof (cases rule: nfs.unpublish_cases)
    case (1 v' t' s')
    then have "reg3 = AList.delete v reg2" using assms(3,7) by (simp add: csi_forget_def Unpublished_def)
    then show ?thesis by (simp add: map_of_delete_if)
  qed
  ultimately show ?thesis by blast
qed

end
