(* ===== verification/Tier_View.thy ===== *)
theory Tier_View
  imports Fast_Tier_Inv
begin

text \<open>
  What a client of the fast tier relies on, as a locale: a read returns what the tier holds for the
  key, and no call makes the tier hold anything but what it held and what it was just given. The
  client's lemmas say that a tier that holds only true blocks goes on doing so. The interpretation
  discharges the laws for the tier of \<open>Fast_Tier\<close>, whatever its device does.
\<close>

locale block_cache =
  fixes view :: "'c \<Rightarrow> 'k \<Rightarrow> 'd option" and ok :: "'c \<Rightarrow> bool" and room :: "'c \<Rightarrow> nat"
    and read :: "'f \<Rightarrow> 'c \<Rightarrow> 'k \<Rightarrow> 'd option \<times> 'c" and admit :: "'w \<Rightarrow> 'c \<Rightarrow> 'k \<Rightarrow> 'd \<Rightarrow> bool \<Rightarrow> 'r \<times> 'c"
  assumes read_law: "ok c \<Longrightarrow> read f c k = (got, c') \<Longrightarrow>
      ok c' \<and> (\<forall>d. got = Some d \<longrightarrow> view c k = Some d) \<and> view c' \<subseteq>\<^sub>m view c \<and> room c' = room c"
    and admit_law: "ok c \<Longrightarrow> 0 < room c \<Longrightarrow> admit w c k data pf = (r, c') \<Longrightarrow>
      ok c' \<and> (\<forall>j d. view c' j = Some d \<longrightarrow> view c j = Some d \<or> j = k \<and> d = data) \<and> room c \<le> Suc (room c')"
begin

definition holds_only :: "('k \<Rightarrow> 'd \<Rightarrow> bool) \<Rightarrow> 'c \<Rightarrow> bool" where
  "holds_only P c \<longleftrightarrow> ok c \<and> (\<forall>k d. view c k = Some d \<longrightarrow> P k d)"

lemma read_holds:
  assumes "holds_only P c" "read f c k = (r, c')"
  shows "holds_only P c' \<and> room c' = room c \<and> (\<forall>d. r = Some d \<longrightarrow> P k d)"
proof -
  note l = read_law [OF _ assms(2)]
  have sub: "view c j = Some d" if "view c' j = Some d" for j d
    using l assms(1) that by (auto simp: holds_only_def map_le_def dom_def)
  show ?thesis using assms(1) l sub unfolding holds_only_def by blast
qed

lemma admit_holds:
  assumes "holds_only P c" "0 < room c" "P k data" "admit w c k data pf = (r, c')"
  shows "holds_only P c' \<and> room c \<le> Suc (room c')"
  using admit_law [OF _ assms(2,4)] assms(1,3) unfolding holds_only_def by blast

end

definition tier_view :: "cache \<Rightarrow> Key \<Rightarrow> byte list option" where
  "tier_view c k = map_option (block_bytes c) (map_of (c_resident c) k)"

definition tier_room :: "cache \<Rightarrow> nat" where
  "tier_room c = 18446744073709551615 - c_generation c"

lemma Read_steps:
  assumes ok: "tier_ok c" and run: "Read fails c k = (r, c')"
  shows "tier_ok c' \<and> keeps c c' \<and> c_generation c' = c_generation c \<and> c_cfg c' = c_cfg c \<and> dom (map_of (c_resident c')) \<subseteq> dom (map_of (c_resident c))
     \<and> (\<forall>j p q. map_of (c_resident c) j = Some p \<longrightarrow> map_of (c_resident c') j = Some q \<longrightarrow> p_gen q = p_gen p)"
proof -
  obtain x c1 where b: "read_begin c k = (x, c1)" by force
  note bi = read_begin_inv [OF ok b]
  show ?thesis
  proof (cases x)
    case None
    then have "c' = c1" using run b by (simp add: Read_def)
    then show ?thesis using bi(1-4) bi(6) [OF None] by auto
  next
    case (Some p)
    obtain q where q: "map_of (c_resident c) k = Some q" "p = q\<lparr>p_used := inc64 (c_clock c)\<rparr>"
       "map_of (c_resident c1) = (map_of (c_resident c))(k \<mapsto> p)" "c_heap c1 = c_heap c"
      using bi(5) [OF Some] by auto
    let ?d = "slab_read fails (c_heap c1 ! p_slab p) (p_slot p) (p_length p) (BlockSize (c_cfg c1))"
    have e: "read_end c1 k p ?d = (r, c')" using run b Some by (simp add: Read_def)
    have sent: "sent_for c1 k p" using q bi(1,4) by (auto simp: sent_for_def tier_ok_def tier_inv_def dest: map_of_SomeD)
    note ei = read_end_inv [OF bi(1) sent e]
    have le: "map_of (c_resident c1) j = Some a" if "map_of (c_resident c') j = Some a" for j a
      using ei(5) that by (auto simp: map_le_def dom_def)
    have "keeps c c'"
    proof (rule keepsI)
      fix j a a'
      assume j: "map_of (c_resident c) j = Some a" "map_of (c_resident c') j = Some a'" "p_gen a' = p_gen a"
      have m: "map_of (c_resident c1) j = Some a'" by (rule le [OF j(2)])
      show "p_slab a' = p_slab a \<and> p_slot a' = p_slot a \<and> p_length a' = p_length a \<and> block_bytes c' a' = block_bytes c a"
        using bi(2) ei(2) j m unfolding keeps_def by metis
    qed
    moreover have "p_gen b' = p_gen a" if "map_of (c_resident c) j = Some a" "map_of (c_resident c') j = Some b'" for j a b'
      using le [OF that(2)] that(1) q by (auto split: if_splits)
    moreover have "dom (map_of (c_resident c')) \<subseteq> dom (map_of (c_resident c))"
    proof
      fix j assume "j \<in> dom (map_of (c_resident c'))"
      then obtain a where "map_of (c_resident c1) j = Some a" using le by blast
      then show "j \<in> dom (map_of (c_resident c))" using q by (auto split: if_splits)
    qed
    ultimately show ?thesis using ei(1,3,4) bi(3,4) by auto
  qed
qed

lemma Admit_resident:
  assumes "Admit w c k data pf = (r, c')" "r \<noteq> Inr True" "map_of (c_resident c') j = Some q"
  shows "map_of (c_resident c) j = Some q"
  using assms
  by (auto simp: Admit_def admit_place_def admit_worth_def Let_def upd_slab_def map_of_update_if
      split: if_splits prod.splits sum.splits option.splits bool.splits dest: place_resident)

interpretation tier: block_cache tier_view tier_ok tier_room Read Admit
proof unfold_locales
  fix c c' fails k got
  assume ok: "tier_ok c" and run: "Read fails c k = (got, c')"
  note s = Read_steps [OF ok run]
  have "tier_view c' \<subseteq>\<^sub>m tier_view c"
    unfolding map_le_def
  proof
    fix j assume "j \<in> dom (tier_view c')"
    then obtain q where q: "map_of (c_resident c') j = Some q" by (auto simp: tier_view_def)
    then obtain p where p: "map_of (c_resident c) j = Some p" using s by blast
    then have "block_bytes c' q = block_bytes c p" using s q unfolding keeps_def by metis
    then show "tier_view c' j = tier_view c j" using p q by (simp add: tier_view_def)
  qed
  moreover have "\<forall>d. got = Some d \<longrightarrow> tier_view c k = Some d"
    using Read_result [OF ok, of fails k] run by (auto simp: tier_view_def split: option.splits if_splits)
  ultimately show "tier_ok c' \<and> (\<forall>d. got = Some d \<longrightarrow> tier_view c k = Some d) \<and> tier_view c' \<subseteq>\<^sub>m tier_view c \<and> tier_room c' = tier_room c"
    using s by (simp add: tier_room_def)
next
  fix c c' :: cache and w k and data :: "byte list" and pf and r :: "tier_error + bool"
  assume ok: "tier_ok c" and room: "0 < tier_room c" and run: "Admit w c k data pf = (r, c')"
  have g: "c_generation c < 18446744073709551615" using room by (simp add: tier_room_def)
  have ad: "admitted c k data r c'" by (rule Admit_inv [OF ok g run])
  have "\<forall>j d. tier_view c' j = Some d \<longrightarrow> tier_view c j = Some d \<or> j = k \<and> d = data"
  proof (intro allI impI)
    fix j d assume "tier_view c' j = Some d"
    then obtain q where j: "map_of (c_resident c') j = Some q" and d: "d = block_bytes c' q" by (auto simp: tier_view_def)
    show "tier_view c j = Some d \<or> j = k \<and> d = data"
    proof (cases "j = k \<and> r = Inr True")
      case True
      then show ?thesis using ad j d by (auto simp: admitted_def)
    next
      case False
      then have p: "map_of (c_resident c) j = Some q" using Admit_others [OF run j] Admit_resident [OF run _ j] by blast
      have "block_bytes c' q = block_bytes c q" using ad j p unfolding admitted_def keeps_def by metis
      then show ?thesis using p d by (simp add: tier_view_def)
    qed
  qed
  moreover have "tier_room c \<le> Suc (tier_room c')" using ad by (auto simp: admitted_def tier_room_def split: if_splits)
  ultimately show "tier_ok c' \<and> (\<forall>j d. tier_view c' j = Some d \<longrightarrow> tier_view c j = Some d \<or> j = k \<and> d = data) \<and> tier_room c \<le> Suc (tier_room c')"
    using ad by (auto simp: admitted_def)
qed

end
