(* ===== verification/Driver_Backend.thy ===== *)
theory Driver_Backend
  imports Go_Text
begin

text \<open>
  Package driver (\<open>driver/driver.go\<close>, \<open>driver/backend.go\<close>): the contract of a durable store and the
  backend that holds a driver to its declaration.

  The interface \<open>Driver\<close> is a record of state-passing functions over a store of any type \<open>'w\<close>; the
  optional interfaces \<open>Lister\<close> and \<open>Streamer\<close> are optional fields, as a type assertion finds them or
  does not. A context is not modelled: a driver whose context ended answers with an error, and any
  driver may answer any call with an error. An \<open>io.ReadSeeker\<close> is what reading it to the end gives:
  some bytes, and then its end or an error.

  The locale \<open>lawful_driver\<close> is what the layers above rely on; \<open>File_Driver\<close> interprets it for the
  directory driver. The lemmas show that an undeclared or denied capability never reaches the
  driver, and that a denial is kept.
\<close>

section \<open>Declarations\<close>

type_synonym Capability = string

definition ReadRange_cap :: Capability where
  "ReadRange_cap = ''read-range''"

definition ObjectSize_cap :: Capability where
  "ObjectSize_cap = ''object-size''"

definition WriteObject_cap :: Capability where
  "WriteObject_cap = ''write-object''"

definition DeleteObject_cap :: Capability where
  "DeleteObject_cap = ''delete-object''"

definition Snapshot_cap :: Capability where
  "Snapshot_cap = ''snapshot''"

definition Clone_cap :: Capability where
  "Clone_cap = ''clone''"

definition ListObjects_cap :: Capability where
  "ListObjects_cap = ''list-objects''"

definition WriteStream_cap :: Capability where
  "WriteStream_cap = ''write-stream''"


lemmas cap_defs = ReadRange_cap_def ObjectSize_cap_def WriteObject_cap_def DeleteObject_cap_def
  Snapshot_cap_def Clone_cap_def ListObjects_cap_def WriteStream_cap_def

record Entry =
  eName :: string
  eDir :: bool
  eBytes :: int

datatype driver_error =
    ErrNotSupported | ErrNoReadRange | ErrOutOfRange | ErrDenied | ErrBadObject
  | ErrContract | ErrNoDriver | ErrNotASize | ErrStore | Driver_panic

record Declaration =
  Contract :: int
  Capabilities :: "Capability list"

definition decl_Supports :: "Declaration \<Rightarrow> Capability \<Rightarrow> bool" where
  "decl_Supports d c \<longleftrightarrow> c \<in> set (Capabilities d)"

definition decl_Validate :: "Declaration \<Rightarrow> driver_error option" where
  "decl_Validate d =
     (if Contract d \<le> 0 then Some ErrContract
      else if \<not> decl_Supports d ReadRange_cap then Some ErrNoReadRange
      else None)"

section \<open>Drivers\<close>

record source =
  src_bytes :: bytes
  src_fails :: bool

record 'w Driver =
  Declare :: Declaration
  dReadRange :: "'w \<Rightarrow> string \<Rightarrow> int \<Rightarrow> int \<Rightarrow> (driver_error + bytes) \<times> 'w"
  dSizeOf :: "'w \<Rightarrow> string \<Rightarrow> (driver_error + int) \<times> 'w"
  dWriteObject :: "'w \<Rightarrow> string \<Rightarrow> bytes \<Rightarrow> driver_error option \<times> 'w"
  dDeleteObject :: "'w \<Rightarrow> string \<Rightarrow> driver_error option \<times> 'w"
  dSnapshotObject :: "'w \<Rightarrow> string \<Rightarrow> (driver_error + string) \<times> 'w"
  dCloneObject :: "'w \<Rightarrow> string \<Rightarrow> string \<Rightarrow> driver_error option \<times> 'w"
  dList :: "('w \<Rightarrow> string \<Rightarrow> string \<Rightarrow> int \<Rightarrow> (driver_error + Entry list) \<times> 'w) option"
  dWriteObjectFrom :: "('w \<Rightarrow> string \<Rightarrow> source \<Rightarrow> int \<Rightarrow> driver_error option \<times> 'w) option"

section \<open>The backend\<close>

record 'w backend =
  b_driver :: "'w Driver"
  b_lister :: "('w \<Rightarrow> string \<Rightarrow> string \<Rightarrow> int \<Rightarrow> (driver_error + Entry list) \<times> 'w) option"
  b_streamer :: "('w \<Rightarrow> string \<Rightarrow> source \<Rightarrow> int \<Rightarrow> driver_error option \<times> 'w) option"
  b_declare :: Declaration
  b_denied :: "Capability list option"
  b_store :: 'w

text \<open>The set of denied capabilities is a map to true behind a pointer; here its distinct keys.\<close>

definition Open :: "'w Driver option \<Rightarrow> 'w \<Rightarrow> driver_error + 'w backend" where
  "Open d w =
     (case d of
        None \<Rightarrow> Inl ErrNoDriver
      | Some d \<Rightarrow>
          let decl = Declare d in
          case decl_Validate decl of
            Some e \<Rightarrow> Inl e
          | None \<Rightarrow>
              let b = \<lparr>b_driver = d, b_lister = None, b_streamer = None, b_declare = decl, b_denied = None, b_store = w\<rparr> in
              if decl_Supports decl ListObjects_cap \<and> Option.is_none (dList d) then Inl ErrNotSupported
              else let b = (if decl_Supports decl ListObjects_cap then b\<lparr>b_lister := dList d\<rparr> else b) in
              if decl_Supports decl WriteStream_cap \<and> Option.is_none (dWriteObjectFrom d) then Inl ErrNotSupported
              else Inr (if decl_Supports decl WriteStream_cap then b\<lparr>b_streamer := dWriteObjectFrom d\<rparr> else b))"

definition b_Supports :: "'w backend \<Rightarrow> Capability \<Rightarrow> bool" where
  "b_Supports b c \<longleftrightarrow> \<not> (case b_denied b of None \<Rightarrow> False | Some d \<Rightarrow> c \<in> set d) \<and> decl_Supports (b_declare b) c"

definition Denied :: "'w backend \<Rightarrow> Capability list" where
  "Denied b = (case b_denied b of None \<Rightarrow> [] | Some d \<Rightarrow> sort d)"

definition narrow :: "'w backend \<Rightarrow> Capability \<Rightarrow> driver_error option \<Rightarrow> 'w backend" where
  "narrow b c err =
     (if err \<noteq> Some ErrDenied then b
      else b\<lparr>b_denied := Some (List.insert c (case b_denied b of None \<Rightarrow> [] | Some d \<Rightarrow> d))\<rparr>)"

definition err_of :: "driver_error + 'a \<Rightarrow> driver_error option" where
  "err_of r = (case r of Inl e \<Rightarrow> Some e | Inr _ \<Rightarrow> None)"

definition b_ReadRange :: "'w backend \<Rightarrow> string \<Rightarrow> int \<Rightarrow> int \<Rightarrow> (driver_error + bytes) \<times> 'w backend" where
  "b_ReadRange b obj offset len =
     (if offset < 0 \<or> len < 0 then (Inl ErrOutOfRange, b)
      else case dReadRange (b_driver b) (b_store b) obj offset len of (r, w) \<Rightarrow> (r, b\<lparr>b_store := w\<rparr>))"

definition b_List :: "'w backend \<Rightarrow> string \<Rightarrow> string \<Rightarrow> int \<Rightarrow> (driver_error + Entry list) \<times> 'w backend" where
  "b_List b prefix after limit =
     (case b_lister b of
        None \<Rightarrow> (Inl ErrNotSupported, b)
      | Some list \<Rightarrow>
          if \<not> b_Supports b ListObjects_cap then (Inl ErrNotSupported, b)
          else if limit \<le> 0 then (Inl ErrNotSupported, b)
          else case list (b_store b) prefix after limit of
                 (r, w) \<Rightarrow> (r, narrow (b\<lparr>b_store := w\<rparr>) ListObjects_cap (err_of r)))"

definition b_SizeOf :: "'w backend \<Rightarrow> string \<Rightarrow> (driver_error + int) \<times> 'w backend" where
  "b_SizeOf b obj =
     (if \<not> b_Supports b ObjectSize_cap then (Inl ErrNotSupported, b)
      else case dSizeOf (b_driver b) (b_store b) obj of
             (r, w) \<Rightarrow> (r, narrow (b\<lparr>b_store := w\<rparr>) ObjectSize_cap (err_of r)))"

definition b_WriteObject :: "'w backend \<Rightarrow> string \<Rightarrow> bytes \<Rightarrow> driver_error option \<times> 'w backend" where
  "b_WriteObject b obj data =
     (if \<not> b_Supports b WriteObject_cap then (Some ErrNotSupported, b)
      else case dWriteObject (b_driver b) (b_store b) obj data of
             (e, w) \<Rightarrow> (e, narrow (b\<lparr>b_store := w\<rparr>) WriteObject_cap e))"

definition b_WriteObjectFrom :: "'w backend \<Rightarrow> string \<Rightarrow> source \<Rightarrow> int \<Rightarrow> driver_error option \<times> 'w backend" where
  "b_WriteObjectFrom b obj src nbytes =
     (case b_streamer b of
        None \<Rightarrow> (Some ErrNotSupported, b)
      | Some write \<Rightarrow>
          if \<not> b_Supports b WriteStream_cap then (Some ErrNotSupported, b)
          else if nbytes < 0 then (Some ErrNotASize, b)
          else case write (b_store b) obj src nbytes of
                 (e, w) \<Rightarrow> (e, narrow (b\<lparr>b_store := w\<rparr>) WriteStream_cap e))"

definition b_DeleteObject :: "'w backend \<Rightarrow> string \<Rightarrow> driver_error option \<times> 'w backend" where
  "b_DeleteObject b obj =
     (if \<not> b_Supports b DeleteObject_cap then (Some ErrNotSupported, b)
      else case dDeleteObject (b_driver b) (b_store b) obj of
             (e, w) \<Rightarrow> (e, narrow (b\<lparr>b_store := w\<rparr>) DeleteObject_cap e))"

definition b_SnapshotObject :: "'w backend \<Rightarrow> string \<Rightarrow> (driver_error + string) \<times> 'w backend" where
  "b_SnapshotObject b obj =
     (if \<not> b_Supports b Snapshot_cap then (Inl ErrNotSupported, b)
      else case dSnapshotObject (b_driver b) (b_store b) obj of
             (r, w) \<Rightarrow> (r, narrow (b\<lparr>b_store := w\<rparr>) Snapshot_cap (err_of r)))"

definition b_CloneObject :: "'w backend \<Rightarrow> string \<Rightarrow> string \<Rightarrow> driver_error option \<times> 'w backend" where
  "b_CloneObject b src dst =
     (if \<not> b_Supports b Clone_cap then (Some ErrNotSupported, b)
      else case dCloneObject (b_driver b) (b_store b) src dst of
             (e, w) \<Rightarrow> (e, narrow (b\<lparr>b_store := w\<rparr>) Clone_cap e))"


lemma Open_frame:
  "Open (Some d) w = Inr b \<Longrightarrow> b_driver b = d \<and> b_store b = w \<and> b_declare b = Declare d \<and> b_denied b = None \<and> b_lister b \<in> {None, dList d}"
  by (auto simp: Open_def Let_def split: option.splits if_splits)

section \<open>Calls\<close>

text \<open>The operations as one datatype of calls: the capability each needs, and what running it does.\<close>

datatype b_call =
    CList string string int | CSizeOf string | CWriteObject string bytes
  | CWriteObjectFrom string source int | CDeleteObject string | CSnapshotObject string | CCloneObject string string
  | CReadRange string int int

fun call_cap :: "b_call \<Rightarrow> Capability" where
  "call_cap (CList _ _ _) = ListObjects_cap"
| "call_cap (CSizeOf _) = ObjectSize_cap"
| "call_cap (CWriteObject _ _) = WriteObject_cap"
| "call_cap (CWriteObjectFrom _ _ _) = WriteStream_cap"
| "call_cap (CDeleteObject _) = DeleteObject_cap"
| "call_cap (CSnapshotObject _) = Snapshot_cap"
| "call_cap (CCloneObject _ _) = Clone_cap"
| "call_cap (CReadRange _ _ _) = ReadRange_cap"

definition just_err :: "(driver_error + 'a) \<times> 'b \<Rightarrow> driver_error option \<times> 'b" where
  "just_err rb = (err_of (fst rb), snd rb)"

fun b_exec :: "b_call \<Rightarrow> 'w backend \<Rightarrow> driver_error option \<times> 'w backend" where
  "b_exec (CList prefix after n) b = just_err (b_List b prefix after n)"
| "b_exec (CSizeOf obj) b = just_err (b_SizeOf b obj)"
| "b_exec (CWriteObject obj data) b = b_WriteObject b obj data"
| "b_exec (CWriteObjectFrom obj src n) b = b_WriteObjectFrom b obj src n"
| "b_exec (CDeleteObject obj) b = b_DeleteObject b obj"
| "b_exec (CSnapshotObject obj) b = just_err (b_SnapshotObject b obj)"
| "b_exec (CCloneObject src dst) b = b_CloneObject b src dst"
| "b_exec (CReadRange obj off len) b = just_err (b_ReadRange b obj off len)"

fun b_run :: "b_call list \<Rightarrow> 'w backend \<Rightarrow> 'w backend" where
  "b_run [] b = b"
| "b_run (c # cs) b = b_run cs (snd (b_exec c b))"

lemmas b_ops = b_List_def b_SizeOf_def b_WriteObject_def b_WriteObjectFrom_def b_DeleteObject_def
  b_SnapshotObject_def b_CloneObject_def b_ReadRange_def just_err_def err_of_def

definition denied_caps :: "'w backend \<Rightarrow> Capability set" where
  "denied_caps b = (case b_denied b of None \<Rightarrow> {} | Some d \<Rightarrow> set d)"

lemma Supports_denied: "b_Supports b c \<longleftrightarrow> c \<notin> denied_caps b \<and> decl_Supports (b_declare b) c"
  by (auto simp: b_Supports_def denied_caps_def split: option.splits)

lemma narrow_frame [simp]:
  "b_driver (narrow b c e) = b_driver b" "b_declare (narrow b c e) = b_declare b" "b_store (narrow b c e) = b_store b"
  "b_lister (narrow b c e) = b_lister b" "b_streamer (narrow b c e) = b_streamer b"
  by (simp_all add: narrow_def)

lemma narrow_denied: "denied_caps (narrow b c e) = (if e = Some ErrDenied then insert c (denied_caps b) else denied_caps b)"
  by (auto simp: narrow_def denied_caps_def split: option.splits)

lemma denied_caps_store [simp]: "denied_caps (b\<lparr>b_store := w\<rparr>) = denied_caps b"
  by (simp add: denied_caps_def)

lemma exec_unsupported:
  assumes "\<not> b_Supports b (call_cap c)" "call_cap c \<noteq> ReadRange_cap"
  shows "b_exec c b = (Some ErrNotSupported, b)"
  using assms by (cases c) (auto simp: b_ops split: option.splits)

lemma read_lister: "b_ReadRange b obj off len = (r, b') \<Longrightarrow> b_lister b' = b_lister b"
  by (auto simp: b_ReadRange_def split: if_splits prod.splits)

lemma size_lister: "b_SizeOf b obj = (r', b') \<Longrightarrow> b_lister b' = b_lister b"
  by (auto simp: b_SizeOf_def split: if_splits prod.splits)

lemma exec_frame:
  assumes "b_exec c b = (e, b')"
  shows "b_driver b' = b_driver b \<and> b_declare b' = b_declare b \<and> denied_caps b \<subseteq> denied_caps b'
     \<and> (e = Some ErrDenied \<and> call_cap c \<noteq> ReadRange_cap \<longrightarrow> call_cap c \<in> denied_caps b')"
  using assms
  by (cases c) (auto simp: b_ops narrow_denied split: option.splits if_splits prod.splits sum.splits)

lemma run_frame:
  "b_driver (b_run cs b) = b_driver b \<and> b_declare (b_run cs b) = b_declare b \<and> denied_caps b \<subseteq> denied_caps (b_run cs b)"
proof (induction cs arbitrary: b)
  case (Cons c cs)
  show ?case using Cons [of "snd (b_exec c b)"] exec_frame [of c b] by (metis b_run.simps(2) order_trans prod.collapse)
qed simp

lemma Denied_sorted: "distinct (case b_denied b of None \<Rightarrow> [] | Some d \<Rightarrow> d) \<Longrightarrow> sorted (Denied b) \<and> distinct (Denied b) \<and> set (Denied b) = denied_caps b"
  by (auto simp: Denied_def denied_caps_def split: option.splits)

section \<open>What the layers above rely on\<close>

text \<open>
  A lawful driver never makes an answer up: what a read returns are the object's bytes, a range
  error means that the range is not inside the object, a size is the object's size, and neither
  call changes an object. It may fail at any time.
\<close>

locale lawful_driver =
  fixes drv :: "'w Driver" and contents :: "'w \<Rightarrow> string \<Rightarrow> bytes option"
  assumes read_data: "dReadRange drv w obj off len = (Inr data, w') \<Longrightarrow> 0 \<le> off \<Longrightarrow> 0 \<le> len \<Longrightarrow>
      \<exists>bs. contents w obj = Some bs \<and> nat off + nat len \<le> length bs \<and> data = take (nat len) (drop (nat off) bs)"
    and read_range: "dReadRange drv w obj off len = (Inl ErrOutOfRange, w') \<Longrightarrow> 0 \<le> off \<Longrightarrow> 0 \<le> len \<Longrightarrow>
      contents w obj = Some bs \<Longrightarrow> length bs < nat off + nat len"
    and read_keeps: "dReadRange drv w obj off len = (r, w') \<Longrightarrow> contents w' = contents w"
    and size_data: "dSizeOf drv w obj = (Inr n, w') \<Longrightarrow> \<exists>bs. contents w obj = Some bs \<and> n = int (length bs)"
    and size_error: "dSizeOf drv w obj = (Inl e, w') \<Longrightarrow> e \<noteq> ErrOutOfRange"
    and size_keeps: "dSizeOf drv w obj = (s, w') \<Longrightarrow> contents w' = contents w"
    and list_keeps: "dList drv = Some list \<Longrightarrow> list w prefix after n = (es, w') \<Longrightarrow> contents w' = contents w"
begin

text \<open>The same laws, for a backend that holds the driver.\<close>

lemma b_read_data:
  assumes "b_driver b = drv" "b_ReadRange b obj off len = (Inr data, b')"
  shows "0 \<le> off \<and> 0 \<le> len \<and> (\<exists>bs. contents (b_store b) obj = Some bs \<and> nat off + nat len \<le> length bs
      \<and> data = take (nat len) (drop (nat off) bs))"
  using assms read_data by (auto simp: b_ReadRange_def split: if_splits prod.splits)

lemma b_read_range:
  assumes "b_driver b = drv" "b_ReadRange b obj off len = (Inl ErrOutOfRange, b')" "0 \<le> off" "0 \<le> len" "contents (b_store b) obj = Some bs"
  shows "length bs < nat off + nat len"
  using assms read_range by (auto simp: b_ReadRange_def split: prod.splits)

lemma b_read_keeps:
  assumes "b_driver b = drv" "b_ReadRange b obj off len = (r, b')"
  shows "b_driver b' = drv \<and> contents (b_store b') = contents (b_store b)"
  using assms read_keeps by (auto simp: b_ReadRange_def split: if_splits prod.splits)

lemma b_size_data:
  assumes "b_driver b = drv" "b_SizeOf b obj = (Inr n, b')"
  shows "\<exists>bs. contents (b_store b) obj = Some bs \<and> n = int (length bs)"
  using assms size_data by (auto simp: b_SizeOf_def split: if_splits prod.splits)

lemma b_size_error:
  assumes "b_driver b = drv" "b_SizeOf b obj = (Inl e, b')"
  shows "e \<noteq> ErrOutOfRange"
  using assms size_error by (auto simp: b_SizeOf_def split: if_splits prod.splits)

lemma b_size_keeps:
  assumes "b_driver b = drv" "b_SizeOf b obj = (r, b')"
  shows "b_driver b' = drv \<and> contents (b_store b') = contents (b_store b)"
  using assms size_keeps by (auto simp: b_SizeOf_def split: if_splits prod.splits)

lemma b_list_keeps:
  assumes "b_driver b = drv" "b_lister b = None \<or> b_lister b = dList drv" "b_List b prefix after n = (r, b')"
  shows "b_driver b' = drv \<and> b_lister b' = b_lister b \<and> contents (b_store b') = contents (b_store b)"
  using assms list_keeps by (auto simp: b_List_def split: if_splits prod.splits option.splits) metis

end

text \<open>A driver that also answers, as long as its store is well.\<close>

locale answering_driver = lawful_driver drv contents
  for drv :: "'w Driver" and contents :: "'w \<Rightarrow> string \<Rightarrow> bytes option" +
  fixes well :: "'w \<Rightarrow> bool"
  assumes read_answers: "well w \<Longrightarrow> contents w obj = Some bs \<Longrightarrow> 0 \<le> off \<Longrightarrow> 0 \<le> len \<Longrightarrow> len \<le> 281474976710656 \<Longrightarrow> off + len \<le> max_i64 \<Longrightarrow>
      \<exists>w'. well w' \<and> dReadRange drv w obj off len =
        (if nat off + nat len \<le> length bs then Inr (take (nat len) (drop (nat off) bs)) else Inl ErrOutOfRange, w')"
    and size_answers: "well w \<Longrightarrow> contents w obj = Some bs \<Longrightarrow> \<exists>w'. well w' \<and> dSizeOf drv w obj = (Inr (int (length bs)), w')"
begin

lemma b_read_answers:
  assumes "b_driver b = drv" "well (b_store b)" "contents (b_store b) obj = Some bs" "0 \<le> off" "0 \<le> len" "len \<le> 281474976710656" "off + len \<le> max_i64"
  obtains b' where "b_driver b' = drv" "well (b_store b')" "contents (b_store b') = contents (b_store b)"
    "denied_caps b' = denied_caps b" "b_declare b' = b_declare b"
    "b_ReadRange b obj off len = (if nat off + nat len \<le> length bs then Inr (take (nat len) (drop (nat off) bs)) else Inl ErrOutOfRange, b')"
proof -
  obtain w' where w: "well w'" "dReadRange drv (b_store b) obj off len =
        (if nat off + nat len \<le> length bs then Inr (take (nat len) (drop (nat off) bs)) else Inl ErrOutOfRange, w')"
    using read_answers [OF assms(2-7)] by blast
  then show thesis using assms by (intro that [of "b\<lparr>b_store := w'\<rparr>"]) (simp_all add: b_ReadRange_def read_keeps)
qed

lemma b_size_answers:
  assumes "b_driver b = drv" "well (b_store b)" "contents (b_store b) obj = Some bs" "b_Supports b ObjectSize_cap"
  obtains b' where "b_driver b' = drv" "well (b_store b')" "contents (b_store b') = contents (b_store b)"
    "denied_caps b' = denied_caps b" "b_declare b' = b_declare b" "b_SizeOf b obj = (Inr (int (length bs)), b')"
proof -
  obtain w' where w: "well w'" "dSizeOf drv (b_store b) obj = (Inr (int (length bs)), w')"
    using size_answers [OF assms(2,3)] by blast
  then show thesis
    using assms by (intro that [of "b\<lparr>b_store := w'\<rparr>"]) (simp_all add: b_SizeOf_def size_keeps narrow_def err_of_def)
qed

end

end
