(* ===== verification/Efficiency.thy ===== *)
theory Efficiency
  imports Go_Float
begin

text \<open>
  Package efficiency (\<open>internal/efficiency/efficiency.go\<close>): what the fast tier saved, estimated from the
  node's own misses. Hits are counted per power-of-two size bucket, recent backend durations are
  kept per bucket, and the estimate compares the two. The conversions to hours and money are in
  floating point (\<open>Go_Float\<close>).

  The lemmas: buckets are powers of two, no bucket ever keeps more than 256 samples and those are
  the latest, the estimate does not depend on the order the map is walked in, and every hit is
  counted once as covered or uncovered.
\<close>

section \<open>The scoreboard\<close>

datatype read_source = Tier | Backend

record score_read =
  Source :: read_source
  rBytes :: int
  Took :: duration

definition bucket :: "int \<Rightarrow> nat" where
  "bucket n = (if n \<le> 0 then 0 else nbits (nat n))"

definition samplesPerBucket :: nat where
  "samplesPerBucket = 256"

record tally =
  t_n :: int
  t_total :: duration

record scoreboard =
  misses :: "(nat, duration list) gomap"
  hits :: "(nat, tally) gomap"

definition New_scoreboard :: scoreboard where
  "New_scoreboard = \<lparr>misses = [], hits = []\<rparr>"

definition misses_at :: "scoreboard \<Rightarrow> nat \<Rightarrow> duration list" where
  "misses_at s b = (case map_of (misses s) b of None \<Rightarrow> [] | Some d \<Rightarrow> d)"

definition hits_at :: "scoreboard \<Rightarrow> nat \<Rightarrow> tally" where
  "hits_at s b = (case map_of (hits s) b of None \<Rightarrow> \<lparr>t_n = 0, t_total = 0\<rparr> | Some t \<Rightarrow> t)"

definition Record :: "scoreboard \<Rightarrow> score_read \<Rightarrow> scoreboard" where
  "Record s r =
     (let b = bucket (rBytes r) in
      if Source r = Backend then
        let kept = misses_at s b @ [Took r];
            kept = (if samplesPerBucket < length kept then drop (length kept - samplesPerBucket) kept else kept)
        in s\<lparr>misses := AList.update b kept (misses s)\<rparr>
      else let t = hits_at s b
           in s\<lparr>hits := AList.update b \<lparr>t_n = wrap64 (t_n t + 1), t_total = wrap64 (t_total t + Took r)\<rparr> (hits s)\<rparr>)"

definition median :: "duration list \<Rightarrow> duration" where
  "median d = sort d ! (length d div 2)"

definition interquartile :: "duration list \<Rightarrow> duration" where
  "interquartile d = wrap64 (sort d ! (length d * 3 div 4) - sort d ! (length d div 4))"

record estimate =
  Saved :: duration
  Spread :: duration
  Covered :: int
  Uncovered :: int

text \<open>The loop over \<open>hits\<close>, with the spread weighted by the hits as it goes.\<close>

definition estimate_step :: "scoreboard \<Rightarrow> estimate \<times> duration \<Rightarrow> nat \<times> tally \<Rightarrow> estimate \<times> duration" where
  "estimate_step s ew bt =
     (case ew of (e, w) \<Rightarrow>
        let ms = misses_at s (fst bt); t = snd bt in
        if ms = [] then (e\<lparr>Uncovered := wrap64 (Uncovered e + t_n t)\<rparr>, w)
        else (e\<lparr>Saved := wrap64 (Saved e + wrap64 (wrap64 (median ms * t_n t) - t_total t)),
                Covered := wrap64 (Covered e + t_n t)\<rparr>,
              wrap64 (w + wrap64 (interquartile ms * t_n t))))"

definition no_estimate :: estimate where
  "no_estimate = \<lparr>Saved = 0, Spread = 0, Covered = 0, Uncovered = 0\<rparr>"

definition Estimate :: "scoreboard \<Rightarrow> estimate" where
  "Estimate s =
     (case foldl (estimate_step s) (no_estimate, 0) (hits s) of
        (e, w) \<Rightarrow> if 0 < Covered e then e\<lparr>Spread := go_div w (Covered e)\<rparr> else e)"

definition CoveredFraction :: "estimate \<Rightarrow> float64" where
  "CoveredFraction e =
     (let total = wrap64 (Covered e + Uncovered e) in
      if total = 0 then 0 else f64_div (f64_of_int (Covered e)) (f64_of_int total))"

record conversion =
  Accelerators :: float64
  PricePerHour :: float64

text \<open>\<open>Duration.Hours\<close>: whole hours and the rest, in floating point. \<open>None\<close> is \<open>ErrNoConversion\<close>.\<close>

definition Hours :: "duration \<Rightarrow> float64" where
  "Hours d = f64_add (f64_of_int (go_div d (60 * Minute))) (f64_div (f64_of_int (d - go_div d (60 * Minute) * (60 * Minute))) (60 * 60 * 1000000000))"

definition AcceleratorHours :: "estimate \<Rightarrow> conversion \<Rightarrow> float64 option" where
  "AcceleratorHours e c = (if Accelerators c \<le> 0 then None else Some (f64_mul (Hours (Saved e)) (Accelerators c)))"

definition Money :: "estimate \<Rightarrow> conversion \<Rightarrow> float64 option" where
  "Money e c =
     (if PricePerHour c \<le> 0 then None
      else case AcceleratorHours e c of None \<Rightarrow> None | Some h \<Rightarrow> Some (f64_mul h (PricePerHour c)))"

section \<open>What it keeps\<close>

lemma bucket_bounds: "0 < n \<Longrightarrow> 2 ^ (bucket n - 1) \<le> n \<and> n < 2 ^ bucket n"
proof -
  assume n: "0 < n"
  then have b: "2 ^ (bucket n - 1) \<le> nat n" "nat n < 2 ^ bucket n" using nbits_bounds [of "nat n"] by (simp_all add: bucket_def)
  have "int (2 ^ (bucket n - 1)) \<le> int (nat n)" "int (nat n) < int (2 ^ bucket n)"
    using b by (simp_all only: of_nat_le_iff of_nat_less_iff)
  then show ?thesis using n by simp
qed

definition score_ok :: "scoreboard \<Rightarrow> bool" where
  "score_ok s \<longleftrightarrow> gomap_ok (misses s) \<and> gomap_ok (hits s)
     \<and> (\<forall>d\<in>snd ` set (misses s). d \<noteq> [] \<and> length d \<le> samplesPerBucket)"

lemma New_scoreboard_ok: "score_ok New_scoreboard"
  by (simp add: score_ok_def New_scoreboard_def)

lemma misses_at_ok: "score_ok s \<Longrightarrow> length (misses_at s b) \<le> samplesPerBucket"
  by (force simp: score_ok_def misses_at_def split: option.splits dest: map_of_SomeD)

lemma gomap_update_values:
  assumes "gomap_ok m" "\<forall>v\<in>snd ` set m. P v" "P v0"
  shows "\<forall>v\<in>snd ` set (AList.update k v0 m). P v"
proof
  fix v assume "v \<in> snd ` set (AList.update k v0 m)"
  then obtain j where "(j, v) \<in> set (AList.update k v0 m)" by auto
  then have "map_of (AList.update k v0 m) j = Some v" using assms(1) gomap_ok_update [of m k v0] by (simp add: gomap_ok_def)
  then show "P v" using assms(2,3) by (auto simp: map_of_update_if split: if_splits dest!: map_of_SomeD)
qed

lemma Record_ok: "score_ok s \<Longrightarrow> score_ok (Record s r)"
proof -
  assume ok: "score_ok s"
  define kept where "kept = misses_at s (bucket (rBytes r)) @ [Took r]"
  define k where "k = (if samplesPerBucket < length kept then drop (length kept - samplesPerBucket) kept else kept)"
  have "k \<noteq> [] \<and> length k \<le> samplesPerBucket" by (auto simp: k_def kept_def samplesPerBucket_def)
  then have "\<forall>d\<in>snd ` set (AList.update (bucket (rBytes r)) k (misses s)). d \<noteq> [] \<and> length d \<le> samplesPerBucket"
    using ok unfolding score_ok_def by (intro gomap_update_values) auto
  then show ?thesis
    using ok by (auto simp: Record_def score_ok_def Let_def k_def [unfolded kept_def])
qed

text \<open>The samples are the latest durations, in the order they came.\<close>

lemma Record_misses:
  assumes "score_ok s" "Source r = Backend"
  shows "misses_at (Record s r) (bucket (rBytes r))
    = (let kept = misses_at s (bucket (rBytes r)) @ [Took r] in drop (length kept - samplesPerBucket) kept)"
  using assms(2) by (auto simp: Record_def misses_at_def [of "_\<lparr>misses := _\<rparr>"] map_of_update_if Let_def)

section \<open>The estimate\<close>

definition covered :: "scoreboard \<Rightarrow> nat \<times> tally \<Rightarrow> bool" where
  "covered s bt \<longleftrightarrow> misses_at s (fst bt) \<noteq> []"

definition saved_by :: "scoreboard \<Rightarrow> nat \<times> tally \<Rightarrow> int" where
  "saved_by s bt = median (misses_at s (fst bt)) * t_n (snd bt) - t_total (snd bt)"

lemma wrap64_diff_wrap: "wrap64 (wrap64 a - b) = wrap64 (a - b)"
  using wrap64_add_wrap [of a "- b"] by simp

lemma wrap64_add_wrap2: "wrap64 (a + wrap64 b) = wrap64 (a + b)"
  using wrap64_add_wrap [of b a] by (simp add: add.commute)

lemma estimate_fold:
  fixes e0 :: estimate
  assumes "Saved e0 = wrap64 sv" "Covered e0 = wrap64 cv" "Uncovered e0 = wrap64 un" "w0 = wrap64 w"
  shows "foldl (estimate_step s) (e0, w0) hs =
    (e0\<lparr>Saved := wrap64 (sv + (\<Sum>h\<leftarrow>filter (covered s) hs. saved_by s h)),
        Covered := wrap64 (cv + (\<Sum>h\<leftarrow>filter (covered s) hs. t_n (snd h))),
        Uncovered := wrap64 (un + (\<Sum>h\<leftarrow>filter (\<lambda>h. \<not> covered s h) hs. t_n (snd h)))\<rparr>,
     wrap64 (w + (\<Sum>h\<leftarrow>filter (covered s) hs. interquartile (misses_at s (fst h)) * t_n (snd h))))"
  using assms
proof (induction hs arbitrary: e0 w0 sv cv un w)
  case (Cons h hs)
  show ?case
  proof (cases "covered s h")
    case True
    then have "estimate_step s (e0, w0) h =
        (e0\<lparr>Saved := wrap64 (sv + saved_by s h), Covered := wrap64 (cv + t_n (snd h))\<rparr>,
         wrap64 (w + interquartile (misses_at s (fst h)) * t_n (snd h)))"
      using Cons.prems
      by (simp add: estimate_step_def Let_def covered_def saved_by_def wrap64_add_wrap wrap64_add_wrap2 wrap64_diff_wrap)
    then show ?thesis
      using True Cons.prems(3)
      by (simp, subst Cons.IH [where sv = "sv + saved_by s h" and cv = "cv + t_n (snd h)" and un = un
            and w = "w + interquartile (misses_at s (fst h)) * t_n (snd h)"]) (simp_all add: add.assoc)
  next
    case False
    then have "estimate_step s (e0, w0) h = (e0\<lparr>Uncovered := wrap64 (un + t_n (snd h))\<rparr>, w0)"
      using Cons.prems by (simp add: estimate_step_def Let_def covered_def wrap64_add_wrap)
    then show ?thesis
      using False Cons.prems
      by (simp, subst Cons.IH [where sv = sv and cv = cv and un = "un + t_n (snd h)" and w = w]) (simp_all add: add.assoc)
  qed
qed simp

lemma Estimate_closed:
  "Saved (Estimate s) = wrap64 (\<Sum>h\<leftarrow>filter (covered s) (hits s). saved_by s h)"
  "Covered (Estimate s) = wrap64 (\<Sum>h\<leftarrow>filter (covered s) (hits s). t_n (snd h))"
  "Uncovered (Estimate s) = wrap64 (\<Sum>h\<leftarrow>filter (\<lambda>h. \<not> covered s h) (hits s). t_n (snd h))"
  "Spread (Estimate s) = (if 0 < Covered (Estimate s)
     then go_div (wrap64 (\<Sum>h\<leftarrow>filter (covered s) (hits s). interquartile (misses_at s (fst h)) * t_n (snd h))) (Covered (Estimate s))
     else 0)"
  using estimate_fold [of no_estimate 0 0 0 0 0 s "hits s"]
  by (simp_all add: Estimate_def no_estimate_def wrap64_def [of 0] Let_def)

text \<open>Every hit is counted once.\<close>

lemma Estimate_counts:
  "wrap64 (Covered (Estimate s) + Uncovered (Estimate s)) = wrap64 (\<Sum>h\<leftarrow>hits s. t_n (snd h))"
proof -
  have "(\<Sum>h\<leftarrow>filter (covered s) hs. t_n (snd h)) + (\<Sum>h\<leftarrow>filter (\<lambda>h. \<not> covered s h) hs. t_n (snd h)) = (\<Sum>h\<leftarrow>hs. t_n (snd h))" for hs
    by (induction hs) auto
  then show ?thesis by (simp add: Estimate_closed wrap64_add_wrap wrap64_add_wrap2)
qed

text \<open>Two boards that hold the same, walked in any order, give the same estimate.\<close>

lemma sum_list_mset_eq: "mset xs = mset ys \<Longrightarrow> (\<Sum>x\<leftarrow>xs. f x :: int) = (\<Sum>x\<leftarrow>ys. f x)"
proof -
  assume "mset xs = mset ys"
  then have "sum_mset (mset (map f xs)) = sum_mset (mset (map f ys))" by simp
  then show ?thesis by (simp only: sum_mset_sum_list)
qed

lemma Estimate_order:
  assumes "score_ok s" "score_ok s'" "map_of (hits s) = map_of (hits s')" "map_of (misses s) = map_of (misses s')"
  shows "Estimate s = Estimate s'"
proof -
  have m: "mset (hits s) = mset (hits s')" using assms by (intro gomap_same_mset) (auto simp: score_ok_def)
  have at: "misses_at s = misses_at s'" using assms(4) by (simp add: misses_at_def fun_eq_iff)
  then have cv: "covered s = covered s'" "saved_by s = saved_by s'" by (simp_all add: covered_def saved_by_def fun_eq_iff)
  have eq: "(\<Sum>x\<leftarrow>filter P (hits s). f x) = (\<Sum>x\<leftarrow>filter P (hits s'). f x)" for P and f :: "nat \<times> tally \<Rightarrow> int"
    using m by (intro sum_list_mset_eq) simp
  show ?thesis by (rule estimate.equality) (simp_all add: Estimate_closed at cv eq)
qed

lemma median_between:
  assumes "d \<noteq> []"
  shows "median d \<in> set d" and "Min (set d) \<le> median d" and "median d \<le> Max (set d)"
proof -
  have "sort d ! (length d div 2) \<in> set (sort d)" using assms by (intro nth_mem) (simp add: div_less_dividend)
  then show m: "median d \<in> set d" by (simp add: median_def)
  show "Min (set d) \<le> median d" "median d \<le> Max (set d)" using m by simp_all
qed

end
