(* ===== verification/Metrics.thy ===== *)
theory Metrics
  imports Go_Float Go_Text
begin

text \<open>
  Package metrics (\<open>internal/metrics\<close>): the registry of series (\<open>metrics.go\<close>) and the readiness of a
  node (\<open>ready.go\<close>). A series is found or made before the kind of its metric is checked, as in the
  source, so a refused operation can leave an empty series behind. The text a scrape reads is not
  modelled.

  The lemmas: a histogram's buckets are cumulative counts of what was observed; the key of a
  series does not tell every two label sets apart; readiness has hysteresis, and a node that is
  sent no reads becomes ready again.
\<close>

section \<open>The registry\<close>

datatype Kind = Counter | Gauge | Histogram

definition allowed :: "string list" where
  "allowed = [''tenant'', ''dataset'', ''class'', ''source'', ''fact'']"

datatype metrics_error =
  MNoName | MNoBuckets | MUnsorted | MTaken | MNotRegistered | MErrLabel string | MKind | MFalls

type_synonym labels = "(string, string) gomap"

record series =
  s_labels :: labels
  s_value :: float64
  s_counts :: "nat list"
  s_count :: nat
  s_sum :: float64

record metric =
  m_kind :: Kind
  m_help :: string
  m_buckets :: "float64 list"
  m_series :: "(string, series) gomap"
  m_order :: "string list"

record metrics_registry =
  r_metrics :: "(string, metric) gomap"
  r_order :: "string list"

definition New_metrics :: metrics_registry where
  "New_metrics = \<lparr>r_metrics = [], r_order = []\<rparr>"

definition mRegister :: "metrics_registry \<Rightarrow> string \<Rightarrow> Kind \<Rightarrow> string \<Rightarrow> float64 list \<Rightarrow> metrics_error option \<times> metrics_registry" where
  "mRegister r name kind help buckets =
     (if name = [] then (Some MNoName, r)
      else if kind = Histogram \<and> buckets = [] then (Some MNoBuckets, r)
      else if \<not> sorted buckets then (Some MUnsorted, r)
      else if map_of (r_metrics r) name \<noteq> None then (Some MTaken, r)
      else (None, \<lparr>r_metrics = AList.update name \<lparr>m_kind = kind, m_help = help, m_buckets = buckets, m_series = [], m_order = []\<rparr> (r_metrics r),
                   r_order = r_order r @ [name]\<rparr>))"

definition series_key :: "labels \<Rightarrow> metrics_error + string" where
  "series_key labels =
     (case filter (\<lambda>n. n \<notin> set allowed) (map fst labels) of
        n # _ \<Rightarrow> Inl (MErrLabel n)
      | [] \<Rightarrow> Inr (Join (map (\<lambda>n. n @ ''='' @ the (map_of labels n)) (sort (map fst labels))) '',''))"

definition new_series :: "metric \<Rightarrow> labels \<Rightarrow> series" where
  "new_series m labels = \<lparr>s_labels = labels, s_value = 0,
     s_counts = (if m_kind m = Histogram then replicate (length (m_buckets m)) 0 else []), s_count = 0, s_sum = 0\<rparr>"

text \<open>\<open>at\<close>: the metric, the key of the series and the series, made when it was not there.\<close>

definition at_series :: "metrics_registry \<Rightarrow> string \<Rightarrow> labels \<Rightarrow> metrics_error + metric \<times> string \<times> series" where
  "at_series r name labels =
     (case map_of (r_metrics r) name of
        None \<Rightarrow> Inl MNotRegistered
      | Some m \<Rightarrow>
          (case series_key labels of
             Inl e \<Rightarrow> Inl e
           | Inr k \<Rightarrow>
               (case map_of (m_series m) k of
                  Some s \<Rightarrow> Inr (m, k, s)
                | None \<Rightarrow>
                    let s = new_series m labels
                    in Inr (m\<lparr>m_series := AList.update k s (m_series m), m_order := m_order m @ [k]\<rparr>, k, s))))"

definition put_series :: "metrics_registry \<Rightarrow> string \<Rightarrow> metric \<Rightarrow> string \<Rightarrow> series \<Rightarrow> metrics_registry" where
  "put_series r name m k s = r\<lparr>r_metrics := AList.update name (m\<lparr>m_series := AList.update k s (m_series m)\<rparr>) (r_metrics r)\<rparr>"

definition mAdd :: "metrics_registry \<Rightarrow> string \<Rightarrow> labels \<Rightarrow> float64 \<Rightarrow> metrics_error option \<times> metrics_registry" where
  "mAdd r name labels delta =
     (case at_series r name labels of
        Inl e \<Rightarrow> (Some e, r)
      | Inr (m, k, s) \<Rightarrow>
          if m_kind m = Histogram then (Some MKind, put_series r name m k s)
          else if m_kind m = Counter \<and> delta < 0 then (Some MFalls, put_series r name m k s)
          else (None, put_series r name m k (s\<lparr>s_value := f64_add (s_value s) delta\<rparr>)))"

definition mSet :: "metrics_registry \<Rightarrow> string \<Rightarrow> labels \<Rightarrow> float64 \<Rightarrow> metrics_error option \<times> metrics_registry" where
  "mSet r name labels v =
     (case at_series r name labels of
        Inl e \<Rightarrow> (Some e, r)
      | Inr (m, k, s) \<Rightarrow>
          if m_kind m \<noteq> Gauge then (Some MKind, put_series r name m k s)
          else (None, put_series r name m k (s\<lparr>s_value := v\<rparr>)))"

definition inc_u64 :: "nat \<Rightarrow> nat" where
  "inc_u64 n = (n + 1) mod 18446744073709551616"

definition observe_series :: "float64 list \<Rightarrow> series \<Rightarrow> float64 \<Rightarrow> series" where
  "observe_series buckets s v =
     s\<lparr>s_counts := map2 (\<lambda>u c. if v \<le> u then inc_u64 c else c) buckets (s_counts s),
       s_count := inc_u64 (s_count s), s_sum := f64_add (s_sum s) v\<rparr>"

definition mObserve :: "metrics_registry \<Rightarrow> string \<Rightarrow> labels \<Rightarrow> float64 \<Rightarrow> metrics_error option \<times> metrics_registry" where
  "mObserve r name labels v =
     (case at_series r name labels of
        Inl e \<Rightarrow> (Some e, r)
      | Inr (m, k, s) \<Rightarrow>
          if m_kind m \<noteq> Histogram then (Some MKind, put_series r name m k s)
          else (None, put_series r name m k (observe_series (m_buckets m) s v)))"

text \<open>After any observations, a bucket counts those that were not above it.\<close>

lemma inc_u64_mod: "inc_u64 (n mod 18446744073709551616) = Suc n mod 18446744073709551616"
  by (simp add: inc_u64_def mod_Suc_eq)

lemma map2_map_self: "map2 f xs (map g xs) = map (\<lambda>x. f x (g x)) xs"
  by (induction xs) simp_all

lemma observe_counts:
  assumes "s_counts s = replicate (length buckets) 0" "s_count s = 0"
  shows "s_counts (foldl (observe_series buckets) s vs) = map (\<lambda>u. length (filter (\<lambda>v. v \<le> u) vs) mod 18446744073709551616) buckets"
    and "s_count (foldl (observe_series buckets) s vs) = length vs mod 18446744073709551616"
proof (induction vs rule: rev_induct)
  case Nil
  show "s_counts (foldl (observe_series buckets) s []) = map (\<lambda>u. length (filter (\<lambda>v. v \<le> u) []) mod 18446744073709551616) buckets"
    using assms(1) by (simp add: map_replicate_const)
  show "s_count (foldl (observe_series buckets) s []) = length [] mod 18446744073709551616" using assms(2) by simp
next
  case (snoc v vs)
  show "s_counts (foldl (observe_series buckets) s (vs @ [v]))
      = map (\<lambda>u. length (filter (\<lambda>v. v \<le> u) (vs @ [v])) mod 18446744073709551616) buckets"
    by (simp add: observe_series_def snoc(1) map2_map_self inc_u64_mod)
  show "s_count (foldl (observe_series buckets) s (vs @ [v])) = length (vs @ [v]) mod 18446744073709551616"
    by (simp add: observe_series_def snoc(2) inc_u64_mod)
qed

text \<open>The buckets of a histogram rise: what a scrape reads as cumulative is.\<close>

lemma observe_cumulative:
  assumes "sorted buckets" "length vs < 18446744073709551616"
    and "s_counts s = replicate (length buckets) 0" "s_count s = 0"
  shows "sorted (s_counts (foldl (observe_series buckets) s vs))"
    and "\<forall>c\<in>set (s_counts (foldl (observe_series buckets) s vs)). c \<le> s_count (foldl (observe_series buckets) s vs)"
proof -
  have le: "length (filter (\<lambda>v. v \<le> u) vs) \<le> length vs" for u :: float64 by simp
  then have m: "length (filter (\<lambda>v. v \<le> u) vs) mod 18446744073709551616 = length (filter (\<lambda>v. v \<le> u) vs)" for u :: float64
    using assms(2) by (meson le_less_trans mod_less)
  have mono: "length (filter (\<lambda>v. v \<le> u) vs) \<le> length (filter (\<lambda>v. v \<le> w) vs)" if "u \<le> w" for u w :: float64
    using that by (induction vs) auto
  show "sorted (s_counts (foldl (observe_series buckets) s vs))"
    unfolding observe_counts(1) [OF assms(3,4)] m using assms(1) mono
    by (auto simp: sorted_iff_nth_mono)
  show "\<forall>c\<in>set (s_counts (foldl (observe_series buckets) s vs)). c \<le> s_count (foldl (observe_series buckets) s vs)"
    unfolding observe_counts [OF assms(3,4)] m using assms(2) by auto
qed

text \<open>
  The key joins names and values without escaping either, so a value that carries the separators
  names another label set's series.
\<close>

lemma series_key_collides:
  "series_key [(''class'', ''a,dataset=b'')] = series_key [(''class'', ''a''), (''dataset'', ''b'')]"
  by code_simp

section \<open>Readiness\<close>

record readiness =
  rd_fail :: duration
  rd_recover :: duration
  rd_window :: duration
  rd_samples :: "(time \<times> duration) list"
  rd_unready :: bool
  rd_since :: time

definition NewReadiness :: "duration \<Rightarrow> duration \<Rightarrow> duration \<Rightarrow> readiness option" where
  "NewReadiness fail recover window =
     (if fail \<le> 0 \<or> recover \<le> 0 then None
      else if fail \<le> recover then None
      else if window \<le> 0 then None
      else Some \<lparr>rd_fail = fail, rd_recover = recover, rd_window = window, rd_samples = [], rd_unready = False, rd_since = 0\<rparr>)"

definition rd_trim :: "readiness \<Rightarrow> time \<Rightarrow> readiness" where
  "rd_trim r now = r\<lparr>rd_samples := filter (\<lambda>s. time_add now (wrap64 (- rd_window r)) < fst s) (rd_samples r)\<rparr>"

definition rd_worst :: "readiness \<Rightarrow> duration" where
  "rd_worst r = foldl (\<lambda>w s. if w < snd s then snd s else w) 0 (rd_samples r)"

definition rd_decide :: "readiness \<Rightarrow> time \<Rightarrow> readiness" where
  "rd_decide r now =
     (if rd_samples r = [] then (if rd_unready r then r\<lparr>rd_unready := False, rd_since := now\<rparr> else r)
      else if \<not> rd_unready r \<and> rd_fail r \<le> rd_worst r then r\<lparr>rd_unready := True, rd_since := now\<rparr>
      else if rd_unready r \<and> rd_worst r < rd_recover r then r\<lparr>rd_unready := False, rd_since := now\<rparr>
      else r)"

definition rd_Observe :: "readiness \<Rightarrow> duration \<Rightarrow> time \<Rightarrow> readiness" where
  "rd_Observe r took now = rd_decide (rd_trim (r\<lparr>rd_samples := rd_samples r @ [(now, took)]\<rparr>) now) now"

definition rd_Ready :: "readiness \<Rightarrow> time \<Rightarrow> bool \<times> readiness" where
  "rd_Ready r now = (let r' = rd_decide (rd_trim r now) now in (\<not> rd_unready r', r'))"

lemma foldl_worst: "foldl (\<lambda>w s. if w < snd s then snd s else w) (w :: int) ss = Max (insert w (snd ` set ss))"
proof (induction ss arbitrary: w)
  case (Cons s ss)
  show ?case using Cons [of "max w (snd s)"] by (cases "ss = []") (auto simp: max_def insert_commute)
qed simp

lemma rd_worst_Max: "rd_worst r = Max (insert 0 (snd ` set (rd_samples r)))"
  by (simp add: rd_worst_def foldl_worst)

text \<open>A node is taken out only on a read at or over the bound, and put back only when every read
  left in the window is under the lower one, or none is left.\<close>

lemma rd_decide_cases:
  "rd_unready (rd_decide r now) \<longleftrightarrow>
     (if rd_unready r then rd_samples r \<noteq> [] \<and> rd_recover r \<le> rd_worst r
      else rd_samples r \<noteq> [] \<and> rd_fail r \<le> rd_worst r)"
  by (auto simp: rd_decide_def)

lemma rd_quiet_ready:
  assumes "in_i64 (rd_window r)" "rd_window r \<noteq> min_i64" "\<forall>s\<in>set (rd_samples r). fst s + rd_window r \<le> now"
  shows "fst (rd_Ready r now)"
proof -
  have "wrap64 (- rd_window r) = - rd_window r" using assms(1,2) by (intro wrap64_id') (auto simp: i64_defs)
  then have "rd_samples (rd_trim r now) = []"
    using assms(3) by (auto simp: rd_trim_def time_add_def filter_empty_conv)
  then show ?thesis by (simp add: rd_Ready_def Let_def rd_decide_cases)
qed

lemma rd_frame [simp]:
  "rd_fail (rd_decide r now) = rd_fail r" "rd_recover (rd_decide r now) = rd_recover r" "rd_window (rd_decide r now) = rd_window r"
  "rd_samples (rd_decide r now) = rd_samples r"
  "rd_fail (rd_trim r now) = rd_fail r" "rd_recover (rd_trim r now) = rd_recover r" "rd_window (rd_trim r now) = rd_window r"
  "rd_unready (rd_trim r now) = rd_unready r"
  by (simp_all add: rd_decide_def rd_trim_def)

text \<open>Asking twice at one time gives one answer.\<close>

lemma rd_Ready_stable: "0 < rd_recover r \<Longrightarrow> rd_recover r < rd_fail r \<Longrightarrow> fst (rd_Ready (snd (rd_Ready r now)) now) = fst (rd_Ready r now)"
proof -
  assume b: "0 < rd_recover r" "rd_recover r < rd_fail r"
  let ?r = "rd_decide (rd_trim r now) now"
  have s: "rd_samples (rd_trim ?r now) = rd_samples (rd_trim r now)" by (simp add: rd_trim_def)
  then have w: "rd_worst (rd_trim ?r now) = rd_worst (rd_trim r now)" by (simp add: rd_worst_def)
  show ?thesis using b by (auto simp: rd_Ready_def Let_def rd_decide_cases s w)
qed

end
