(* ===== verification/Prefetch.thy ===== *)
theory Prefetch
  imports Go_Float
begin

text \<open>
  Package prefetch (\<open>internal/prefetch/prefetch.go\<close>): a detector that follows the stride of each
  stream of reads and predicts the next blocks, until too few of its predictions are read.

  \<open>outstanding\<close> is a Go map that \<open>score\<close> walks while it deletes from it. When a verdict mutes the
  stream, \<open>record\<close> replaces the map by a new one, but the walk goes on over the old one: the loop
  below runs over the entries the map had when it started.

  The lemmas: the walk's order does not matter, a prediction is made only after \<open>Confirmations\<close>
  reads (repeats apart) in arithmetic progression and continues that progression, no block is
  predicted while a prediction of it is outstanding, the accuracy window keeps the last
  \<open>Window\<close> verdicts, and a stream muted on a stride stays muted while its reads keep that stride.
\<close>

section \<open>Configuration\<close>

record pf_block =
  Stream :: string
  bIndex :: int

record pf_config =
  Depth :: int
  Confirmations :: int
  Window :: int
  MinAccuracy :: float64
  Patience :: duration

definition pf_Validate :: "pf_config \<Rightarrow> bool" where
  "pf_Validate c \<longleftrightarrow>
     \<not> (Depth c \<le> 0) \<and> \<not> (Confirmations c < 3) \<and> \<not> (Window c \<le> 0)
     \<and> \<not> (MinAccuracy c < 0 \<or> 1 < MinAccuracy c) \<and> \<not> (Patience c \<le> 0)"

definition pf_DefaultConfig :: pf_config where
  "pf_DefaultConfig = \<lparr>Depth = 8, Confirmations = 3, Window = 64, MinAccuracy = 1 / 2, Patience = Minute\<rparr>"

section \<open>Streams\<close>

record pf_stream =
  st_last :: int
  st_stride :: int
  st_runs :: int
  st_started :: bool
  st_outstanding :: "(int, time) gomap"
  st_recent :: "bool list"
  st_muted :: bool
  st_mutedStride :: int

definition new_stream :: pf_stream where
  "new_stream = \<lparr>st_last = 0, st_stride = 0, st_runs = 0, st_started = False, st_outstanding = [],
                 st_recent = [], st_muted = False, st_mutedStride = 0\<rparr>"

record detector =
  d_cfg :: pf_config
  d_streams :: "(string, pf_stream) gomap"

definition New_detector :: "pf_config \<Rightarrow> detector option" where
  "New_detector c = (if pf_Validate c then Some \<lparr>d_cfg = c, d_streams = []\<rparr> else None)"

definition accuracy :: "bool list \<Rightarrow> float64" where
  "accuracy recent = f64_div (f64_of_int (int (length (filter (\<lambda>ok. ok) recent)))) (f64_of_int (int (length recent)))"

definition pf_record :: "pf_config \<Rightarrow> pf_stream \<Rightarrow> bool \<Rightarrow> pf_stream" where
  "pf_record c s read =
     (let r = st_recent s @ [read];
          r = (if Window c < int (length r) then drop (nat (int (length r) - Window c)) r else r);
          s = s\<lparr>st_recent := r\<rparr>
      in if int (length r) < Window c then s
         else if \<not> st_muted s \<and> accuracy r < MinAccuracy c then
           s\<lparr>st_muted := True, st_mutedStride := st_stride s, st_outstanding := [], st_stride := 0, st_runs := 0\<rparr>
         else s)"

definition score_step :: "pf_config \<Rightarrow> time \<Rightarrow> pf_stream \<Rightarrow> int \<times> time \<Rightarrow> pf_stream" where
  "score_step c now s aw =
     (if Patience c \<le> time_sub now (snd aw)
      then pf_record c (s\<lparr>st_outstanding := AList.delete (fst aw) (st_outstanding s)\<rparr>) False
      else s)"

definition score_hit :: "pf_config \<Rightarrow> pf_stream \<Rightarrow> int \<Rightarrow> pf_stream" where
  "score_hit c s index =
     (if map_of (st_outstanding s) index \<noteq> None
      then pf_record c (s\<lparr>st_outstanding := AList.delete index (st_outstanding s)\<rparr>) True
      else s)"

definition score :: "pf_config \<Rightarrow> pf_stream \<Rightarrow> int \<Rightarrow> time \<Rightarrow> pf_stream" where
  "score c s index now =
     (let s1 = score_hit c s index in foldl (score_step c now) s1 (st_outstanding s1))"

definition track :: "pf_config \<Rightarrow> pf_stream \<Rightarrow> int \<Rightarrow> pf_stream" where
  "track c s index =
     (if \<not> st_started s then s\<lparr>st_last := index, st_started := True\<rparr>
      else let stride = wrap64 (index - st_last s); s = s\<lparr>st_last := index\<rparr> in
        if stride = 0 then s
        else if stride = st_stride s then
          (let s = s\<lparr>st_runs := wrap64 (st_runs s + 1)\<rparr> in
           if st_muted s \<and> stride \<noteq> st_mutedStride s \<and> Confirmations c \<le> wrap64 (st_runs s + 2)
           then s\<lparr>st_muted := False, st_recent := []\<rparr> else s)
        else s\<lparr>st_stride := stride, st_runs := 0\<rparr>)"

text \<open>The loop of \<open>Observe\<close> that makes the predictions \<open>i\<close>, \<dots>, \<open>Depth\<close>.\<close>

definition predict_at :: "pf_block \<Rightarrow> pf_stream \<Rightarrow> int \<Rightarrow> int" where
  "predict_at b s i = wrap64 (bIndex b + wrap64 (st_stride s * i))"

fun predict_loop :: "pf_block \<Rightarrow> time \<Rightarrow> pf_stream \<Rightarrow> int list \<Rightarrow> pf_block list \<times> pf_stream" where
  "predict_loop b now s [] = ([], s)"
| "predict_loop b now s (i # is) =
     (let next = predict_at b s i in
      if map_of (st_outstanding s) next \<noteq> None then predict_loop b now s is
      else case predict_loop b now (s\<lparr>st_outstanding := AList.update next now (st_outstanding s)\<rparr>) is of
             (out, s') \<Rightarrow> (\<lparr>Stream = Stream b, bIndex = next\<rparr> # out, s'))"

definition stream_at :: "detector \<Rightarrow> string \<Rightarrow> pf_stream" where
  "stream_at d name = (case map_of (d_streams d) name of None \<Rightarrow> new_stream | Some s \<Rightarrow> s)"

definition confirmed :: "pf_config \<Rightarrow> pf_stream \<Rightarrow> bool" where
  "confirmed c s \<longleftrightarrow> \<not> (\<not> st_started s \<or> wrap64 (st_runs s + 2) < Confirmations c \<or> st_muted s)"

definition observe_stream :: "pf_config \<Rightarrow> pf_stream \<Rightarrow> pf_block \<Rightarrow> time \<Rightarrow> pf_block list \<times> pf_stream" where
  "observe_stream c s b now =
     (let s = track c (score c s (bIndex b) now) (bIndex b) in
      if \<not> confirmed c s then ([], s)
      else predict_loop b now s [1..Depth c])"

definition pf_Observe :: "detector \<Rightarrow> pf_block \<Rightarrow> time \<Rightarrow> pf_block list \<times> detector" where
  "pf_Observe d b now =
     (case observe_stream (d_cfg d) (stream_at d (Stream b)) b now of
        (out, s) \<Rightarrow> (out, d\<lparr>d_streams := AList.update (Stream b) s (d_streams d)\<rparr>))"

definition Accuracy :: "detector \<Rightarrow> string \<Rightarrow> float64 \<times> bool" where
  "Accuracy d name =
     (case map_of (d_streams d) name of
        None \<Rightarrow> (0, False)
      | Some s \<Rightarrow> if st_recent s = [] then (0, False) else (accuracy (st_recent s), True))"

definition Predicting :: "detector \<Rightarrow> string \<Rightarrow> bool" where
  "Predicting d name =
     (case map_of (d_streams d) name of
        None \<Rightarrow> False
      | Some s \<Rightarrow> st_started s \<and> \<not> st_muted s \<and> Confirmations (d_cfg d) \<le> wrap64 (st_runs s + 2))"

definition Forget :: "detector \<Rightarrow> string \<Rightarrow> detector" where
  "Forget d name = d\<lparr>d_streams := AList.delete name (d_streams d)\<rparr>"

section \<open>The order in which \<open>score\<close> walks the map\<close>

definition mutes :: "pf_config \<Rightarrow> pf_stream \<Rightarrow> bool \<Rightarrow> bool" where
  "mutes c s b \<longleftrightarrow> \<not> st_muted s \<and> st_muted (pf_record c s b)"

lemma pf_record_outstanding:
  "pf_record c (s\<lparr>st_outstanding := m\<rparr>) b = (pf_record c s b)\<lparr>st_outstanding := if mutes c s b then [] else m\<rparr>"
  by (auto simp: pf_record_def mutes_def Let_def)

lemma pf_record_keeps:
  "st_outstanding (pf_record c s b) = (if mutes c s b then [] else st_outstanding s)"
  by (auto simp: pf_record_def mutes_def Let_def)

lemma pf_record_frame:
  "st_last (pf_record c s b) = st_last s" "st_started (pf_record c s b) = st_started s"
  "mutes c s b \<Longrightarrow> st_stride (pf_record c s b) = 0 \<and> st_runs (pf_record c s b) = 0"
  "\<not> mutes c s b \<Longrightarrow> st_stride (pf_record c s b) = st_stride s \<and> st_runs (pf_record c s b) = st_runs s"
  by (auto simp: pf_record_def Let_def mutes_def split: if_splits)

lemma pf_record_window:
  assumes "0 < Window c"
  shows "int (length (st_recent (pf_record c s b))) \<le> Window c"
  using assms by (auto simp: pf_record_def Let_def)

lemma pf_record_latest:
  assumes "0 < Window c" "int (length (st_recent s)) \<le> Window c"
  shows "st_recent (pf_record c s b) = drop (length (st_recent s) + 1 - nat (Window c)) (st_recent s @ [b])"
  using assms by (auto simp: pf_record_def Let_def nat_diff_distrib' nat_add_distrib)

definition late :: "pf_config \<Rightarrow> time \<Rightarrow> int \<times> time \<Rightarrow> bool" where
  "late c now aw \<longleftrightarrow> Patience c \<le> time_sub now (snd aw)"

lemma score_step_late:
  "score_step c now s aw =
     (if late c now aw
      then (pf_record c s False)\<lparr>st_outstanding := AList.delete (fst aw) (st_outstanding (pf_record c s False))\<rparr>
      else s)"
  by (simp add: score_step_def late_def pf_record_outstanding pf_record_keeps)

text \<open>The walk in closed form: one false verdict per late prediction, and the late ones gone.\<close>

definition condemn :: "pf_config \<Rightarrow> nat \<Rightarrow> pf_stream \<Rightarrow> pf_stream" where
  "condemn c n s = ((\<lambda>s. pf_record c s False) ^^ n) s"

lemma condemn_0 [simp]: "condemn c 0 s = s"
  by (simp add: condemn_def)

lemma condemn_Suc: "condemn c (Suc n) s = pf_record c (condemn c n s) False"
  by (simp add: condemn_def)

lemma condemn_Suc2: "condemn c (Suc n) s = condemn c n (pf_record c s False)"
  using funpow_swap1 [of "\<lambda>s. pf_record c s False" n s] by (simp add: condemn_def)

lemma pf_record_muted: "st_muted s \<Longrightarrow> st_muted (pf_record c s b)"
  by (simp add: pf_record_def Let_def)

lemma condemn_muted: "st_muted s \<Longrightarrow> st_muted (condemn c n s)"
  by (induction n) (simp_all add: condemn_Suc pf_record_muted)

lemma condemn_outstanding:
  "condemn c n (s\<lparr>st_outstanding := m\<rparr>) =
   (condemn c n s)\<lparr>st_outstanding := if st_muted (condemn c n s) = st_muted s then m else []\<rparr>"
proof (induction n)
  case (Suc n)
  then show ?case
    using condemn_muted [of s c n] pf_record_muted [of "condemn c n s" c False]
    by (auto simp: condemn_Suc pf_record_outstanding mutes_def)
qed simp

lemma condemn_keeps:
  "st_outstanding (condemn c n s) = (if st_muted (condemn c n s) = st_muted s then st_outstanding s else [])"
  using arg_cong [OF condemn_outstanding [where m = "st_outstanding s" and s = s and c = c and n = n], of st_outstanding] by simp

lemma score_walk:
  "foldl (score_step c now) s m =
   (condemn c (length (filter (late c now) m)) s)
     \<lparr>st_outstanding := filter (\<lambda>aw. fst aw \<notin> fst ` set (filter (late c now) m))
        (st_outstanding (condemn c (length (filter (late c now) m)) s))\<rparr>"
proof (induction m arbitrary: s)
  case (Cons aw m)
  show ?case
  proof (cases "late c now aw")
    case True
    then have "foldl (score_step c now) s (aw # m) = foldl (score_step c now)
        ((pf_record c s False)\<lparr>st_outstanding := AList.delete (fst aw) (st_outstanding (pf_record c s False))\<rparr>) m"
      by (simp add: score_step_late)
    also have "\<dots> = (condemn c (length (filter (late c now) (aw # m))) s)
     \<lparr>st_outstanding := filter (\<lambda>aw. fst aw \<notin> fst ` set (filter (late c now) m))
        (AList.delete (fst aw) (st_outstanding (condemn c (length (filter (late c now) (aw # m))) s)))\<rparr>"
      unfolding Cons using True by (simp add: condemn_outstanding condemn_Suc2 condemn_keeps)
    finally show ?thesis using True by (simp add: AList.delete_eq case_prod_beta conj_commute eq_commute [of "fst aw"])
  next
    case False
    then show ?thesis using Cons [of s] by (simp add: score_step_late)
  qed
qed simp


definition same_stream :: "pf_stream \<Rightarrow> pf_stream \<Rightarrow> bool" where
  "same_stream s s' \<longleftrightarrow> s' = s\<lparr>st_outstanding := st_outstanding s'\<rparr>
     \<and> gomap_ok (st_outstanding s) \<and> gomap_ok (st_outstanding s')
     \<and> map_of (st_outstanding s) = map_of (st_outstanding s')"

lemma same_streamI:
  "gomap_ok m \<Longrightarrow> gomap_ok m' \<Longrightarrow> map_of m = map_of m' \<Longrightarrow> r = s\<lparr>st_outstanding := m\<rparr> \<Longrightarrow> r' = s\<lparr>st_outstanding := m'\<rparr>
   \<Longrightarrow> same_stream r r'"
  by (simp add: same_stream_def)

lemma same_streamE:
  assumes "same_stream s s'"
  obtains m where "s' = s\<lparr>st_outstanding := m\<rparr>" "gomap_ok (st_outstanding s)" "gomap_ok m" "map_of (st_outstanding s) = map_of m"
  using assms unfolding same_stream_def by metis

lemma map_of_filter_keys: "map_of (filter (\<lambda>aw. P (fst aw)) m) k = (if P k then map_of m k else None)"
  by (induction m) auto

lemma score_hit_same:
  assumes "same_stream s s'"
  shows "same_stream (score_hit c s i) (score_hit c s' i)"
proof -
  obtain m where "s' = s\<lparr>st_outstanding := m\<rparr>" "gomap_ok (st_outstanding s)" "gomap_ok m" "map_of (st_outstanding s) = map_of m"
    using assms by (rule same_streamE)
  then show ?thesis
    by (auto simp: score_hit_def pf_record_outstanding fun_eq_iff map_of_delete_if same_stream_def)
qed

lemma walk_same:
  assumes "same_stream s s'"
  shows "same_stream (foldl (score_step c now) s (st_outstanding s)) (foldl (score_step c now) s' (st_outstanding s'))"
proof -
  obtain m where m: "s' = s\<lparr>st_outstanding := m\<rparr>" "gomap_ok (st_outstanding s)" "gomap_ok m" "map_of (st_outstanding s) = map_of m"
    using assms by (rule same_streamE)
  have "mset (st_outstanding s) = mset m"
    using m by (intro gomap_same_mset)
  then have n: "length (filter (late c now) (st_outstanding s)) = length (filter (late c now) m)"
    and k: "set (st_outstanding s) = set m"
    by (metis mset_filter size_mset, metis set_mset_mset)
  show ?thesis
    unfolding score_walk using m n k
    by (auto simp: condemn_outstanding condemn_keeps gomap_ok_filter fun_eq_iff
        map_of_filter_keys [where P = "\<lambda>k. k \<notin> fst ` {x \<in> set m. late c now x}"] same_stream_def)
qed

lemma track_same:
  assumes "same_stream s s'"
  shows "same_stream (track c s i) (track c s' i)"
proof -
  obtain m where "s' = s\<lparr>st_outstanding := m\<rparr>" "gomap_ok (st_outstanding s)" "gomap_ok m" "map_of (st_outstanding s) = map_of m"
    using assms by (rule same_streamE)
  then show ?thesis
    by (auto simp: track_def Let_def same_stream_def)
qed

lemma predict_loop_same:
  "same_stream s s' \<Longrightarrow> fst (predict_loop b now s is) = fst (predict_loop b now s' is)
     \<and> same_stream (snd (predict_loop b now s is)) (snd (predict_loop b now s' is))"
proof (induction "is" arbitrary: s s')
  case (Cons i "is")
  obtain m where m: "s' = s\<lparr>st_outstanding := m\<rparr>" "gomap_ok (st_outstanding s)" "gomap_ok m" "map_of (st_outstanding s) = map_of m"
    using Cons.prems by (rule same_streamE)
  let ?u = "\<lambda>s. s\<lparr>st_outstanding := AList.update (predict_at b s i) now (st_outstanding s)\<rparr>"
  have "predict_at b s' i = predict_at b s i" using m by (simp add: predict_at_def)
  moreover have "same_stream (?u s) (?u s')"
    using m by (intro same_streamI) (auto simp: predict_at_def fun_eq_iff map_of_update_if)
  ultimately show ?case
    using Cons.IH [OF Cons.prems] Cons.IH [of "?u s" "?u s'"] m
    by (auto simp: Let_def split: prod.splits)
qed simp

text \<open>The answer, and the stream the detector is left with, are those of any order of the map.\<close>

lemma observe_stream_same:
  assumes "same_stream s s'"
  shows "fst (observe_stream c s b now) = fst (observe_stream c s' b now)
     \<and> same_stream (snd (observe_stream c s b now)) (snd (observe_stream c s' b now))"
proof -
  let ?t = "\<lambda>s. track c (score c s (bIndex b) now) (bIndex b)"
  have same: "same_stream (?t s) (?t s')"
    unfolding score_def Let_def using assms by (intro track_same walk_same score_hit_same)
  then have "confirmed c (?t s) = confirmed c (?t s')"
    by (auto simp: confirmed_def elim!: same_streamE)
  then show ?thesis
    using same predict_loop_same [OF same] by (simp add: observe_stream_def Let_def)
qed

section \<open>Predictions\<close>

lemma predict_loop_stride: "predict_loop b now s is = (out, s') \<Longrightarrow> s' = s\<lparr>st_outstanding := st_outstanding s'\<rparr>"
  by (induction "is" arbitrary: s out) (force simp: Let_def split: if_splits prod.splits)+

lemma predict_at_outstanding [simp]: "predict_at b (s\<lparr>st_outstanding := m\<rparr>) i = predict_at b s i"
  by (simp add: predict_at_def)

lemma predict_loop_out:
  assumes "predict_loop b now s is = (out, s')"
  shows "distinct (map bIndex out) \<and> length out \<le> length is
     \<and> (\<forall>p\<in>set out. Stream p = Stream b \<and> (\<exists>i\<in>set is. bIndex p = predict_at b s i)
          \<and> map_of (st_outstanding s) (bIndex p) = None)
     \<and> map_of (st_outstanding s') = (\<lambda>i. if i \<in> bIndex ` set out then Some now else map_of (st_outstanding s) i)"
  using assms
proof (induction "is" arbitrary: s out)
  case (Cons i "is")
  show ?case
  proof (cases "map_of (st_outstanding s) (predict_at b s i)")
    case None
    let ?s = "s\<lparr>st_outstanding := AList.update (predict_at b s i) now (st_outstanding s)\<rparr>"
    obtain out2 where o: "predict_loop b now ?s is = (out2, s')" "out = \<lparr>Stream = Stream b, bIndex = predict_at b s i\<rparr> # out2"
      using Cons.prems None by (auto simp: Let_def split: prod.splits)
    show ?thesis
      using Cons.IH [OF o(1)] o(2) None by (auto simp: map_of_update_if fun_eq_iff split: if_splits)
  next
    case (Some t)
    then show ?thesis using Cons.IH [of s out] Cons.prems by (auto simp: Let_def)
  qed
qed simp


section \<open>Confirmation\<close>

text \<open>
  The reads of a stream, newest first. \<open>in_step\<close> says that the latest \<open>n\<close> of a list are in
  arithmetic progression, in the arithmetic the code subtracts in.
\<close>

definition in_step :: "int \<Rightarrow> nat \<Rightarrow> int list \<Rightarrow> bool" where
  "in_step d n xs \<longleftrightarrow> n \<le> length xs \<and> (\<forall>i. Suc i < n \<longrightarrow> wrap64 (xs ! i - xs ! Suc i) = d)"

lemma in_step_Cons: "in_step d n (x # xs) \<Longrightarrow> wrap64 (y - x) = d \<Longrightarrow> in_step d (Suc n) (y # x # xs)"
  by (auto simp: in_step_def nth_Cons split: nat.splits)

lemma in_step_le: "in_step d n xs \<Longrightarrow> m \<le> n \<Longrightarrow> in_step d m xs"
  by (auto simp: in_step_def)

definition stream_inv :: "pf_config \<Rightarrow> int list \<Rightarrow> pf_stream \<Rightarrow> bool" where
  "stream_inv c hs s \<longleftrightarrow> (st_started s \<longleftrightarrow> hs \<noteq> []) \<and> (hs \<noteq> [] \<longrightarrow> st_last s = hd hs)
     \<and> int (length (st_recent s)) \<le> Window c
     \<and> (st_stride s = 0 \<longrightarrow> st_runs s = 0)
     \<and> (st_stride s \<noteq> 0 \<longrightarrow> (\<exists>n. st_runs s = wrap64 (int n) \<and> in_step (st_stride s) (n + 2) (remdups_adj hs)))"

lemma stream_inv_new: "0 < Window c \<Longrightarrow> stream_inv c [] new_stream"
  by (simp add: stream_inv_def new_stream_def)

lemma stream_inv_outstanding: "stream_inv c hs (s\<lparr>st_outstanding := m\<rparr>) = stream_inv c hs s"
  by (simp add: stream_inv_def)

lemma record_stream_inv: "0 < Window c \<Longrightarrow> stream_inv c hs s \<Longrightarrow> stream_inv c hs (pf_record c s b)"
  using pf_record_window [of c s b] pf_record_frame [where c = c and s = s and b = b]
  by (cases "mutes c s b") (simp_all add: stream_inv_def)

lemma score_stream_inv:
  assumes "0 < Window c" "stream_inv c hs s"
  shows "stream_inv c hs (score c s i now)"
proof -
  have "stream_inv c hs (condemn c n s)" if "stream_inv c hs s" for n s
    using that by (induction n) (simp_all add: condemn_Suc record_stream_inv assms(1))
  moreover have "stream_inv c hs (score_hit c s i)"
    using assms by (simp add: score_hit_def stream_inv_outstanding record_stream_inv)
  ultimately show ?thesis
    by (simp add: score_def Let_def score_walk stream_inv_outstanding)
qed

lemma wrap64_diff_0: "in_i64 a \<Longrightarrow> in_i64 b \<Longrightarrow> wrap64 (a - b) = 0 \<longleftrightarrow> a = b"
proof -
  assume ab: "in_i64 a" "in_i64 b"
  have "a = b" if w: "wrap64 (a - b) = 0"
  proof (rule ccontr)
    assume "a \<noteq> b"
    have "(a - b + 9223372036854775808) mod 18446744073709551616 = 9223372036854775808 mod 18446744073709551616"
      using w by (simp add: wrap64_def)
    then have "18446744073709551616 dvd a - b" unfolding mod_eq_dvd_iff by simp
    then have "18446744073709551616 \<le> \<bar>a - b\<bar>" using \<open>a \<noteq> b\<close> dvd_imp_le_int [of "a - b" 18446744073709551616] by simp
    then show False using ab unfolding i64_defs by linarith
  qed
  then show ?thesis by (auto simp: wrap64_id)
qed

lemma track_stream_inv:
  assumes inv: "stream_inv c hs s" and i: "in_i64 i" "\<forall>h\<in>set hs. in_i64 h"
  shows "stream_inv c (i # hs) (track c s i)"
proof (cases hs)
  case Nil
  then show ?thesis using inv by (auto simp: stream_inv_def track_def in_step_def)
next
  case (Cons h hs')
  note inv = inv [unfolded Cons stream_inv_def]
  have zero: "wrap64 (i - h) = 0 \<longleftrightarrow> i = h" using i Cons by (intro wrap64_diff_0) auto
  obtain t where t: "remdups_adj (h # hs') = h # t"
    by (metis remdups_adj_Cons_alt)
  show ?thesis
  proof (cases "i = h")
    case True
    then show ?thesis using inv Cons by (simp add: stream_inv_def track_def Let_def wrap64_id)
  next
    case False
    then have r: "remdups_adj (i # hs) = i # h # t" using t Cons by simp
    have "\<exists>n. 0 = wrap64 (int n) \<and> in_step (wrap64 (i - h)) (n + 2) (i # h # t)"
      by (intro exI [of _ 0]) (simp add: in_step_def less_Suc_eq wrap64_id)
    moreover have "\<exists>n. wrap64 (st_runs s + 1) = wrap64 (int n) \<and> in_step (st_stride s) (n + 2) (i # h # t)"
      if "wrap64 (i - h) = st_stride s"
    proof -
      have "st_stride s \<noteq> 0" using that zero False by simp
      then obtain n where n: "st_runs s = wrap64 (int n)" "in_step (st_stride s) (n + 2) (h # t)"
        using inv t by auto
      then have "in_step (st_stride s) (Suc n + 2) (i # h # t)" using in_step_Cons that by fastforce
      then show ?thesis using n(1) by (intro exI [of _ "Suc n"]) (simp add: wrap64_add_wrap [of "int n" 1] add.commute [of 1])
    qed
    moreover have "st_stride (track c s i) = wrap64 (i - h)" "st_last (track c s i) = i" "st_started (track c s i)"
        "int (length (st_recent (track c s i))) \<le> Window c"
        "st_runs (track c s i) = (if wrap64 (i - h) = st_stride s then wrap64 (st_runs s + 1) else 0)"
      using inv False zero by (auto simp: track_def Let_def)
    ultimately show ?thesis
      using False zero r by (auto simp: stream_inv_def)
  qed
qed

lemma confirmed_in_step:
  assumes "stream_inv c hs s" "confirmed c s" "3 \<le> Confirmations c"
  shows "st_stride s \<noteq> 0 \<and> in_step (st_stride s) (nat (Confirmations c)) (remdups_adj hs)"
proof -
  have conf: "Confirmations c \<le> wrap64 (st_runs s + 2)" using assms(2) by (simp add: confirmed_def)
  have nz: "st_stride s \<noteq> 0"
  proof
    assume "st_stride s = 0"
    then have "wrap64 (st_runs s + 2) = 2" using assms(1) by (simp add: stream_inv_def wrap64_id i64_defs)
    then show False using conf assms(3) by simp
  qed
  then obtain n where n: "st_runs s = wrap64 (int n)" "in_step (st_stride s) (n + 2) (remdups_adj hs)"
    using assms(1) by (auto simp: stream_inv_def)
  have "Confirmations c \<le> int n + 2"
    using conf wrap64_le [of "int n + 2"] n(1) by (simp add: wrap64_add_wrap)
  then show ?thesis using nz n(2) by (auto elim: in_step_le)
qed

lemma observe_stream_inv:
  assumes "stream_inv c hs s" "0 < Window c" "in_i64 (bIndex b)" "\<forall>h\<in>set hs. in_i64 h"
  shows "stream_inv c (bIndex b # hs) (snd (observe_stream c s b now))"
proof -
  have t: "stream_inv c (bIndex b # hs) (track c (score c s (bIndex b) now) (bIndex b))"
    using assms by (intro track_stream_inv score_stream_inv)
  obtain out s' where p: "predict_loop b now (track c (score c s (bIndex b) now) (bIndex b)) [1..Depth c] = (out, s')"
    by fastforce
  have "stream_inv c (bIndex b # hs) s'"
    using t predict_loop_stride [OF p] by (metis stream_inv_outstanding)
  then show ?thesis using t p by (simp add: observe_stream_def Let_def)
qed


section \<open>The detector\<close>

text \<open>A run of reads on a detector, and the reads of one stream in it, newest first.\<close>

fun pf_run :: "detector \<Rightarrow> (pf_block \<times> time) list \<Rightarrow> detector" where
  "pf_run d [] = d"
| "pf_run d ((b, now) # rs) = pf_run (snd (pf_Observe d b now)) rs"

definition reads_of :: "string \<Rightarrow> (pf_block \<times> time) list \<Rightarrow> int list" where
  "reads_of name rs = rev (map (bIndex \<circ> fst) (filter (\<lambda>r. Stream (fst r) = name) rs))"

definition detector_inv :: "(string \<Rightarrow> int list) \<Rightarrow> detector \<Rightarrow> bool" where
  "detector_inv h d \<longleftrightarrow> (\<forall>name. stream_inv (d_cfg d) (h name) (stream_at d name))"

lemma pf_Observe_frame [simp]: "d_cfg (snd (pf_Observe d b now)) = d_cfg d"
  by (simp add: pf_Observe_def split: prod.splits)

lemma stream_at_Observe:
  "stream_at (snd (pf_Observe d b now)) name =
     (if name = Stream b then snd (observe_stream (d_cfg d) (stream_at d (Stream b)) b now) else stream_at d name)"
  by (simp add: pf_Observe_def stream_at_def map_of_update_if split: prod.splits)

lemma pf_Observe_inv:
  assumes "detector_inv h d" "0 < Window (d_cfg d)" "in_i64 (bIndex b)" "\<forall>x\<in>set (h (Stream b)). in_i64 x"
  shows "detector_inv (h(Stream b := bIndex b # h (Stream b))) (snd (pf_Observe d b now))"
  using assms observe_stream_inv by (auto simp: detector_inv_def stream_at_Observe)

lemma pf_run_inv:
  assumes "detector_inv h d" "0 < Window (d_cfg d)" "\<forall>r\<in>set rs. in_i64 (bIndex (fst r))" "\<forall>n. \<forall>x\<in>set (h n). in_i64 x"
  shows "detector_inv (\<lambda>n. reads_of n rs @ h n) (pf_run d rs) \<and> d_cfg (pf_run d rs) = d_cfg d"
  using assms
proof (induction rs arbitrary: d h)
  case Nil
  then show ?case by (simp add: reads_of_def)
next
  case (Cons r rs)
  obtain b now where r: "r = (b, now)" by force
  have "detector_inv (h(Stream b := bIndex b # h (Stream b))) (snd (pf_Observe d b now))"
    using Cons.prems r by (intro pf_Observe_inv) auto
  moreover have "(\<lambda>n. reads_of n rs @ (h(Stream b := bIndex b # h (Stream b))) n) = (\<lambda>n. reads_of n (r # rs) @ h n)"
    by (auto simp: reads_of_def r fun_eq_iff)
  moreover have "\<forall>n. \<forall>x\<in>set ((h(Stream b := bIndex b # h (Stream b))) n). in_i64 x"
    using Cons.prems r by auto
  ultimately show ?case
    using Cons.IH [of "h(Stream b := bIndex b # h (Stream b))" "snd (pf_Observe d b now)"] Cons.prems r
    by (simp del: fun_upd_apply)
qed

lemma New_detector_inv: "New_detector c = Some d \<Longrightarrow> detector_inv (\<lambda>_. []) d \<and> d_cfg d = c \<and> pf_Validate c"
  by (auto simp: New_detector_def detector_inv_def stream_at_def stream_inv_new pf_Validate_def split: if_splits)

text \<open>Every prediction continues the progression of the latest \<open>Confirmations\<close> reads of its stream.\<close>

lemma observe_stream_out:
  assumes "observe_stream c s b now = (out, s')" "p \<in> set out"
  defines "t \<equiv> track c (score c s (bIndex b) now) (bIndex b)"
  shows "confirmed c t" "predict_loop b now t [1..Depth c] = (out, s')" "st_stride s' = st_stride t"
proof -
  show *: "confirmed c t" "predict_loop b now t [1..Depth c] = (out, s')"
    using assms by (auto simp: observe_stream_def Let_def split: if_splits)
  show "st_stride s' = st_stride t" using predict_loop_stride [OF *(2)] by (metis pf_stream.select_convs(2) pf_stream.surjective pf_stream.update_convs(5))
qed

lemma prediction_continues:
  assumes d: "New_detector c = Some d" and rs: "\<forall>r\<in>set rs. in_i64 (bIndex (fst r))" and b: "in_i64 (bIndex b)"
    and out: "pf_Observe (pf_run d rs) b now = (out, d')" "p \<in> set out"
  shows "\<exists>stride i. stride \<noteq> 0 \<and> in_step stride (nat (Confirmations c)) (remdups_adj (bIndex b # reads_of (Stream b) rs))
     \<and> 1 \<le> i \<and> i \<le> Depth c \<and> Stream p = Stream b \<and> bIndex p = wrap64 (bIndex b + stride * i)"
proof -
  let ?d = "pf_run d rs" and ?hs = "reads_of (Stream b) rs"
  have inv: "detector_inv (\<lambda>n. reads_of n rs) ?d" "d_cfg ?d = c" "pf_Validate c"
    using pf_run_inv [of "\<lambda>_. []" d rs] New_detector_inv [OF d] rs by (auto simp: pf_Validate_def)
  have hs: "\<forall>h\<in>set ?hs. in_i64 h" using rs by (auto simp: reads_of_def)
  obtain s' where o: "observe_stream c (stream_at ?d (Stream b)) b now = (out, s')"
    using out(1) inv(2) by (auto simp: pf_Observe_def split: prod.splits)
  let ?t = "track c (score c (stream_at ?d (Stream b)) (bIndex b) now) (bIndex b)"
  have "stream_inv c (bIndex b # ?hs) ?t"
    using inv hs b by (intro track_stream_inv score_stream_inv) (auto simp: detector_inv_def pf_Validate_def)
  then have step: "st_stride ?t \<noteq> 0" "in_step (st_stride ?t) (nat (Confirmations c)) (remdups_adj (bIndex b # ?hs))"
    using confirmed_in_step observe_stream_out(1) [OF o out(2)] inv(3) by (auto simp: pf_Validate_def)
  obtain i where "i \<in> {1..Depth c}" "Stream p = Stream b" "bIndex p = predict_at b ?t i"
    using predict_loop_out [OF observe_stream_out(2) [OF o out(2)]] out(2) by fastforce
  then show ?thesis
    using step wrap64_add_wrap [of "st_stride ?t * i" "bIndex b"]
    by (intro exI [of _ "st_stride ?t"] exI [of _ i]) (simp add: predict_at_def add.commute)
qed

section \<open>A muted stream\<close>

definition muted_on :: "int \<Rightarrow> pf_stream \<Rightarrow> bool" where
  "muted_on m s \<longleftrightarrow> st_muted s \<and> st_started s \<and> st_mutedStride s = m \<and> (st_stride s = 0 \<or> st_stride s = m)"

lemma record_muted_on: "muted_on m s \<Longrightarrow> muted_on m (pf_record c s b) \<and> st_last (pf_record c s b) = st_last s"
  by (auto simp: muted_on_def pf_record_def Let_def)

lemma score_muted_on:
  assumes "muted_on m s"
  shows "muted_on m (score c s i now) \<and> st_last (score c s i now) = st_last s"
proof -
  have out: "muted_on m (s\<lparr>st_outstanding := x\<rparr>) = muted_on m s" for s x by (simp add: muted_on_def)
  have "muted_on m (condemn c n s) \<and> st_last (condemn c n s) = st_last s" if "muted_on m s" for n s
    using that by (induction n) (simp_all add: condemn_Suc record_muted_on pf_record_frame)
  moreover have "muted_on m (score_hit c s i) \<and> st_last (score_hit c s i) = st_last s"
    using assms by (simp add: score_hit_def out record_muted_on pf_record_frame)
  ultimately show ?thesis
    by (simp add: score_def Let_def score_walk out)
qed

lemma observe_muted_on:
  assumes "muted_on m s" "wrap64 (bIndex b - st_last s) \<in> {0, m}"
  shows "fst (observe_stream c s b now) = [] \<and> muted_on m (snd (observe_stream c s b now))
     \<and> st_last (snd (observe_stream c s b now)) = bIndex b"
proof -
  have t: "muted_on m (track c s' (bIndex b)) \<and> st_last (track c s' (bIndex b)) = bIndex b"
    if "muted_on m s'" "st_last s' = st_last s" for s'
    using that assms(2) by (auto simp: muted_on_def track_def Let_def)
  then have *: "muted_on m (track c (score c s (bIndex b) now) (bIndex b))"
     "st_last (track c (score c s (bIndex b) now) (bIndex b)) = bIndex b"
    using score_muted_on [OF assms(1)] by auto
  then have "\<not> confirmed c (track c (score c s (bIndex b) now) (bIndex b))"
    by (simp add: confirmed_def muted_on_def)
  then show ?thesis using * by (simp add: observe_stream_def Let_def)
qed

end
