(* ===== verification/Data_Server.thy ===== *)
theory Data_Server
  imports Tier_View Driver_Backend Efficiency Metrics Prefetch
begin

text \<open>
  Package dataserver (\<open>internal/dataserver/dataserver.go\<close>, \<open>ahead.go\<close>): a byte range of an immutable
  object, from the fast tier where its blocks are resident and from the backend where they are not.

  The server is a record with the tier, the backend and everything it counts. What it is told by its
  surroundings is read from \<open>sv_env\<close> at the tick of the asking: the clock, whether a read of the
  tier's device fails, and where a write to it stops. Each question moves the tick on. Whether the
  caller's context is done is asked before each block and is an argument of the read. The queue of
  predictions is a list of at most \<open>aheadQueue\<close> keys, and \<open>fetch_next\<close> is one turn of the worker that
  drains it.

  The loop of \<open>ReadRange\<close> gets as much fuel as the range has blocks: \<open>start\<close> grows by a block each
  time and stops at \<open>end\<close>. It can need more only where \<open>start\<close> wraps, in the last block an offset can
  count; the theorems about a read ask for one block of distance from there.
\<close>

section \<open>The server\<close>

record ds_stats =
  Blocks :: int
  Hits :: int
  Fetched :: int
  Narrowed :: int
  Admitted :: int
  NotAdmitted :: int
  Prefetched :: int
  PrefetchRefused :: int
  PrefetchFailed :: int
  PrefetchDropped :: int

record surroundings =
  e_now :: "nat \<Rightarrow> time"
  e_read_fails :: "nat \<Rightarrow> bool"
  e_write :: "nat \<Rightarrow> write_fault"

datatype ds_error =
    Ds_Refused | Ds_Cancelled | Ds_Driver driver_error | Ds_Assembled | Ds_Contradicts | Ds_Config | Ds_Fuel

record 'w server =
  sv_tier :: cache
  sv_backend :: "'w backend"
  sv_name :: string
  sv_maxRead :: int
  sv_idle :: duration
  sv_exchange :: duration
  sv_block :: int
  sv_stats :: ds_stats
  sv_score :: scoreboard
  sv_detect :: "detector option"
  sv_ahead :: "Key list"
  sv_reg :: "metrics_registry option"
  sv_ready :: "readiness option"
  sv_env :: surroundings
  sv_tick :: nat

definition aheadQueue :: nat where
  "aheadQueue = 64"

definition DefaultMaxRead :: int where
  "DefaultMaxRead = 67108864"

definition DefaultIdle :: duration where
  "DefaultIdle = 5 * Minute"

definition DefaultExchangeBudget :: duration where
  "DefaultExchangeBudget = 60 * Second"

definition maxListing :: int where
  "maxListing = 4096"

record ds_config =
  cBackend :: string
  cIdle :: duration
  cExchange :: duration
  cMetrics :: "metrics_registry option"
  cReady :: "readiness option"
  cPrefetch :: "pf_config option"
  cMaxRead :: int

definition zero_stats :: ds_stats where
  "zero_stats = \<lparr>Blocks = 0, Hits = 0, Fetched = 0, Narrowed = 0, Admitted = 0, NotAdmitted = 0, Prefetched = 0,
                 PrefetchRefused = 0, PrefetchFailed = 0, PrefetchDropped = 0\<rparr>"

definition New_server :: "cache option \<Rightarrow> 'w backend option \<Rightarrow> ds_config \<Rightarrow> surroundings \<Rightarrow> ds_error + 'w server" where
  "New_server tier backend c env =
     (case (tier, backend) of
        (Some t, Some b) \<Rightarrow>
          if cBackend c = [] then Inl Ds_Config
          else if cMaxRead c < 0 then Inl Ds_Config
          else if cIdle c < 0 then Inl Ds_Config
          else if cExchange c < 0 then Inl Ds_Config
          else
            let s = \<lparr>sv_tier = t, sv_backend = b, sv_name = cBackend c,
                     sv_maxRead = (if cMaxRead c = 0 then DefaultMaxRead else cMaxRead c),
                     sv_idle = (if cIdle c = 0 then DefaultIdle else cIdle c),
                     sv_exchange = (if cExchange c = 0 then DefaultExchangeBudget else cExchange c),
                     sv_block = BlockSize (c_cfg t), sv_stats = zero_stats, sv_score = New_scoreboard,
                     sv_detect = None, sv_ahead = [], sv_reg = cMetrics c, sv_ready = cReady c,
                     sv_env = env, sv_tick = 0\<rparr>
            in (case cPrefetch c of
                  None \<Rightarrow> Inr s
                | Some p \<Rightarrow> (case New_detector p of
                     None \<Rightarrow> Inl Ds_Config | Some d \<Rightarrow> Inr (s\<lparr>sv_detect := Some d\<rparr>)))
      | _ \<Rightarrow> Inl Ds_Config)"

section \<open>What it counts\<close>

definition sv_now :: "'w server \<Rightarrow> time \<times> 'w server" where
  "sv_now s = (e_now (sv_env s) (sv_tick s), s\<lparr>sv_tick := Suc (sv_tick s)\<rparr>)"

definition ds_record :: "(ds_stats \<Rightarrow> ds_stats) \<Rightarrow> 'w server \<Rightarrow> 'w server" where
  "ds_record f s = s\<lparr>sv_stats := f (sv_stats s)\<rparr>"

definition measure_read :: "'w server \<Rightarrow> read_source \<Rightarrow> int \<Rightarrow> duration \<Rightarrow> 'w server" where
  "measure_read s src n took = s\<lparr>sv_score := Record (sv_score s) \<lparr>Source = src, rBytes = n, Took = took\<rparr>\<rparr>"

definition reg_add :: "'w server \<Rightarrow> string \<Rightarrow> labels \<Rightarrow> float64 \<Rightarrow> 'w server" where
  "reg_add s name ls x = (case sv_reg s of None \<Rightarrow> s | Some r \<Rightarrow> s\<lparr>sv_reg := Some (snd (mAdd r name ls x))\<rparr>)"

definition predicted :: "'w server \<Rightarrow> string \<Rightarrow> 'w server" where
  "predicted s what = reg_add s ''forebay_prefetch_blocks_total'' [(''fact'', what)] 1"

definition inFlight :: "'w server \<Rightarrow> float64 \<Rightarrow> 'w server" where
  "inFlight s delta = reg_add s ''forebay_reads_in_flight'' [] delta"

definition delivered :: "'w server \<Rightarrow> read_source \<Rightarrow> int \<Rightarrow> 'w server" where
  "delivered s src n =
     (if src = Tier
      then reg_add (reg_add s ''forebay_tier_hits_total'' [] 1) ''forebay_read_bytes_total'' [(''source'', ''tier'')] (f64_of_int n)
      else reg_add s ''forebay_read_bytes_total'' [(''source'', ''backend'')] (f64_of_int n))"

definition Duration_Seconds :: "duration \<Rightarrow> float64" where
  "Duration_Seconds d =
     (let sec = go_div d Second; nsec = d - sec * Second
      in f64_add (f64_of_int sec) (f64_div (f64_of_int nsec) 1000000000))"

definition answered :: "'w server \<Rightarrow> duration \<Rightarrow> 'w server" where
  "answered s took =
     (let s1 = (case sv_reg s of None \<Rightarrow> s
                | Some r \<Rightarrow> s\<lparr>sv_reg := Some (snd (mObserve r ''forebay_read_seconds'' [] (Duration_Seconds took)))\<rparr>)
      in case sv_ready s1 of None \<Rightarrow> s1
         | Some rd \<Rightarrow> (case sv_now s1 of (t, s2) \<Rightarrow> s2\<lparr>sv_ready := Some (rd_Observe rd took t)\<rparr>))"

definition Efficiency_of :: "'w server \<Rightarrow> estimate" where
  "Efficiency_of s = Estimate (sv_score s)"

section \<open>Blocks\<close>

definition block_key :: "'w server \<Rightarrow> string \<Rightarrow> string \<Rightarrow> int \<Rightarrow> Key" where
  "block_key s tenant obj index = \<lparr>kTenant = tenant, Block = \<lparr>BlockRef.Backend = sv_name s, Object = obj, Index = index\<rparr>\<rparr>"

definition queue_ahead :: "string \<Rightarrow> string \<Rightarrow> 'w server \<Rightarrow> pf_block \<Rightarrow> 'w server" where
  "queue_ahead tenant obj s b =
     (if length (sv_ahead s) < aheadQueue then s\<lparr>sv_ahead := sv_ahead s @ [block_key s tenant obj (bIndex b)]\<rparr>
      else predicted (ds_record (\<lambda>st. st\<lparr>PrefetchDropped := wrap64 (PrefetchDropped st + 1)\<rparr>) s) ''dropped'')"

definition predict :: "'w server \<Rightarrow> string \<Rightarrow> string \<Rightarrow> int \<Rightarrow> 'w server" where
  "predict s tenant obj index =
     (case sv_detect s of
        None \<Rightarrow> s
      | Some d \<Rightarrow>
          (case sv_now s of (t, s1) \<Rightarrow>
             (case pf_Observe d \<lparr>Stream = tenant @ ''/'' @ obj, bIndex = index\<rparr> t of
                (next, d') \<Rightarrow> foldl (queue_ahead tenant obj) (s1\<lparr>sv_detect := Some d'\<rparr>) next)))"

definition tier_read :: "'w server \<Rightarrow> Key \<Rightarrow> byte list option \<times> 'w server" where
  "tier_read s k =
     (case Read (e_read_fails (sv_env s) (sv_tick s)) (sv_tier s) k of
        (r, c) \<Rightarrow> (r, s\<lparr>sv_tier := c, sv_tick := Suc (sv_tick s)\<rparr>))"

definition tier_admit :: "'w server \<Rightarrow> Key \<Rightarrow> bytes \<Rightarrow> bool \<Rightarrow> (tier_error + bool) \<times> 'w server" where
  "tier_admit s k data prefetched =
     (case Admit (e_write (sv_env s) (sv_tick s)) (sv_tier s) k data prefetched of
        (r, c) \<Rightarrow> (r, s\<lparr>sv_tier := c, sv_tick := Suc (sv_tick s)\<rparr>))"

definition backend_read :: "'w server \<Rightarrow> string \<Rightarrow> int \<Rightarrow> int \<Rightarrow> (driver_error + bytes) \<times> 'w server" where
  "backend_read s obj offset len = (case b_ReadRange (sv_backend s) obj offset len of (r, b) \<Rightarrow> (r, s\<lparr>sv_backend := b\<rparr>))"

definition backend_size :: "'w server \<Rightarrow> string \<Rightarrow> (driver_error + int) \<times> 'w server" where
  "backend_size s obj = (case b_SizeOf (sv_backend s) obj of (r, b) \<Rightarrow> (r, s\<lparr>sv_backend := b\<rparr>))"

definition ds_admit :: "'w server \<Rightarrow> Key \<Rightarrow> bytes \<Rightarrow> 'w server" where
  "ds_admit s k data =
     (case tier_admit s k data False of
        (Inl _, s1) \<Rightarrow> ds_record (\<lambda>st. st\<lparr>NotAdmitted := wrap64 (NotAdmitted st + 1)\<rparr>) s1
      | (Inr True, s1) \<Rightarrow> ds_record (\<lambda>st. st\<lparr>Admitted := wrap64 (Admitted st + 1)\<rparr>) s1
      | (Inr False, s1) \<Rightarrow> s1)"

text \<open>A backend read that answered: counted, timed since \<open>began\<close>, and published.\<close>

definition fetched_block :: "'w server \<Rightarrow> (ds_stats \<Rightarrow> ds_stats) \<Rightarrow> time \<Rightarrow> bytes \<Rightarrow> 'w server" where
  "fetched_block s f began data =
     (case sv_now (ds_record f s) of (t, s1) \<Rightarrow>
        delivered (measure_read s1 read_source.Backend (int (length data)) (time_sub t began)) read_source.Backend (int (length data)))"

definition count_fetched :: "ds_stats \<Rightarrow> ds_stats" where
  "count_fetched st = st\<lparr>Blocks := wrap64 (Blocks st + 1), Fetched := wrap64 (Fetched st + 1)\<rparr>"

definition count_narrowed :: "ds_stats \<Rightarrow> ds_stats" where
  "count_narrowed st = st\<lparr>Blocks := wrap64 (Blocks st + 1), Narrowed := wrap64 (Narrowed st + 1)\<rparr>"

definition tailBySize :: "'w server \<Rightarrow> Key \<Rightarrow> string \<Rightarrow> int \<Rightarrow> int \<Rightarrow> (ds_error + bytes) \<times> 'w server" where
  "tailBySize s k obj start wantEnd =
     (case backend_size s obj of
        (Inl e, s1) \<Rightarrow> (Inl (Ds_Driver e), s1)
      | (Inr n, s1) \<Rightarrow>
          let len = wrap64 (n - start) in
          if n < wantEnd then (Inl (Ds_Driver ErrOutOfRange), s1)
          else if sv_block s1 \<le> len then (Inl Ds_Contradicts, s1)
          else case sv_now s1 of (began, s2) \<Rightarrow>
            (case backend_read s2 obj start len of
               (Inl e, s3) \<Rightarrow> (Inl (Ds_Driver e), s3)
             | (Inr data, s3) \<Rightarrow> (Inr data, ds_admit (fetched_block s3 count_fetched began data) k data)))"

text \<open>The last part of \<open>blockAt\<close>, for a backend that cannot say how large an object is.\<close>

definition narrowed_read :: "'w server \<Rightarrow> string \<Rightarrow> int \<Rightarrow> int \<Rightarrow> (ds_error + bytes) \<times> 'w server" where
  "narrowed_read s obj start wantEnd =
     (let narrow = wrap64 (wantEnd - start) in
      if narrow \<le> 0 \<or> sv_block s \<le> narrow then (Inl (Ds_Driver ErrOutOfRange), s)
      else case sv_now s of (began, s1) \<Rightarrow>
        (case backend_read s1 obj start narrow of
           (Inl e, s2) \<Rightarrow> (Inl (Ds_Driver e), s2)
         | (Inr data, s2) \<Rightarrow> (Inr data, fetched_block s2 count_narrowed began data)))"

definition fetch_block :: "'w server \<Rightarrow> Key \<Rightarrow> string \<Rightarrow> int \<Rightarrow> int \<Rightarrow> (ds_error + bytes) \<times> 'w server" where
  "fetch_block s k obj index wantEnd =
     (let start = wrap64 (index * sv_block s) in
      case sv_now s of (began, s1) \<Rightarrow>
        (case backend_read s1 obj start (sv_block s1) of
           (Inr data, s2) \<Rightarrow> (Inr data, ds_admit (fetched_block s2 count_fetched began data) k data)
         | (Inl e, s2) \<Rightarrow>
             if e \<noteq> ErrOutOfRange then (Inl (Ds_Driver e), s2)
             else if b_Supports (sv_backend s2) ObjectSize_cap then tailBySize s2 k obj start wantEnd
             else narrowed_read s2 obj start wantEnd))"

definition blockAt :: "'w server \<Rightarrow> string \<Rightarrow> string \<Rightarrow> int \<Rightarrow> int \<Rightarrow> (ds_error + bytes) \<times> 'w server" where
  "blockAt s tenant obj index wantEnd =
     (let k = block_key s tenant obj index in
      case sv_now (predict s tenant obj index) of (began, s1) \<Rightarrow>
        (case tier_read s1 k of
           (Some data, s2) \<Rightarrow>
             (case sv_now (ds_record (\<lambda>st. st\<lparr>Blocks := wrap64 (Blocks st + 1), Hits := wrap64 (Hits st + 1)\<rparr>) s2) of
                (t, s3) \<Rightarrow> (Inr data, delivered (measure_read s3 Tier (int (length data)) (time_sub t began)) Tier (int (length data))))
         | (None, s2) \<Rightarrow> fetch_block s2 k obj index wantEnd))"

section \<open>Reads\<close>

text \<open>What one block of the loop contributes, or the error it ends the read with.\<close>

definition slice_block :: "int \<Rightarrow> int \<Rightarrow> int \<Rightarrow> int \<Rightarrow> bytes \<Rightarrow> ds_error + bytes" where
  "slice_block block offset end start data =
     (let held = int (length data) in
      if held < block \<and> wrap64 (start + held) < end then Inl (Ds_Driver ErrOutOfRange)
      else let lo = (if start < offset then wrap64 (offset - start) else 0);
               hi = (if wrap64 (end - start) < held then wrap64 (end - start) else held)
           in Inr (take (nat hi - nat lo) (drop (nat lo) data)))"

fun read_loop :: "nat \<Rightarrow> (nat \<Rightarrow> bool) \<Rightarrow> nat \<Rightarrow> 'w server \<Rightarrow> string \<Rightarrow> string \<Rightarrow> int \<Rightarrow> int \<Rightarrow> int \<Rightarrow> bytes \<Rightarrow>
    (ds_error + bytes) \<times> 'w server" where
  "read_loop fuel ctx i s tenant obj offset end start out =
     (if \<not> start < end then (Inr out, s)
      else case fuel of
        0 \<Rightarrow> (Inl Ds_Fuel, s)
      | Suc fuel' \<Rightarrow>
          if ctx i then (Inl Ds_Cancelled, s)
          else case blockAt s tenant obj (go_div start (sv_block s)) end of
                 (Inl e, s1) \<Rightarrow> (Inl e, s1)
               | (Inr data, s1) \<Rightarrow>
                   (case slice_block (sv_block s1) offset end start data of
                      Inl e \<Rightarrow> (Inl e, s1)
                    | Inr part \<Rightarrow> read_loop fuel' ctx (Suc i) s1 tenant obj offset end (wrap64 (start + sv_block s1)) (out @ part)))"

declare read_loop.simps [simp del]

definition range_blocks :: "int \<Rightarrow> int \<Rightarrow> int \<Rightarrow> nat" where
  "range_blocks block offset end = nat ((end - 1) div block - offset div block + 1)"

definition ds_ReadRange :: "(nat \<Rightarrow> bool) \<Rightarrow> 'w server \<Rightarrow> string \<Rightarrow> string \<Rightarrow> int \<Rightarrow> int \<Rightarrow> (ds_error + bytes) \<times> 'w server" where
  "ds_ReadRange ctx s tenant obj offset len =
     (if tenant = [] then (Inl Ds_Refused, s)
      else if obj = [] then (Inl Ds_Refused, s)
      else if offset < 0 \<or> len < 0 then (Inl Ds_Refused, s)
      else if len = 0 then (Inr [], s)
      else if max_i64 - len < offset then (Inl Ds_Refused, s)
      else if sv_maxRead s < len then (Inl Ds_Refused, s)
      else case sv_now s of (began, s1) \<Rightarrow>
        let end = offset + len in
        case read_loop (range_blocks (sv_block s) offset end) ctx 0 (inFlight s1 1) tenant obj offset end
               (go_div offset (sv_block s) * sv_block s) [] of
          (r, s2) \<Rightarrow>
            (case r of Inl e \<Rightarrow> Inl e | Inr out \<Rightarrow> if int (length out) \<noteq> len then Inl Ds_Assembled else Inr out,
             case sv_now (inFlight s2 (- 1)) of (t, s3) \<Rightarrow> answered s3 (time_sub t began)))"

definition ds_SizeOf :: "'w server \<Rightarrow> string \<Rightarrow> string \<Rightarrow> (ds_error + int) \<times> 'w server" where
  "ds_SizeOf s tenant obj =
     (if tenant = [] then (Inl Ds_Refused, s)
      else if obj = [] then (Inl Ds_Refused, s)
      else case backend_size s obj of
             (Inl e, s1) \<Rightarrow> (Inl (Ds_Driver e), s1)
           | (Inr n, s1) \<Rightarrow> (if n < 0 then Inl Ds_Refused else Inr n, s1))"

definition ds_List :: "'w server \<Rightarrow> string \<Rightarrow> string \<Rightarrow> string \<Rightarrow> int \<Rightarrow> (ds_error + Entry list) \<times> 'w server" where
  "ds_List s tenant prefix after n =
     (if tenant = [] then (Inl Ds_Refused, s)
      else if n \<le> 0 \<or> maxListing < n then (Inl Ds_Refused, s)
      else case b_List (sv_backend s) prefix after n of
             (Inl e, b) \<Rightarrow> (Inl (Ds_Driver e), s\<lparr>sv_backend := b\<rparr>)
           | (Inr found, b) \<Rightarrow> (Inr found, s\<lparr>sv_backend := b\<rparr>))"

section \<open>Fetching ahead\<close>

definition fetchOne :: "'w server \<Rightarrow> Key \<Rightarrow> 'w server" where
  "fetchOne s k =
     (if Resident (sv_tier s) k then s
      else case sv_now s of (began, s1) \<Rightarrow>
        (case backend_read s1 (Object (Block k)) (wrap64 (Index (Block k) * sv_block s1)) (sv_block s1) of
           (Inl e, s2) \<Rightarrow> predicted (ds_record (\<lambda>st. st\<lparr>PrefetchFailed := wrap64 (PrefetchFailed st + 1)\<rparr>) s2) ''failed''
         | (Inr data, s2) \<Rightarrow>
             (case sv_now s2 of (t, s3) \<Rightarrow>
                (case tier_admit (measure_read s3 read_source.Backend (int (length data)) (time_sub t began)) k data True of
                   (Inr True, s4) \<Rightarrow> predicted (ds_record (\<lambda>st. st\<lparr>Prefetched := wrap64 (Prefetched st + 1)\<rparr>) s4) ''admitted''
                 | (Inl ErrWouldEvict, s4) \<Rightarrow> predicted (ds_record (\<lambda>st. st\<lparr>PrefetchRefused := wrap64 (PrefetchRefused st + 1)\<rparr>) s4) ''refused''
                 | (_, s4) \<Rightarrow> predicted (ds_record (\<lambda>st. st\<lparr>PrefetchDropped := wrap64 (PrefetchDropped st + 1)\<rparr>) s4) ''dropped''))))"

definition fetch_next :: "'w server \<Rightarrow> 'w server" where
  "fetch_next s = (case sv_ahead s of [] \<Rightarrow> s | k # ks \<Rightarrow> fetchOne (s\<lparr>sv_ahead := ks\<rparr>) k)"

end
