(* ===== verification/File_Driver.thy ===== *)
theory File_Driver
  imports Driver_Backend
begin

text \<open>
  Package filedriver (\<open>driver/filedriver/filedriver.go\<close>): the driver over a directory.

  The directory is a map from the segments of a path below the root to a file or a directory. What
  the filesystem refuses is read from a tape, one entry per call that can fail: \<open>None\<close> is success, and
  \<open>Some n\<close> a failure, after \<open>n\<close> bytes where bytes are written; an empty tape is a filesystem that does
  not fail. The end of a context, which two operations ask for last, is read from the same tape.
  Symbolic links and other writers of the directory are not modelled.

  The lemmas: the driver is lawful, an object that exists keeps its bytes whatever is written, a
  streamed write that is acknowledged left exactly the bytes described, and a caller that pages
  through a level sees each name once.
\<close>

section \<open>The directory\<close>

datatype fnode = FFile bytes | FDir

record fstore =
  fs_nodes :: "(string list, fnode) gomap"
  fs_faults :: "nat option list"

definition fault :: "fstore \<Rightarrow> nat option \<times> fstore" where
  "fault w = (case fs_faults w of [] \<Rightarrow> (None, w) | f # fs \<Rightarrow> (f, w\<lparr>fs_faults := fs\<rparr>))"

definition put_node :: "fstore \<Rightarrow> string list \<Rightarrow> fnode \<Rightarrow> fstore" where
  "put_node w segs n = w\<lparr>fs_nodes := AList.update segs n (fs_nodes w)\<rparr>"

definition del_node :: "fstore \<Rightarrow> string list \<Rightarrow> fstore" where
  "del_node w segs = w\<lparr>fs_nodes := AList.delete segs (fs_nodes w)\<rparr>"

definition children :: "fstore \<Rightarrow> string list \<Rightarrow> (string \<times> fnode) list" where
  "children w dir = map (\<lambda>sn. (last (fst sn), snd sn)) (filter (\<lambda>sn. fst sn \<noteq> [] \<and> butlast (fst sn) = dir) (fs_nodes w))"

section \<open>The driver\<close>

definition fd_Declare :: Declaration where
  "fd_Declare = \<lparr>Contract = 1, Capabilities = [ReadRange_cap, ObjectSize_cap, WriteObject_cap, DeleteObject_cap,
                  ListObjects_cap, WriteStream_cap]\<rparr>"

definition fd_path :: "string \<Rightarrow> driver_error + string list" where
  "fd_path obj =
     (if obj = [] then Inl ErrBadObject
      else let segments = Split obj (CHR ''/'') in
        if list_ex (\<lambda>s. s = [] \<or> s = ''.'' \<or> s = ''..'' \<or> CHR ''/'' \<in> set s) segments then Inl ErrBadObject
        else Inr segments)"

text \<open>The loop of \<open>List\<close>; a failed \<open>Info\<close> leaves the size at zero.\<close>

definition entry_of :: "fstore \<Rightarrow> string \<times> fnode \<Rightarrow> Entry \<times> fstore" where
  "entry_of w e =
     (case snd e of
        FDir \<Rightarrow> (\<lparr>eName = fst e, eDir = True, eBytes = 0\<rparr>, w)
      | FFile b \<Rightarrow> (case fault w of (f, w1) \<Rightarrow>
          (\<lparr>eName = fst e, eDir = False, eBytes = (if f = None then int (length b) else 0)\<rparr>, w1)))"

fun list_loop :: "fstore \<Rightarrow> string \<Rightarrow> int \<Rightarrow> (string \<times> fnode) list \<Rightarrow> Entry list \<Rightarrow> Entry list \<times> fstore" where
  "list_loop w after limit [] out = (out, w)"
| "list_loop w after limit (e # es) out =
     (if fst e \<le> after then list_loop w after limit es out
      else if int (length out) = limit then (out, w)
      else case entry_of w e of (entry, w1) \<Rightarrow> list_loop w1 after limit es (out @ [entry]))"

definition fd_List :: "fstore \<Rightarrow> string \<Rightarrow> string \<Rightarrow> int \<Rightarrow> (driver_error + Entry list) \<times> fstore" where
  "fd_List w prefix after limit =
     (case (if prefix = [] then Inr [] else fd_path prefix) of
        Inl e \<Rightarrow> (Inl e, w)
      | Inr dir \<Rightarrow>
          (case fault w of
             (Some _, w1) \<Rightarrow> (Inl ErrStore, w1)
           | (None, w1) \<Rightarrow>
               if dir \<noteq> [] \<and> map_of (fs_nodes w1) dir \<noteq> Some FDir then (Inr [], w1)
               else if limit < 0 \<or> 8796093022208 < limit then (Inl Driver_panic, w1)
               else case list_loop w1 after limit (sort_key fst (children w1 dir)) [] of
                      (out, w2) \<Rightarrow> (case fault w2 of (f, w3) \<Rightarrow> (if f = None then Inr out else Inl ErrStore, w3))))"

definition fd_SizeOf :: "fstore \<Rightarrow> string \<Rightarrow> (driver_error + int) \<times> fstore" where
  "fd_SizeOf w obj =
     (case fd_path obj of
        Inl e \<Rightarrow> (Inl e, w)
      | Inr p \<Rightarrow>
          (case fault w of
             (Some _, w1) \<Rightarrow> (Inl ErrStore, w1)
           | (None, w1) \<Rightarrow>
               (case map_of (fs_nodes w1) p of
                  None \<Rightarrow> Inl ErrStore
                | Some FDir \<Rightarrow> Inl ErrBadObject
                | Some (FFile b) \<Rightarrow> Inr (int (length b)), w1)))"

text \<open>
  \<open>make\<close> panics on a length no allocation can have. The section reader that \<open>ReadFull\<close> reads ends
  with the file, so a range that passed the check only because its end wrapped is an error.
\<close>

definition fd_ReadRange :: "fstore \<Rightarrow> string \<Rightarrow> int \<Rightarrow> int \<Rightarrow> (driver_error + bytes) \<times> fstore" where
  "fd_ReadRange w obj offset len =
     (case fd_path obj of
        Inl e \<Rightarrow> (Inl e, w)
      | Inr p \<Rightarrow>
          (case fault w of
             (Some _, w1) \<Rightarrow> (Inl ErrStore, w1)
           | (None, w1) \<Rightarrow>
               (case map_of (fs_nodes w1) p of
                  None \<Rightarrow> (Inl ErrStore, w1)
                | Some n \<Rightarrow>
                    (case fault w1 of
                       (Some _, w2) \<Rightarrow> (Inl ErrStore, w2)
                     | (None, w2) \<Rightarrow>
                         (case n of
                            FDir \<Rightarrow> (Inl ErrBadObject, w2)
                          | FFile b \<Rightarrow>
                              if int (length b) < wrap64 (offset + len) then (Inl ErrOutOfRange, w2)
                              else if len < 0 \<or> 281474976710656 < len then (Inl Driver_panic, w2)
                              else case fault w2 of
                                     (Some _, w3) \<Rightarrow> (Inl ErrStore, w3)
                                   | (None, w3) \<Rightarrow>
                                       (if nat offset + nat len \<le> length b
                                        then Inr (take (nat len) (drop (nat offset) b)) else Inl ErrStore, w3))))))"

text \<open>\<open>MkdirAll\<close> makes the missing levels, outermost first; a level that is a file stops it.\<close>

fun mkdirs :: "fstore \<Rightarrow> string list list \<Rightarrow> bool \<times> fstore" where
  "mkdirs w [] = (True, w)"
| "mkdirs w (d # ds) =
     (case map_of (fs_nodes w) d of
        Some FDir \<Rightarrow> mkdirs w ds
      | Some (FFile _) \<Rightarrow> (False, w)
      | None \<Rightarrow> (case fault w of
                   (Some _, w1) \<Rightarrow> (False, w1)
                 | (None, w1) \<Rightarrow> mkdirs (put_node w1 d FDir) ds))"

definition MkdirAll :: "fstore \<Rightarrow> string list \<Rightarrow> bool \<times> fstore" where
  "MkdirAll w dir = mkdirs w (map (\<lambda>n. take n dir) [1..<Suc (length dir)])"

text \<open>The part the two writes share: the levels, and the new file, which must not exist.\<close>

definition create_file :: "fstore \<Rightarrow> string list \<Rightarrow> bool \<times> fstore" where
  "create_file w p =
     (case MkdirAll w (butlast p) of
        (False, w1) \<Rightarrow> (False, w1)
      | (True, w1) \<Rightarrow>
          (case fault w1 of
             (Some _, w2) \<Rightarrow> (False, w2)
           | (None, w2) \<Rightarrow>
               if map_of (fs_nodes w2) p \<noteq> None then (False, w2) else (True, put_node w2 p (FFile []))))"

definition write_file :: "fstore \<Rightarrow> string list \<Rightarrow> bytes \<Rightarrow> bool \<times> fstore" where
  "write_file w p data =
     (case fault w of
        (Some n, w1) \<Rightarrow> (False, put_node w1 p (FFile (take n data)))
      | (None, w1) \<Rightarrow> (True, put_node w1 p (FFile data)))"

definition fd_WriteObject :: "fstore \<Rightarrow> string \<Rightarrow> bytes \<Rightarrow> driver_error option \<times> fstore" where
  "fd_WriteObject w obj data =
     (case fd_path obj of
        Inl e \<Rightarrow> (Some e, w)
      | Inr p \<Rightarrow>
          (case create_file w p of
             (False, w1) \<Rightarrow> (Some ErrStore, w1)
           | (True, w1) \<Rightarrow>
               (case write_file w1 p data of
                  (False, w2) \<Rightarrow> (Some ErrStore, w2)
                | (True, w2) \<Rightarrow> (case fault w2 of (f, w3) \<Rightarrow> (if f = None then None else Some ErrStore, w3)))))"

definition remove_file :: "fstore \<Rightarrow> string list \<Rightarrow> fstore" where
  "remove_file w p = (case fault w of (Some _, w1) \<Rightarrow> w1 | (None, w1) \<Rightarrow> del_node w1 p)"

text \<open>\<open>io.Copy\<close> from the source, limited to one byte more than was declared.\<close>

definition copied :: "source \<Rightarrow> int \<Rightarrow> bytes \<times> bool" where
  "copied src nbytes =
     (let lim = nat (wrap64 (nbytes + 1))
      in (take lim (src_bytes src), src_fails src \<and> length (src_bytes src) < lim))"

definition fd_WriteObjectFrom :: "fstore \<Rightarrow> string \<Rightarrow> source \<Rightarrow> int \<Rightarrow> driver_error option \<times> fstore" where
  "fd_WriteObjectFrom w obj src nbytes =
     (case fd_path obj of
        Inl e \<Rightarrow> (Some e, w)
      | Inr p \<Rightarrow>
          (case create_file w p of
             (False, w1) \<Rightarrow> (Some ErrStore, w1)
           | (True, w1) \<Rightarrow>
               (case copied src nbytes of
                  (data, failed) \<Rightarrow>
                    (case write_file w1 p data of
                       (ok, w2) \<Rightarrow>
                         if \<not> ok \<or> failed then (Some ErrStore, remove_file w2 p)
                         else if int (length data) \<noteq> nbytes then (Some ErrStore, remove_file w2 p)
                         else case fault w2 of
                                (Some _, w3) \<Rightarrow> (Some ErrStore, remove_file w3 p)
                              | (None, w3) \<Rightarrow>
                                  (case fault w3 of
                                     (Some _, w4) \<Rightarrow> (Some ErrStore, remove_file w4 p)
                                   | (None, w4) \<Rightarrow> (case fault w4 of (f, w5) \<Rightarrow> (if f = None then None else Some ErrStore, w5)))))))"

text \<open>\<open>os.Remove\<close> takes a file, or a directory with nothing in it.\<close>

definition fd_DeleteObject :: "fstore \<Rightarrow> string \<Rightarrow> driver_error option \<times> fstore" where
  "fd_DeleteObject w obj =
     (case fd_path obj of
        Inl e \<Rightarrow> (Some e, w)
      | Inr p \<Rightarrow>
          (case fault w of
             (Some _, w1) \<Rightarrow> (Some ErrStore, w1)
           | (None, w1) \<Rightarrow>
               (case map_of (fs_nodes w1) p of
                  None \<Rightarrow> (Some ErrStore, w1)
                | Some (FFile _) \<Rightarrow> (None, del_node w1 p)
                | Some FDir \<Rightarrow> if children w1 p = [] then (None, del_node w1 p) else (Some ErrStore, w1))))"

definition fd_SnapshotObject :: "fstore \<Rightarrow> string \<Rightarrow> (driver_error + string) \<times> fstore" where
  "fd_SnapshotObject w obj = (Inl ErrNotSupported, w)"

definition fd_CloneObject :: "fstore \<Rightarrow> string \<Rightarrow> string \<Rightarrow> driver_error option \<times> fstore" where
  "fd_CloneObject w src dst = (Some ErrNotSupported, w)"

definition file_driver :: "fstore Driver" where
  "file_driver = \<lparr>Declare = fd_Declare, dReadRange = fd_ReadRange, dSizeOf = fd_SizeOf, dWriteObject = fd_WriteObject,
     dDeleteObject = fd_DeleteObject, dSnapshotObject = fd_SnapshotObject, dCloneObject = fd_CloneObject,
     dList = Some fd_List, dWriteObjectFrom = Some fd_WriteObjectFrom\<rparr>"


section \<open>The driver is lawful\<close>

definition fd_contents :: "fstore \<Rightarrow> string \<Rightarrow> bytes option" where
  "fd_contents w obj =
     (case fd_path obj of
        Inl _ \<Rightarrow> None
      | Inr p \<Rightarrow> (case map_of (fs_nodes w) p of Some (FFile b) \<Rightarrow> Some b | _ \<Rightarrow> None))"

definition fd_well :: "fstore \<Rightarrow> bool" where
  "fd_well w \<longleftrightarrow> fs_faults w = []"

lemma fault_nodes [simp]: "fault w = (f, w') \<Longrightarrow> fs_nodes w' = fs_nodes w"
  by (auto simp: fault_def split: list.splits)

lemma fault_well: "fd_well w \<Longrightarrow> fault w = (None, w)"
  by (simp add: fault_def fd_well_def)

lemma fd_contents_nodes: "fs_nodes w' = fs_nodes w \<Longrightarrow> fd_contents w' = fd_contents w"
  by (intro ext) (simp add: fd_contents_def split: sum.splits)

lemma fd_contents_some:
  assumes "fd_contents w obj = Some b"
  obtains p where "fd_path obj = Inr p" "map_of (fs_nodes w) p = Some (FFile b)"
  using assms by (auto simp: fd_contents_def split: sum.splits option.splits fnode.splits)

lemma fd_read_nodes: "fd_ReadRange w obj off len = (r, w') \<Longrightarrow> fs_nodes w' = fs_nodes w"
  by (auto simp: fd_ReadRange_def split: sum.splits prod.splits option.splits fnode.splits if_splits)

lemma fd_size_nodes: "fd_SizeOf w obj = (r, w') \<Longrightarrow> fs_nodes w' = fs_nodes w"
  by (auto simp: fd_SizeOf_def split: sum.splits prod.splits option.splits)

lemma fd_read_cases:
  assumes "fd_ReadRange w obj off len = (r, w')"
  shows "(\<exists>b. fd_contents w obj = Some b \<and> (r = Inl ErrOutOfRange \<longrightarrow> int (length b) < wrap64 (off + len))
        \<and> (\<forall>d. r = Inr d \<longrightarrow> nat off + nat len \<le> length b \<and> d = take (nat len) (drop (nat off) b)))
     \<or> (\<exists>e. r = Inl e \<and> e \<noteq> ErrOutOfRange)"
  using assms unfolding fd_ReadRange_def
  by (auto simp: fd_contents_def fd_path_def Let_def split: sum.splits prod.splits option.splits fnode.splits if_splits)

lemma entry_of_name: "entry_of w e = (x, w1) \<Longrightarrow> eName x = fst e \<and> fs_nodes w1 = fs_nodes w"
  by (auto simp: entry_of_def split: fnode.splits prod.splits)

lemma list_loop_names:
  "list_loop w after limit es out = (out', w') \<Longrightarrow> int (length out) \<le> limit \<Longrightarrow>
   map eName out' = map eName out @ take (nat limit - length out) (filter (\<lambda>n. after < n) (map fst es)) \<and> fs_nodes w' = fs_nodes w"
proof (induction w after limit es out rule: list_loop.induct)
  case (2 w after limit e es out)
  show ?case
  proof (cases "fst e \<le> after")
    case True
    then show ?thesis using 2(1) "2.prems" by (simp add: not_less)
  next
    case gt: False
    show ?thesis
    proof (cases "int (length out) = limit")
      case True
      then show ?thesis using gt "2.prems" by auto
    next
      case False
      obtain x w1 where x: "entry_of w e = (x, w1)" by force
      have l: "nat limit - length out = Suc (nat limit - Suc (length out))" using False "2.prems"(2) by linarith
      have "map eName out' = map eName (out @ [x]) @ take (nat limit - length (out @ [x])) (filter (\<lambda>n. after < n) (map fst es)) \<and> fs_nodes w' = fs_nodes w1"
        using "2.prems" gt False x by (intro "2.IH"(2) [OF gt False x [symmetric]]) auto
      then show ?thesis using gt l entry_of_name [OF x] by (simp add: not_le)
    qed
  qed
qed simp

lemma list_loop_nodes: "list_loop w after limit es out = (out', w') \<Longrightarrow> fs_nodes w' = fs_nodes w"
  by (induction w after limit es out rule: list_loop.induct)
    (auto split: if_splits prod.splits dest: entry_of_name)

lemma fd_list_nodes: "fd_List w prefix after limit = (r, w') \<Longrightarrow> fs_nodes w' = fs_nodes w"
  unfolding fd_List_def
  by (cases "if prefix = [] then Inr [] else fd_path prefix"; cases "fault w"; cases "fst (fault w)")
    (auto split: if_splits prod.splits dest: list_loop_nodes)

lemma range_past_end:
  assumes "int n < wrap64 (off + len)" "0 \<le> off" "0 \<le> len"
  shows "n < nat off + nat len"
  using assms wrap64_le [of "off + len"] by linarith

interpretation filed: answering_driver file_driver fd_contents fd_well
proof unfold_locales
  fix w w' obj off len data r bs n e prefix after and s :: "driver_error + int" and list and es
  note d = file_driver_def
  show "\<exists>bs. fd_contents w obj = Some bs \<and> nat off + nat len \<le> length bs \<and> data = take (nat len) (drop (nat off) bs)"
    if "dReadRange file_driver w obj off len = (Inr data, w')"
    using fd_read_cases [of w obj off len "Inr data" w'] that by (auto simp: d)
  show "length bs < nat off + nat len"
    if "dReadRange file_driver w obj off len = (Inl ErrOutOfRange, w')" "0 \<le> off" "0 \<le> len" "fd_contents w obj = Some bs"
    using fd_read_cases [of w obj off len "Inl ErrOutOfRange" w'] that range_past_end by (auto simp: d)
  show "fd_contents w' = fd_contents w" if "dReadRange file_driver w obj off len = (r, w')"
    using that by (intro fd_contents_nodes fd_read_nodes) (simp add: d)
  show "\<exists>bs. fd_contents w obj = Some bs \<and> n = int (length bs)" if "dSizeOf file_driver w obj = (Inr n, w')"
    using that by (auto simp: d fd_SizeOf_def fd_contents_def split: sum.splits prod.splits option.splits fnode.splits)
  show "e \<noteq> ErrOutOfRange" if "dSizeOf file_driver w obj = (Inl e, w')"
    using that by (auto simp: d fd_SizeOf_def fd_path_def Let_def split: sum.splits prod.splits option.splits fnode.splits if_splits)
  show "fd_contents w' = fd_contents w" if "dSizeOf file_driver w obj = (s, w')"
    using that by (intro fd_contents_nodes fd_size_nodes) (simp add: d)
  show "fd_contents w' = fd_contents w" if "dList file_driver = Some list" "list w prefix after n = (es, w')"
    using that by (intro fd_contents_nodes fd_list_nodes [of w prefix after n es]) (simp add: d)
  show "\<exists>w'. fd_well w' \<and> dReadRange file_driver w obj off len =
        (if nat off + nat len \<le> length bs then Inr (take (nat len) (drop (nat off) bs)) else Inl ErrOutOfRange, w')"
    if "fd_well w" "fd_contents w obj = Some bs" "0 \<le> off" "0 \<le> len" "len \<le> 281474976710656" "off + len \<le> max_i64"
  proof -
    note h = that
    obtain p where p: "fd_path obj = Inr p" "map_of (fs_nodes w) p = Some (FFile bs)"
      using h(2) by (rule fd_contents_some)
    have "wrap64 (off + len) = off + len" using that(3-6) by (intro wrap64_id') (simp_all add: min_i64_def)
    moreover have "nat off + nat len \<le> length bs \<longleftrightarrow> \<not> int (length bs) < off + len" using that(3,4) by linarith
    ultimately show ?thesis
      using p that(1,4,5) by (intro exI [of _ w]) (simp add: d fd_ReadRange_def fault_well)
  qed
  show "\<exists>w'. fd_well w' \<and> dSizeOf file_driver w obj = (Inr (int (length bs)), w')"
    if "fd_well w" "fd_contents w obj = Some bs"
    using that by (elim fd_contents_some) (simp add: d fd_SizeOf_def fault_well)
qed

section \<open>Writes\<close>

text \<open>
  \<open>grew\<close>: nothing that was in the directory changed, and what is new are directories, except
  perhaps at one path.
\<close>

definition grew :: "string list \<Rightarrow> fstore \<Rightarrow> fstore \<Rightarrow> bool" where
  "grew p w w' \<longleftrightarrow> (\<forall>q. map_of (fs_nodes w) q \<noteq> None \<longrightarrow> map_of (fs_nodes w') q = map_of (fs_nodes w) q)
     \<and> (\<forall>q. q \<noteq> p \<and> map_of (fs_nodes w) q = None \<longrightarrow> map_of (fs_nodes w') q \<in> {None, Some FDir})"

lemma grew_refl: "fs_nodes w' = fs_nodes w \<Longrightarrow> grew p w w'"
  by (simp add: grew_def)

lemma grew_trans: "grew p a b \<Longrightarrow> grew p b c \<Longrightarrow> grew p a c"
  unfolding grew_def by (metis empty_iff insert_iff option.distinct(1))

lemma put_node_nodes [simp]: "map_of (fs_nodes (put_node w p n)) q = (if q = p then Some n else map_of (fs_nodes w) q)"
  by (simp add: put_node_def map_of_update_if)

lemma del_node_nodes [simp]: "map_of (fs_nodes (del_node w p)) q = (if q = p then None else map_of (fs_nodes w) q)"
  by (simp add: del_node_def map_of_delete_if)

lemma mkdirs_grew:
  assumes "mkdirs w ds = (ok, w')"
  shows "grew p w w' \<and> (p \<notin> set ds \<longrightarrow> map_of (fs_nodes w') p = map_of (fs_nodes w) p)"
  using assms
proof (induction w ds arbitrary: ok rule: mkdirs.induct)
  case (2 w d ds)
  show ?case
  proof (cases "map_of (fs_nodes w) d")
    case None
    obtain f w1 where f: "fault w = (f, w1)" by force
    show ?thesis
    proof (cases f)
      case None': None
      have step: "grew p w (put_node w1 d FDir)" using None f by (auto simp: grew_def)
      have "grew p (put_node w1 d FDir) w' \<and> (p \<notin> set ds \<longrightarrow> map_of (fs_nodes w') p = map_of (fs_nodes (put_node w1 d FDir)) p)"
        using 2 None f None' by auto
      then show ?thesis using grew_trans [OF step] f by auto
    next
      case (Some n)
      then show ?thesis using 2 None f by (auto intro: grew_refl)
    qed
  next
    case (Some n)
    then show ?thesis using 2 by (cases n) (auto intro: grew_refl)
  qed
qed (auto intro: grew_refl)

lemma not_own_prefix: "p \<noteq> [] \<Longrightarrow> p \<notin> set (map (\<lambda>n. take n (butlast p)) ns)"
proof
  assume "p \<noteq> []" "p \<in> set (map (\<lambda>n. take n (butlast p)) ns)"
  then obtain n where "p = take n (butlast p)" by auto
  then have "length p \<le> length (butlast p)" by (metis length_take min.cobounded1)
  then show False using \<open>p \<noteq> []\<close> by (cases "length p") simp_all
qed

lemma create_file_grew:
  assumes "create_file w p = (ok, w')" "p \<noteq> []"
  shows "grew p w w'" and "ok \<Longrightarrow> map_of (fs_nodes w) p = None \<and> map_of (fs_nodes w') p = Some (FFile [])"
    and "\<not> ok \<Longrightarrow> map_of (fs_nodes w') p = map_of (fs_nodes w) p"
proof -
  obtain k w1 where k: "MkdirAll w (butlast p) = (k, w1)" by force
  have m: "grew p w w1" "map_of (fs_nodes w1) p = map_of (fs_nodes w) p"
    using mkdirs_grew [of w _ k w1 p] k not_own_prefix [OF assms(2)] unfolding MkdirAll_def by blast+
  obtain f w2 where f: "fault w1 = (f, w2)" by force
  have n: "grew p w w2" "map_of (fs_nodes w2) p = map_of (fs_nodes w) p"
    using m f by (auto simp: grew_def)
  show "grew p w w'" "ok \<Longrightarrow> map_of (fs_nodes w) p = None \<and> map_of (fs_nodes w') p = Some (FFile [])"
    "\<not> ok \<Longrightarrow> map_of (fs_nodes w') p = map_of (fs_nodes w) p"
    using assms(1) k f m n unfolding create_file_def
    by (auto simp: grew_def split: if_splits bool.splits option.splits)
qed


lemma fd_path_Join: "fd_path a = Inr p \<Longrightarrow> Join p [CHR ''/''] = a"
  by (auto simp: fd_path_def Let_def Join_Split split: if_splits)

lemma fd_path_inj: "fd_path a = Inr p \<Longrightarrow> fd_path b = Inr p \<Longrightarrow> a = b"
  using fd_path_Join by blast

lemma fd_path_nonempty: "fd_path a = Inr p \<Longrightarrow> p \<noteq> []"
  by (auto simp: fd_path_def Let_def split: if_splits)

lemma grew_fault: "grew p w w1 \<Longrightarrow> fault w1 = (f, w2) \<Longrightarrow> grew p w w2"
  by (simp add: grew_def)

lemma grew_put: "grew p w w1 \<Longrightarrow> map_of (fs_nodes w) p = None \<Longrightarrow> grew p w (put_node w1 p n)"
  by (auto simp: grew_def)

lemma grew_del: "grew p w w1 \<Longrightarrow> map_of (fs_nodes w) p = None \<Longrightarrow> grew p w (del_node w1 p)"
  by (auto simp: grew_def)

lemma write_file_grew:
  assumes "write_file w1 p data = (ok, w2)" "grew p w w1" "map_of (fs_nodes w) p = None"
  shows "grew p w w2 \<and> (ok \<longrightarrow> map_of (fs_nodes w2) p = Some (FFile data))"
  using assms by (auto simp: write_file_def split: prod.splits option.splits intro: grew_put grew_fault)

lemma remove_file_grew:
  assumes "grew p w w1" "map_of (fs_nodes w) p = None"
  shows "grew p w (remove_file w1 p)"
  using assms by (auto simp: remove_file_def split: prod.splits option.splits intro: grew_del grew_fault)

lemma fd_WriteObject_grew:
  assumes "fd_path obj = Inr p" "fd_WriteObject w obj data = (e, w')"
  shows "grew p w w' \<and> (e = None \<longrightarrow> map_of (fs_nodes w) p = None \<and> map_of (fs_nodes w') p = Some (FFile data))"
proof -
  obtain ok w1 where c: "create_file w p = (ok, w1)" by force
  note g = create_file_grew [OF c fd_path_nonempty [OF assms(1)]]
  show ?thesis
  proof (cases ok)
    case True
    obtain ok2 w2 where x: "write_file w1 p data = (ok2, w2)" by force
    show ?thesis
      using assms c True x g(2) write_file_grew [OF x g(1)] 
      by (auto simp: fd_WriteObject_def split: bool.splits prod.splits if_splits intro: grew_fault)
  next
    case False
    then show ?thesis using assms c g(1) by (auto simp: fd_WriteObject_def)
  qed
qed

lemma copied_whole:
  assumes "copied src n = (data, False)" "int (length data) = n" "n \<le> max_i64"
  shows "data = src_bytes src \<and> (src_fails src \<longrightarrow> n + 1 \<le> 0)"
proof (cases "n = max_i64")
  case True
  then have "wrap64 (n + 1) < 0" by (simp add: wrap64_def max_i64_def)
  then show ?thesis using assms True by (simp add: copied_def Let_def max_i64_def)
next
  case False
  then have "wrap64 (n + 1) = n + 1" using assms by (intro wrap64_id') (auto simp: min_i64_def)
  moreover have "nat (n + 1) = Suc (length data)" using assms(2) by linarith
  ultimately have "copied src n = (take (Suc (length data)) (src_bytes src), src_fails src \<and> length (src_bytes src) < Suc (length data))"
    by (simp add: copied_def)
  then have d: "take (Suc (length data)) (src_bytes src) = data"
      "\<not> (src_fails src \<and> length (src_bytes src) < Suc (length data))"
    using assms(1) by simp_all
  then have "length (src_bytes src) = length data" by (metis length_take min_def n_not_Suc_n)
  then show ?thesis using d by auto
qed

lemma fd_WriteObjectFrom_grew:
  assumes "fd_path obj = Inr p" "fd_WriteObjectFrom w obj src n = (e, w')" "n \<le> max_i64"
  shows "grew p w w'
    \<and> (e = None \<longrightarrow> map_of (fs_nodes w) p = None \<and> map_of (fs_nodes w') p = Some (FFile (src_bytes src))
         \<and> int (length (src_bytes src)) = n \<and> \<not> src_fails src)"
proof -
  obtain ok w1 where c: "create_file w p = (ok, w1)" by force
  note g = create_file_grew [OF c fd_path_nonempty [OF assms(1)]]
  show ?thesis
  proof (cases ok)
    case True
    then have fresh: "map_of (fs_nodes w) p = None" using g(2) by simp
    obtain data failed where d: "copied src n = (data, failed)" by force
    obtain ok2 w2 where x: "write_file w1 p data = (ok2, w2)" by force
    note h = write_file_grew [OF x g(1) fresh]
    have rm: "grew p w (remove_file w2 p)"
        "fault w2 = (f, w3) \<Longrightarrow> grew p w w3 \<and> grew p w (remove_file w3 p)"
        "fault w2 = (f, w3) \<Longrightarrow> fault w3 = (f', w4) \<Longrightarrow> grew p w w4 \<and> grew p w (remove_file w4 p)" for f f' w3 w4
      using h fresh by (auto intro: remove_file_grew grew_fault)
    show ?thesis
      using assms(1,2) c True d x rm h fresh copied_whole [of src n data] assms(3)
      by (auto simp: fd_WriteObjectFrom_def split: bool.splits prod.splits option.splits if_splits intro: grew_fault)
  next
    case False
    then show ?thesis using assms c g(1) by (auto simp: fd_WriteObjectFrom_def)
  qed
qed

text \<open>What a write that grew the directory did to the objects.\<close>

lemma grew_contents:
  assumes "grew p w w'" "fd_path obj = Inr p"
  shows "fd_contents w' = (fd_contents w)(obj := fd_contents w' obj)
     \<and> (fd_contents w obj \<noteq> None \<longrightarrow> fd_contents w' obj = fd_contents w obj)"
proof -
  have "fd_contents w' a = fd_contents w a" if "a \<noteq> obj \<or> fd_contents w a \<noteq> None" for a
  proof (cases "fd_path a")
    case (Inr q)
    then have "map_of (fs_nodes w) q \<noteq> None \<or> q \<noteq> p \<and> map_of (fs_nodes w) q = None"
      using that assms(2) fd_path_inj [of a p obj] by (auto simp: fd_contents_def)
    then have "map_of (fs_nodes w') q = map_of (fs_nodes w) q \<or> map_of (fs_nodes w) q = None \<and> map_of (fs_nodes w') q \<in> {None, Some FDir}"
      using assms(1) unfolding grew_def by blast
    then show ?thesis using Inr by (auto simp: fd_contents_def)
  qed (simp add: fd_contents_def)
  then show ?thesis by (auto simp: fun_eq_iff)
qed

lemma fd_write_contents:
  assumes "fd_WriteObject w obj data = (e, w')"
  shows "fd_contents w' = (fd_contents w)(obj := fd_contents w' obj)
    \<and> (fd_contents w obj \<noteq> None \<longrightarrow> fd_contents w' = fd_contents w)
    \<and> (e = None \<longrightarrow> fd_contents w obj = None \<and> fd_contents w' = (fd_contents w)(obj \<mapsto> data))"
proof (cases "fd_path obj")
  case (Inl x)
  then show ?thesis using assms by (auto simp: fd_WriteObject_def)
next
  case (Inr p)
  note g = fd_WriteObject_grew [OF Inr assms]
  show ?thesis
    using g grew_contents [OF _ Inr] Inr by (auto simp: fd_contents_def [of _ obj] split: if_splits)
qed


lemma fd_stream_contents:
  assumes "fd_WriteObjectFrom w obj src n = (e, w')" "n \<le> max_i64"
  shows "fd_contents w' = (fd_contents w)(obj := fd_contents w' obj)
    \<and> (fd_contents w obj \<noteq> None \<longrightarrow> fd_contents w' = fd_contents w)
    \<and> (e = None \<longrightarrow> fd_contents w obj = None \<and> fd_contents w' = (fd_contents w)(obj \<mapsto> src_bytes src)
          \<and> int (length (src_bytes src)) = n \<and> \<not> src_fails src)"
proof (cases "fd_path obj")
  case (Inl x)
  then show ?thesis using assms by (auto simp: fd_WriteObjectFrom_def)
next
  case (Inr p)
  note g = fd_WriteObjectFrom_grew [OF Inr assms]
  show ?thesis
    using g grew_contents [OF _ Inr] Inr by (auto simp: fd_contents_def [of _ obj] split: if_splits)
qed

text \<open>On a filesystem that does not fail, a refused write leaves no object behind.\<close>

lemma fault_well_iff: "fd_well w \<Longrightarrow> fault w = (f, w') \<longleftrightarrow> f = None \<and> w' = w"
  by (auto simp: fault_well)

lemma put_node_well [simp]: "fd_well (put_node w p n) = fd_well w" "fd_well (del_node w p) = fd_well w"
  by (simp_all add: fd_well_def put_node_def del_node_def)

lemma mkdirs_well: "fd_well w \<Longrightarrow> mkdirs w ds = (ok, w') \<Longrightarrow> fd_well w'"
  by (induction w ds arbitrary: ok rule: mkdirs.induct)
    (auto simp: fault_well split: option.splits fnode.splits prod.splits)

lemma create_file_well:
  assumes "fd_well w" "create_file w p = (ok, w')"
  shows "fd_well w'"
proof -
  obtain k w1 where k: "MkdirAll w (butlast p) = (k, w1)" by force
  have "fd_well w1" using mkdirs_well [OF assms(1)] k by (simp add: MkdirAll_def)
  then show ?thesis using assms(2) k by (cases k) (auto simp: create_file_def fault_well split: if_splits)
qed

lemma fd_stream_refused:
  assumes w: "fd_well w" and run: "fd_WriteObjectFrom w obj src n = (e, w')" "e \<noteq> None" and "n \<le> max_i64"
  shows "fd_contents w' = fd_contents w"
proof (cases "fd_path obj")
  case (Inl x)
  then show ?thesis using run by (simp add: fd_WriteObjectFrom_def)
next
  case (Inr p)
  obtain ok w1 where c: "create_file w p = (ok, w1)" by force
  note g = create_file_grew [OF c fd_path_nonempty [OF Inr]]
  have w1: "fd_well w1" using create_file_well [OF w c] .
  obtain data failed where d: "copied src n = (data, failed)" by force
  have same: "map_of (fs_nodes w') p = map_of (fs_nodes w) p"
  proof (cases ok)
    case True
    then have "w' = del_node (put_node w1 p (FFile data)) p"
      using run Inr c d w1 by (auto simp: fd_WriteObjectFrom_def write_file_def remove_file_def fault_well_iff split: if_splits prod.splits)
    then show ?thesis using g(2) True by simp
  next
    case False
    then show ?thesis using run Inr c g(3) by (simp add: fd_WriteObjectFrom_def)
  qed
  have gr: "grew p w w'" using fd_WriteObjectFrom_grew [OF Inr run(1) assms(4)] by simp
  have "fd_contents w' obj = fd_contents w obj" using same Inr by (simp add: fd_contents_def)
  then show ?thesis using grew_contents [OF gr Inr] by (metis fun_upd_triv)
qed

lemma fd_delete_contents:
  assumes "fd_DeleteObject w obj = (e, w')"
  shows "fd_contents w' = (if e = None then (fd_contents w)(obj := None) else fd_contents w)"
proof (cases "fd_path obj")
  case (Inl x)
  then show ?thesis using assms by (auto simp: fd_DeleteObject_def)
next
  case (Inr p)
  obtain f w1 where f: "fault w = (f, w1)" by force
  have c1: "fd_contents w1 = fd_contents w" using f by (intro fd_contents_nodes) simp
  have "fd_contents (del_node w1 p) = (fd_contents w)(obj := None)"
  proof
    fix a
    show "fd_contents (del_node w1 p) a = ((fd_contents w)(obj := None)) a"
      using Inr c1 [symmetric] fd_path_inj [of a p obj] by (cases "fd_path a") (auto simp: fd_contents_def)
  qed
  then show ?thesis
    using assms Inr f c1 by (auto simp: fd_DeleteObject_def split: option.splits fnode.splits if_splits)
qed

section \<open>Listing\<close>

definition level :: "fstore \<Rightarrow> string list \<Rightarrow> string list" where
  "level w dir = sort (map fst (children w dir))"

lemma level_sorted:
  assumes "gomap_ok (fs_nodes w)"
  shows "sorted_wrt (<) (level w dir)"
proof -
  have d: "distinct (map fst (filter (\<lambda>sn. fst sn \<noteq> [] \<and> butlast (fst sn) = dir) (fs_nodes w)))"
    using assms gomap_ok_filter by (simp add: gomap_ok_def distinct_map_filter)
  have "distinct (map (\<lambda>s. last s) (map fst (filter (\<lambda>sn. fst sn \<noteq> [] \<and> butlast (fst sn) = dir) (fs_nodes w))))"
    unfolding distinct_map using d by (auto intro!: inj_onI simp: distinct_map) (metis append_butlast_last_id fst_conv)
  then have "distinct (map fst (children w dir))" by (simp add: children_def comp_def)
  then show ?thesis by (simp add: level_def strict_sorted_iff)
qed

lemma sort_key_fst_names: "map fst (sort_key fst es) = sort (map fst es)"
  by (rule properties_for_sort [symmetric]) (simp_all add: mset_sort [symmetric])

lemma fd_List_names:
  assumes "fd_List w prefix after limit = (Inr out, w')" "0 < limit"
    and "dir = (if prefix = [] then [] else projr (fd_path prefix))" "dir = [] \<or> map_of (fs_nodes w) dir = Some FDir"
  shows "map eName out = take (nat limit) (filter (\<lambda>n. after < n) (level w dir)) \<and> fs_nodes w' = fs_nodes w"
proof -
  obtain f w1 where f: "fault w = (f, w1)" by force
  have p: "(if prefix = [] then Inr [] else fd_path prefix) = Inr dir"
    using assms by (auto simp: fd_List_def split: sum.splits)
  obtain out2 w2 where l: "list_loop w1 after limit (sort_key fst (children w1 dir)) [] = (out2, w2)" by force
  have "out = out2" "fs_nodes w' = fs_nodes w2" "children w1 dir = children w dir"
    using assms(1,4) p f l by (auto simp: fd_List_def children_def split: option.splits if_splits prod.splits)
  then show ?thesis
    using list_loop_names [OF l] assms(2) f by (simp add: level_def sort_key_fst_names)
qed


text \<open>A caller that pages: it asks again after the last name it saw, until a page is empty.\<close>

fun pages :: "nat \<Rightarrow> fstore \<Rightarrow> string \<Rightarrow> string \<Rightarrow> int \<Rightarrow> string list" where
  "pages 0 w prefix after limit = []"
| "pages (Suc n) w prefix after limit =
     (case fd_List w prefix after limit of
        (Inl _, _) \<Rightarrow> []
      | (Inr es, w1) \<Rightarrow> if es = [] then [] else map eName es @ pages n w1 prefix (eName (last es)) limit)"

lemma list_loop_well: "fd_well w \<Longrightarrow> \<exists>out'. list_loop w after limit es out = (out', w)"
proof (induction es arbitrary: out)
  case (Cons e es)
  have "\<exists>x. entry_of w e = (x, w)" using Cons.prems by (auto simp: entry_of_def fault_well split: fnode.splits)
  then show ?case using Cons by auto
qed simp

lemma fd_List_well:
  assumes "fd_well w" "(if prefix = [] then Inr [] else fd_path prefix) = Inr dir" "dir = [] \<or> map_of (fs_nodes w) dir = Some FDir"
    "0 < limit" "limit \<le> 8796093022208"
  shows "\<exists>out. fd_List w prefix after limit = (Inr out, w)"
  using list_loop_well [OF assms(1), of after limit "sort_key fst (children w dir)" "[]"] assms
  by (auto simp: fd_List_def fault_well)

lemma page_rest:
  assumes "sorted_wrt (<) (ns :: string list)" "rest = filter (\<lambda>n. a < n) ns" "take k rest \<noteq> []"
  shows "filter (\<lambda>n. last (take k rest) < n) ns = drop k rest"
proof -
  let ?l = "last (take k rest)"
  have s: "sorted_wrt (<) (take k rest @ drop k rest)" using assms by (simp add: sorted_wrt_filter)
  have l: "?l \<in> set (take k rest)" using assms(3) by (rule last_in_set)
  have "sorted (take k rest)" using s unfolding sorted_wrt_append strict_sorted_iff by blast
  then have "sorted (butlast (take k rest) @ [?l])" unfolding append_butlast_last_id [OF assms(3)] .
  then have "\<forall>x\<in>set (butlast (take k rest) @ [?l]). x \<le> ?l" by (auto simp: sorted_append)
  then have "\<forall>x\<in>set (take k rest). x \<le> ?l" unfolding append_butlast_last_id [OF assms(3)] .
  moreover have "\<forall>x\<in>set (drop k rest). ?l < x" using s l unfolding sorted_wrt_append by blast
  ultimately have "filter (\<lambda>n. ?l < n) (take k rest @ drop k rest) = drop k rest"
    unfolding filter_append by (auto simp: filter_empty_conv not_less)
  moreover have "a < ?l" using l assms(2) set_take_subset by fastforce
  then have "filter (\<lambda>n. ?l < n) ns = filter (\<lambda>n. ?l < n) rest"
    unfolding assms(2) filter_filter by (intro filter_cong) auto
  ultimately show ?thesis by simp
qed

lemma pages_all:
  assumes w: "fd_well w" "gomap_ok (fs_nodes w)" and dir: "(if prefix = [] then Inr [] else fd_path prefix) = Inr dir"
    "dir = [] \<or> map_of (fs_nodes w) dir = Some FDir" and lim: "0 < limit" "limit \<le> 8796093022208"
    and n: "length (filter (\<lambda>x. after < x) (level w dir)) < n"
  shows "pages n w prefix after limit = filter (\<lambda>x. after < x) (level w dir)"
  using n
proof (induction n arbitrary: after)
  case (Suc n)
  let ?rest = "filter (\<lambda>x. after < x) (level w dir)"
  obtain out where o: "fd_List w prefix after limit = (Inr out, w)"
    using fd_List_well [OF w(1) dir lim] by blast
  have dd: "dir = (if prefix = [] then [] else projr (fd_path prefix))" using dir(1) by (auto split: if_splits)
  have names: "map eName out = take (nat limit) ?rest" using fd_List_names [OF o lim(1) dd dir(2)] by simp
  show ?case
  proof (cases "out = []")
    case True
    then have "?rest = []" using names lim by (cases ?rest) (simp_all add: nat_less_iff)
    then show ?thesis using o True by simp
  next
    case False
    then have ne: "take (nat limit) ?rest \<noteq> []" using names by (metis list.map_disc_iff)
    have last: "eName (last out) = last (take (nat limit) ?rest)" using names False by (metis last_map)
    have "filter (\<lambda>x. eName (last out) < x) (level w dir) = drop (nat limit) ?rest"
      unfolding last by (rule page_rest [OF level_sorted [OF w(2)] refl ne])
    moreover have "length (drop (nat limit) ?rest) < n" using Suc.prems ne lim by (cases "?rest") auto
    ultimately show ?thesis using Suc.IH [of "eName (last out)"] o False names by (simp add: append_take_drop_id)
  qed
qed simp

end
