(* ===== verification/Data_Server_Inv.thy ===== *)
theory Data_Server_Inv
  imports Data_Server File_Driver
begin

text \<open>
  The data server is transparent: whatever the tier holds, evicts or loses, and whatever fails, a read
  that answers returns the object's bytes, and a range error means that the range is not inside the
  object. The lemmas are proved for any lawful driver (\<open>Driver_Backend\<close>), on the laws of the tier
  (\<open>Tier_View\<close>).
\<close>

section \<open>What counting leaves alone\<close>

definition same_core :: "'w server \<Rightarrow> 'w server \<Rightarrow> bool" where
  "same_core s s' \<longleftrightarrow> sv_tier s' = sv_tier s \<and> sv_backend s' = sv_backend s \<and> sv_name s' = sv_name s
     \<and> sv_block s' = sv_block s \<and> sv_maxRead s' = sv_maxRead s"

lemma same_core_refl [simp]: "same_core s s"
  by (simp add: same_core_def)

lemma same_core_trans: "same_core a b \<Longrightarrow> same_core b c \<Longrightarrow> same_core a c"
  by (simp add: same_core_def)

lemma core_now: "sv_now s = (t, s') \<Longrightarrow> same_core s s'"
  by (auto simp: sv_now_def same_core_def)

lemma core_record [simp]: "same_core s (ds_record f s)"
  by (simp add: ds_record_def same_core_def)

lemma core_measure [simp]: "same_core s (measure_read s src n took)"
  by (simp add: measure_read_def same_core_def)

lemma core_reg_add [simp]: "same_core s (reg_add s name ls x)"
  by (simp add: reg_add_def same_core_def split: option.splits)

lemma core_predicted [simp]: "same_core s (predicted s what)"
  by (simp add: predicted_def)

lemma core_inFlight [simp]: "same_core s (inFlight s x)"
  by (simp add: inFlight_def)

lemma core_delivered [simp]: "same_core s (delivered s src n)"
  by (simp add: delivered_def same_core_trans [OF core_reg_add core_reg_add])

lemma core_answered [simp]: "same_core s (answered s took)"
  by (cases "sv_reg s"; cases "sv_ready s") (simp_all add: answered_def same_core_def sv_now_def)

lemma core_queue [simp]: "same_core s (queue_ahead tenant obj s b)"
  by (auto simp: queue_ahead_def same_core_def predicted_def reg_add_def ds_record_def split: option.splits)

lemma core_queue_all: "same_core s (foldl (queue_ahead tenant obj) s bs)"
proof (induction bs arbitrary: s)
  case (Cons b bs)
  then show ?case using same_core_trans [OF core_queue] by fastforce
qed simp

lemma core_predict [simp]: "same_core s (predict s tenant obj index)"
proof (cases "sv_detect s")
  case (Some d)
  obtain t s1 where n: "sv_now s = (t, s1)" by force
  obtain nx d' where o: "pf_Observe d \<lparr>Stream = tenant @ ''/'' @ obj, bIndex = index\<rparr> t = (nx, d')" by force
  have "same_core s (s1\<lparr>sv_detect := Some d'\<rparr>)" using core_now [OF n] by (simp add: same_core_def)
  then have "same_core s (foldl (queue_ahead tenant obj) (s1\<lparr>sv_detect := Some d'\<rparr>) nx)"
    by (rule same_core_trans) (rule core_queue_all)
  then show ?thesis using Some n o by (simp add: predict_def)
qed (simp add: predict_def)

lemma core_fetched [simp]: "same_core s (fetched_block s f began data)"
proof -
  obtain t s1 where n: "sv_now (ds_record f s) = (t, s1)" by force
  have "same_core s s1" by (rule same_core_trans [OF core_record core_now [OF n]])
  then show ?thesis
    using n by (auto simp: fetched_block_def intro: same_core_trans [OF _ same_core_trans [OF core_measure core_delivered]])
qed

text \<open>The queue of predictions is bounded.\<close>

lemma queue_bounded: "length (sv_ahead s) \<le> aheadQueue \<Longrightarrow> length (sv_ahead (foldl (queue_ahead tenant obj) s bs)) \<le> aheadQueue"
proof (induction bs arbitrary: s)
  case (Cons b bs)
  have "length (sv_ahead (queue_ahead tenant obj s b)) \<le> aheadQueue"
    using Cons.prems by (auto simp: queue_ahead_def predicted_def reg_add_def ds_record_def split: option.splits)
  then show ?case using Cons.IH by simp
qed simp

section \<open>The invariant\<close>

text \<open>
  A block of the server's backend is the object's bytes at its place on the grid. Nothing is said of
  an index no offset can reach: a prediction may have one, its offset wraps, and what is fetched
  for it is never read.
\<close>

definition true_block :: "(string \<Rightarrow> bytes option) \<Rightarrow> string \<Rightarrow> int \<Rightarrow> Key \<Rightarrow> bytes \<Rightarrow> bool" where
  "true_block objs name block k d \<longleftrightarrow>
     (BlockRef.Backend (Block k) = name \<and> 0 \<le> Index (Block k) \<and> Index (Block k) * block + block \<le> max_i64 \<longrightarrow>
     (\<exists>bs. objs (Object (Block k)) = Some bs \<and> Index (Block k) * block < int (length bs)
       \<and> d = take (nat block) (drop (nat (Index (Block k) * block)) bs)))"

definition room_of :: "'w server \<Rightarrow> nat" where
  "room_of s = tier_room (sv_tier s)"

text \<open>What a block of the loop may answer, and what a read may.\<close>

definition block_answer :: "(string \<Rightarrow> bytes option) \<Rightarrow> string \<Rightarrow> nat \<Rightarrow> nat \<Rightarrow> nat \<Rightarrow> ds_error + bytes \<Rightarrow> bool" where
  "block_answer objs obj start block wantEnd r \<longleftrightarrow>
     (case r of
        Inr d \<Rightarrow> (\<exists>bs m. objs obj = Some bs \<and> start < length bs \<and> d = take m (drop start bs)
                   \<and> (m = block \<or> m = wantEnd - start \<and> m < block \<and> wantEnd \<le> length bs))
      | Inl e \<Rightarrow> e \<noteq> Ds_Fuel \<and> e \<noteq> Ds_Assembled \<and> (\<forall>bs. e = Ds_Driver ErrOutOfRange \<longrightarrow> objs obj = Some bs \<longrightarrow> length bs < wantEnd))"

definition read_answer :: "(string \<Rightarrow> bytes option) \<Rightarrow> string \<Rightarrow> nat \<Rightarrow> nat \<Rightarrow> ds_error + bytes \<Rightarrow> bool" where
  "read_answer objs obj offset end r \<longleftrightarrow>
     (case r of
        Inr d \<Rightarrow> (\<exists>bs. objs obj = Some bs \<and> end \<le> length bs \<and> d = take (end - offset) (drop offset bs))
      | Inl e \<Rightarrow> e \<noteq> Ds_Fuel \<and> e \<noteq> Ds_Assembled \<and> (\<forall>bs. e = Ds_Driver ErrOutOfRange \<longrightarrow> objs obj = Some bs \<longrightarrow> length bs < end))"

context lawful_driver
begin

definition server_ok :: "(string \<Rightarrow> bytes option) \<Rightarrow> 'w server \<Rightarrow> bool" where
  "server_ok objs s \<longleftrightarrow> b_driver (sv_backend s) = drv \<and> b_lister (sv_backend s) \<in> {None, dList drv} \<and> contents (b_store (sv_backend s)) = objs
     \<and> 0 < sv_block s \<and> tier.holds_only (true_block objs (sv_name s) (sv_block s)) (sv_tier s)"

lemma ok_core: "server_ok objs s \<Longrightarrow> same_core s s' \<Longrightarrow> server_ok objs s'"
  by (simp add: server_ok_def same_core_def)

text \<open>\<open>went\<close>: the server is still well, its grid is the same, and it may have spent one generation.\<close>

definition went :: "(string \<Rightarrow> bytes option) \<Rightarrow> nat \<Rightarrow> 'w server \<Rightarrow> 'w server \<Rightarrow> bool" where
  "went objs n s s' \<longleftrightarrow> server_ok objs s' \<and> sv_block s' = sv_block s \<and> sv_name s' = sv_name s \<and> sv_maxRead s' = sv_maxRead s
     \<and> room_of s \<le> n + room_of s'"

lemma went_core: "server_ok objs s \<Longrightarrow> same_core s s' \<Longrightarrow> went objs 0 s s'"
  using ok_core by (auto simp: went_def same_core_def room_of_def)

lemma went_trans: "went objs m a b \<Longrightarrow> went objs n b c \<Longrightarrow> went objs (m + n) a c"
  by (auto simp: went_def)

lemma went_core_left: "same_core a b \<Longrightarrow> went objs n b c \<Longrightarrow> went objs n a c"
  by (auto simp: went_def same_core_def room_of_def)

lemma went_core_right: "went objs n a b \<Longrightarrow> same_core b c \<Longrightarrow> went objs n a c"
  using ok_core by (auto simp: went_def same_core_def room_of_def)

lemma went_more: "went objs n a b \<Longrightarrow> n \<le> m \<Longrightarrow> went objs m a b"
  by (auto simp: went_def)

lemma backend_read_went:
  assumes "server_ok objs s" "backend_read s obj off len = (r, s')"
  shows "went objs 0 s s'"
    and "r = Inr d \<Longrightarrow> \<exists>bs. objs obj = Some bs \<and> nat off + nat len \<le> length bs \<and> d = take (nat len) (drop (nat off) bs)"
    and "r = Inl ErrOutOfRange \<Longrightarrow> 0 \<le> off \<Longrightarrow> 0 \<le> len \<Longrightarrow> objs obj = Some bs \<Longrightarrow> length bs < nat off + nat len"
proof -
  obtain b where b: "b_ReadRange (sv_backend s) obj off len = (r, b)" "s' = s\<lparr>sv_backend := b\<rparr>"
    using assms(2) by (auto simp: backend_read_def split: prod.splits)
  have d: "b_driver (sv_backend s) = drv" "contents (b_store (sv_backend s)) = objs" using assms(1) by (auto simp: server_ok_def)
  show "went objs 0 s s'"
    using assms(1) b b_read_keeps [OF d(1) b(1)] read_lister [OF b(1)] by (simp add: went_def server_ok_def room_of_def)
  show "\<exists>bs. objs obj = Some bs \<and> nat off + nat len \<le> length bs \<and> d = take (nat len) (drop (nat off) bs)" if "r = Inr d"
    using b_read_data [OF d(1)] b(1) d(2) that by blast
  show "length bs < nat off + nat len" if "r = Inl ErrOutOfRange" "0 \<le> off" "0 \<le> len" "objs obj = Some bs"
    using b_read_range [OF d(1)] b(1) d(2) that by blast
qed

lemma backend_size_went:
  assumes "server_ok objs s" "backend_size s obj = (r, s')"
  shows "went objs 0 s s'" and "r = Inr n \<Longrightarrow> \<exists>bs. objs obj = Some bs \<and> n = int (length bs)"
    and "r = Inl e \<Longrightarrow> e \<noteq> ErrOutOfRange"
proof -
  obtain b where b: "b_SizeOf (sv_backend s) obj = (r, b)" "s' = s\<lparr>sv_backend := b\<rparr>"
    using assms(2) by (auto simp: backend_size_def split: prod.splits)
  have d: "b_driver (sv_backend s) = drv" "contents (b_store (sv_backend s)) = objs" using assms(1) by (auto simp: server_ok_def)
  show "went objs 0 s s'"
    using assms(1) b b_size_keeps [OF d(1) b(1)] size_lister [OF b(1)] by (simp add: went_def server_ok_def room_of_def)
  show "\<exists>bs. objs obj = Some bs \<and> n = int (length bs)" if "r = Inr n"
    using b_size_data [OF d(1)] b(1) d(2) that by blast
  show "e \<noteq> ErrOutOfRange" if "r = Inl e"
    using b_size_error [OF d(1)] b(1) that by blast
qed

lemma tier_admit_went:
  assumes "server_ok objs s" "0 < room_of s" "true_block objs (sv_name s) (sv_block s) k data" "tier_admit s k data pf = (r, s')"
  shows "went objs 1 s s'"
proof -
  obtain c where c: "Admit (e_write (sv_env s) (sv_tick s)) (sv_tier s) k data pf = (r, c)"
      "s' = s\<lparr>sv_tier := c, sv_tick := Suc (sv_tick s)\<rparr>"
    using assms(4) by (auto simp: tier_admit_def split: prod.splits)
  show ?thesis
    using assms(1-3) c tier.admit_holds [where P = "true_block objs (sv_name s) (sv_block s)", OF _ _ assms(3) c(1)] by (auto simp: went_def server_ok_def room_of_def)
qed

lemma ds_admit_went:
  assumes "server_ok objs s" "0 < room_of s" "true_block objs (sv_name s) (sv_block s) k data"
  shows "went objs 1 s (ds_admit s k data)"
proof -
  obtain r s1 where r: "tier_admit s k data False = (r, s1)" by force
  have "same_core s1 (ds_admit s k data)" using r by (auto simp: ds_admit_def split: sum.splits bool.splits)
  then show ?thesis using tier_admit_went [OF assms r] went_core_right by blast
qed

lemma tier_read_went:
  assumes "server_ok objs s" "tier_read s k = (r, s')"
  shows "went objs 0 s s'" and "r = Some d \<Longrightarrow> true_block objs (sv_name s) (sv_block s) k d"
proof -
  obtain c where c: "Read (e_read_fails (sv_env s) (sv_tick s)) (sv_tier s) k = (r, c)"
      "s' = s\<lparr>sv_tier := c, sv_tick := Suc (sv_tick s)\<rparr>"
    using assms(2) by (auto simp: tier_read_def split: prod.splits)
  have h: "tier.holds_only (true_block objs (sv_name s) (sv_block s)) (sv_tier s)" using assms(1) by (simp add: server_ok_def)
  show "went objs 0 s s'"
    using assms(1) c tier.read_holds [OF h c(1)] by (auto simp: went_def server_ok_def room_of_def)
  show "true_block objs (sv_name s) (sv_block s) k d" if "r = Some d"
    using tier.read_holds [OF h c(1)] that by blast
qed

end


section \<open>One block\<close>

definition at_block :: "'w server \<Rightarrow> Key \<Rightarrow> string \<Rightarrow> int \<Rightarrow> int \<Rightarrow> bool" where
  "at_block s k obj index wantEnd \<longleftrightarrow>
     BlockRef.Backend (Block k) = sv_name s \<and> Object (Block k) = obj \<and> Index (Block k) = index \<and> 0 \<le> index
     \<and> index * sv_block s + sv_block s \<le> max_i64 \<and> index * sv_block s < wantEnd \<and> wantEnd \<le> max_i64"

lemma at_block_same: "at_block s k obj index wantEnd \<Longrightarrow> sv_block s' = sv_block s \<Longrightarrow> sv_name s' = sv_name s \<Longrightarrow> at_block s' k obj index wantEnd"
  by (simp add: at_block_def)

lemma at_block_true:
  assumes "at_block s k obj index wantEnd" "objs obj = Some bs" "index * sv_block s < int (length bs)"
    "d = take (nat (sv_block s)) (drop (nat (index * sv_block s)) bs)"
  shows "true_block objs (sv_name s) (sv_block s) k d"
  using assms by (simp add: at_block_def true_block_def)

lemma wrap64_sub: "0 \<le> a \<Longrightarrow> 0 \<le> b \<Longrightarrow> a \<le> max_i64 \<Longrightarrow> b \<le> max_i64 \<Longrightarrow> wrap64 (a - b) = a - b"
  by (intro wrap64_id') (simp_all add: i64_defs)

context lawful_driver
begin

lemma tail_answers:
  assumes ok: "server_ok objs s" "0 < room_of s" and at: "at_block s k obj index wantEnd"
    and sz: "\<And>bs. objs obj = Some bs \<Longrightarrow> int (length bs) \<le> max_i64"
    and run: "tailBySize s k obj (index * sv_block s) wantEnd = (r, s')"
  shows "went objs 1 s s' \<and> block_answer objs obj (nat (index * sv_block s)) (nat (sv_block s)) (nat wantEnd) r"
proof -
  let ?st = "index * sv_block s"
  obtain q s1 where q: "backend_size s obj = (q, s1)" by force
  note z = backend_size_went [OF ok(1) q]
  have pos: "0 \<le> ?st" "0 < sv_block s" using ok(1) at by (auto simp: server_ok_def at_block_def)
  show ?thesis
  proof (cases q)
    case (Inl e)
    then have "r = Inl (Ds_Driver e)" "s' = s1" using run q by (auto simp: tailBySize_def)
    then show ?thesis using went_more [OF z(1)] z(3) [OF Inl] by (simp add: block_answer_def)
  next
    case (Inr n)
    obtain bs where bs: "objs obj = Some bs" "n = int (length bs)" using z(2) [OF Inr] by blast
    have ln: "wrap64 (n - ?st) = n - ?st" using pos at sz [OF bs(1)] bs(2) by (intro wrap64_sub) (auto simp: at_block_def)
    have b1: "sv_block s1 = sv_block s" "sv_name s1 = sv_name s" using z(1) by (auto simp: went_def)
    show ?thesis
    proof (cases "n < wantEnd \<or> sv_block s \<le> n - ?st")
      case True
      then have "s' = s1 \<and> (r = Inl (Ds_Driver ErrOutOfRange) \<and> n < wantEnd \<or> r = Inl Ds_Contradicts)"
        using run q Inr ln b1 by (auto simp: tailBySize_def Let_def split: if_splits)
      then show ?thesis using z(1) bs by (auto simp: block_answer_def went_def)
    next
      case False
      obtain began s2 where n2: "sv_now s1 = (began, s2)" by force
      obtain a s3 where a: "backend_read s2 obj ?st (n - ?st) = (a, s3)" by force
      have w2: "went objs 0 s s2" using went_core_right [OF z(1) core_now [OF n2]] .
      then have ok2: "server_ok objs s2" by (simp add: went_def)
      note rd = backend_read_went [OF ok2 a]
      have w3: "went objs 0 s s3" using went_trans [OF w2 rd(1)] by simp
      have st: "?st < n" using False at by (auto simp: at_block_def)
      show ?thesis
      proof (cases a)
        case ia: (Inl e)
        then have "r = Inl (Ds_Driver e)" "s' = s3" using run q Inr ln b1 n2 a False by (auto simp: tailBySize_def Let_def)
        moreover have "e \<noteq> ErrOutOfRange" using rd(3) [OF _ pos(1) _ bs(1)] ia st bs(2) pos(1) by auto
        ultimately show ?thesis using w3 by (auto simp: block_answer_def went_def)
      next
        case ib: (Inr d)
        have d: "d = take (nat (sv_block s)) (drop (nat ?st) bs)"
          using rd(2) [OF ib] bs False st pos(1) by auto
        let ?f = "fetched_block s3 count_fetched began d"
        have wf: "went objs 0 s ?f" using went_core_right [OF w3 core_fetched] .
        have "true_block objs (sv_name ?f) (sv_block ?f) k d"
          using at_block_true [where objs = objs, OF at bs(1) _ d] st bs(2) wf by (simp add: went_def)
        then have "went objs 1 ?f (ds_admit ?f k d)"
          using wf ok(2) by (intro ds_admit_went) (auto simp: went_def)
        then have "went objs 1 s (ds_admit ?f k d)" using went_trans [OF wf] by simp
        moreover have "r = Inr d" "s' = ds_admit ?f k d"
          using run q Inr ln b1 n2 a ib False by (auto simp: tailBySize_def Let_def)
        ultimately show ?thesis using bs d st pos by (auto simp: block_answer_def nat_less_iff)
      qed
    qed
  qed
qed

lemma narrowed_answers:
  assumes ok: "server_ok objs s" and at: "at_block s k obj index wantEnd"
    and short: "\<And>bs. objs obj = Some bs \<Longrightarrow> int (length bs) < index * sv_block s + sv_block s"
    and run: "narrowed_read s obj (index * sv_block s) wantEnd = (r, s')"
  shows "went objs 1 s s' \<and> block_answer objs obj (nat (index * sv_block s)) (nat (sv_block s)) (nat wantEnd) r"
proof -
  let ?st = "index * sv_block s"
  have pos: "0 \<le> ?st" "0 < sv_block s" using ok(1) at by (auto simp: server_ok_def at_block_def)
  have le: "?st < wantEnd" "wantEnd \<le> max_i64" using at by (auto simp: at_block_def)
  then have w: "wrap64 (wantEnd - ?st) = wantEnd - ?st" "?st < wantEnd"
    using pos by (auto intro!: wrap64_sub)
  show ?thesis
  proof (cases "sv_block s \<le> wantEnd - ?st")
    case True
    then have "r = Inl (Ds_Driver ErrOutOfRange)" "s' = s" using run w by (auto simp: narrowed_read_def Let_def)
    then show ?thesis using went_core [OF ok same_core_refl] short True
      by (force simp: block_answer_def went_def)
  next
    case False
    obtain began s1 where n: "sv_now s = (began, s1)" by force
    obtain a s2 where a: "backend_read s1 obj ?st (wantEnd - ?st) = (a, s2)" by force
    have w1: "went objs 0 s s1" by (rule went_core [OF ok core_now [OF n]])
    then have "server_ok objs s1" by (simp add: went_def)
    note rd = backend_read_went [OF this a]
    have w2: "went objs 1 s s2" using went_more [OF went_trans [OF w1 rd(1)]] by simp
    show ?thesis
    proof (cases a)
      case (Inl e)
      then have "r = Inl (Ds_Driver e)" "s' = s2" using run w n a False by (auto simp: narrowed_read_def Let_def)
      moreover have "length bs < nat wantEnd" if "e = ErrOutOfRange" "objs obj = Some bs" for bs
        using rd(3) [of bs] Inl that pos w(2) by (simp add: nat_diff_distrib)
      ultimately show ?thesis using w2 by (auto simp: block_answer_def)
    next
      case (Inr d)
      then have "r = Inr d" "s' = fetched_block s2 count_narrowed began d"
        using run w n a False by (auto simp: narrowed_read_def Let_def)
      moreover obtain bs where "objs obj = Some bs" "nat ?st + nat (wantEnd - ?st) \<le> length bs"
          "d = take (nat (wantEnd - ?st)) (drop (nat ?st) bs)" using rd(2) [OF Inr] by blast
      ultimately show ?thesis
        using went_core_right [OF w2 core_fetched] w(2) pos False
        by (auto simp: block_answer_def nat_diff_distrib intro!: exI [of _ "nat wantEnd - nat ?st"])
    qed
  qed
qed

lemma fetch_answers:
  assumes ok: "server_ok objs s" "0 < room_of s" and at: "at_block s k obj index wantEnd"
    and sz: "\<And>bs. objs obj = Some bs \<Longrightarrow> int (length bs) \<le> max_i64"
    and run: "fetch_block s k obj index wantEnd = (r, s')"
  shows "went objs 1 s s' \<and> block_answer objs obj (nat (index * sv_block s)) (nat (sv_block s)) (nat wantEnd) r"
proof -
  let ?st = "index * sv_block s"
  have pos: "0 \<le> ?st" "0 < sv_block s" using ok(1) at by (auto simp: server_ok_def at_block_def)
  have le: "?st < wantEnd" "wantEnd \<le> max_i64" using at by (auto simp: at_block_def)
  then have st: "wrap64 ?st = ?st" using pos by (intro wrap64_id') (simp_all add: min_i64_def)
  obtain began s1 where n: "sv_now s = (began, s1)" by force
  obtain a s2 where a: "backend_read s1 obj ?st (sv_block s1) = (a, s2)" by force
  have w1: "went objs 0 s s1" by (rule went_core [OF ok(1) core_now [OF n]])
  then have ok1: "server_ok objs s1" and b1: "sv_block s1 = sv_block s" by (simp_all add: went_def)
  note rd = backend_read_went [OF ok1 a]
  have w2: "went objs 0 s s2" using went_trans [OF w1 rd(1)] by simp
  then have ok2: "server_ok objs s2" "0 < room_of s2" and b2: "sv_block s2 = sv_block s" "sv_name s2 = sv_name s"
    using ok(2) by (simp_all add: went_def)
  note at2 = at_block_same [OF at b2]
  show ?thesis
  proof (cases a)
    case (Inr d)
    then have r: "r = Inr d" "s' = ds_admit (fetched_block s2 count_fetched began d) k d"
      using run n a st by (auto simp: fetch_block_def)
    obtain bs where bs: "objs obj = Some bs" "nat ?st + nat (sv_block s) \<le> length bs"
        and d: "d = take (nat (sv_block s)) (drop (nat ?st) bs)" using rd(2) [OF Inr] b1 by auto
    let ?f = "fetched_block s2 count_fetched began d"
    have wf: "went objs 0 s ?f" using went_core_right [OF w2 core_fetched] .
    have lt: "?st < int (length bs)" using bs(2) pos by linarith
    have "true_block objs (sv_name ?f) (sv_block ?f) k d"
      using at_block_true [where objs = objs, OF at bs(1) lt d] wf by (simp add: went_def)
    then have "went objs 1 ?f (ds_admit ?f k d)" using wf ok(2) by (intro ds_admit_went) (auto simp: went_def)
    then have "went objs 1 s (ds_admit ?f k d)" using went_trans [OF wf] by simp
    then show ?thesis using r bs(1) d lt pos by (auto simp: block_answer_def nat_less_iff)
  next
    case (Inl e)
    show ?thesis
    proof (cases "e = ErrOutOfRange")
      case False
      then have "r = Inl (Ds_Driver e)" "s' = s2" using run n a st Inl by (auto simp: fetch_block_def)
      then show ?thesis using went_more [OF w2] False by (simp add: block_answer_def)
    next
      case True
      have short: "int (length bs) < ?st + sv_block s" if "objs obj = Some bs" for bs
        using rd(3) [of bs] Inl True that pos b1 by auto
      have "if b_Supports (sv_backend s2) ObjectSize_cap then tailBySize s2 k obj (index * sv_block s2) wantEnd = (r, s')
          else narrowed_read s2 obj (index * sv_block s2) wantEnd = (r, s')"
        using run n a st Inl True b2 by (auto simp: fetch_block_def)
      then have "went objs 1 s2 s' \<and> block_answer objs obj (nat (index * sv_block s2)) (nat (sv_block s2)) (nat wantEnd) r"
        using tail_answers [OF ok2 at2 sz] narrowed_answers [OF ok2(1) at2] short b2(1) by (metis (full_types))
      then show ?thesis using went_trans [OF w2, of 1] b2 by auto
    qed
  qed
qed

lemma blockAt_answers:
  assumes ok: "server_ok objs s" "0 < room_of s" and at: "at_block s (block_key s tenant obj index) obj index wantEnd"
    and sz: "\<And>bs. objs obj = Some bs \<Longrightarrow> int (length bs) \<le> max_i64"
    and run: "blockAt s tenant obj index wantEnd = (r, s')"
  shows "went objs 1 s s' \<and> block_answer objs obj (nat (index * sv_block s)) (nat (sv_block s)) (nat wantEnd) r"
proof -
  let ?k = "block_key s tenant obj index"
  obtain began s1 where n: "sv_now (predict s tenant obj index) = (began, s1)" by force
  obtain a s2 where a: "tier_read s1 ?k = (a, s2)" by force
  have w1: "went objs 0 s s1" by (rule went_core [OF ok(1) same_core_trans [OF core_predict core_now [OF n]]])
  then have ok1: "server_ok objs s1" "sv_block s1 = sv_block s" "sv_name s1 = sv_name s" by (simp_all add: went_def)
  note rd = tier_read_went [OF ok1(1) a]
  have w2: "went objs 0 s s2" using went_trans [OF w1 rd(1)] by simp
  show ?thesis
  proof (cases a)
    case (Some d)
    obtain t s3 where n3: "sv_now (ds_record (\<lambda>st. st\<lparr>Blocks := wrap64 (Blocks st + 1), Hits := wrap64 (Hits st + 1)\<rparr>) s2) = (t, s3)" by force
    have "s' = delivered (measure_read s3 Tier (int (length d)) (time_sub t began)) Tier (int (length d))" "r = Inr d"
      using run n a Some n3 by (auto simp: blockAt_def Let_def)
    moreover have "same_core s2 (delivered (measure_read s3 Tier (int (length d)) (time_sub t began)) Tier (int (length d)))"
      using same_core_trans [OF core_record core_now [OF n3]] same_core_trans [OF core_measure core_delivered]
      by (rule same_core_trans)
    moreover have "true_block objs (sv_name s) (sv_block s) ?k d" using rd(2) [OF Some] ok1 by simp
    moreover have "0 \<le> index * sv_block s" using at ok(1) by (simp add: at_block_def server_ok_def)
    ultimately show ?thesis
      using went_more [OF went_core_right [OF w2], of _ 1] at
      by (auto simp: block_answer_def true_block_def at_block_def nat_less_iff)
  next
    case None
    then have f: "fetch_block s2 ?k obj index wantEnd = (r, s')" using run n a by (auto simp: blockAt_def Let_def)
    have ok2: "server_ok objs s2" "0 < room_of s2" and b2: "sv_block s2 = sv_block s" "sv_name s2 = sv_name s"
      using w2 ok(2) by (simp_all add: went_def)
    show ?thesis
      using fetch_answers [OF ok2 at_block_same [OF at b2] sz f] went_trans [OF w2, of 1] b2 by auto
  qed
qed

end


section \<open>The loop\<close>

lemma take_drop_append:
  assumes "a \<le> b" "b \<le> c"
  shows "take (b - a) (drop a xs) @ take (c - b) (drop b xs) = take (c - a) (drop a xs)"
proof -
  have "take (c - a) (drop a xs) = take (b - a + (c - b)) (drop a xs)" using assms by simp
  also have "\<dots> = take (b - a) (drop a xs) @ take (c - b) (drop (b - a) (drop a xs))" by (rule take_add)
  finally show ?thesis using assms by simp
qed

lemma slice_part:
  assumes ans: "block_answer objs obj start block en (Inr d)" and "0 < block" "start < en" "int en \<le> max_i64" "int start + int block \<le> max_i64" "int off \<le> max_i64"
  shows "case slice_block (int block) (int off) (int en) (int start) d of
      Inl e \<Rightarrow> e = Ds_Driver ErrOutOfRange \<and> (\<forall>bs. objs obj = Some bs \<longrightarrow> length bs < en)
    | Inr part \<Rightarrow> \<exists>bs. objs obj = Some bs \<and> min en (start + block) \<le> length bs
        \<and> part = take (min en (start + block) - max start off) (drop (max start off) bs)"
proof -
  obtain bs m where bs: "objs obj = Some bs" "start < length bs" "d = take m (drop start bs)"
    and m: "m = block \<or> m = en - start \<and> m < block \<and> en \<le> length bs"
    using ans by (auto simp: block_answer_def)
  have held: "length d = min m (length bs - start)" using bs(3) by (simp add: min.commute)
  have le: "length d \<le> block" using held m by auto
  have w: "wrap64 (int start + int (length d)) = int start + int (length d)"
    using le assms by (intro wrap64_id') (auto simp: min_i64_def)
  have wo: "wrap64 (int off - int start) = int off - int start" "wrap64 (int en - int start) = int en - int start"
    using assms by (auto intro!: wrap64_sub)
  show ?thesis
  proof (cases "length d < block \<and> start + length d < en")
    case True
    then have "length bs < en" using held m by auto
    moreover have "slice_block (int block) (int off) (int en) (int start) d = Inl (Ds_Driver ErrOutOfRange)"
      using True w by (simp add: slice_block_def Let_def)
    ultimately show ?thesis using bs(1) by simp
  next
    case False
    define lo where "lo = (if start < off then off - start else 0)"
    define hi where "hi = min (en - start) (length d)"
    have hm: "hi \<le> m" "start + hi = min en (start + block)" "start + lo = max start off" "start + hi \<le> length bs"
      using False held m assms(2,3) bs(2) by (auto simp: hi_def lo_def)
    have "slice_block (int block) (int off) (int en) (int start) d = Inr (take (hi - lo) (drop lo d))"
      using False w wo assms(3) by (auto simp: slice_block_def Let_def lo_def hi_def min_def nat_diff_distrib)
    moreover have "take (hi - lo) (drop lo d) = take (hi - lo) (drop (start + lo) bs)"
      using hm(1) bs(3) by (simp add: drop_take add.commute min_def)
    moreover have "hi - lo = min en (start + block) - max start off" using hm(2,3) by linarith
    ultimately show ?thesis using bs(1) hm by auto
  qed
qed

definition loop_so_far :: "(string \<Rightarrow> bytes option) \<Rightarrow> string \<Rightarrow> nat \<Rightarrow> nat \<Rightarrow> nat \<Rightarrow> bytes \<Rightarrow> bool" where
  "loop_so_far objs obj off en start out \<longleftrightarrow>
     start \<le> off \<and> out = [] \<or>
     off \<le> start \<and> (\<exists>bs. objs obj = Some bs \<and> min en start \<le> length bs \<and> out = take (min en start - off) (drop off bs))"

lemma loop_so_far_step:
  assumes "loop_so_far objs obj off en start out" "off < start + block" "off < en" "start < en"
    and "objs obj = Some bs" "min en (start + block) \<le> length bs"
    and "part = take (min en (start + block) - max start off) (drop (max start off) bs)"
  shows "loop_so_far objs obj off en (start + block) (out @ part)"
proof -
  have "out @ part = take (min en (start + block) - off) (drop off bs)"
  proof (cases "start \<le> off \<and> out = []")
    case True
    then show ?thesis using assms by (simp add: max_def)
  next
    case False
    then have "off \<le> start" "out = take (start - off) (drop off bs)"
      using assms by (auto simp: loop_so_far_def min_def split: if_splits)
    then show ?thesis using assms take_drop_append [of off start "min en (start + block)" bs] by (simp add: max_def)
  qed
  then show ?thesis using assms by (auto simp: loop_so_far_def)
qed

context lawful_driver
begin

lemma read_loop_answers:
  assumes "server_ok objs s" "fuel \<le> room_of s" "nat (sv_block s) = b"
    and "off < en" "int en + int b \<le> max_i64" "off < (j + 1) * b"
    and "j * b < en \<longrightarrow> (en - 1) div b - j < fuel"
    and sz: "\<And>bs. objs obj = Some bs \<Longrightarrow> int (length bs) \<le> max_i64"
    and "loop_so_far objs obj off en (j * b) out"
    and "read_loop fuel ctx i s tenant obj (int off) (int en) (int (j * b)) out = (r, s')"
  shows "went objs fuel s s' \<and> read_answer objs obj off en r"
  using assms(1-7,9-10)
proof (induction fuel arbitrary: i s j out)
  case 0
  then have "\<not> j * b < en" by auto
  then have "\<not> int (j * b) < int en" unfolding of_nat_less_iff .
  then have "r = Inr out" "s' = s" using 0 by (auto simp: read_loop.simps [of 0])
  then show ?case using 0 \<open>\<not> j * b < en\<close> went_core [OF "0.prems"(1) same_core_refl]
    by (auto simp: read_answer_def loop_so_far_def min_def)
next
  case (Suc fuel)
  have b: "0 < b" "sv_block s = int b" using Suc.prems(1,3) by (auto simp: server_ok_def)
  show ?case
  proof (cases "j * b < en")
    case False
    then have "\<not> int (j * b) < int en" unfolding of_nat_less_iff .
    then have "r = Inr out" "s' = s" using Suc.prems by (auto simp: read_loop.simps [of "Suc fuel"])
    then show ?thesis using False Suc.prems went_more [OF went_core [OF Suc.prems(1) same_core_refl]]
      by (auto simp: read_answer_def loop_so_far_def min_def)
  next
    case lt: True
    then have ilt: "int (j * b) < int en" unfolding of_nat_less_iff .
    show ?thesis
    proof (cases "ctx i")
      case True
      then have "r = Inl Ds_Cancelled" "s' = s" using Suc.prems ilt by (auto simp: read_loop.simps [of "Suc fuel"])
      then show ?thesis using went_more [OF went_core [OF Suc.prems(1) same_core_refl]] by (simp add: read_answer_def)
    next
      case False
      have idx: "go_div (int (j * b)) (sv_block s) = int j" using b by (simp add: go_div_nonneg)
      obtain a s1 where a: "blockAt s tenant obj (int j) (int en) = (a, s1)" by force
      have st: "int j * sv_block s = int (j * b)" using b by simp
      have at: "at_block s (block_key s tenant obj (int j)) obj (int j) (int en)"
        unfolding at_block_def st using b ilt Suc.prems(5) by (simp add: block_key_def)
      have ba: "went objs 1 s s1" "block_answer objs obj (j * b) b en a"
        using blockAt_answers [OF Suc.prems(1) _ at sz a] Suc.prems(2) unfolding b(2) by (simp_all add: nat_mult_distrib)
      have s1: "server_ok objs s1" "sv_block s1 = int b" "fuel \<le> room_of s1"
        using ba(1) Suc.prems(2) b by (auto simp: went_def)
      have step: "read_loop (Suc fuel) ctx i s tenant obj (int off) (int en) (int (j * b)) out =
          (case a of Inl e \<Rightarrow> (Inl e, s1)
           | Inr data \<Rightarrow> (case slice_block (int b) (int off) (int en) (int (j * b)) data of
                Inl e \<Rightarrow> (Inl e, s1)
              | Inr part \<Rightarrow> read_loop fuel ctx (Suc i) s1 tenant obj (int off) (int en) (wrap64 (int (j * b) + int b)) (out @ part)))"
        using ilt False a idx s1(2) by (subst read_loop.simps) (simp split: sum.splits)
      have nx: "wrap64 (int (j * b) + int b) = int ((j + 1) * b)"
      proof -
        have "wrap64 (int (j * b) + int b) = int (j * b) + int b"
          using ilt Suc.prems(5) by (intro wrap64_id') (unfold min_i64_def, linarith+)
        then show ?thesis by (simp add: algebra_simps)
      qed
      show ?thesis
      proof (cases a)
        case (Inl e)
        then have "r = Inl e" "s' = s1" using step Suc.prems(9) by auto
        then show ?thesis using ba Inl went_more [OF ba(1)] by (auto simp: block_answer_def read_answer_def)
      next
        case (Inr d)
        have sp: "case slice_block (int b) (int off) (int en) (int (j * b)) d of
            Inl e \<Rightarrow> e = Ds_Driver ErrOutOfRange \<and> (\<forall>bs. objs obj = Some bs \<longrightarrow> length bs < en)
          | Inr part \<Rightarrow> \<exists>bs. objs obj = Some bs \<and> min en (j * b + b) \<le> length bs
              \<and> part = take (min en (j * b + b) - max (j * b) off) (drop (max (j * b) off) bs)"
        proof (rule slice_part [OF _ b(1) lt])
          show "int en \<le> max_i64" "int (j * b) + int b \<le> max_i64" "int off \<le> max_i64"
            using ilt Suc.prems(4,5) by linarith+
        qed (use ba(2) Inr in simp)
        show ?thesis
        proof (cases "slice_block (int b) (int off) (int en) (int (j * b)) d")
          case sl: (Inl e)
          then have "r = Inl e" "s' = s1" using step Suc.prems(9) Inr by auto
          then show ?thesis using sp sl went_more [OF ba(1)] by (auto simp: read_answer_def)
        next
          case sr: (Inr part)
          have lp: "loop_so_far objs obj off en ((j + 1) * b) (out @ part)"
            using sp sr loop_so_far_step [OF Suc.prems(8), of b] Suc.prems(4,6) lt by (auto simp: add.commute)
          have more: "(j + 1) * b < en \<longrightarrow> (en - 1) div b - (j + 1) < fuel"
          proof
            assume "(j + 1) * b < en"
            then have "j + 1 \<le> (en - 1) div b" using b(1) by (simp add: less_eq_div_iff_mult_less_eq)
            then show "(en - 1) div b - (j + 1) < fuel" using Suc.prems(7) lt by linarith
          qed
          have "read_loop fuel ctx (Suc i) s1 tenant obj (int off) (int en) (int ((j + 1) * b)) (out @ part) = (r, s')"
            using step Suc.prems(9) Inr sr nx by simp
          then have "went objs fuel s1 s' \<and> read_answer objs obj off en r"
            using s1 Suc.prems(4-6) more lp by (intro Suc.IH [of s1 "j + 1" "out @ part" "Suc i"]) auto
          then show ?thesis using went_trans [OF ba(1)] by auto
        qed
      qed
    qed
  qed
qed

end


section \<open>Reads\<close>

definition range_answer :: "(string \<Rightarrow> bytes option) \<Rightarrow> string \<Rightarrow> int \<Rightarrow> int \<Rightarrow> ds_error + bytes \<Rightarrow> bool" where
  "range_answer objs obj offset len r \<longleftrightarrow>
     (case r of
        Inr d \<Rightarrow> len = 0 \<and> d = [] \<or>
           (\<exists>bs. objs obj = Some bs \<and> nat offset + nat len \<le> length bs \<and> d = take (nat len) (drop (nat offset) bs))
      | Inl e \<Rightarrow> e \<noteq> Ds_Fuel \<and> e \<noteq> Ds_Assembled
           \<and> (\<forall>bs. e = Ds_Driver ErrOutOfRange \<longrightarrow> objs obj = Some bs \<longrightarrow> length bs < nat offset + nat len))"

lemma range_blocks_fuel:
  assumes "off < en" "0 < b"
  shows "(en - 1) div b - off div b < range_blocks (int b) (int off) (int en)"
proof -
  have "int ((en - 1) div b) = (int en - 1) div int b" using assms by (simp add: zdiv_int of_nat_diff)
  moreover have "off div b \<le> (en - 1) div b" using assms by (intro div_le_mono) simp
  ultimately show ?thesis by (simp add: range_blocks_def zdiv_int [symmetric])
qed

context lawful_driver
begin

lemma ReadRange_answers:
  assumes ok: "server_ok objs s" and room: "range_blocks (sv_block s) offset (offset + len) \<le> room_of s"
    and far: "offset + len + sv_block s \<le> max_i64"
    and sz: "\<And>bs. objs obj = Some bs \<Longrightarrow> int (length bs) \<le> max_i64"
    and run: "ds_ReadRange ctx s tenant obj offset len = (r, s')"
  shows "went objs (range_blocks (sv_block s) offset (offset + len)) s s' \<and> range_answer objs obj offset len r"
proof (cases "tenant = [] \<or> obj = [] \<or> offset < 0 \<or> len \<le> 0 \<or> max_i64 - len < offset \<or> sv_maxRead s < len")
  case True
  then have "s' = s \<and> (r = Inl Ds_Refused \<or> r = Inr [] \<and> len = 0)"
    using run by (auto simp: ds_ReadRange_def split: if_splits)
  then show ?thesis using went_more [OF went_core [OF ok same_core_refl]] by (auto simp: range_answer_def)
next
  case False
  define off where "off = nat offset"
  define en where "en = nat (offset + len)"
  define b where "b = nat (sv_block s)"
  have b: "0 < b" "sv_block s = int b" using ok by (auto simp: server_ok_def b_def)
  have n: "offset = int off" "offset + len = int en" "off < en" using False by (auto simp: off_def en_def)
  obtain began s1 where t: "sv_now s = (began, s1)" by force
  let ?s1 = "inFlight s1 1"
  have c1: "same_core s ?s1" by (rule same_core_trans [OF core_now [OF t] core_inFlight])
  have s1: "server_ok objs ?s1" "room_of ?s1 = room_of s" "sv_block ?s1 = int b"
    using ok_core [OF ok c1] c1 b by (auto simp: same_core_def room_of_def)
  let ?fuel = "range_blocks (int b) (int off) (int en)"
  have start: "go_div offset (sv_block s) * sv_block s = int (off div b * b)"
    using n b by (simp add: go_div_nonneg zdiv_int)
  obtain q s2 where l: "read_loop ?fuel ctx 0 ?s1 tenant obj (int off) (int en) (int (off div b * b)) [] = (q, s2)" by force
  have en: "int en + int b \<le> max_i64" using far n(2) b(2) by linarith
  have fits: "off < (off div b + 1) * b" using b(1) by (metis Suc_eq_plus1 dividend_less_div_times mult.commute mult_Suc_right add.commute)
  have "went objs ?fuel ?s1 s2 \<and> read_answer objs obj off en q"
  proof (rule read_loop_answers [OF s1(1) _ _ n(3) en fits _ sz _ l])
    show "?fuel \<le> room_of ?s1" using room n b s1(2) by simp
    show "nat (sv_block ?s1) = b" using s1(3) by simp
    show "off div b * b < en \<longrightarrow> (en - 1) div b - off div b < ?fuel" using range_blocks_fuel [OF n(3) b(1)] by simp
    show "loop_so_far objs obj off en (off div b * b) []" by (simp add: loop_so_far_def)
  qed
  then have w2: "went objs ?fuel s s2" and a: "read_answer objs obj off en q" using went_core_left [OF c1] by auto
  obtain t3 s3 where t3: "sv_now (inFlight s2 (- 1)) = (t3, s3)" by force
  have "r = (case q of Inl e \<Rightarrow> Inl e | Inr out \<Rightarrow> if int (length out) \<noteq> len then Inl Ds_Assembled else Inr out)"
    and s': "s' = answered s3 (time_sub t3 began)"
    using run False t l n t3 start b unfolding ds_ReadRange_def by (auto simp: Let_def simp del: of_nat_mult)
  moreover have "nat len = en - off" "off + nat len = en" using n by linarith+
  ultimately have "range_answer objs obj offset len r"
    using a n by (auto simp: read_answer_def range_answer_def split: sum.splits)
  moreover have "same_core s2 s'"
    unfolding s' by (rule same_core_trans [OF same_core_trans [OF core_inFlight core_now [OF t3]] core_answered])
  ultimately show ?thesis using went_core_right [OF w2] n b by simp
qed

end


section \<open>Everything a server does\<close>

text \<open>
  The steps of a server: reads, sizes, listings, one turn of the prefetch worker, and what the node
  agent does to the tier underneath it. The side conditions keep the count of admissions below
  \<open>2 ^ 64\<close> and a read one block away from the last offset.
\<close>

inductive ds_step :: "'w server \<Rightarrow> 'w server \<Rightarrow> bool" where
  read: "range_blocks (sv_block s) offset (offset + len) \<le> room_of s \<Longrightarrow> offset + len + sv_block s \<le> max_i64 \<Longrightarrow>
    ds_step s (snd (ds_ReadRange ctx s tenant obj offset len))"
| sizeof: "ds_step s (snd (ds_SizeOf s tenant obj))"
| listing: "ds_step s (snd (ds_List s tenant prefix after n))"
| ahead: "0 < room_of s \<Longrightarrow> ds_step s (fetch_next s)"
| add: "ds_step s (s\<lparr>sv_tier := snd (AddCapacity (sv_tier s) lease extent)\<rparr>)"
| revoke: "ds_step s (s\<lparr>sv_tier := snd (Revoke (sv_tier s) lease)\<rparr>)"
| reorder: "ds_step s (s\<lparr>sv_tier := ReclaimOrder (sv_tier s) leases\<rparr>)"

lemma view_keeps:
  assumes "keeps c c'" "map_of (c_resident c') \<subseteq>\<^sub>m map_of (c_resident c)" "tier_view c' k = Some d"
  shows "tier_view c k = Some d"
proof -
  obtain p where p: "map_of (c_resident c') k = Some p" "d = block_bytes c' p" using assms(3) by (auto simp: tier_view_def)
  then have q: "map_of (c_resident c) k = Some p" using assms(2) by (auto simp: map_le_def dom_def)
  then have "block_bytes c' p = block_bytes c p" using assms(1) p(1) unfolding keeps_def by blast
  then show ?thesis using q p(2) by (simp add: tier_view_def)
qed

lemma holds_keeps:
  assumes "tier.holds_only P c" "tier_ok c'" "keeps c c'" "map_of (c_resident c') \<subseteq>\<^sub>m map_of (c_resident c)"
  shows "tier.holds_only P c'"
  using assms view_keeps [OF assms(3,4)] unfolding tier.holds_only_def by blast

context lawful_driver
begin

lemma tier_change_ok:
  assumes "server_ok objs s" "tier_ok c'" "keeps (sv_tier s) c'" "map_of (c_resident c') \<subseteq>\<^sub>m map_of (c_resident (sv_tier s))"
  shows "server_ok objs (s\<lparr>sv_tier := c'\<rparr>)"
  using assms holds_keeps by (auto simp: server_ok_def)

lemma server_tier_ok: "server_ok objs s \<Longrightarrow> tier_ok (sv_tier s)"
  by (simp add: server_ok_def tier.holds_only_def)

lemma fetchOne_went:
  assumes ok: "server_ok objs s" "0 < room_of s"
    and sz: "\<And>obj bs. objs obj = Some bs \<Longrightarrow> int (length bs) \<le> max_i64"
  shows "went objs 1 s (fetchOne s k)"
proof (cases "Resident (sv_tier s) k")
  case True
  then show ?thesis using went_more [OF went_core [OF ok(1) same_core_refl]] by (simp add: fetchOne_def)
next
  case False
  obtain began s1 where n: "sv_now s = (began, s1)" by force
  let ?off = "wrap64 (Index (Block k) * sv_block s1)"
  obtain a s2 where a: "backend_read s1 (Object (Block k)) ?off (sv_block s1) = (a, s2)" by force
  have w1: "went objs 0 s s1" by (rule went_core [OF ok(1) core_now [OF n]])
  then have ok1: "server_ok objs s1" "sv_block s1 = sv_block s" by (simp_all add: went_def)
  note rd = backend_read_went [OF ok1(1) a]
  have w2: "went objs 0 s s2" using went_trans [OF w1 rd(1)] by simp
  show ?thesis
  proof (cases a)
    case (Inl e)
    then have "same_core s2 (fetchOne s k)"
      using False n a by (simp add: fetchOne_def same_core_trans [OF core_record core_predicted])
    then show ?thesis using went_core_right [OF went_more [OF w2]] by simp
  next
    case (Inr d)
    obtain t s3 where n3: "sv_now s2 = (t, s3)" by force
    let ?m = "measure_read s3 read_source.Backend (int (length d)) (time_sub t began)"
    obtain q s4 where q: "tier_admit ?m k d True = (q, s4)" by force
    have wm: "went objs 0 s ?m"
      by (rule went_core_right [OF w2 same_core_trans [OF core_now [OF n3] core_measure]])
    have tb: "true_block objs (sv_name ?m) (sv_block ?m) k d"
      unfolding true_block_def
    proof
      assume h: "BlockRef.Backend (Block k) = sv_name ?m \<and> 0 \<le> Index (Block k) \<and> Index (Block k) * sv_block ?m + sv_block ?m \<le> max_i64"
      have bm: "sv_block ?m = sv_block s" "0 < sv_block s" using wm by (auto simp: went_def server_ok_def)
      let ?i = "Index (Block k) * sv_block s"
      have i: "0 \<le> ?i" "?i + sv_block s \<le> max_i64" using h bm by auto
      then have off: "?off = ?i" unfolding ok1(2) using bm(2) by (intro wrap64_id') (simp_all add: min_i64_def)
      obtain bs where bs: "objs (Object (Block k)) = Some bs" "nat ?i + nat (sv_block s) \<le> length bs"
          "d = take (nat (sv_block s)) (drop (nat ?i) bs)" using rd(2) [OF Inr] off ok1(2) by auto
      then have "?i < int (length bs)" using bm(2) i(1) by linarith
      then show "\<exists>bs. objs (Object (Block k)) = Some bs \<and> Index (Block k) * sv_block ?m < int (length bs)
          \<and> d = take (nat (sv_block ?m)) (drop (nat (Index (Block k) * sv_block ?m)) bs)"
        using bs bm(1) by auto
    qed
    have "went objs 1 ?m s4" using wm ok(2) by (intro tier_admit_went [OF _ _ tb q]) (auto simp: went_def)
    then have w4: "went objs 1 s s4" using went_trans [OF wm] by simp
    have "same_core s4 (fetchOne s k)"
      using False n a Inr n3 q same_core_trans [OF core_record core_predicted, of s4]
      by (simp add: fetchOne_def split: sum.splits tier_error.splits bool.splits)
    then show ?thesis using went_core_right [OF w4] by blast
  qed
qed

lemma ds_step_ok:
  assumes "ds_step s s'" "server_ok objs s" and sz: "\<And>obj bs. objs obj = Some bs \<Longrightarrow> int (length bs) \<le> max_i64"
  shows "server_ok objs s'"
  using assms(1,2)
proof (cases rule: ds_step.cases)
  case (read offset len ctx tenant obj)
  obtain r s1 where run: "ds_ReadRange ctx s tenant obj offset len = (r, s1)" by force
  have "went objs (range_blocks (sv_block s) offset (offset + len)) s s1"
    using ReadRange_answers [OF assms(2) read(2,3) _ run] sz by blast
  then show ?thesis using read(1) run by (simp add: went_def)
next
  case (sizeof tenant obj)
  obtain r s1 where "backend_size s obj = (r, s1)" by force
  then have "s' = s \<or> s' = s1" "server_ok objs s1"
    using sizeof backend_size_went(1) [OF assms(2)] by (auto simp: ds_SizeOf_def went_def split: sum.splits)
  then show ?thesis using assms(2) by auto
next
  case (listing tenant prefix after n)
  obtain r b where b: "b_List (sv_backend s) prefix after n = (r, b)" by force
  have "s' = s \<or> s' = s\<lparr>sv_backend := b\<rparr>" using listing b by (auto simp: ds_List_def split: sum.splits)
  moreover have "b_driver (sv_backend s) = drv" "b_lister (sv_backend s) = None \<or> b_lister (sv_backend s) = dList drv"
    using assms(2) by (auto simp: server_ok_def)
  note b_list_keeps [OF this b]
  ultimately show ?thesis using assms(2) by (auto simp: server_ok_def)
next
  case ahead
  show ?thesis
  proof (cases "sv_ahead s")
    case Nil
    then show ?thesis using ahead assms(2) by (simp add: fetch_next_def)
  next
    case (Cons k ks)
    have c: "same_core s (s\<lparr>sv_ahead := ks\<rparr>)" by (simp add: same_core_def)
    have "went objs 1 (s\<lparr>sv_ahead := ks\<rparr>) (fetchOne (s\<lparr>sv_ahead := ks\<rparr>) k)"
      using ok_core [OF assms(2) c] ahead sz by (intro fetchOne_went) (auto simp: room_of_def)
    then show ?thesis using ahead Cons by (simp add: fetch_next_def went_def)
  qed
next
  case (add lease extent)
  note i = AddCapacity_inv [OF server_tier_ok [OF assms(2)], of lease extent]
  show ?thesis unfolding add(1)
    using i by (intro tier_change_ok [OF assms(2)]) (metis prod.collapse map_le_refl)+
next
  case (revoke lease)
  note i = Revoke_inv [OF server_tier_ok [OF assms(2)], of lease]
  show ?thesis unfolding revoke(1) using i by (intro tier_change_ok [OF assms(2)]) (metis prod.collapse)+
next
  case (reorder leases)
  show ?thesis unfolding reorder(1)
    using ReclaimOrder_inv [OF server_tier_ok [OF assms(2)], of leases]
    by (intro tier_change_ok [OF assms(2)]) (auto simp: ReclaimOrder_def)
qed

lemma ds_reach_ok:
  assumes "ds_step\<^sup>*\<^sup>* s s'" "server_ok objs s" and sz: "\<And>obj bs. objs obj = Some bs \<Longrightarrow> int (length bs) \<le> max_i64"
  shows "server_ok objs s'"
  using assms(1,2) by (induction rule: rtranclp_induct) (auto intro: ds_step_ok [OF _ _ sz])

lemma New_server_ok:
  assumes "New_server (Some c) (Some b) cf env = Inr s" "NewCache tc = Inr c" "Open (Some drv) w = Inr b"
  shows "server_ok (contents w) s"
proof -
  have c: "tier_ok c" "c_resident c = []" "0 < BlockSize (c_cfg c)"
    using NewCache_ok [OF assms(2)] assms(2) by (auto simp: NewCache_def split: if_splits)
  have b: "b_driver b = drv" "b_store b = w" "b_lister b \<in> {None, dList drv}"
    using Open_frame [OF assms(3)] by auto
  show ?thesis
    using assms(1) b c by (auto simp: New_server_def server_ok_def tier.holds_only_def tier_view_def Let_def split: option.splits if_splits)
qed

end


section \<open>A read inside the object is answered\<close>

context answering_driver
begin

definition store_well :: "'w server \<Rightarrow> bool" where
  "store_well s \<longleftrightarrow> well (b_store (sv_backend s))"

lemma well_core: "same_core s s' \<Longrightarrow> store_well s' = store_well s"
  by (simp add: same_core_def store_well_def)

lemma well_admit [simp]: "store_well (ds_admit s k d) = store_well s"
  by (auto simp: ds_admit_def tier_admit_def ds_record_def store_well_def split: prod.splits sum.splits bool.splits)

lemma tier_read_well: "tier_read s k = (r, s') \<Longrightarrow> store_well s' = store_well s"
  by (auto simp: tier_read_def store_well_def split: prod.splits)

lemma backend_read_well:
  assumes "server_ok objs s" "store_well s" "objs obj = Some bs" "0 \<le> off" "0 \<le> len" "len \<le> 281474976710656" "off + len \<le> max_i64"
    and "backend_read s obj off len = (r, s')"
  shows "store_well s' \<and> denied_caps (sv_backend s') = denied_caps (sv_backend s) \<and> b_declare (sv_backend s') = b_declare (sv_backend s)
    \<and> r = (if nat off + nat len \<le> length bs then Inr (take (nat len) (drop (nat off) bs)) else Inl ErrOutOfRange)"
proof -
  have d: "b_driver (sv_backend s) = drv" "well (b_store (sv_backend s))" "contents (b_store (sv_backend s)) obj = Some bs"
    using assms(1-3) by (auto simp: server_ok_def store_well_def)
  define X where "X = (if nat off + nat len \<le> length bs then Inr (take (nat len) (drop (nat off) bs)) else Inl ErrOutOfRange)"
  obtain b' where f: "b_driver b' = drv" "well (b_store b')" "contents (b_store b') = contents (b_store (sv_backend s))"
    "denied_caps b' = denied_caps (sv_backend s)" "b_declare b' = b_declare (sv_backend s)"
    "b_ReadRange (sv_backend s) obj off len = (X, b')"
    unfolding X_def by (rule b_read_answers [OF d assms(4-7)])
  have "r = X" "s' = s\<lparr>sv_backend := b'\<rparr>" using assms(8) f(6) by (simp_all add: backend_read_def)
  then have "store_well s' \<and> denied_caps (sv_backend s') = denied_caps (sv_backend s) \<and> b_declare (sv_backend s') = b_declare (sv_backend s) \<and> r = X"
    using f(2,4,5) by (simp add: store_well_def)
  then show ?thesis unfolding X_def .
qed

lemma backend_size_well:
  assumes "server_ok objs s" "store_well s" "objs obj = Some bs" "b_Supports (sv_backend s) ObjectSize_cap"
    and "backend_size s obj = (r, s')"
  shows "store_well s' \<and> r = Inr (int (length bs))"
proof -
  have d: "b_driver (sv_backend s) = drv" "well (b_store (sv_backend s))" "contents (b_store (sv_backend s)) obj = Some bs"
    using assms(1-3) by (auto simp: server_ok_def store_well_def)
  obtain b' where "b_driver b' = drv" "well (b_store b')" "contents (b_store b') = contents (b_store (sv_backend s))"
    "denied_caps b' = denied_caps (sv_backend s)" "b_declare b' = b_declare (sv_backend s)" "b_SizeOf (sv_backend s) obj = (Inr (int (length bs)), b')"
    by (rule b_size_answers [OF d assms(4)])
  then show ?thesis using assms(5) by (auto simp: backend_size_def store_well_def)
qed

lemma tail_succeeds:
  assumes ok: "server_ok objs s" "store_well s" "objs obj = Some bs" "b_Supports (sv_backend s) ObjectSize_cap"
    and at: "at_block s k obj index wantEnd" "wantEnd \<le> int (length bs)" "int (length bs) \<le> max_i64" "sv_block s \<le> 281474976710656"
    and short: "int (length bs) < index * sv_block s + sv_block s"
    and run: "tailBySize s k obj (index * sv_block s) wantEnd = (r, s')"
  shows "store_well s' \<and> (\<exists>d. r = Inr d)"
proof -
  let ?st = "index * sv_block s" and ?n = "int (length bs)"
  obtain q s1 where q: "backend_size s obj = (q, s1)" by force
  have z: "store_well s1" "q = Inr ?n" using backend_size_well [OF ok q] by auto
  have w1: "went objs 0 s s1" by (rule backend_size_went(1) [OF ok(1) q])
  have le: "0 \<le> ?st" "?st < wantEnd" "0 < sv_block s" using at(1) ok(1) by (auto simp: at_block_def server_ok_def)
  have ln: "wrap64 (?n - ?st) = ?n - ?st" using le at(2,3) by (intro wrap64_sub) auto
  obtain began s2 where n2: "sv_now s1 = (began, s2)" by force
  obtain a s3 where a: "backend_read s2 obj ?st (?n - ?st) = (a, s3)" by force
  have "went objs 0 s s2" by (rule went_core_right [OF w1 core_now [OF n2]])
  then have ok2: "server_ok objs s2" by (simp add: went_def)
  have "store_well s2" using well_core [OF core_now [OF n2]] z(1) by simp
  then have "store_well s3 \<and> a = (if nat ?st + nat (?n - ?st) \<le> length bs then Inr (take (nat (?n - ?st)) (drop (nat ?st) bs)) else Inl ErrOutOfRange)"
    using backend_read_well [OF ok2 _ ok(3) le(1) _ _ _ a] le at(2-4) short by linarith
  moreover have "nat ?st + nat (?n - ?st) \<le> length bs" using le at(2) by linarith
  ultimately obtain d where "store_well s3" "a = Inr d" by auto
  moreover have "sv_block s1 = sv_block s" using w1 by (simp add: went_def)
  ultimately show ?thesis
    using run q z(2) n2 a ln at(2) short well_core [OF core_fetched] by (auto simp: tailBySize_def Let_def)
qed

lemma narrowed_succeeds:
  assumes ok: "server_ok objs s" "store_well s" "objs obj = Some bs"
    and at: "at_block s k obj index wantEnd" "wantEnd \<le> int (length bs)" "int (length bs) \<le> max_i64" "sv_block s \<le> 281474976710656"
    and short: "int (length bs) < index * sv_block s + sv_block s"
    and run: "narrowed_read s obj (index * sv_block s) wantEnd = (r, s')"
  shows "store_well s' \<and> (\<exists>d. r = Inr d)"
proof -
  let ?st = "index * sv_block s"
  have le: "0 \<le> ?st" "?st < wantEnd" "0 < sv_block s" using at(1) ok(1) by (auto simp: at_block_def server_ok_def)
  have w: "wrap64 (wantEnd - ?st) = wantEnd - ?st" using le at(2,3) by (intro wrap64_sub) auto
  obtain began s1 where n: "sv_now s = (began, s1)" by force
  obtain a s2 where a: "backend_read s1 obj ?st (wantEnd - ?st) = (a, s2)" by force
  have ok1: "server_ok objs s1" "store_well s1" using ok_core [OF ok(1) core_now [OF n]] well_core [OF core_now [OF n]] ok(2) by auto
  have "store_well s2 \<and> a = (if nat ?st + nat (wantEnd - ?st) \<le> length bs then Inr (take (nat (wantEnd - ?st)) (drop (nat ?st) bs)) else Inl ErrOutOfRange)"
    using backend_read_well [OF ok1 ok(3) le(1) _ _ _ a] le at(2-4) short by linarith
  moreover have "nat ?st + nat (wantEnd - ?st) \<le> length bs" using le at(2) by linarith
  ultimately obtain d where "store_well s2" "a = Inr d" by auto
  then show ?thesis
    using run w n a le at(2) short well_core [OF core_fetched] by (auto simp: narrowed_read_def Let_def)
qed

lemma blockAt_succeeds:
  assumes ok: "server_ok objs s" "store_well s" "objs obj = Some bs"
    and at: "at_block s (block_key s tenant obj index) obj index wantEnd" "wantEnd \<le> int (length bs)" "int (length bs) \<le> max_i64"
      "sv_block s \<le> 281474976710656"
    and run: "blockAt s tenant obj index wantEnd = (r, s')"
  shows "store_well s' \<and> (\<exists>d. r = Inr d)"
proof -
  let ?k = "block_key s tenant obj index" and ?st = "index * sv_block s"
  obtain began s1 where n: "sv_now (predict s tenant obj index) = (began, s1)" by force
  obtain a s2 where a: "tier_read s1 ?k = (a, s2)" by force
  have c1: "same_core s s1" by (rule same_core_trans [OF core_predict core_now [OF n]])
  have ok1: "server_ok objs s1" "store_well s1" using ok_core [OF ok(1) c1] well_core [OF c1] ok(2) by auto
  have w2: "went objs 0 s s2" using went_core_left [OF c1 tier_read_went(1) [OF ok1(1) a]] .
  have s2: "server_ok objs s2" "store_well s2" "sv_block s2 = sv_block s" "sv_name s2 = sv_name s"
    using w2 tier_read_well [OF a] ok1(2) by (auto simp: went_def)
  show ?thesis
  proof (cases a)
    case (Some d)
    obtain t s3 where n3: "sv_now (ds_record (\<lambda>st. st\<lparr>Blocks := wrap64 (Blocks st + 1), Hits := wrap64 (Hits st + 1)\<rparr>) s2) = (t, s3)" by force
    have "same_core s2 (delivered (measure_read s3 Tier (int (length d)) (time_sub t began)) Tier (int (length d)))"
      using same_core_trans [OF core_record core_now [OF n3]] same_core_trans [OF core_measure core_delivered] by (rule same_core_trans)
    then show ?thesis using run n a Some n3 s2(2) well_core by (auto simp: blockAt_def Let_def)
  next
    case None
    obtain began2 s3 where n3: "sv_now s2 = (began2, s3)" by force
    have le: "0 \<le> ?st" "?st < wantEnd" "0 < sv_block s" "?st + sv_block s \<le> max_i64"
      using at(1) ok(1) by (auto simp: at_block_def server_ok_def)
    have st: "wrap64 ?st = ?st" using le by (intro wrap64_id') (simp_all add: min_i64_def)
    have c3: "same_core s2 s3" by (rule core_now [OF n3])
    have s3: "server_ok objs s3" "store_well s3" "sv_block s3 = sv_block s" "sv_name s3 = sv_name s"
      using ok_core [OF s2(1) c3] well_core [OF c3] s2 c3 by (auto simp: same_core_def)
    obtain q s4 where q: "backend_read s3 obj ?st (sv_block s) = (q, s4)" by force
    have rd: "store_well s4" "denied_caps (sv_backend s4) = denied_caps (sv_backend s3)" "b_declare (sv_backend s4) = b_declare (sv_backend s3)"
      "q = (if nat ?st + nat (sv_block s) \<le> length bs then Inr (take (nat (sv_block s)) (drop (nat ?st) bs)) else Inl ErrOutOfRange)"
      using backend_read_well [OF s3(1,2) ok(3) le(1) _ at(4) le(4) q] le by auto
    have w4: "went objs 0 s3 s4" by (rule backend_read_went(1) [OF s3(1) q])
    then have s4: "server_ok objs s4" "sv_block s4 = sv_block s" "sv_name s4 = sv_name s" using s3 by (auto simp: went_def)
    have f: "fetch_block s2 ?k obj index wantEnd = (r, s')" using run n a None by (auto simp: blockAt_def Let_def)
    show ?thesis
    proof (cases "nat ?st + nat (sv_block s) \<le> length bs")
      case True
      then show ?thesis using f n3 q rd s2(3) s3(3) st well_core [OF core_fetched] by (auto simp: fetch_block_def Let_def)
    next
      case False
      then have short: "int (length bs) < index * sv_block s4 + sv_block s4" using le unfolding s4(2) by linarith
      note at4 = at_block_same [OF at(1) s4(2,3)]
      have blk: "sv_block s4 \<le> 281474976710656" using at(4) s4(2) by simp
      have "if b_Supports (sv_backend s4) ObjectSize_cap then tailBySize s4 ?k obj (index * sv_block s4) wantEnd = (r, s')
          else narrowed_read s4 obj (index * sv_block s4) wantEnd = (r, s')"
        using f n3 q rd(4) False st s2(3) s3(3) s4(2) by (auto simp: fetch_block_def Let_def)
      then show ?thesis
        using tail_succeeds [OF s4(1) rd(1) ok(3) _ at4 at(2,3) blk short]
          narrowed_succeeds [OF s4(1) rd(1) ok(3) at4 at(2,3) blk short] by (auto split: if_splits)
    qed
  qed
qed

end


context answering_driver
begin

lemma read_loop_succeeds:
  assumes "server_ok objs s" "store_well s" "objs obj = Some bs" "fuel \<le> room_of s" "sv_block s = int b" "b \<le> 281474976710656"
    and "off < en" "en \<le> length bs" "int (length bs) + int b \<le> max_i64"
    and "j * b < en \<longrightarrow> (en - 1) div b - j < fuel" and sz: "\<And>bs. objs obj = Some bs \<Longrightarrow> int (length bs) \<le> max_i64"
    and "\<And>n. \<not> ctx n"
    and "read_loop fuel ctx i s tenant obj (int off) (int en) (int (j * b)) out = (r, s')"
  shows "\<exists>d. r = Inr d"
  using assms(1-10,12-13)
proof (induction fuel arbitrary: i s j out)
  case 0
  then have "\<not> int (j * b) < int en" unfolding of_nat_less_iff by auto
  then show ?case using 0 by (auto simp: read_loop.simps [of 0])
next
  case (Suc fuel)
  have b: "0 < b" using Suc.prems(1,5) by (auto simp: server_ok_def)
  show ?case
  proof (cases "j * b < en")
    case False
    then have "\<not> int (j * b) < int en" unfolding of_nat_less_iff .
    then show ?thesis using Suc.prems by (auto simp: read_loop.simps [of "Suc fuel"])
  next
    case lt: True
    then have ilt: "int (j * b) < int en" unfolding of_nat_less_iff .
    have idx: "go_div (int (j * b)) (sv_block s) = int j" using b Suc.prems(5) by (simp add: go_div_nonneg)
    have st: "int j * sv_block s = int (j * b)" using Suc.prems(5) by simp
    have ien: "int en + int b \<le> max_i64" using Suc.prems(8,9) by linarith
    have at: "at_block s (block_key s tenant obj (int j)) obj (int j) (int en)"
      unfolding at_block_def st using ilt ien Suc.prems(5) by (simp add: block_key_def)
    obtain a s1 where a: "blockAt s tenant obj (int j) (int en) = (a, s1)" by force
    have blk: "sv_block s \<le> 281474976710656" "int en \<le> int (length bs)" "int (length bs) \<le> max_i64"
      using Suc.prems(5,6,8) sz [OF Suc.prems(3)] by simp_all
    obtain d where d: "store_well s1" "a = Inr d"
      using blockAt_succeeds [OF Suc.prems(1-3) at blk(2,3,1) a] by blast
    have ba: "went objs 1 s s1" "block_answer objs obj (j * b) b en a"
      using blockAt_answers [OF Suc.prems(1) _ at sz a] Suc.prems(4) unfolding Suc.prems(5) by (simp_all add: nat_mult_distrib)
    have s1: "server_ok objs s1" "sv_block s1 = int b" "fuel \<le> room_of s1"
      using ba(1) Suc.prems(4,5) by (auto simp: went_def)
    have sp: "case slice_block (int b) (int off) (int en) (int (j * b)) d of
        Inl e \<Rightarrow> e = Ds_Driver ErrOutOfRange \<and> (\<forall>bs. objs obj = Some bs \<longrightarrow> length bs < en)
      | Inr part \<Rightarrow> \<exists>bs. objs obj = Some bs \<and> min en (j * b + b) \<le> length bs
          \<and> part = take (min en (j * b + b) - max (j * b) off) (drop (max (j * b) off) bs)"
    proof (rule slice_part [OF _ b lt])
      show "int en \<le> max_i64" "int (j * b) + int b \<le> max_i64" "int off \<le> max_i64"
        using ilt ien Suc.prems(7) by linarith+
    qed (use ba(2) d in simp)
    then obtain part where part: "slice_block (int b) (int off) (int en) (int (j * b)) d = Inr part"
      using Suc.prems(3,8) by (fastforce split: sum.splits)
    have "wrap64 (int (j * b) + int b) = int (j * b) + int b"
      using ilt ien by (intro wrap64_id') (unfold min_i64_def, linarith+)
    then have nx: "wrap64 (int (j * b) + int b) = int ((j + 1) * b)" by (simp add: algebra_simps)
    have rest: "read_loop fuel ctx (Suc i) s1 tenant obj (int off) (int en) (int ((j + 1) * b)) (out @ part) = (r, s')"
      using Suc.prems(12) ilt Suc.prems(11) [of i] a idx s1(2) d(2) part nx by (simp add: read_loop.simps [of "Suc fuel"])
    have more: "(j + 1) * b < en \<longrightarrow> (en - 1) div b - (j + 1) < fuel"
    proof
      assume "(j + 1) * b < en"
      then have "j + 1 \<le> (en - 1) div b" using b by (simp add: less_eq_div_iff_mult_less_eq)
      then show "(en - 1) div b - (j + 1) < fuel" using Suc.prems(10) lt by linarith
    qed
    show ?thesis
      by (rule Suc.IH [OF s1(1) d(1) Suc.prems(3) s1(3,2) Suc.prems(6-9) more Suc.prems(11) rest])
  qed
qed

lemma ReadRange_succeeds:
  assumes ok: "server_ok objs s" "store_well s" "objs obj = Some bs" and names: "tenant \<noteq> []" "obj \<noteq> []"
    and rng: "0 \<le> offset" "0 < len" "offset + len \<le> int (length bs)" "len \<le> sv_maxRead s"
    and blk: "sv_block s \<le> 281474976710656" "int (length bs) + sv_block s \<le> max_i64"
    and room: "range_blocks (sv_block s) offset (offset + len) \<le> room_of s" and ctx: "\<And>n. \<not> ctx n"
  shows "fst (ds_ReadRange ctx s tenant obj offset len) = Inr (take (nat len) (drop (nat offset) bs))"
proof -
  define off where "off = nat offset"
  define en where "en = nat (offset + len)"
  define b where "b = nat (sv_block s)"
  have b: "0 < b" "sv_block s = int b" using ok by (auto simp: server_ok_def b_def)
  have n: "offset = int off" "offset + len = int en" "off < en" using rng by (auto simp: off_def en_def)
  obtain began s1 where t: "sv_now s = (began, s1)" by force
  let ?s1 = "inFlight s1 1"
  have c1: "same_core s ?s1" by (rule same_core_trans [OF core_now [OF t] core_inFlight])
  have s1: "server_ok objs ?s1" "store_well ?s1" "room_of ?s1 = room_of s" "sv_block ?s1 = int b"
    using ok_core [OF ok(1) c1] well_core [OF c1] ok(2) c1 b by (auto simp: same_core_def room_of_def)
  let ?fuel = "range_blocks (int b) (int off) (int en)"
  have start: "go_div offset (sv_block s) * sv_block s = int (off div b * b)"
    using n b by (simp add: go_div_nonneg zdiv_int)
  obtain q s2 where l: "read_loop ?fuel ctx 0 ?s1 tenant obj (int off) (int en) (int (off div b * b)) [] = (q, s2)" by force
  have sz: "int (length bs') \<le> max_i64" if "objs obj = Some bs'" for bs' using that ok(3) blk(2) b by auto
  have "\<exists>d. q = Inr d"
  proof (rule read_loop_succeeds [OF s1(1,2) ok(3) _ s1(4) _ n(3) _ _ _ sz ctx l])
    show "?fuel \<le> room_of ?s1" using room n b s1(3) by simp
    show "b \<le> 281474976710656" "en \<le> length bs" "int (length bs) + int b \<le> max_i64" using blk b rng n by auto
    show "off div b * b < en \<longrightarrow> (en - 1) div b - off div b < ?fuel" using range_blocks_fuel [OF n(3) b(1)] by simp
  qed
  then obtain d where d: "q = Inr d" by blast
  obtain r s' where run: "ds_ReadRange ctx s tenant obj offset len = (r, s')" by force
  have "r = Inr d \<or> r = Inl Ds_Assembled"
    using run names rng blk t l n start b d unfolding ds_ReadRange_def by (auto simp: Let_def simp del: of_nat_mult split: prod.splits if_splits)
  moreover have "range_answer objs obj offset len r"
    using ReadRange_answers [OF ok(1) room _ sz run] rng blk(2) by auto
  ultimately show ?thesis using run ok(3) rng(2) by (auto simp: range_answer_def)
qed

end

end
