(* ===== verification/Data_Wire.thy ===== *)
theory Data_Wire
  imports Data_Server_Inv
begin

text \<open>
  The wire of the data server (\<open>internal/dataserver/protocol.go\<close>, \<open>serve.go\<close>, \<open>client.go\<close>): fixed headers
  in big-endian order, then names or bytes. A stream is a byte list; \<open>io.ReadFull\<close> takes a prefix of
  it or fails. Which error a refused frame is does not matter to either side, both give the
  connection up, so decoding returns an \<open>option\<close>. Deadlines, writes and the context are outcomes
  handed to the operations.

  The lemmas: requests, listings and replies are read back as they were written, a request frame is
  accepted only if it is exactly the frame its request encodes to, requests written one after the
  other are answered one after the other, and a client's read is the server's read.
\<close>

section \<open>Frames\<close>

definition magic :: nat where
  "magic = 1178751577"

definition version :: nat where
  "version = 2"

definition opReadRange :: nat where
  "opReadRange = 1"

definition opStat :: nat where
  "opStat = 2"

definition opList :: nat where
  "opList = 3"

definition StatusOK :: nat where
  "StatusOK = 0"

definition StatusRange :: nat where
  "StatusRange = 1"

definition StatusRefused :: nat where
  "StatusRefused = 2"

definition StatusFailed :: nat where
  "StatusFailed = 3"

lemmas wire_consts = magic_def version_def opReadRange_def opStat_def opList_def
  StatusOK_def StatusRange_def StatusRefused_def StatusFailed_def

definition maxName :: nat where
  "maxName = 1024"

record request =
  qOp :: nat
  qTenant :: string
  qObject :: string
  qAfter :: string
  qOffset :: int
  qLength :: int

definition requestHeader :: nat where
  "requestHeader = 28"

definition frame_op :: "nat \<Rightarrow> nat" where
  "frame_op op = (if op = 0 then opReadRange else op)"

definition encode_request :: "request \<Rightarrow> bytes option" where
  "encode_request r =
     (if maxName < length (qTenant r) \<or> maxName < length (qObject r) \<or> maxName < length (qAfter r) then None
      else Some (be_bytes 4 magic @ [of_nat version] @ [of_nat (frame_op (qOp r))]
             @ be_bytes 2 (length (qTenant r)) @ be_bytes 2 (length (qObject r)) @ be_bytes 2 (length (qAfter r))
             @ be_bytes 8 (u64_of (qOffset r)) @ be_bytes 8 (u64_of (qLength r))
             @ of_text (qTenant r) @ of_text (qObject r) @ of_text (qAfter r)))"

definition ReadFull :: "bytes \<Rightarrow> nat \<Rightarrow> (bytes \<times> bytes) option" where
  "ReadFull s n = (if length s < n then None else Some (take n s, drop n s))"

definition at_field :: "bytes \<Rightarrow> nat \<Rightarrow> nat \<Rightarrow> nat" where
  "at_field head i n = be_val (take n (drop i head))"

definition decodeRequest :: "bytes \<Rightarrow> (request \<times> bytes) option" where
  "decodeRequest s =
     (case ReadFull s requestHeader of
        None \<Rightarrow> None
      | Some (head, s1) \<Rightarrow>
          if at_field head 0 4 \<noteq> magic then None
          else if unat (head ! 4) \<noteq> version then None
          else let op = unat (head ! 5) in
          if op \<noteq> opReadRange \<and> op \<noteq> opStat \<and> op \<noteq> opList then None
          else let tenantLen = at_field head 6 2; objectLen = at_field head 8 2; afterLen = at_field head 10 2 in
          if maxName < tenantLen \<or> maxName < objectLen \<or> maxName < afterLen then None
          else case ReadFull s1 (tenantLen + objectLen + afterLen) of
                 None \<Rightarrow> None
               | Some (names, s2) \<Rightarrow>
                   Some (\<lparr>qOp = op, qTenant = to_text (take tenantLen names),
                          qObject = to_text (take objectLen (drop tenantLen names)),
                          qAfter = to_text (drop (tenantLen + objectLen) names),
                          qOffset = i64_of (at_field head 12 8), qLength = i64_of (at_field head 20 8)\<rparr>, s2))"

fun encodeEntries :: "Entry list \<Rightarrow> bytes option" where
  "encodeEntries [] = Some []"
| "encodeEntries (e # es) =
     (if maxName < length (eName e) then None
      else case encodeEntries es of
             None \<Rightarrow> None
           | Some out \<Rightarrow> Some (be_bytes 2 (length (eName e)) @ [if eDir e then 1 else 0] @ be_bytes 8 (u64_of (eBytes e))
                              @ of_text (eName e) @ out))"

function decodeEntries :: "bytes \<Rightarrow> Entry list option" where
  "decodeEntries body =
     (if body = [] then Some []
      else if length body < 11 then None
      else let n = at_field body 0 2; d = (body ! 2 = 1); sz = i64_of (at_field body 3 8); rest = drop 11 body in
        if length rest < n then None
        else case decodeEntries (drop n rest) of
               None \<Rightarrow> None
             | Some out \<Rightarrow> Some (\<lparr>eName = to_text (take n rest), eDir = d, eBytes = sz\<rparr> # out))"
  by auto
termination
  by (relation "measure length") auto

declare decodeEntries.simps [simp del]

definition replyHeader :: nat where
  "replyHeader = 14"

definition encodeReply :: "nat \<Rightarrow> bytes \<Rightarrow> bytes" where
  "encodeReply status data =
     (let data = (if status \<noteq> StatusOK then [] else data)
      in be_bytes 4 magic @ [of_nat version] @ [of_nat status] @ be_bytes 8 (length data) @ data)"

definition decodeReply :: "bytes \<Rightarrow> int \<Rightarrow> (nat \<times> bytes \<times> bytes) option" where
  "decodeReply s mx =
     (case ReadFull s replyHeader of
        None \<Rightarrow> None
      | Some (head, s1) \<Rightarrow>
          if at_field head 0 4 \<noteq> magic then None
          else if unat (head ! 4) \<noteq> version then None
          else let status = unat (head ! 5); len = i64_of (at_field head 6 8) in
          if len < 0 \<or> mx < len then None
          else if len = 0 then Some (status, [], s1)
          else case ReadFull s1 (nat len) of
                 None \<Rightarrow> None
               | Some (data, s2) \<Rightarrow> Some (status, data, s2))"

section \<open>The server's side\<close>

definition statusFor :: "ds_error option \<Rightarrow> nat" where
  "statusFor err =
     (case err of
        None \<Rightarrow> StatusOK
      | Some e \<Rightarrow> if e = Ds_Driver ErrOutOfRange then StatusRange
                  else if e = Ds_Refused then StatusRefused
                  else StatusFailed)"

text \<open>A listing that will not encode has no sentinel of its own: it is answered as a failure.\<close>

definition answer :: "(nat \<Rightarrow> bool) \<Rightarrow> 'w server \<Rightarrow> request \<Rightarrow> nat \<times> bytes \<times> 'w server" where
  "answer ctx s r =
     (if qOp r = opList then
        (case ds_List s (qTenant r) (qObject r) (qAfter r) (qLength r) of
           (Inl e, s1) \<Rightarrow> (statusFor (Some e), [], s1)
         | (Inr es, s1) \<Rightarrow> (case encodeEntries es of None \<Rightarrow> (StatusFailed, [], s1) | Some b \<Rightarrow> (StatusOK, b, s1)))
      else if qOp r = opStat then
        (case ds_SizeOf s (qTenant r) (qObject r) of
           (Inl e, s1) \<Rightarrow> (statusFor (Some e), [], s1)
         | (Inr n, s1) \<Rightarrow> (StatusOK, be_bytes 8 (u64_of n), s1))
      else
        (case ds_ReadRange ctx s (qTenant r) (qObject r) (qOffset r) (qLength r) of
           (Inl e, s1) \<Rightarrow> (statusFor (Some e), [], s1)
         | (Inr d, s1) \<Rightarrow> (StatusOK, d, s1)))"

text \<open>
  What happens around one request of a conversation: whether each deadline could be set, whether the
  reply was written, whether the context was done after it, and the context the read runs under.
\<close>

record turn =
  t_idle_ok :: bool
  t_exchange_ok :: bool
  t_write_ok :: bool
  t_done :: bool
  t_ctx :: "nat \<Rightarrow> bool"

fun converse_turns :: "turn list \<Rightarrow> 'w server \<Rightarrow> bytes \<Rightarrow> bytes \<times> bytes \<times> 'w server" where
  "converse_turns [] s stream = ([], stream, s)"
| "converse_turns (t # ts) s stream =
     (if \<not> t_idle_ok t then ([], stream, s)
      else case decodeRequest stream of
             None \<Rightarrow> ([], stream, s)
           | Some (r, rest) \<Rightarrow>
               if \<not> t_exchange_ok t then ([], rest, s)
               else case answer (t_ctx t) s r of
                      (status, data, s1) \<Rightarrow>
                        if \<not> t_write_ok t then ([], rest, s1)
                        else if t_done t then (encodeReply status data, rest, s1)
                        else case converse_turns ts s1 rest of (out, rest2, s2) \<Rightarrow> (encodeReply status data @ out, rest2, s2))"

section \<open>The client's side\<close>

datatype cl_error = Cl_TooLarge | Cl_Broken | Cl_Range | Cl_Refused | Cl_Failed | Cl_Status nat | Cl_Listing

record client =
  k_max :: int
  k_exchange :: duration
  k_broken :: bool
  k_closed :: bool

definition DefaultExchange :: duration where
  "DefaultExchange = 30 * Second"

definition Dial :: "bool \<Rightarrow> int \<Rightarrow> duration \<Rightarrow> client option" where
  "Dial connects maxReply exchange =
     (if maxReply \<le> 0 then None
      else if exchange < 0 then None
      else if \<not> connects then None
      else Some \<lparr>k_max = maxReply, k_exchange = (if exchange = 0 then DefaultExchange else exchange),
                 k_broken = False, k_closed = False\<rparr>)"

definition cl_fail :: "client \<Rightarrow> client" where
  "cl_fail c = c\<lparr>k_broken := True, k_closed := True\<rparr>"

definition errStatus :: "nat \<Rightarrow> cl_error" where
  "errStatus st =
     (if st = StatusRange then Cl_Range else if st = StatusRefused then Cl_Refused
      else if st = StatusFailed then Cl_Failed else Cl_Status st)"

text \<open>
  One exchange. The far side is what its stream gives back for the frame it was sent; \<open>deadline_ok\<close> and
  \<open>sent_ok\<close> are what the connection made of the deadline and of the write. What is left of the stream
  is returned with the answer.
\<close>

definition exchangeOne :: "bool \<Rightarrow> bool \<Rightarrow> (bytes \<Rightarrow> bytes) \<Rightarrow> client \<Rightarrow> request \<Rightarrow> (cl_error + bytes) \<times> client" where
  "exchangeOne deadline_ok sent_ok far c r =
     (if k_broken c then (Inl Cl_Broken, c)
      else if \<not> deadline_ok then (Inl Cl_Broken, cl_fail c)
      else case encode_request r of
             None \<Rightarrow> (Inl Cl_Broken, cl_fail c)
           | Some frame \<Rightarrow>
               if \<not> sent_ok then (Inl Cl_Broken, cl_fail c)
               else case decodeReply (far frame) (k_max c) of
                      None \<Rightarrow> (Inl Cl_Broken, cl_fail c)
                    | Some (status, data, rest) \<Rightarrow>
                        (if status \<noteq> StatusOK then Inl (errStatus status) else Inr data, c))"

definition cl_ReadRange :: "bool \<Rightarrow> bool \<Rightarrow> (bytes \<Rightarrow> bytes) \<Rightarrow> client \<Rightarrow> string \<Rightarrow> string \<Rightarrow> int \<Rightarrow> int \<Rightarrow> (cl_error + bytes) \<times> client" where
  "cl_ReadRange deadline_ok sent_ok far c tenant obj offset len =
     (if k_max c < len then (Inl Cl_TooLarge, c)
      else exchangeOne deadline_ok sent_ok far c
        \<lparr>qOp = opReadRange, qTenant = tenant, qObject = obj, qAfter = [], qOffset = offset, qLength = len\<rparr>)"

definition cl_SizeOf :: "bool \<Rightarrow> bool \<Rightarrow> (bytes \<Rightarrow> bytes) \<Rightarrow> client \<Rightarrow> string \<Rightarrow> string \<Rightarrow> (cl_error + int) \<times> client" where
  "cl_SizeOf deadline_ok sent_ok far c tenant obj =
     (case exchangeOne deadline_ok sent_ok far c
             \<lparr>qOp = opStat, qTenant = tenant, qObject = obj, qAfter = [], qOffset = 0, qLength = 0\<rparr> of
        (Inl e, c1) \<Rightarrow> (Inl e, c1)
      | (Inr body, c1) \<Rightarrow>
          if length body \<noteq> 8 then (Inl Cl_Broken, cl_fail c1) else (Inr (i64_of (be_val body)), c1))"

definition cl_List :: "bool \<Rightarrow> bool \<Rightarrow> (bytes \<Rightarrow> bytes) \<Rightarrow> client \<Rightarrow> string \<Rightarrow> string \<Rightarrow> string \<Rightarrow> int \<Rightarrow> (cl_error + Entry list) \<times> client" where
  "cl_List deadline_ok sent_ok far c tenant prefix after n =
     (case exchangeOne deadline_ok sent_ok far c
             \<lparr>qOp = opList, qTenant = tenant, qObject = prefix, qAfter = after, qOffset = 0, qLength = n\<rparr> of
        (Inl e, c1) \<Rightarrow> (Inl e, c1)
      | (Inr body, c1) \<Rightarrow> (case decodeEntries body of None \<Rightarrow> Inl Cl_Listing | Some es \<Rightarrow> Inr es, c1))"


section \<open>Frames are read back as written\<close>

lemma ReadFull_append [simp]: "length a = n \<Longrightarrow> ReadFull (a @ b) n = Some (a, b)"
  by (simp add: ReadFull_def)

lemma ReadFull_Some: "ReadFull s n = Some (a, b) \<longleftrightarrow> s = a @ b \<and> length a = n"
  by (auto simp: ReadFull_def)

lemma byte_of_nat [simp]: "n < 256 \<Longrightarrow> unat (of_nat n :: 8 word) = n"
  by (simp add: unat_of_nat)

definition request_ok :: "request \<Rightarrow> bool" where
  "request_ok r \<longleftrightarrow> qOp r \<in> {opReadRange, opStat, opList} \<and> length (qTenant r) \<le> maxName \<and> length (qObject r) \<le> maxName
     \<and> length (qAfter r) \<le> maxName \<and> in_i64 (qOffset r) \<and> in_i64 (qLength r)"

definition request_head :: "request \<Rightarrow> bytes" where
  "request_head r = be_bytes 4 magic @ [of_nat version] @ [of_nat (qOp r)]
     @ be_bytes 2 (length (qTenant r)) @ be_bytes 2 (length (qObject r)) @ be_bytes 2 (length (qAfter r))
     @ be_bytes 8 (u64_of (qOffset r)) @ be_bytes 8 (u64_of (qLength r))"

lemma encode_request_ok:
  "request_ok r \<Longrightarrow> encode_request r = Some (request_head r @ of_text (qTenant r) @ of_text (qObject r) @ of_text (qAfter r))"
  by (auto simp: request_ok_def encode_request_def request_head_def frame_op_def wire_consts)

lemma request_head_fields:
  assumes "request_ok r"
  shows "length (request_head r) = requestHeader" "at_field (request_head r) 0 4 = magic" "unat (request_head r ! 4) = version"
    "unat (request_head r ! 5) = qOp r" "at_field (request_head r) 6 2 = length (qTenant r)"
    "at_field (request_head r) 8 2 = length (qObject r)" "at_field (request_head r) 10 2 = length (qAfter r)"
    "at_field (request_head r) 12 8 = u64_of (qOffset r)" "at_field (request_head r) 20 8 = u64_of (qLength r)"
  using assms u64_of_bound [of "qOffset r"] u64_of_bound [of "qLength r"]
  by (auto simp: request_head_def at_field_def requestHeader_def request_ok_def maxName_def wire_consts nth_append)

lemma decode_encode_request:
  assumes "request_ok r" "encode_request r = Some frame"
  shows "decodeRequest (frame @ rest) = Some (r, rest)"
proof -
  have f: "frame @ rest = request_head r @ (of_text (qTenant r) @ of_text (qObject r) @ of_text (qAfter r)) @ rest"
    using encode_request_ok [OF assms(1)] assms(2) by simp
  have 1: "ReadFull (frame @ rest) requestHeader = Some (request_head r, (of_text (qTenant r) @ of_text (qObject r) @ of_text (qAfter r)) @ rest)"
    unfolding f by (rule ReadFull_append) (rule request_head_fields(1) [OF assms(1)])
  have 2: "ReadFull (of_text (qTenant r) @ of_text (qObject r) @ of_text (qAfter r) @ rest)
        (length (qTenant r) + length (qObject r) + length (qAfter r))
      = Some (of_text (qTenant r) @ of_text (qObject r) @ of_text (qAfter r), rest)"
    using ReadFull_append [of "of_text (qTenant r) @ of_text (qObject r) @ of_text (qAfter r)" _ rest] by (simp add: add.assoc)
  have rg: "qOp r = opReadRange \<or> qOp r = opStat \<or> qOp r = opList" "\<not> maxName < length (qTenant r)" "\<not> maxName < length (qObject r)"
      "\<not> maxName < length (qAfter r)" "in_i64 (qOffset r)" "in_i64 (qLength r)" using assms(1) by (auto simp: request_ok_def)
  show ?thesis
    unfolding decodeRequest_def 1 using rg by (simp add: request_head_fields [OF assms(1)] Let_def 2 i64_of_u64)
qed

text \<open>The other way: an accepted frame is the one its request encodes to, so no two are confused.\<close>

lemma take_at_field: "i + n \<le> length h \<Longrightarrow> take n (drop i h) = be_bytes n (at_field h i n)"
  using be_bytes_val [of "take n (drop i h)"] by (simp add: at_field_def)

lemma head_split:
  assumes "length (h :: bytes) = 28"
  shows "h = take 4 (drop 0 h) @ [h ! 4] @ [h ! 5] @ take 2 (drop 6 h) @ take 2 (drop 8 h) @ take 2 (drop 10 h) @ take 8 (drop 12 h) @ take 8 (drop 20 h)"
proof -
  have "h = map ((!) h) [0..<28]" using assms by (metis map_nth)
  then obtain f where "h = map f [0..<28]" by blast
  then show ?thesis by (simp add: upt_rec take_map drop_map)
qed

lemma at_field_bound: "i + n \<le> length h \<Longrightarrow> at_field h i n < 256 ^ n"
  using be_val_bound [of "take n (drop i h)"] by (simp add: at_field_def min_absorb2)

lemma encode_decode_request:
  assumes "decodeRequest s = Some (r, rest)"
  shows "request_ok r \<and> (\<exists>frame. encode_request r = Some frame \<and> s = frame @ rest)"
proof -
  obtain h s1 where h0: "ReadFull s 28 = Some (h, s1)"
    using assms by (cases "ReadFull s 28") (auto simp: decodeRequest_def requestHeader_def)
  note dec = assms [unfolded decodeRequest_def requestHeader_def h0, simplified, unfolded Let_def]
  have hf: "at_field h 0 4 = magic" "unat (h ! 4) = version" "unat (h ! 5) \<in> {opReadRange, opStat, opList}"
    "at_field h 6 2 \<le> maxName" "at_field h 8 2 \<le> maxName" "at_field h 10 2 \<le> maxName"
    using dec by (auto split: if_splits)
  obtain nm s2 where n0: "ReadFull s1 (at_field h 6 2 + at_field h 8 2 + at_field h 10 2) = Some (nm, s2)"
    using dec by (auto split: if_splits option.splits)
  have r: "r = \<lparr>qOp = unat (h ! 5), qTenant = to_text (take (at_field h 6 2) nm),
        qObject = to_text (take (at_field h 8 2) (drop (at_field h 6 2) nm)), qAfter = to_text (drop (at_field h 6 2 + at_field h 8 2) nm),
        qOffset = i64_of (at_field h 12 8), qLength = i64_of (at_field h 20 8)\<rparr>" and s2: "s2 = rest"
    using dec n0 by (auto split: if_splits)
  have h: "s = h @ s1" "length h = 28" "at_field h 0 4 = magic" "unat (h ! 4) = version"
    using h0 hf by (simp_all add: ReadFull_Some)
  have nm: "s1 = nm @ rest" "length nm = at_field h 6 2 + at_field h 8 2 + at_field h 10 2"
    using n0 s2 by (simp_all add: ReadFull_Some)
  have ok: "request_ok r"
    using hf nm r by (auto simp: request_ok_def i64_of_def wrap64_range)
  have b: "at_field h 12 8 < 18446744073709551616" "at_field h 20 8 < 18446744073709551616"
    using at_field_bound [of 12 8 h] at_field_bound [of 20 8 h] h(2) by simp_all
  have lens: "length (qTenant r) = at_field h 6 2" "length (qObject r) = at_field h 8 2" "length (qAfter r) = at_field h 10 2"
    using nm(2) r by simp_all
  have w: "of_nat version = h ! 4" "of_nat (qOp r) = h ! 5" using r by (simp_all add: h(4) [symmetric])
  have "request_head r = h"
  proof -
    have q: "take 4 (drop 0 h) = be_bytes 4 magic" "take 2 (drop 6 h) = be_bytes 2 (at_field h 6 2)"
      "take 2 (drop 8 h) = be_bytes 2 (at_field h 8 2)" "take 2 (drop 10 h) = be_bytes 2 (at_field h 10 2)"
      "take 8 (drop 12 h) = be_bytes 8 (at_field h 12 8)" "take 8 (drop 20 h) = be_bytes 8 (at_field h 20 8)"
      using take_at_field [of 0 4 h] take_at_field [of 6 2 h] take_at_field [of 8 2 h] take_at_field [of 10 2 h]
        take_at_field [of 12 8 h] take_at_field [of 20 8 h] h(2,3) by simp_all
    have o: "u64_of (qOffset r) = at_field h 12 8" "u64_of (qLength r) = at_field h 20 8"
      using b r by (simp_all add: u64_of_i64)
    show ?thesis unfolding request_head_def w lens o using head_split [OF h(2)] unfolding q by (rule sym)
  qed
  moreover have "of_text (qTenant r) @ of_text (qObject r) @ of_text (qAfter r) = nm"
    using r append_take_drop_id [of "at_field h 8 2" "drop (at_field h 6 2) nm"] by (simp add: add.commute)
  ultimately show ?thesis
    using ok encode_request_ok [OF ok] h(1) nm(1) by simp
qed


definition entry_ok :: "Entry \<Rightarrow> bool" where
  "entry_ok e \<longleftrightarrow> length (eName e) \<le> maxName \<and> in_i64 (eBytes e)"

lemma encodeEntries_ok: "list_all entry_ok es \<Longrightarrow> encodeEntries es \<noteq> None"
  by (induction es) (auto simp: entry_ok_def)

lemma decode_encode_entries:
  "list_all entry_ok es \<Longrightarrow> encodeEntries es = Some b \<Longrightarrow> decodeEntries b = Some es"
proof (induction es arbitrary: b)
  case Nil
  then show ?case by (simp add: decodeEntries.simps [of "[]"])
next
  case (Cons e es)
  obtain out where out: "encodeEntries es = Some out"
    and b: "b = be_bytes 2 (length (eName e)) @ [if eDir e then 1 else 0] @ be_bytes 8 (u64_of (eBytes e)) @ of_text (eName e) @ out"
    using Cons.prems(2) by (auto split: if_splits option.splits)
  have len: "length (eName e) < 65536" "in_i64 (eBytes e)" using Cons.prems(1) by (auto simp: entry_ok_def maxName_def)
  have f: "b \<noteq> []" "\<not> length b < 11" "at_field b 0 2 = length (eName e)" "b ! 2 = (if eDir e then 1 else 0)"
      "i64_of (at_field b 3 8) = eBytes e" "drop 11 b = of_text (eName e) @ out"
    using len u64_of_bound [of "eBytes e"] by (simp_all add: b at_field_def nth_append i64_of_u64)
  have "decodeEntries out = Some es" using Cons out by simp
  then show ?case
    by (subst decodeEntries.simps) (simp add: f Let_def)
qed

definition reply_data :: "nat \<Rightarrow> bytes \<Rightarrow> bytes" where
  "reply_data status data = (if status \<noteq> StatusOK then [] else data)"

lemma decode_encode_reply:
  assumes "status < 256" "int (length data) \<le> max_i64"
  shows "decodeReply (encodeReply status data @ rest) mx =
     (if mx < int (length (reply_data status data)) then None else Some (status, reply_data status data, rest))"
proof -
  define d where "d = reply_data status data"
  define h where "h = be_bytes 4 magic @ [of_nat version] @ [of_nat status] @ be_bytes 8 (length d)"
  have e: "encodeReply status data @ rest = h @ d @ rest" by (simp add: encodeReply_def Let_def d_def h_def reply_data_def)
  have ld: "int (length d) \<le> max_i64" using assms(2) by (simp add: d_def reply_data_def max_i64_def)
  then have w: "i64_of (length d) = int (length d)" by (simp add: i64_of_def wrap64_id' min_i64_def)
  have "length d < 18446744073709551616" using ld by (simp add: max_i64_def)
  then have f: "length h = replyHeader" "at_field h 0 4 = magic" "unat (h ! 4) = version" "unat (h ! 5) = status" "at_field h 6 8 = length d"
    using assms(1) by (simp_all add: h_def at_field_def replyHeader_def wire_consts nth_append)
  have r: "ReadFull (h @ d @ rest) replyHeader = Some (h, d @ rest)" by (rule ReadFull_append [OF f(1)])
  show ?thesis
    unfolding d_def [symmetric] decodeReply_def e r by (simp add: f w Let_def)
qed

text \<open>A malformed or short stream is never taken for a reply larger than asked for.\<close>

lemma decodeReply_bound: "decodeReply s mx = Some (status, data, rest) \<Longrightarrow> 0 \<le> mx \<Longrightarrow> int (length data) \<le> mx"
  by (auto simp: decodeReply_def ReadFull_def Let_def split: option.splits if_splits)

section \<open>Conversations\<close>

definition plain_turn :: "turn \<Rightarrow> bool" where
  "plain_turn t \<longleftrightarrow> t_idle_ok t \<and> t_exchange_ok t \<and> t_write_ok t \<and> \<not> t_done t"

fun serve_all :: "turn list \<Rightarrow> 'w server \<Rightarrow> request list \<Rightarrow> bytes \<times> 'w server" where
  "serve_all (t # ts) s (r # rs) =
     (case answer (t_ctx t) s r of (status, data, s1) \<Rightarrow>
        (case serve_all ts s1 rs of (out, s2) \<Rightarrow> (encodeReply status data @ out, s2)))"
| "serve_all ts s rs = ([], s)"

lemma converse_serves:
  assumes "length ts = length rs" "list_all plain_turn ts" "list_all request_ok rs"
  shows "converse_turns ts s (concat (map (\<lambda>r. the (encode_request r)) rs) @ rest) =
     (case serve_all ts s rs of (out, s1) \<Rightarrow> (out, rest, s1))"
  using assms
proof (induction ts s rs arbitrary: rest rule: serve_all.induct)
  case (1 t ts s r rs)
  obtain f where f: "encode_request r = Some f" using encode_request_ok "1.prems" by auto
  have d: "decodeRequest (f @ concat (map (\<lambda>r. the (encode_request r)) rs) @ rest) = Some (r, concat (map (\<lambda>r. the (encode_request r)) rs) @ rest)"
    using "1.prems" f by (intro decode_encode_request) auto
  obtain st da s1 where a: "answer (t_ctx t) s r = (st, da, s1)" by (metis prod_cases3)
  have "converse_turns ts s1 (concat (map (\<lambda>r. the (encode_request r)) rs) @ rest) = (case serve_all ts s1 rs of (out, s2) \<Rightarrow> (out, rest, s2))"
    using "1.IH" [OF a [symmetric] refl] "1.prems" by simp
  then show ?case using "1.prems" f d a by (auto simp: plain_turn_def split: prod.splits)
qed simp_all

section \<open>A client's read is the server's\<close>

text \<open>The far side of a client: a server that takes one turn of the conversation.\<close>

definition far_side :: "turn \<Rightarrow> 'w server \<Rightarrow> bytes \<Rightarrow> bytes" where
  "far_side t s frame = fst (converse_turns [t] s frame)"

definition cl_of :: "ds_error \<Rightarrow> cl_error" where
  "cl_of e = errStatus (statusFor (Some e))"

lemma far_side_reply:
  assumes "plain_turn t" "request_ok r" "encode_request r = Some frame" "answer (t_ctx t) s r = (status, data, s1)"
  shows "far_side t s frame = encodeReply status data"
  using decode_encode_request [OF assms(2,3), of "[]"] assms(1,4) by (simp add: far_side_def plain_turn_def)

lemma statusFor_cases: "statusFor (Some e) \<in> {StatusRange, StatusRefused, StatusFailed}" "statusFor (Some e) \<noteq> StatusOK" "statusFor (Some e) < 256"
  by (auto simp: statusFor_def wire_consts)

lemma exchange_answers:
  assumes "\<not> k_broken c" "plain_turn t" "request_ok r" "answer (t_ctx t) s r = (status, data, s1)" "status < 256"
    and "int (length (reply_data status data)) \<le> k_max c" "int (length data) \<le> max_i64"
  shows "exchangeOne True True (far_side t s) c r = (if status \<noteq> StatusOK then Inl (errStatus status) else Inr data, c)"
proof -
  obtain frame where f: "encode_request r = Some frame" using encode_request_ok [OF assms(3)] by blast
  have "decodeReply (far_side t s frame) (k_max c) = Some (status, reply_data status data, [])"
    using far_side_reply [OF assms(2,3) f assms(4)] decode_encode_reply [OF assms(5,7), of "[]" "k_max c"] assms(6) by simp
  then show ?thesis using assms(1) f by (simp add: exchangeOne_def reply_data_def)
qed

lemma ReadRange_length: "ds_ReadRange ctx s tenant obj offset len = (Inr d, s') \<Longrightarrow> int (length d) = len"
  by (auto simp: ds_ReadRange_def Let_def split: if_splits prod.splits sum.splits)

lemma client_read:
  assumes c: "\<not> k_broken c" "len \<le> k_max c" "0 \<le> k_max c" and t: "plain_turn t"
    and r: "length tenant \<le> maxName" "length obj \<le> maxName" "in_i64 offset" "in_i64 len"
  shows "cl_ReadRange True True (far_side t s) c tenant obj offset len =
     (case fst (ds_ReadRange (t_ctx t) s tenant obj offset len) of Inl e \<Rightarrow> Inl (cl_of e) | Inr d \<Rightarrow> Inr d, c)"
proof -
  let ?r = "\<lparr>qOp = opReadRange, qTenant = tenant, qObject = obj, qAfter = [], qOffset = offset, qLength = len\<rparr>"
  have ok: "request_ok ?r" using r by (simp add: request_ok_def)
  obtain a s1 where a: "ds_ReadRange (t_ctx t) s tenant obj offset len = (a, s1)" by force
  show ?thesis
  proof (cases a)
    case (Inl e)
    then have "answer (t_ctx t) s ?r = (statusFor (Some e), [], s1)" using a by (simp add: answer_def wire_consts)
    from exchange_answers [OF c(1) t ok this statusFor_cases(3)] show ?thesis
      using c a Inl statusFor_cases(2) [of e] by (simp add: cl_ReadRange_def cl_of_def reply_data_def max_i64_def)
  next
    case (Inr d)
    have len: "int (length d) = len" using a Inr ReadRange_length by blast
    have "answer (t_ctx t) s ?r = (StatusOK, d, s1)" using a Inr by (simp add: answer_def wire_consts)
    from exchange_answers [OF c(1) t ok this] show ?thesis
      using c a Inr len r(4) by (simp add: cl_ReadRange_def reply_data_def in_i64_def wire_consts)
  qed
qed

lemma client_size:
  assumes c: "\<not> k_broken c" "8 \<le> k_max c" and t: "plain_turn t" and r: "length tenant \<le> maxName" "length obj \<le> maxName"
    and n: "\<And>n. fst (ds_SizeOf s tenant obj) = Inr n \<Longrightarrow> in_i64 n"
  shows "cl_SizeOf True True (far_side t s) c tenant obj =
     (case fst (ds_SizeOf s tenant obj) of Inl e \<Rightarrow> Inl (cl_of e) | Inr n \<Rightarrow> Inr n, c)"
proof -
  let ?r = "\<lparr>qOp = opStat, qTenant = tenant, qObject = obj, qAfter = [], qOffset = 0, qLength = 0\<rparr>"
  have ok: "request_ok ?r" using r by (simp add: request_ok_def)
  obtain a s1 where a: "ds_SizeOf s tenant obj = (a, s1)" by force
  show ?thesis
  proof (cases a)
    case (Inl e)
    then have "answer (t_ctx t) s ?r = (statusFor (Some e), [], s1)" using a by (simp add: answer_def wire_consts)
    from exchange_answers [OF c(1) t ok this statusFor_cases(3)] show ?thesis
      using c a Inl statusFor_cases(2) [of e] by (simp add: cl_SizeOf_def cl_of_def reply_data_def max_i64_def)
  next
    case (Inr m)
    have "answer (t_ctx t) s ?r = (StatusOK, be_bytes 8 (u64_of m), s1)" using a Inr by (simp add: answer_def wire_consts)
    from exchange_answers [OF c(1) t ok this] show ?thesis
      using c a Inr n [of m] u64_of_bound [of m] by (simp add: cl_SizeOf_def reply_data_def max_i64_def wire_consts i64_of_u64)
  qed
qed

lemma client_list:
  assumes c: "\<not> k_broken c" and t: "plain_turn t"
    and r: "length tenant \<le> maxName" "length prefix \<le> maxName" "length after \<le> maxName" "in_i64 n"
    and es: "fst (ds_List s tenant prefix after n) = Inr es" "list_all entry_ok es"
    and b: "encodeEntries es = Some body" "int (length body) \<le> k_max c" "int (length body) \<le> max_i64"
  shows "cl_List True True (far_side t s) c tenant prefix after n = (Inr es, c)"
proof -
  let ?r = "\<lparr>qOp = opList, qTenant = tenant, qObject = prefix, qAfter = after, qOffset = 0, qLength = n\<rparr>"
  have ok: "request_ok ?r" using r by (simp add: request_ok_def)
  obtain s1 where a: "ds_List s tenant prefix after n = (Inr es, s1)" using es(1) by (metis prod.collapse)
  have "answer (t_ctx t) s ?r = (StatusOK, body, s1)" using a b by (simp add: answer_def)
  from exchange_answers [OF c t ok this] show ?thesis
    using b decode_encode_entries [OF es(2) b(1)] by (simp add: cl_List_def reply_data_def wire_consts)
qed

text \<open>A broken conversation stays broken, and a name too long to send breaks one that sent nothing.\<close>

lemma broken_stays: "k_broken c \<Longrightarrow> exchangeOne d s far c r = (Inl Cl_Broken, c)"
  by (simp add: exchangeOne_def)

lemma long_name_breaks:
  assumes "\<not> k_broken c" "maxName < length tenant" "len \<le> k_max c"
  shows "cl_ReadRange True True far c tenant obj offset len = (Inl Cl_Broken, cl_fail c)"
  using assms by (simp add: cl_ReadRange_def exchangeOne_def encode_request_def)

end
