(* ===== verification/Data_Claims.thy ===== *)
theory Data_Claims
  imports Data_Wire File_Driver "HOL-Library.Code_Target_Nat"
begin

text \<open>
  What the read path promises: the bytes a reader gets are the object's, whatever the tier holds and
  whatever fails; a read inside the object is answered; the wire adds and loses nothing; predictions
  follow what was read; a backend does only what it declared and was allowed; and the directory
  driver never changes an object it has written.
\<close>

section \<open>A small server\<close>

definition demo_store :: fstore where
  "demo_store = \<lparr>fs_nodes = [([''o''], FFile [1, 2, 3])], fs_faults = []\<rparr>"

definition demo_ds_config :: ds_config where
  "demo_ds_config = \<lparr>cBackend = ''b'', cIdle = 0, cExchange = 0, cMetrics = None, cReady = None, cPrefetch = None, cMaxRead = 0\<rparr>"

definition demo_surroundings :: surroundings where
  "demo_surroundings = \<lparr>e_now = (\<lambda>_. 0), e_read_fails = (\<lambda>_. False), e_write = (\<lambda>_. None)\<rparr>"

definition demo_ds_tier :: cache where
  "demo_ds_tier = projr (NewCache \<lparr>BlockSize = 2, FirstReadLimit = 4\<rparr>)"

definition demo_backend :: "fstore backend" where
  "demo_backend = projr (Open (Some file_driver) demo_store)"

definition demo_server0 :: "fstore server" where
  "demo_server0 = projr (New_server (Some demo_ds_tier) (Some demo_backend) demo_ds_config demo_surroundings)"

definition demo_server1 :: "fstore server" where
  "demo_server1 = demo_server0\<lparr>sv_tier := snd (AddCapacity (sv_tier demo_server0) ''l'' (Some [0, 0, 0, 0, 0, 0]))\<rparr>"

lemma demo_built:
  "NewCache \<lparr>BlockSize = 2, FirstReadLimit = 4\<rparr> = Inr demo_ds_tier" "Open (Some file_driver) demo_store = Inr demo_backend"
  "New_server (Some demo_ds_tier) (Some demo_backend) demo_ds_config demo_surroundings = Inr demo_server0"
proof -
  show "NewCache \<lparr>BlockSize = 2, FirstReadLimit = 4\<rparr> = Inr demo_ds_tier" by (simp add: demo_ds_tier_def NewCache_def)
  have "Open (Some file_driver) demo_store \<in> range Inr"
    by (simp add: Open_def file_driver_def fd_Declare_def decl_Validate_def decl_Supports_def cap_defs Let_def)
  then show "Open (Some file_driver) demo_store = Inr demo_backend" by (auto simp: demo_backend_def)
  show "New_server (Some demo_ds_tier) (Some demo_backend) demo_ds_config demo_surroundings = Inr demo_server0"
    by (simp add: demo_server0_def New_server_def demo_ds_config_def Let_def)
qed

lemma demo_ds_steps: "ds_step\<^sup>*\<^sup>* demo_server0 demo_server1"
  unfolding demo_server1_def by (intro r_into_rtranclp ds_step.add)

lemma demo_server_values:
  "sv_block demo_server1 = 2" "room_of demo_server1 = 18446744073709551615" "sv_maxRead demo_server1 = 67108864"
  "sv_backend demo_server1 = demo_backend"
proof -
  have t: "sv_tier demo_server0 = demo_ds_tier" "sv_block demo_server0 = 2" "sv_maxRead demo_server0 = 67108864" "sv_backend demo_server0 = demo_backend"
    by (simp_all add: demo_server0_def New_server_def demo_ds_config_def demo_ds_tier_def NewCache_def DefaultMaxRead_def)
  then have "c_generation (sv_tier demo_server1) = 0"
    by (simp add: demo_server1_def demo_ds_tier_def NewCache_def AddCapacity_def openSlab_def Let_def)
  then show "sv_block demo_server1 = 2" "room_of demo_server1 = 18446744073709551615" "sv_maxRead demo_server1 = 67108864"
    "sv_backend demo_server1 = demo_backend"
    using t by (simp_all add: demo_server1_def room_of_def tier_room_def)
qed

lemma demo_contents: "fd_contents demo_store ''o'' = Some [1, 2, 3]"
  by (simp add: fd_contents_def fd_path_def demo_store_def)

lemma demo_sizes: "fd_contents demo_store obj = Some bs \<Longrightarrow> int (length bs) \<le> max_i64"
  by (auto simp: fd_contents_def demo_store_def max_i64_def split: sum.splits option.splits fnode.splits if_splits)

lemma demo_server_ok: "filed.server_ok (fd_contents demo_store) demo_server1"
  by (rule filed.ds_reach_ok [OF demo_ds_steps filed.New_server_ok [OF demo_built(3,1,2)] demo_sizes])

lemma demo_store_well: "filed.store_well demo_server1"
proof -
  have "b_store demo_backend = demo_store"
    using Open_frame [OF demo_built(2)] by simp
  then show ?thesis by (simp add: filed.store_well_def demo_server_values fd_well_def demo_store_def)
qed

section \<open>Reads\<close>

text \<open>
  C3. A server over any lawful driver, started empty, after any reads, listings,
  fetches ahead and any gain or loss of tier capacity, with any device failures: a read that answers
  returns exactly the object's bytes at that place, a range error means that the range is not inside
  the object, and the check on the assembled length never fires.
\<close>

theorem read_transparent:
  assumes drv: "lawful_driver drv contents" and new: "NewCache tc = Inr c" "Open (Some drv) w = Inr b" "New_server (Some c) (Some b) cf env = Inr s0"
    and steps: "ds_step\<^sup>*\<^sup>* s0 s" and sz: "\<And>obj bs. contents w obj = Some bs \<Longrightarrow> int (length bs) \<le> max_i64"
    and room: "range_blocks (sv_block s) offset (offset + len) \<le> room_of s" "offset + len + sv_block s \<le> max_i64"
    and run: "ds_ReadRange ctx s tenant obj offset len = (r, s')"
  shows "(\<forall>d. r = Inr d \<longrightarrow> d = [] \<and> len = 0 \<or> (\<exists>bs. contents w obj = Some bs \<and> nat offset + nat len \<le> length bs \<and> d = take (nat len) (drop (nat offset) bs)))
    \<and> (r = Inl (Ds_Driver ErrOutOfRange) \<longrightarrow> (\<forall>bs. contents w obj = Some bs \<longrightarrow> length bs < nat offset + nat len))
    \<and> r \<noteq> Inl Ds_Assembled \<and> r \<noteq> Inl Ds_Fuel"
proof -
  have ok: "lawful_driver.server_ok drv contents (contents w) s"
    by (rule lawful_driver.ds_reach_ok [OF drv steps lawful_driver.New_server_ok [OF drv new(3,1,2)] sz])
  have "range_answer (contents w) obj offset len r"
    using lawful_driver.ReadRange_answers [OF drv ok room _ run] sz by blast
  then show ?thesis by (auto simp: range_answer_def split: sum.splits)
qed

theorem read_transparent_witness:
  "fst (ds_ReadRange (\<lambda>_. False) demo_server1 ''t'' ''o'' 1 2) = Inr (take 2 (drop 1 [1, 2, 3]))"
proof -
  let ?r = "ds_ReadRange (\<lambda>_. False) demo_server1 ''t'' ''o'' 1 2"
  have "\<not> isl (fst ?r)"
    using filed.ReadRange_succeeds [OF demo_server_ok demo_store_well demo_contents, of "''t''" 1 2 "\<lambda>_. False"]
    by (simp add: demo_server_values range_blocks_def max_i64_def)
  then obtain d s' where d: "?r = (Inr d, s')" by (metis prod.collapse sum.collapse(2))
  show ?thesis
    using read_transparent [OF filed.lawful_driver_axioms demo_built demo_ds_steps demo_sizes _ _ d] demo_contents d
    by (auto simp: demo_server_values range_blocks_def max_i64_def)
qed

text \<open>
  C7. On a driver that answers, with a store that is well, a read inside an object is
  answered with exactly its bytes, whatever the tier's device does.
\<close>

theorem read_answered:
  assumes drv: "answering_driver drv contents well" and new: "NewCache tc = Inr c" "Open (Some drv) w = Inr b" "New_server (Some c) (Some b) cf env = Inr s0"
    and steps: "ds_step\<^sup>*\<^sup>* s0 s" "well (b_store (sv_backend s))" and sz: "\<And>obj bs. contents w obj = Some bs \<Longrightarrow> int (length bs) \<le> max_i64"
    and obj: "contents w obj = Some bs" "tenant \<noteq> []" "obj \<noteq> []" "0 \<le> offset" "0 < len" "offset + len \<le> int (length bs)" "len \<le> sv_maxRead s"
    and bounds: "sv_block s \<le> 281474976710656" "int (length bs) + sv_block s \<le> max_i64" "range_blocks (sv_block s) offset (offset + len) \<le> room_of s"
    and ctx: "\<And>n. \<not> ctx n"
  shows "fst (ds_ReadRange ctx s tenant obj offset len) = Inr (take (nat len) (drop (nat offset) bs))"
proof -
  have lawful: "lawful_driver drv contents" using drv by (simp add: answering_driver_def)
  have ok: "lawful_driver.server_ok drv contents (contents w) s"
    by (rule lawful_driver.ds_reach_ok [OF lawful steps(1) lawful_driver.New_server_ok [OF lawful new(3,1,2)] sz])
  have "answering_driver.store_well well s" using steps(2) by (simp add: answering_driver.store_well_def [OF drv])
  then show ?thesis
    by (rule answering_driver.ReadRange_succeeds [OF drv ok _ obj(1-7) bounds ctx])
qed

theorem read_answered_witness:
  "fst (ds_ReadRange (\<lambda>_. False) demo_server1 ''t'' ''o'' 1 2) = Inr [2, 3]"
proof -
  have "fst (ds_ReadRange (\<lambda>_. False) demo_server1 ''t'' ''o'' 1 2) = Inr (take (nat 2) (drop (nat 1) [1, 2, 3]))"
  proof (rule read_answered [OF filed.answering_driver_axioms demo_built demo_ds_steps])
    show "fd_well (b_store (sv_backend demo_server1))" using demo_store_well by (simp add: filed.store_well_def)
    show "int (length bs) \<le> max_i64" if "fd_contents demo_store obj = Some bs" for obj bs using demo_sizes that .
  qed (auto simp: demo_contents demo_server_values range_blocks_def max_i64_def)
  then show ?thesis by simp
qed

section \<open>The wire\<close>

text \<open>
  C14. A frame is accepted as a request exactly when it is the frame that request
  is written as; what follows it in the stream is left alone.
\<close>

theorem request_frame_exact:
  "decodeRequest stream = Some (r, rest) \<longleftrightarrow> request_ok r \<and> (\<exists>frame. encode_request r = Some frame \<and> stream = frame @ rest)"
  using encode_decode_request decode_encode_request by blast

text \<open>
  C15. What a client's read returns over the wire is what the server's read
  answered, the bytes or the kind of the error, and the conversation goes on.
\<close>

theorem client_read_is_servers:
  assumes "\<not> k_broken c" "len \<le> k_max c" "0 \<le> k_max c" "plain_turn t"
    and "length tenant \<le> maxName" "length obj \<le> maxName" "in_i64 offset" "in_i64 len"
  shows "cl_ReadRange True True (far_side t s) c tenant obj offset len =
     (case fst (ds_ReadRange (t_ctx t) s tenant obj offset len) of
        Inr d \<Rightarrow> Inr d
      | Inl e \<Rightarrow> Inl (if e = Ds_Driver ErrOutOfRange then Cl_Range else if e = Ds_Refused then Cl_Refused else Cl_Failed), c)"
proof -
  have "cl_of e = (if e = Ds_Driver ErrOutOfRange then Cl_Range else if e = Ds_Refused then Cl_Refused else Cl_Failed)" for e
    by (simp add: cl_of_def errStatus_def statusFor_def wire_consts)
  then show ?thesis unfolding client_read [OF assms] by (simp split: sum.splits)
qed

definition demo_client :: client where
  "demo_client = \<lparr>k_max = 4, k_exchange = DefaultExchange, k_broken = False, k_closed = False\<rparr>"

definition demo_turn :: turn where
  "demo_turn = \<lparr>t_idle_ok = True, t_exchange_ok = True, t_write_ok = True, t_done = False, t_ctx = (\<lambda>_. False)\<rparr>"

theorem client_read_is_servers_witness:
  "cl_ReadRange True True (far_side demo_turn demo_server1) demo_client ''t'' ''o'' 1 2 = (Inr [2, 3], demo_client)"
proof -
  have "fst (ds_ReadRange (\<lambda>_. False) demo_server1 ''t'' ''o'' 1 2) = Inr [2, 3]"
    using filed.ReadRange_succeeds [OF demo_server_ok demo_store_well demo_contents, of "''t''" 1 2 "\<lambda>_. False"]
    by (simp add: demo_server_values range_blocks_def max_i64_def)
  then show ?thesis
    using client_read_is_servers [of demo_client 2 demo_turn "''t''" "''o''" 1 demo_server1]
    by (simp add: demo_client_def demo_turn_def plain_turn_def maxName_def i64_defs)
qed

text \<open>
  A listing arrives as the server made it, names, kinds and sizes, as long
  as the client takes replies of that size.
\<close>

theorem listing_over_the_wire:
  assumes "\<not> k_broken c" "plain_turn t" "length tenant \<le> maxName" "length prefix \<le> maxName" "length after \<le> maxName" "in_i64 n"
    and "fst (ds_List s tenant prefix after n) = Inr es" "\<forall>e\<in>set es. length (eName e) \<le> maxName \<and> in_i64 (eBytes e)"
    and "encodeEntries es = Some body" "int (length body) \<le> k_max c" "int (length body) \<le> max_i64"
  shows "cl_List True True (far_side t s) c tenant prefix after n = (Inr es, c)"
  using client_list [OF assms(1-7) _ assms(9-11)] assms(8) by (simp add: list_all_iff entry_ok_def)

lemma demo_listing: "fst (ds_List demo_server1 ''t'' [] [] 2) = Inr [\<lparr>eName = ''o'', eDir = False, eBytes = 3\<rparr>]"
proof -
  have b: "b_lister demo_backend = Some fd_List" "b_denied demo_backend = None" "b_declare demo_backend = fd_Declare" "b_store demo_backend = demo_store"
    using demo_built(2) by (simp_all add: demo_backend_def Open_def file_driver_def fd_Declare_def decl_Validate_def decl_Supports_def cap_defs Let_def)
  have "fst (fd_List demo_store [] [] 2) = Inr [\<lparr>eName = ''o'', eDir = False, eBytes = 3\<rparr>]"
    by (simp add: fd_List_def demo_store_def fault_def children_def entry_of_def)
  then show ?thesis
    using b by (simp add: ds_List_def b_List_def b_Supports_def fd_Declare_def decl_Supports_def maxListing_def demo_server_values split: prod.splits) auto
qed

section \<open>Predictions\<close>

text \<open>
  C16. The detector predicts a block only when the latest \<open>Confirmations\<close> reads of
  that stream, repeats apart, are in arithmetic progression, and the block continues the progression
  within \<open>Depth\<close> steps; no block is predicted twice in one answer.
\<close>

theorem prediction_confirmed:
  assumes "New_detector c = Some d" "\<forall>r\<in>set rs. in_i64 (bIndex (fst r))" "in_i64 (bIndex b)"
    and out: "pf_Observe (pf_run d rs) b now = (out, d')"
  shows "distinct (map bIndex out) \<and> (\<forall>p\<in>set out. \<exists>stride i. stride \<noteq> 0
     \<and> in_step stride (nat (Confirmations c)) (remdups_adj (bIndex b # reads_of (Stream b) rs))
     \<and> 1 \<le> i \<and> i \<le> Depth c \<and> Stream p = Stream b \<and> bIndex p = wrap64 (bIndex b + stride * i))"
proof -
  obtain s' where o: "observe_stream (d_cfg (pf_run d rs)) (stream_at (pf_run d rs) (Stream b)) b now = (out, s')"
    using out by (auto simp: pf_Observe_def split: prod.splits)
  have "distinct (map bIndex out)"
  proof (cases out)
    case (Cons p ps)
    then have "p \<in> set out" by simp
    from predict_loop_out [OF observe_stream_out(2) [OF o this]] show ?thesis by simp
  qed simp
  moreover have "\<exists>stride i. stride \<noteq> 0 \<and> in_step stride (nat (Confirmations c)) (remdups_adj (bIndex b # reads_of (Stream b) rs))
     \<and> 1 \<le> i \<and> i \<le> Depth c \<and> Stream p = Stream b \<and> bIndex p = wrap64 (bIndex b + stride * i)" if "p \<in> set out" for p
    by (rule prediction_continues [OF assms(1-3) out that])
  ultimately show ?thesis by blast
qed

definition demo_pf_config :: pf_config where
  "demo_pf_config = \<lparr>Depth = 2, Confirmations = 3, Window = 4, MinAccuracy = 1 / 2, Patience = Minute\<rparr>"

definition demo_reads :: "(pf_block \<times> time) list" where
  "demo_reads = [(\<lparr>Stream = ''s'', bIndex = 1\<rparr>, 0), (\<lparr>Stream = ''s'', bIndex = 3\<rparr>, 0)]"

theorem prediction_confirmed_witness:
  "\<exists>out d'. pf_Observe (pf_run \<lparr>d_cfg = demo_pf_config, d_streams = []\<rparr> demo_reads) \<lparr>Stream = ''s'', bIndex = 5\<rparr> 0 = (out, d')
     \<and> map bIndex out = [7, 9] \<and> distinct (map bIndex out)"
proof -
  have new: "New_detector demo_pf_config = Some \<lparr>d_cfg = demo_pf_config, d_streams = []\<rparr>"
    by (simp add: New_detector_def pf_Validate_def demo_pf_config_def)
  have rs: "\<forall>r\<in>set demo_reads. in_i64 (bIndex (fst r))" by (simp add: demo_reads_def i64_defs)
  obtain out d' where o: "pf_Observe (pf_run \<lparr>d_cfg = demo_pf_config, d_streams = []\<rparr> demo_reads) \<lparr>Stream = ''s'', bIndex = 5\<rparr> 0 = (out, d')"
    by force
  have "map bIndex (fst (pf_Observe (pf_run \<lparr>d_cfg = demo_pf_config, d_streams = []\<rparr> demo_reads) \<lparr>Stream = ''s'', bIndex = 5\<rparr> 0)) = [7, 9]"
    by code_simp
  then show ?thesis using o prediction_confirmed [OF new rs _ o] by (auto simp: i64_defs)
qed

text \<open>
  What the detector answers, and the stream it is left with, do not depend on
  the order in which the map of outstanding predictions is walked.
\<close>

theorem prediction_order_free:
  assumes "gomap_ok (st_outstanding s)" "gomap_ok m" "map_of (st_outstanding s) = map_of m"
  shows "fst (observe_stream c (s\<lparr>st_outstanding := m\<rparr>) b now) = fst (observe_stream c s b now)
    \<and> same_stream (snd (observe_stream c s b now)) (snd (observe_stream c (s\<lparr>st_outstanding := m\<rparr>) b now))"
proof -
  have "same_stream s (s\<lparr>st_outstanding := m\<rparr>)" using assms by (simp add: same_stream_def)
  from observe_stream_same [OF this, of c b now] show ?thesis by simp
qed

text \<open>
  A stream muted on a stride is not predicted however long it goes on reading at
  that stride, with or without repeats.
\<close>

theorem muted_stays_muted:
  assumes "muted_on m s" "\<forall>i<length bs. wrap64 (bIndex (bs ! i) - (if i = 0 then st_last s else bIndex (bs ! (i - 1)))) \<in> {0, m}"
  shows "let s' = foldl (\<lambda>s b. snd (observe_stream c s b now)) s bs in
     muted_on m s' \<and> (\<forall>b. wrap64 (bIndex b - st_last s') \<in> {0, m} \<longrightarrow> fst (observe_stream c s' b now) = [])"
proof -
  have "muted_on m (foldl (\<lambda>s b. snd (observe_stream c s b now)) s bs)"
    using assms
  proof (induction bs arbitrary: s)
    case (Cons b bs)
    have f: "wrap64 (bIndex b - st_last s) \<in> {0, m}" using Cons.prems(2) by force
    note o = observe_muted_on [OF Cons.prems(1) f, of c now]
    have "\<forall>i<length bs. wrap64 (bIndex (bs ! i) - (if i = 0 then st_last (snd (observe_stream c s b now)) else bIndex (bs ! (i - 1)))) \<in> {0, m}"
    proof (intro allI impI)
      fix i assume "i < length bs"
      then show "wrap64 (bIndex (bs ! i) - (if i = 0 then st_last (snd (observe_stream c s b now)) else bIndex (bs ! (i - 1)))) \<in> {0, m}"
        using Cons.prems(2) [rule_format, of "Suc i"] o by (cases i) simp_all
    qed
    then show ?case using Cons.IH o by simp
  qed simp
  then show ?thesis using observe_muted_on unfolding Let_def by blast
qed

definition demo_muted :: pf_stream where
  "demo_muted = new_stream\<lparr>st_started := True, st_muted := True, st_mutedStride := 1, st_last := 4\<rparr>"

section \<open>Backends\<close>




text \<open>
  C17. No write changes an object that exists or touches another one. A streamed write
  that is acknowledged left exactly the bytes it was described as; one that is refused by a
  filesystem that does not fail left nothing.
\<close>

theorem objects_immutable:
  assumes run: "fd_WriteObjectFrom w obj src n = (e, w')" and n: "n \<le> max_i64"
    and run2: "fd_WriteObject w obj data = (e2, w2)"
  shows "(fd_contents w obj \<noteq> None \<longrightarrow> fd_contents w' = fd_contents w \<and> fd_contents w2 = fd_contents w)
    \<and> (\<forall>o2. o2 \<noteq> obj \<longrightarrow> fd_contents w' o2 = fd_contents w o2 \<and> fd_contents w2 o2 = fd_contents w o2)
    \<and> (e = None \<longrightarrow> fd_contents w' = (fd_contents w)(obj \<mapsto> src_bytes src) \<and> int (length (src_bytes src)) = n \<and> \<not> src_fails src)
    \<and> (e2 = None \<longrightarrow> fd_contents w2 = (fd_contents w)(obj \<mapsto> data))
    \<and> (e \<noteq> None \<and> fd_well w \<longrightarrow> fd_contents w' = fd_contents w)"
proof -
  note a = fd_stream_contents [OF run n] and b = fd_write_contents [OF run2]
  have "fd_contents w' o2 = fd_contents w o2 \<and> fd_contents w2 o2 = fd_contents w o2" if "o2 \<noteq> obj" for o2
    using a b that by (metis fun_upd_other)
  then show ?thesis using a b fd_stream_refused [OF _ run _ n] by blast
qed

theorem objects_immutable_witness:
  "fd_contents (snd (fd_WriteObjectFrom demo_store ''o'' \<lparr>src_bytes = [9], src_fails = False\<rparr> 1)) = fd_contents demo_store
   \<and> fd_contents (snd (fd_WriteObjectFrom demo_store ''p'' \<lparr>src_bytes = [9], src_fails = False\<rparr> 2)) = fd_contents demo_store"
proof -
  let ?a = "fd_WriteObjectFrom demo_store ''o'' \<lparr>src_bytes = [9], src_fails = False\<rparr> 1"
  let ?b = "fd_WriteObjectFrom demo_store ''p'' \<lparr>src_bytes = [9], src_fails = False\<rparr> 2"
  have "fst ?b \<noteq> None"
    by (simp add: fd_WriteObjectFrom_def fd_path_def create_file_def MkdirAll_def fault_def demo_store_def write_file_def put_node_def
        copied_def wrap64_def)
  moreover have "fd_well demo_store" by (simp add: fd_well_def demo_store_def)
  ultimately show ?thesis
    using objects_immutable [of demo_store "''o''" _ 1 "fst ?a" "snd ?a" "[]" "fst (fd_WriteObject demo_store ''o'' [])" "snd (fd_WriteObject demo_store ''o'' [])"]
      objects_immutable [of demo_store "''p''" _ 2 "fst ?b" "snd ?b" "[]" "fst (fd_WriteObject demo_store ''p'' [])" "snd (fd_WriteObject demo_store ''p'' [])"]
      demo_contents by (simp add: max_i64_def)
qed

text \<open>
  C19. A caller that pages through a level of the directory, asking again after the last
  name it saw, sees every name above where it started, once and in order, whatever the page size, and
  is done after as many pages as there are names and one.
\<close>

theorem pages_cover_level:
  assumes "fd_well w" "gomap_ok (fs_nodes w)" "(if prefix = [] then Inr [] else fd_path prefix) = Inr dir"
    "dir = [] \<or> map_of (fs_nodes w) dir = Some FDir" "0 < most" "most \<le> 8796093022208"
    and "length (filter (\<lambda>x. after < x) (level w dir)) < n"
  shows "pages n w prefix after most = filter (\<lambda>x. after < x) (level w dir) \<and> sorted_wrt (<) (level w dir)
    \<and> set (level w dir) = {last p |p v. (p, v) \<in> set (fs_nodes w) \<and> p \<noteq> [] \<and> butlast p = dir}"
proof (intro conjI pages_all [OF assms] level_sorted [OF assms(2)])
  show "set (level w dir) = {last p |p v. (p, v) \<in> set (fs_nodes w) \<and> p \<noteq> [] \<and> butlast p = dir}"
    by (force simp: level_def children_def image_iff)
qed

theorem pages_cover_level_witness:
  "pages 3 \<lparr>fs_nodes = [([''b''], FDir), ([''a''], FFile [])], fs_faults = []\<rparr> [] [] 1 = [''a'', ''b'']"
proof -
  let ?w = "\<lparr>fs_nodes = [([''b''], FDir), ([''a''], FFile [])], fs_faults = []\<rparr>"
  have "level ?w [] = [''a'', ''b'']" by (simp add: level_def children_def)
  then show ?thesis
    using pages_cover_level [of ?w "[]" "[]" 1 "[]" 3] by (simp add: fd_well_def gomap_ok_def)
qed

end
