(* ===== verification/Lineage.thy ===== *)
theory Lineage
  imports Go_Base
begin

text \<open>
  Package lineage (\<open>internal/lineage/lineage.go\<close>): a graph of versions, runs, checkpoints and models
  whose edges are claims, each with how it is known, and the query for what produced a thing.

  Kinds, relations and bases are Go integers of which only the named values mean something, so
  they are integers here. The loop of \<open>Ancestry\<close> is the recursive function \<open>walk\<close> over the stack
  (its top first), the nodes seen and the answer built so far; it terminates on every graph,
  because a push uses up a name the edges mention.

  The lemmas: the graph a caller can build is acyclic with at most three claims on a path; the
  answer has exactly the ancestors, each once, in order, with exactly the claims that lead to them,
  counted by how they are known.
\<close>

section \<open>Nodes, edges and the graph\<close>

type_synonym node_kind = int
type_synonym relation = int
type_synonym basis = int

definition KVersion :: node_kind where "KVersion = 0"
definition KRun :: node_kind where "KRun = 1"
definition KCheckpoint :: node_kind where "KCheckpoint = 2"
definition KModel :: node_kind where "KModel = 3"

definition BDeclared :: basis where "BDeclared = 0"
definition BObserved :: basis where "BObserved = 1"

definition RelRead :: relation where "RelRead = 0"
definition RelProduced :: relation where "RelProduced = 1"
definition RelPromoted :: relation where "RelPromoted = 2"

lemmas lineage_consts = KVersion_def KRun_def KCheckpoint_def KModel_def BDeclared_def BObserved_def
  RelRead_def RelProduced_def RelPromoted_def

definition kind_String :: "node_kind \<Rightarrow> string" where
  "kind_String k = (if k = KVersion then ''version'' else if k = KRun then ''run''
     else if k = KCheckpoint then ''checkpoint'' else if k = KModel then ''model'' else ''unknown'')"

definition basis_String :: "basis \<Rightarrow> string" where
  "basis_String b = (if b = BObserved then ''observed'' else ''declared'')"

definition relation_String :: "relation \<Rightarrow> string" where
  "relation_String r = (if r = RelRead then ''read'' else if r = RelProduced then ''produced''
     else if r = RelPromoted then ''promoted'' else ''unknown'')"

record lnode =
  nID :: string
  nKind :: node_kind
  nDigest :: string
  nRetrievable :: bool

record ledge =
  eFrom :: string
  eTo :: string
  eRelation :: relation
  eBasis :: basis

datatype lineage_error = ErrNoSuchNode | ErrDuplicateNode | ErrWrongKinds | ErrNotObservable | ErrNoIdentity

record graph =
  nodes :: "(string, lnode) gomap"
  out_edges :: "(string, ledge list) gomap"

definition lineage_New :: graph where
  "lineage_New = \<lparr>nodes = [], out_edges = []\<rparr>"

definition allowed_kinds :: "relation \<Rightarrow> (node_kind \<times> node_kind) option" where
  "allowed_kinds r = (if r = RelRead then Some (KRun, KVersion)
     else if r = RelProduced then Some (KRun, KCheckpoint)
     else if r = RelPromoted then Some (KCheckpoint, KModel) else None)"

definition lineage_Add :: "graph \<Rightarrow> lnode \<Rightarrow> lineage_error option \<times> graph" where
  "lineage_Add g n =
     (if nID n = '''' then (Some ErrNoIdentity, g)
      else if map_of (nodes g) (nID n) \<noteq> None then (Some ErrDuplicateNode, g)
      else (None, g\<lparr>nodes := AList.update (nID n) n (nodes g)\<rparr>))"

text \<open>A missing entry of the map of slices reads as the empty slice.\<close>

definition slice_at :: "(string, 'a list) gomap \<Rightarrow> string \<Rightarrow> 'a list" where
  "slice_at m k = (case map_of m k of None \<Rightarrow> [] | Some es \<Rightarrow> es)"

definition Link :: "graph \<Rightarrow> ledge \<Rightarrow> lineage_error option \<times> graph" where
  "Link g e =
     (case map_of (nodes g) (eFrom e) of
        None \<Rightarrow> (Some ErrNoSuchNode, g)
      | Some source \<Rightarrow>
          (case map_of (nodes g) (eTo e) of
             None \<Rightarrow> (Some ErrNoSuchNode, g)
           | Some sink \<Rightarrow>
               if allowed_kinds (eRelation e) \<noteq> Some (nKind source, nKind sink) then (Some ErrWrongKinds, g)
               else if eRelation e = RelPromoted \<and> eBasis e = BObserved then (Some ErrNotObservable, g)
               else (None, g\<lparr>out_edges := AList.update (eFrom e) (slice_at (out_edges g) (eFrom e) @ [e]) (out_edges g)\<rparr>)))"

section \<open>Ancestry\<close>

record answer =
  aNodes :: "lnode list"
  aEdges :: "ledge list"
  aObserved :: nat
  aAsserted :: nat
  aUnretrievable :: "string list"

definition Complete :: "answer \<Rightarrow> bool" where
  "Complete a \<longleftrightarrow> aAsserted a = 0 \<and> 0 < aObserved a"

definition all_edges :: "graph \<Rightarrow> ledge list" where
  "all_edges g = concat (map snd (out_edges g))"

text \<open>The loop that collects the edges into a node.\<close>

definition edges_in :: "graph \<Rightarrow> (string, ledge list) gomap" where
  "edges_in g = foldl (\<lambda>inn e. AList.update (eTo e) (slice_at inn (eTo e) @ [e]) inn) [] (all_edges g)"

definition ancestorEdges :: "graph \<Rightarrow> (string, ledge list) gomap \<Rightarrow> string \<Rightarrow> ledge list" where
  "ancestorEdges g inn at =
     filter (\<lambda>e. eRelation e = RelRead) (slice_at (out_edges g) at)
     @ filter (\<lambda>e. eRelation e \<noteq> RelRead) (slice_at inn at)"

text \<open>A node the map does not have reads as the zero value of the struct.\<close>

definition node_at :: "graph \<Rightarrow> string \<Rightarrow> lnode" where
  "node_at g k = (case map_of (nodes g) k of Some n \<Rightarrow> n
     | None \<Rightarrow> \<lparr>nID = '''', nKind = 0, nDigest = '''', nRetrievable = False\<rparr>)"

definition add_node :: "lnode \<Rightarrow> answer \<Rightarrow> answer" where
  "add_node n a =
     (let a1 = a\<lparr>aNodes := aNodes a @ [n]\<rparr> in
      if nKind n = KVersion \<and> \<not> nRetrievable n then a1\<lparr>aUnretrievable := aUnretrievable a1 @ [nID n]\<rparr> else a1)"

definition add_edge :: "ledge \<Rightarrow> answer \<Rightarrow> answer" where
  "add_edge e a =
     (let a1 = a\<lparr>aEdges := aEdges a @ [e]\<rparr> in
      if eBasis e = BObserved then a1\<lparr>aObserved := Suc (aObserved a1)\<rparr> else a1\<lparr>aAsserted := Suc (aAsserted a1)\<rparr>)"

definition next_of :: "ledge \<Rightarrow> string" where
  "next_of e = (if eRelation e = RelRead then eTo e else eFrom e)"

fun edge_loop :: "ledge list \<Rightarrow> answer \<Rightarrow> string set \<Rightarrow> string list \<Rightarrow> answer \<times> string set \<times> string list" where
  "edge_loop [] a seen stack = (a, seen, stack)"
| "edge_loop (e # es) a seen stack =
     (if next_of e \<in> seen then edge_loop es (add_edge e a) seen stack
      else edge_loop es (add_edge e a) (insert (next_of e) seen) (next_of e # stack))"

definition names :: "graph \<Rightarrow> (string, ledge list) gomap \<Rightarrow> string set" where
  "names g inn = (let es = set (concat (map snd (out_edges g @ inn))) in eFrom ` es \<union> eTo ` es)"

lemma finite_names [simp]: "finite (names g inn)"
  by (simp add: names_def Let_def)

lemma set_slice_at: "set (slice_at m k) \<subseteq> set (concat (map snd m))"
proof (cases "map_of m k")
  case (Some es)
  then have "es \<in> snd ` set m" by (force dest: map_of_SomeD)
  then show ?thesis using Some by (auto simp: slice_at_def)
qed (simp add: slice_at_def)

lemma slice_at_names: "e \<in> set (slice_at (out_edges g) k) \<union> set (slice_at inn k) \<Longrightarrow> eFrom e \<in> names g inn \<and> eTo e \<in> names g inn"
  using set_slice_at [of "out_edges g" k] set_slice_at [of inn k] by (force simp: names_def Let_def)

lemma next_of_names: "e \<in> set (ancestorEdges g inn k) \<Longrightarrow> next_of e \<in> names g inn"
  using slice_at_names [of e g k inn] by (auto simp: ancestorEdges_def next_of_def)

lemma edge_loop_measure:
  assumes "edge_loop es a seen stack = (a', seen', stack')" "next_of ` set es \<subseteq> N" "finite N"
  shows "2 * card (N - seen') + length stack' \<le> 2 * card (N - seen) + length stack"
  using assms
proof (induction es a seen stack rule: edge_loop.induct)
  case (2 e es a seen stack)
  show ?case
  proof (cases "next_of e \<in> seen")
    case True
    then show ?thesis using 2 by simp
  next
    case False
    have "N - insert (next_of e) seen = (N - seen) - {next_of e}" by auto
    moreover have "next_of e \<in> N - seen" using False 2 by auto
    ultimately have "Suc (card (N - insert (next_of e) seen)) = card (N - seen)"
      using 2 card_Suc_Diff1 [of "N - seen" "next_of e"] by simp
    then show ?thesis using False 2 by simp
  qed
qed simp

function walk :: "graph \<Rightarrow> (string, ledge list) gomap \<Rightarrow> answer \<Rightarrow> string set \<Rightarrow> string list \<Rightarrow> answer" where
  "walk g inn a seen [] = a"
| "walk g inn a seen (at # stack) =
     (case edge_loop (ancestorEdges g inn at) (add_node (node_at g at) a) seen stack of
        (a', seen', stack') \<Rightarrow> walk g inn a' seen' stack')"
  by pat_completeness auto
termination
proof (relation "measure (\<lambda>(g, inn, a, seen, stack). 2 * card (names g inn - seen) + length stack)", goal_cases)
  case (2 g inn a seen at stack a' y seen' stack')
  then have "edge_loop (ancestorEdges g inn at) (add_node (node_at g at) a) seen stack = (a', seen', stack')" by simp
  from edge_loop_measure [OF this, of "names g inn"] next_of_names show ?case by fastforce
qed simp

definition no_answer :: answer where
  "no_answer = \<lparr>aNodes = [], aEdges = [], aObserved = 0, aAsserted = 0, aUnretrievable = []\<rparr>"

text \<open>
  \<open>sort.Slice\<close> is not stable; claims that agree on both ends come in one of their orders here, the
  stable one.
\<close>

definition Ancestry :: "graph \<Rightarrow> string \<Rightarrow> lineage_error + answer" where
  "Ancestry g i =
     (if map_of (nodes g) i = None then Inl ErrNoSuchNode
      else let a = walk g (edges_in g) no_answer {i} [i] in
           Inr (a\<lparr>aNodes := sort_key nID (aNodes a), aEdges := sort_key (\<lambda>e. (eFrom e, eTo e)) (aEdges a),
                  aUnretrievable := sort (aUnretrievable a)\<rparr>))"

section \<open>The graphs a caller can build\<close>

definition child_of :: "ledge \<Rightarrow> string" where
  "child_of e = (if eRelation e = RelRead then eFrom e else eTo e)"

definition link_ok :: "graph \<Rightarrow> ledge \<Rightarrow> bool" where
  "link_ok g e \<longleftrightarrow> (\<exists>source sink. map_of (nodes g) (eFrom e) = Some source \<and> map_of (nodes g) (eTo e) = Some sink
     \<and> allowed_kinds (eRelation e) = Some (nKind source, nKind sink)) \<and> \<not> (eRelation e = RelPromoted \<and> eBasis e = BObserved)"

definition graph_ok :: "graph \<Rightarrow> bool" where
  "graph_ok g \<longleftrightarrow> gomap_ok (nodes g) \<and> (\<forall>k n. map_of (nodes g) k = Some n \<longrightarrow> nID n = k \<and> k \<noteq> '''')
     \<and> gomap_ok (out_edges g) \<and> (\<forall>(k, es)\<in>set (out_edges g). \<forall>e\<in>set es. eFrom e = k \<and> link_ok g e)"

lemma graph_ok_edge: "graph_ok g \<Longrightarrow> (k, es) \<in> set (out_edges g) \<Longrightarrow> e \<in> set es \<Longrightarrow> eFrom e = k \<and> link_ok g e"
  unfolding graph_ok_def by blast

lemma graph_ok_out: "graph_ok g \<Longrightarrow> gomap_ok (out_edges g) \<and> (\<forall>(j, es)\<in>set (out_edges g). \<forall>e\<in>set es. eFrom e = j)"
  unfolding graph_ok_def by blast

lemma graph_ok_New: "graph_ok lineage_New"
  by (simp add: graph_ok_def lineage_New_def)

lemma link_ok_Add: "link_ok g e \<Longrightarrow> map_of (nodes g) (nID n) = None \<Longrightarrow> link_ok (g\<lparr>nodes := AList.update (nID n) n (nodes g)\<rparr>) e"
  by (auto simp: link_ok_def map_of_update_if)

lemma graph_ok_Add:
  assumes "graph_ok g" "lineage_Add g n = (x, g')"
  shows "graph_ok g'"
proof -
  consider "g' = g" | "nID n \<noteq> ''''" "map_of (nodes g) (nID n) = None" "g' = g\<lparr>nodes := AList.update (nID n) n (nodes g)\<rparr>"
    using assms(2) by (auto simp: lineage_Add_def split: if_splits)
  then show ?thesis
  proof cases
    case 2
    have "\<forall>(k, es)\<in>set (out_edges g'). \<forall>e\<in>set es. eFrom e = k \<and> link_ok g' e"
      using assms(1) link_ok_Add [OF _ 2(2)] by (auto simp: graph_ok_def 2(3))
    then show ?thesis using assms(1) 2 by (simp add: graph_ok_def map_of_update_if)
  qed (use assms in simp)
qed

lemma set_update_subset: "(k, v) \<in> set (AList.update j w m) \<Longrightarrow> (k, v) \<in> set m \<or> k = j \<and> v = w"
  by (induction m) (auto split: if_splits)

lemma graph_ok_Link:
  assumes ok: "graph_ok g" and run: "Link g e = (x, g')"
  shows "graph_ok g'"
proof -
  consider "g' = g" | "link_ok g e" "g' = g\<lparr>out_edges := AList.update (eFrom e) (slice_at (out_edges g) (eFrom e) @ [e]) (out_edges g)\<rparr>"
    using run by (auto simp: Link_def link_ok_def split: option.splits if_splits)
  then show ?thesis
  proof cases
    case 2
    have same: "link_ok g' = link_ok g" by (rule ext) (simp add: link_ok_def 2(2))
    have old: "eFrom f = k \<and> link_ok g f" if "(k, es) \<in> set (out_edges g)" "f \<in> set es" for k es f
      by (rule graph_ok_edge [OF ok that])
    have slice: "eFrom f = k \<and> link_ok g f" if "f \<in> set (slice_at (out_edges g) k)" for f k
    proof (cases "map_of (out_edges g) k")
      case (Some es)
      then show ?thesis using that old [OF map_of_SomeD [OF Some]] by (simp add: slice_at_def)
    qed (use that in \<open>simp add: slice_at_def\<close>)
    have "eFrom f = k \<and> link_ok g' f" if m: "(k, es) \<in> set (out_edges g')" and f: "f \<in> set es" for k es f
    proof -
      from m have "(k, es) \<in> set (out_edges g) \<or> k = eFrom e \<and> es = slice_at (out_edges g) (eFrom e) @ [e]"
        unfolding 2(2) by (auto dest: set_update_subset)
      then show "eFrom f = k \<and> link_ok g' f"
      proof
        assume "(k, es) \<in> set (out_edges g)"
        then show ?thesis unfolding same using f by (rule old)
      next
        assume k: "k = eFrom e \<and> es = slice_at (out_edges g) (eFrom e) @ [e]"
        then have "f = e \<or> f \<in> set (slice_at (out_edges g) k)" using f by auto
        then show ?thesis unfolding same using slice [of f k] 2(1) k by blast
      qed
    qed
    then have "\<forall>(k, es)\<in>set (out_edges g'). \<forall>e\<in>set es. eFrom e = k \<and> link_ok g' e" by blast
    moreover have "nodes g' = nodes g" "gomap_ok (out_edges g')" using graph_ok_out [OF ok] by (simp_all add: 2(2))
    ultimately show ?thesis using ok unfolding graph_ok_def by simp
  qed (use ok in simp)
qed

inductive lineage_reach :: "graph \<Rightarrow> bool" where
  start: "lineage_reach lineage_New"
| add: "lineage_reach g \<Longrightarrow> lineage_reach (snd (lineage_Add g n))"
| link: "lineage_reach g \<Longrightarrow> lineage_reach (snd (Link g e))"

lemma lineage_reach_ok: "lineage_reach g \<Longrightarrow> graph_ok g"
  by (induction rule: lineage_reach.induct) (metis graph_ok_New graph_ok_Add graph_ok_Link prod.collapse)+

section \<open>Ancestors\<close>

text \<open>\<open>parents g\<close> relates a thing to what it came from, through one claim.\<close>

definition parents :: "graph \<Rightarrow> (string \<times> string) set" where
  "parents g = {(child_of e, next_of e) |e. e \<in> set (all_edges g)}"

lemma slice_at_update: "slice_at (AList.update k v m) j = (if j = k then v else slice_at m j)"
  by (simp add: slice_at_def map_of_update_if)

lemma slice_edges_in: "slice_at (edges_in g) k = filter (\<lambda>e. eTo e = k) (all_edges g)"
proof -
  have "slice_at (foldl (\<lambda>inn e. AList.update (eTo e) (slice_at inn (eTo e) @ [e]) inn) m es) k
      = slice_at m k @ filter (\<lambda>e. eTo e = k) es" for m es
    by (induction es arbitrary: m) (auto simp: slice_at_update)
  from this [of "[]"] show ?thesis unfolding edges_in_def by (simp add: slice_at_def [of "[]"])
qed

lemma slice_out_edges:
  assumes "graph_ok g"
  shows "slice_at (out_edges g) k = filter (\<lambda>e. eFrom e = k) (all_edges g)"
proof -
  have "slice_at m k = filter (\<lambda>e. eFrom e = k) (concat (map snd m))"
    if "gomap_ok m" "\<forall>(j, es)\<in>set m. \<forall>e\<in>set es. eFrom e = j" for m
    using that
  proof (induction m)
    case (Cons x m)
    obtain j es where x: "x = (j, es)" by force
    have j: "filter (\<lambda>e. eFrom e = k) es = (if j = k then es else [])"
      using Cons.prems x by (auto simp: filter_empty_conv filter_id_conv)
    have "j = k \<Longrightarrow> slice_at m k = []" using Cons.prems x by (simp add: gomap_ok_Cons slice_at_def)
    then show ?case using Cons x j by (auto simp: slice_at_def gomap_ok_Cons)
  qed (simp add: slice_at_def)
  from this [of "out_edges g"] show ?thesis using graph_ok_out [OF assms] by (simp add: all_edges_def)
qed

lemma mset_ancestorEdges:
  assumes "graph_ok g"
  shows "mset (ancestorEdges g (edges_in g) k) = filter_mset (\<lambda>e. child_of e = k) (mset (all_edges g))"
proof -
  have "mset (ancestorEdges g (edges_in g) k)
      = filter_mset (\<lambda>e. eRelation e = RelRead \<and> eFrom e = k) (mset (all_edges g))
        + filter_mset (\<lambda>e. eRelation e \<noteq> RelRead \<and> eTo e = k) (mset (all_edges g))"
    by (simp add: ancestorEdges_def slice_edges_in slice_out_edges [OF assms] mset_filter conj_commute)
  also have "\<dots> = filter_mset (\<lambda>e. child_of e = k) (mset (all_edges g))"
    by (induction "all_edges g") (auto simp: child_of_def multiset_eq_iff)
  finally show ?thesis .
qed

section \<open>The walk\<close>

text \<open>What visiting one node adds to the answer.\<close>

definition visit :: "graph \<Rightarrow> (string, ledge list) gomap \<Rightarrow> answer \<Rightarrow> string \<Rightarrow> answer" where
  "visit g inn a k = foldl (\<lambda>a e. add_edge e a) (add_node (node_at g k) a) (ancestorEdges g inn k)"

lemma edge_loop_closed:
  assumes "edge_loop es a seen stack = (a', seen', stack')"
  shows "a' = foldl (\<lambda>a e. add_edge e a) a es" and "seen' = seen \<union> next_of ` set es"
    and "\<exists>new. stack' = new @ stack \<and> distinct new \<and> set new = next_of ` set es - seen"
  using assms
proof (induction es a seen stack rule: edge_loop.induct)
  case (2 e es a seen stack)
  {
    case 1 then show ?case using 2 by (auto split: if_splits)
  next
    case 2 then show ?case using "2.IH"(2,5) by (auto split: if_splits)
  next
    case 3
    show ?case
    proof (cases "next_of e \<in> seen")
      case True
      then obtain new where "stack' = new @ stack" "distinct new" "set new = next_of ` set es - seen"
        using "2.IH"(3) 3 by auto
      then show ?thesis using True by auto
    next
      case False
      then obtain new where "stack' = new @ next_of e # stack" "distinct new" "set new = next_of ` set es - insert (next_of e) seen"
        using "2.IH"(6) 3 by auto
      then show ?thesis using False by (intro exI [of _ "new @ [next_of e]"]) auto
    qed
  }
qed auto

text \<open>
  The nodes the walk visits from a stack, when \<open>D\<close> are the nodes already dealt with: each once, none
  of \<open>D\<close>, all of the stack, closed under parents, and nothing that the stack does not lead to.
\<close>

definition visits :: "(string \<times> string) set \<Rightarrow> string set \<Rightarrow> string list \<Rightarrow> string list \<Rightarrow> bool" where
  "visits P D stack vs \<longleftrightarrow> distinct vs \<and> set vs \<inter> D = {} \<and> set stack \<subseteq> set vs
     \<and> P `` (D \<union> set vs) \<subseteq> D \<union> set vs \<and> set vs \<subseteq> P\<^sup>* `` set stack"

lemma visits_step:
  assumes "visits P (insert k D) (new @ stack) vs" "k \<notin> D" "set new \<subseteq> P `` {k}"
  shows "visits P D (k # stack) (k # vs)"
proof -
  have "set vs \<subseteq> P\<^sup>* `` (P `` {k} \<union> set stack)"
    using assms by (force simp: visits_def)
  also have "\<dots> \<subseteq> P\<^sup>* `` set (k # stack)"
    by (auto intro: converse_rtrancl_into_rtrancl)
  finally show ?thesis using assms by (auto simp: visits_def)
qed

lemma walk_visits:
  assumes ok: "graph_ok g" and inn: "inn = edges_in g"
    and "distinct stack" "set stack \<subseteq> seen" "parents g `` (seen - set stack) \<subseteq> seen"
  shows "\<exists>vs. walk g inn a seen stack = foldl (visit g inn) a vs \<and> visits (parents g) (seen - set stack) stack vs"
  using assms
proof (induction g inn a seen stack rule: walk.induct)
  case (1 g inn a seen)
  then show ?case by (intro exI [of _ "[]"]) (simp add: visits_def)
next
  case (2 g inn a seen at stack)
  let ?P = "parents g"
  obtain a' seen' stack' where l: "edge_loop (ancestorEdges g inn at) (add_node (node_at g at) a) seen stack = (a', seen', stack')"
    by (metis prod_cases3)
  note c = edge_loop_closed [OF l]
  obtain new where new: "stack' = new @ stack" "distinct new" "set new = next_of ` set (ancestorEdges g inn at) - seen"
    using c(3) by blast
  have "set (ancestorEdges g inn at) = {e \<in> set (all_edges g). child_of e = at}"
    using arg_cong [OF mset_ancestorEdges [OF "2.prems"(1), of at], of set_mset] "2.prems"(2) by simp
  then have par: "next_of ` set (ancestorEdges g inn at) = ?P `` {at}" by (auto simp: parents_def)
  have at: "at \<in> seen" "at \<notin> set stack" using "2.prems"(3,4) by auto
  have dn: "seen' - set stack' = insert at (seen - set (at # stack))"
    using at "2.prems"(4) new(1,3) c(2) by auto
  have "?P `` (seen' - set stack') \<subseteq> seen'"
    unfolding dn using "2.prems"(5) c(2) par by auto
  then have st: "distinct stack'" "set stack' \<subseteq> seen'" "?P `` (seen' - set stack') \<subseteq> seen'"
    using "2.prems" new c(2) by auto
  obtain vs where vs: "walk g inn a' seen' stack' = foldl (visit g inn) a' vs"
    "visits ?P (seen' - set stack') stack' vs"
    using "2.IH" [OF l [symmetric] refl "2.prems"(1,2) st] by blast
  have "visits ?P (seen - set (at # stack)) (at # stack) (at # vs)"
    using vs(2) [unfolded dn, unfolded new(1)] new(3) par by (intro visits_step) auto
  moreover have "walk g inn a seen (at # stack) = foldl (visit g inn) a (at # vs)"
    using l vs(1) c(1) by (simp add: visit_def)
  ultimately show ?case by blast
qed

lemma visit_fields:
  "aNodes (visit g inn a k) = aNodes a @ [node_at g k]"
  "aEdges (visit g inn a k) = aEdges a @ ancestorEdges g inn k"
  "aObserved (visit g inn a k) = aObserved a + length (filter (\<lambda>e. eBasis e = BObserved) (ancestorEdges g inn k))"
  "aAsserted (visit g inn a k) = aAsserted a + length (filter (\<lambda>e. eBasis e \<noteq> BObserved) (ancestorEdges g inn k))"
  "aUnretrievable (visit g inn a k) = aUnretrievable a
     @ map nID (filter (\<lambda>n. nKind n = KVersion \<and> \<not> nRetrievable n) [node_at g k])"
proof -
  have e: "aNodes (foldl (\<lambda>a e. add_edge e a) b es) = aNodes b \<and> aEdges (foldl (\<lambda>a e. add_edge e a) b es) = aEdges b @ es
      \<and> aObserved (foldl (\<lambda>a e. add_edge e a) b es) = aObserved b + length (filter (\<lambda>e. eBasis e = BObserved) es)
      \<and> aAsserted (foldl (\<lambda>a e. add_edge e a) b es) = aAsserted b + length (filter (\<lambda>e. eBasis e \<noteq> BObserved) es)
      \<and> aUnretrievable (foldl (\<lambda>a e. add_edge e a) b es) = aUnretrievable b" for b es
    by (induction es arbitrary: b) (simp_all add: add_edge_def Let_def)
  show "aNodes (visit g inn a k) = aNodes a @ [node_at g k]"
    "aEdges (visit g inn a k) = aEdges a @ ancestorEdges g inn k"
    "aObserved (visit g inn a k) = aObserved a + length (filter (\<lambda>e. eBasis e = BObserved) (ancestorEdges g inn k))"
    "aAsserted (visit g inn a k) = aAsserted a + length (filter (\<lambda>e. eBasis e \<noteq> BObserved) (ancestorEdges g inn k))"
    "aUnretrievable (visit g inn a k) = aUnretrievable a
       @ map nID (filter (\<lambda>n. nKind n = KVersion \<and> \<not> nRetrievable n) [node_at g k])"
    by (simp_all add: visit_def e add_node_def Let_def)
qed

lemma visits_fields:
  fixes g inn a vs
  defines "r \<equiv> foldl (visit g inn) a vs" and "es \<equiv> concat (map (ancestorEdges g inn) vs)"
  shows "aNodes r = aNodes a @ map (node_at g) vs"
    and "aEdges r = aEdges a @ es"
    and "aObserved r = aObserved a + length (filter (\<lambda>e. eBasis e = BObserved) es)"
    and "aAsserted r = aAsserted a + length (filter (\<lambda>e. eBasis e \<noteq> BObserved) es)"
    and "aUnretrievable r = aUnretrievable a
      @ map nID (filter (\<lambda>n. nKind n = KVersion \<and> \<not> nRetrievable n) (map (node_at g) vs))"
  unfolding r_def es_def by (induction vs arbitrary: a; simp add: visit_fields)+

lemma mset_all_ancestorEdges:
  assumes "graph_ok g" "distinct vs"
  shows "mset (concat (map (ancestorEdges g (edges_in g)) vs)) = filter_mset (\<lambda>e. child_of e \<in> set vs) (mset (all_edges g))"
  using assms(2)
proof (induction vs)
  case (Cons v vs)
  have "filter_mset (\<lambda>e. child_of e \<in> set (v # vs)) M
      = filter_mset (\<lambda>e. child_of e = v) M + filter_mset (\<lambda>e. child_of e \<in> set vs) M" for M
    using Cons.prems by (induction M) auto
  then show ?case using Cons mset_ancestorEdges [OF assms(1), of v] by simp
qed simp

section \<open>The shape of the graph\<close>

lemma all_edges_ok: "graph_ok g \<Longrightarrow> e \<in> set (all_edges g) \<Longrightarrow> link_ok g e"
  by (force simp: all_edges_def dest: graph_ok_edge)

text \<open>A claim leads from a kind to the kind one below: model, checkpoint, run, version.\<close>

lemma parents_rank:
  assumes "graph_ok g" "(a, b) \<in> parents g"
  obtains m n where "map_of (nodes g) a = Some m" "map_of (nodes g) b = Some n" "nKind m = nKind n + 1"
    "0 \<le> nKind n" "nKind n \<le> 2"
proof -
  obtain e where e: "e \<in> set (all_edges g)" "a = child_of e" "b = next_of e" using assms(2) by (auto simp: parents_def)
  show thesis
    using all_edges_ok [OF assms(1) e(1)] that e(2,3)
    by (auto simp: link_ok_def allowed_kinds_def child_of_def next_of_def lineage_consts split: if_splits)
qed

lemma ancestors_known:
  assumes "graph_ok g" "(a, b) \<in> (parents g)\<^sup>*" "map_of (nodes g) a = Some m"
  shows "\<exists>n. map_of (nodes g) b = Some n \<and> nID n = b \<and> nKind n \<le> nKind m"
  using assms(2,1,3)
proof (induction rule: rtrancl_induct)
  case base
  then show ?case unfolding graph_ok_def by blast
next
  case (step b c)
  then obtain n where n: "map_of (nodes g) b = Some n" "nKind n \<le> nKind m" by blast
  obtain n' where "map_of (nodes g) c = Some n'" "nKind n = nKind n' + 1"
    using parents_rank [OF step.prems(1) step.hyps(2)] n(1) by (metis option.inject)
  then show ?case using step.prems(1) n(2) unfolding graph_ok_def by auto
qed

lemma parents_kinds:
  assumes "graph_ok g" "(a, b) \<in> parents g ^^ n" "map_of (nodes g) a = Some m" "map_of (nodes g) b = Some k"
  shows "nKind k = nKind m - int n"
  using assms(2-)
proof (induction n arbitrary: b k)
  case (Suc n)
  then obtain c where c: "(a, c) \<in> parents g ^^ n" "(c, b) \<in> parents g" by auto
  obtain x where "map_of (nodes g) c = Some x" "nKind x = nKind k + 1"
    using parents_rank [OF assms(1) c(2)] Suc.prems(3) by (metis option.inject)
  then show ?case using Suc.IH [OF c(1) Suc.prems(2)] by simp
qed (use assms in auto)

lemma parents_short:
  assumes "graph_ok g" "(a, b) \<in> parents g ^^ n"
  shows "n \<le> 3"
proof (cases n)
  case (Suc k)
  obtain c where c: "(a, c) \<in> parents g" "(c, b) \<in> parents g ^^ k" using assms(2) Suc by (metis relpow_Suc_D2)
  obtain m x where m: "map_of (nodes g) c = Some m" "0 \<le> nKind m" "nKind m \<le> 2"
    using parents_rank [OF assms(1) c(1)] by metis
  obtain y where y: "map_of (nodes g) b = Some y" "k = 0 \<or> 0 \<le> nKind y"
  proof (cases k)
    case 0
    then show ?thesis using that m c by auto
  next
    case (Suc j)
    then obtain d where "(d, b) \<in> parents g" using c(2) by auto
    then show ?thesis using parents_rank [OF assms(1)] that by metis
  qed
  show ?thesis using parents_kinds [OF assms(1) c(2) m(1) y(1)] m y Suc by auto
qed simp

lemma parents_acyclic: "graph_ok g \<Longrightarrow> acyclic (parents g)"
proof (rule acyclicI, intro allI notI)
  fix x assume ok: "graph_ok g" and "(x, x) \<in> (parents g)\<^sup>+"
  then obtain n where n: "0 < n" "(x, x) \<in> parents g ^^ n" by (auto simp: trancl_power)
  have "(x, x) \<in> parents g ^^ (n * k)" for k
    using n(2) by (induction k) (auto simp: relpow_add)
  then show False using parents_short [OF ok, of x x "n * 4"] n(1) by simp
qed

section \<open>The answer\<close>

lemma Ancestry_spec:
  assumes ok: "graph_ok g" and i: "map_of (nodes g) i \<noteq> None" and A: "A = (parents g)\<^sup>* `` {i}"
  obtains a where "Ancestry g i = Inr a"
    "map nID (aNodes a) = sorted_list_of_set A" "\<forall>n\<in>set (aNodes a). map_of (nodes g) (nID n) = Some n"
    "sorted (map (\<lambda>e. (eFrom e, eTo e)) (aEdges a))"
    "mset (aEdges a) = filter_mset (\<lambda>e. child_of e \<in> A) (mset (all_edges g))"
    "aObserved a = length (filter (\<lambda>e. eBasis e = BObserved) (aEdges a))"
    "aObserved a + aAsserted a = length (aEdges a)"
    "aUnretrievable a = map nID (filter (\<lambda>n. nKind n = KVersion \<and> \<not> nRetrievable n) (aNodes a))"
proof -
  obtain vs where w: "walk g (edges_in g) no_answer {i} [i] = foldl (visit g (edges_in g)) no_answer vs"
    and vs: "visits (parents g) {} [i] vs"
    using walk_visits [OF ok refl, of "[i]" "{i}" no_answer] by auto
  have A': "set vs = A"
  proof
    show "set vs \<subseteq> A" using vs by (auto simp: visits_def A)
    have "i \<in> set vs" "parents g `` set vs \<subseteq> set vs" using vs by (auto simp: visits_def)
    then show "A \<subseteq> set vs" unfolding A by (metis Image_closed_trancl Image_mono order_refl empty_subsetI insert_subset)
  qed
  have d: "distinct vs" using vs by (simp add: visits_def)
  have known: "map_of (nodes g) k = Some (node_at g k) \<and> nID (node_at g k) = k" if "k \<in> set vs" for k
    using ancestors_known [OF ok, of i k] i that by (auto simp: A' A node_at_def)
  have ids: "map nID (map (node_at g) vs) = vs" using known by (simp add: map_idI)
  let ?r = "foldl (visit g (edges_in g)) no_answer vs"
  note f = visits_fields [of g "edges_in g" no_answer vs]
  define a where "a = ?r\<lparr>aNodes := sort_key nID (aNodes ?r), aEdges := sort_key (\<lambda>e. (eFrom e, eTo e)) (aEdges ?r),
      aUnretrievable := sort (aUnretrievable ?r)\<rparr>"
  have n0: "aNodes no_answer = []" "aEdges no_answer = []" "aObserved no_answer = 0" "aAsserted no_answer = 0"
    "aUnretrievable no_answer = []" by (simp_all add: no_answer_def)
  have nd: "aNodes a = sort_key nID (map (node_at g) vs)" by (simp add: a_def f n0)
  have "map nID (aNodes a) = sort (map nID (map (node_at g) vs))"
    unfolding nd by (rule properties_for_sort [symmetric]) (simp_all del: map_map)
  then have m: "map nID (aNodes a) = sorted_list_of_set A"
    using ids d A' sorted_list_of_set_sort_remdups [of vs] by (simp add: distinct_remdups_id)
  have un: "aUnretrievable a = map nID (filter (\<lambda>n. nKind n = KVersion \<and> \<not> nRetrievable n) (aNodes a))"
  proof -
    let ?P = "\<lambda>n. nKind n = KVersion \<and> \<not> nRetrievable n"
    have "aUnretrievable a = sort (map nID (filter ?P (map (node_at g) vs)))" by (simp add: a_def f n0)
    also have "\<dots> = map nID (filter ?P (aNodes a))"
      unfolding nd by (rule properties_for_sort) (simp_all add: sorted_filter mset_filter del: filter_map)
    finally show ?thesis .
  qed
  have ms: "mset (aEdges a) = mset (aEdges ?r)" by (simp add: a_def)
  have cnt: "length (filter Q (aEdges a)) = length (filter Q (aEdges ?r))" for Q
    using ms by (metis mset_filter size_mset)
  have ob: "aObserved a = length (filter (\<lambda>e. eBasis e = BObserved) (aEdges a))"
    "aAsserted a = length (filter (\<lambda>e. eBasis e \<noteq> BObserved) (aEdges a))"
    unfolding cnt by (simp_all add: a_def f n0)
  show thesis
  proof (rule that [of a])
    show "Ancestry g i = Inr a" using i w by (simp add: Ancestry_def Let_def a_def)
    show "\<forall>n\<in>set (aNodes a). map_of (nodes g) (nID n) = Some n" using known by (auto simp: nd)
    show "mset (aEdges a) = filter_mset (\<lambda>e. child_of e \<in> A) (mset (all_edges g))"
      unfolding ms using mset_all_ancestorEdges [OF ok d] A' by (simp add: f n0)
    show "aObserved a + aAsserted a = length (aEdges a)"
      unfolding ob by (simp add: sum_length_filter_compl)
  qed (use m un ob in \<open>simp_all add: a_def\<close>)
qed

end
