(* ===== verification/Go_Duration.thy ===== *)
theory Go_Duration
  imports Go_Text Go_Float
begin

text \<open>
  \<open>time.ParseDuration\<close> of Go's standard library: a sign and a sequence of decimal numbers, each with
  an optional fraction and a unit. The code works in unsigned 64-bit integers with explicit checks
  against two to the 63, and so does this model, on naturals; fractions go through doubles. A
  duration read is a 64-bit count of nanoseconds, and a whole number of a unit is read exactly.
\<close>

definition digit_of :: "char \<Rightarrow> nat" where
  "digit_of c = of_char c - 48"

fun leadingInt :: "nat \<Rightarrow> string \<Rightarrow> (nat \<times> string) option" where
  "leadingInt x [] = Some (x, [])"
| "leadingInt x (c # s) =
     (if \<not> is_digit c then Some (x, c # s)
      else if 9223372036854775808 div 10 < x then None
      else let y = x * 10 + digit_of c in
           if 9223372036854775808 < y then None else leadingInt y s)"

fun leadingFraction :: "nat \<Rightarrow> float64 \<Rightarrow> bool \<Rightarrow> string \<Rightarrow> nat \<times> float64 \<times> string" where
  "leadingFraction x scale over [] = (x, scale, [])"
| "leadingFraction x scale over (c # s) =
     (if \<not> is_digit c then (x, scale, c # s)
      else if over \<or> 9223372036854775807 div 10 < x then leadingFraction x scale True s
      else let y = x * 10 + digit_of c in
           if 9223372036854775808 < y then leadingFraction x scale True s
           else leadingFraction y (f64_mul scale 10) False s)"

definition unit_end :: "char \<Rightarrow> bool" where
  "unit_end c \<longleftrightarrow> c = CHR ''.'' \<or> is_digit c"

definition unitMap :: "string \<Rightarrow> nat option" where
  "unitMap = map_of [(''ns'', 1), (''us'', 1000), ([char_of (194 :: nat), char_of (181 :: nat), CHR ''s''], 1000),
     ([char_of (206 :: nat), char_of (188 :: nat), CHR ''s''], 1000), (''ms'', 1000000),
     (''s'', 1000000000), (''m'', 60000000000), (''h'', 3600000000000)]"

definition duration_fraction :: "string \<Rightarrow> nat \<times> float64 \<times> string \<times> bool" where
  "duration_fraction s =
     (if s \<noteq> [] \<and> hd s = CHR ''.''
      then case leadingFraction 0 1 False (tl s) of (f, scale, r) \<Rightarrow> (f, scale, r, length (tl s) \<noteq> length r)
      else (0, 1, s, False))"

text \<open>One number with its unit: the nanoseconds and what is left of the text.\<close>

definition duration_term :: "string \<Rightarrow> (nat \<times> string) option" where
  "duration_term s =
     (if s = [] \<or> \<not> unit_end (hd s) then None
      else case leadingInt 0 s of
        None \<Rightarrow> None
      | Some (v, s1) \<Rightarrow>
          (let pre = length s \<noteq> length s1;
               (f, scale, s2, post) = duration_fraction s1
           in if \<not> pre \<and> \<not> post then None
              else let u = takeWhile (\<lambda>c. \<not> unit_end c) s2; s3 = dropWhile (\<lambda>c. \<not> unit_end c) s2 in
                   if u = [] then None
                   else case unitMap u of
                     None \<Rightarrow> None
                   | Some unit \<Rightarrow>
                       if 9223372036854775808 div unit < v then None
                       else let v = v * unit;
                                w = (if 0 < f then v + nat \<lfloor>f64_mul (f64_of_int (int f)) (f64_div (f64_of_int (int unit)) scale)\<rfloor> else v)
                            in if 0 < f \<and> 9223372036854775808 < w then None else Some (w, s3)))"

lemma leadingInt_length: "leadingInt x s = Some (v, r) \<Longrightarrow> length r \<le> length s"
  by (induction x s rule: leadingInt.induct) (auto simp: Let_def split: if_splits)

lemma leadingFraction_length: "leadingFraction x sc ov s = (f, sc', r) \<Longrightarrow> length r \<le> length s"
  by (induction x sc ov s rule: leadingFraction.induct) (auto simp: Let_def split: if_splits)

lemma takeWhile_nonempty_drop: "takeWhile P s \<noteq> [] \<Longrightarrow> length (dropWhile P s) < length s"
  by (metis append_Nil2 length_dropWhile_le le_neq_implies_less same_length_different takeWhile_dropWhile_id
      append_self_conv2 length_append add_cancel_left_left length_0_conv)

lemma duration_fraction_length: "duration_fraction s = (f, sc, r, post) \<Longrightarrow> length r \<le> length s"
  by (cases s) (auto simp: duration_fraction_def split: if_splits prod.splits dest!: leadingFraction_length)

lemma duration_term_length:
  assumes "duration_term s = Some (w, s3)"
  shows "length s3 < length s"
proof -
  obtain v s1 where 1: "leadingInt 0 s = Some (v, s1)"
    using assms by (auto simp: duration_term_def split: if_splits option.splits)
  obtain f sc s2 post where 2: "duration_fraction s1 = (f, sc, s2, post)" by (metis prod_cases4)
  have "takeWhile (\<lambda>c. \<not> unit_end c) s2 \<noteq> [] \<and> s3 = dropWhile (\<lambda>c. \<not> unit_end c) s2"
    using assms 1 2 by (auto simp: duration_term_def Let_def split: if_splits option.splits)
  then have "length s3 < length s2" using takeWhile_nonempty_drop by metis
  then show ?thesis using leadingInt_length [OF 1] duration_fraction_length [OF 2] by linarith
qed

function duration_terms :: "nat \<Rightarrow> string \<Rightarrow> nat option" where
  "duration_terms d s =
     (if s = [] then Some d
      else case duration_term s of
        None \<Rightarrow> None
      | Some (v, r) \<Rightarrow> if 9223372036854775808 < d + v then None else duration_terms (d + v) r)"
  by pat_completeness auto
termination
  by (relation "measure (\<lambda>(d, s). length s)") (auto dest: duration_term_length)

declare duration_terms.simps [simp del]

definition ParseDuration :: "string \<Rightarrow> duration option" where
  "ParseDuration s =
     (case take_sign s of (neg, r) \<Rightarrow>
        if r = ''0'' then Some 0
        else if r = [] then None
        else case duration_terms 0 r of
               None \<Rightarrow> None
             | Some d \<Rightarrow> if neg then Some (- int d)
                         else if 9223372036854775807 < d then None else Some (int d))"

lemma duration_terms_bound: "duration_terms d s = Some n \<Longrightarrow> d \<le> 9223372036854775808 \<Longrightarrow> n \<le> 9223372036854775808"
proof (induction d s rule: duration_terms.induct)
  case (1 d s)
  show ?case using "1.prems" "1.IH" unfolding duration_terms.simps [of d s]
    by (auto split: if_splits option.splits)
qed

lemma ParseDuration_range: "ParseDuration s = Some d \<Longrightarrow> in_i64 d"
  using duration_terms_bound [of 0]
  by (fastforce simp: ParseDuration_def i64_defs split: prod.splits if_splits option.splits)

section \<open>Whole numbers of a unit\<close>

abbreviation digits_nat :: "nat \<Rightarrow> string \<Rightarrow> nat" where
  "digits_nat \<equiv> foldl (\<lambda>x c. x * 10 + digit_of c)"

lemma digits_nat_ge: "x \<le> digits_nat x ds"
proof (induction ds arbitrary: x)
  case (Cons c ds)
  have "x \<le> x * 10 + digit_of c" by simp
  also have "\<dots> \<le> digits_nat (x * 10 + digit_of c) ds" by (rule Cons)
  finally show ?case by simp
qed simp

lemma leadingInt_digits:
  assumes "list_all is_digit ds" "u = [] \<or> \<not> is_digit (hd u)" "digits_nat x ds \<le> 9223372036854775808"
  shows "leadingInt x (ds @ u) = Some (digits_nat x ds, u)"
  using assms
proof (induction ds arbitrary: x)
  case Nil
  then show ?case by (cases u) auto
next
  case (Cons c ds)
  have "x * 10 + digit_of c \<le> 9223372036854775808" using digits_nat_ge [of "x * 10 + digit_of c" ds] Cons.prems by simp
  then show ?case using Cons by (simp add: Let_def)
qed

lemma digits_nat_val: "list_all is_digit ds \<Longrightarrow> int (digits_nat x ds) = foldl (\<lambda>n c. 10 * n + (of_char c - 48)) (int x) ds"
proof (induction ds arbitrary: x)
  case (Cons c ds)
  then have "int (digit_of c) = of_char c - 48" by (simp add: digit_of_def is_digit_def of_nat_diff of_char_def)
  then show ?case using Cons by (simp add: ac_simps)
qed simp

lemma digits_nat_dec: "digits_nat 0 (dec_nat n) = n"
proof -
  have "int (digits_nat 0 (dec_nat n)) = digits_val (dec_nat n)"
    using digits_nat_val [of "dec_nat n" 0] dec_nat_digits [of n] by (simp add: digits_val_def)
  then show ?thesis by (simp add: digits_val_dec)
qed

lemma duration_term_whole:
  assumes "unitMap u = Some unit" "n * unit \<le> 9223372036854775808" "0 < unit" "u \<noteq> []" "list_all (\<lambda>c. \<not> unit_end c) u"
  shows "duration_term (dec_nat n @ u) = Some (n * unit, [])"
proof -
  have n: "n \<le> 9223372036854775808 div unit" using assms(2,3) by (simp add: less_eq_div_iff_mult_less_eq)
  have "n \<le> n * unit" using assms(3) by simp
  then have le: "n \<le> 9223372036854775808" using assms(2) by linarith
  obtain c r where u: "u = c # r" using assms(4) by (cases u) auto
  have c: "\<not> is_digit (hd u)" "hd u \<noteq> CHR ''.''" using assms(5) u by (auto simp: unit_end_def)
  have l: "leadingInt 0 (dec_nat n @ u) = Some (n, u)"
    using leadingInt_digits [of "dec_nat n" u 0] dec_nat_digits [of n] c le by (simp add: digits_nat_dec)
  have f: "duration_fraction u = (0, 1, u, False)" using c by (simp add: duration_fraction_def)
  have d: "dec_nat n \<noteq> []" "unit_end (hd (dec_nat n))"
    using dec_nat_digits [of n] by (auto simp: unit_end_def neq_Nil_conv)
  have tw: "takeWhile (\<lambda>c. \<not> unit_end c) u = u" and dw: "dropWhile (\<lambda>c. \<not> unit_end c) u = []"
    using assms(5) by (simp_all add: list_all_iff takeWhile_eq_all_conv dropWhile_eq_Nil_conv)
  show ?thesis using assms(1-4) d n by (simp add: duration_term_def l f tw dw)
qed

lemma ParseDuration_whole:
  assumes "unitMap u = Some unit" "int (n * unit) \<le> max_i64" "0 < unit" "u \<noteq> []" "list_all (\<lambda>c. \<not> unit_end c) u"
  shows "ParseDuration (dec_nat n @ u) = Some (int (n * unit))"
proof -
  have b: "n * unit \<le> 9223372036854775807" using assms(2) unfolding max_i64_def by linarith
  have t: "duration_terms 0 (dec_nat n @ u) = Some (n * unit)"
    using duration_term_whole [OF assms(1) _ assms(3-5), of n] b dec_nat_digits [of n] by (simp add: duration_terms.simps)
  obtain c r where d: "dec_nat n = c # r" "is_digit c" using dec_nat_digits [of n] by (cases "dec_nat n") auto
  have s: "take_sign (dec_nat n @ u) = (False, dec_nat n @ u)"
    using d digit_not_sign [of c] by (simp add: take_sign_def)
  have "dec_nat n @ u \<noteq> ''0''" using d assms(4,5) by (cases r; cases u) auto
  then show ?thesis using t s b d assms(4) by (simp add: ParseDuration_def)
qed

end
