(* ===== verification/Lease_Api.thy ===== *)
theory Lease_Api
  imports Node_Agent Go_Duration
begin

text \<open>
  Package leaseapi (\<open>internal/leaseapi/leaseapi.go\<close>, \<open>server.go\<close>, \<open>client.go\<close>): the protocol by which a
  control plane proposes leases to a node. The server is the handler over the agent of
  \<open>Node_Agent\<close>; a request is its method, its path, its Authorization header and its body, where a
  body is its length and what it decodes to (JSON is the standard library's). The client's request
  may not reach the node, or its answer may be lost after the node has acted.

  The lemmas: nothing happens without the token; a grant answered is a lease held with its extent,
  a refusal leaves the leases alone, and a proposal sent again after a grant, heard or not, is
  answered as held already and changes nothing; a release answered as done leaves no extent.
\<close>

section \<open>Proposals and decisions\<close>

record proposal =
  pID :: string
  pTenant :: string
  pClass :: string
  pBytes :: int
  pTerm :: string

datatype proposal_error = BadClass | BadDuration | NotCapacity

definition proposal_Lease :: "proposal \<Rightarrow> proposal_error + lease" where
  "proposal_Lease p =
     (case ParseClass (pClass p) of
        Inl _ \<Rightarrow> Inl BadClass
      | Inr c \<Rightarrow>
          (case ParseDuration (pTerm p) of
             None \<Rightarrow> Inl BadDuration
           | Some t \<Rightarrow>
               if pBytes p \<le> 0 then Inl NotCapacity
               else Inr \<lparr>lID = pID p, lTenant = pTenant p, lClass = c, lSize = pBytes p, lGrantedAt = 0, lTerm = t\<rparr>))"

datatype refusal = NoRefusal | NoCapacity | BackingOff | OverQuota | Malformed | Unavailable

record decision =
  dGranted :: bool
  dAlready :: bool
  dRefusal :: refusal

definition refuse :: "refusal \<Rightarrow> decision" where
  "refuse r = \<lparr>dGranted = False, dAlready = False, dRefusal = r\<rparr>"

record capacity =
  cBytes :: int
  cReserved :: int
  cBorrowed :: int
  cFree :: int
  cMeasuredAt :: time

definition Age :: "capacity \<Rightarrow> time \<Rightarrow> duration" where
  "Age c now = time_sub now (cMeasuredAt c)"

section \<open>The server\<close>

datatype body = NoBody | BodyFails | Body nat "proposal option"

record request =
  rMethod :: string
  rPath :: "string list"
  rAuth :: string
  rBody :: body

datatype payload = Empty | Text | JDecision decision | JCapacity capacity

record response =
  rsStatus :: int
  rsPayload :: payload

definition authorised :: "string \<Rightarrow> request \<Rightarrow> bool" where
  "authorised token r \<longleftrightarrow> TrimPrefix (rAuth r) ''Bearer '' = token"

text \<open>\<open>readBounded\<close>: the body, unless reading fails or it is longer than a proposal may be. \<open>None\<close> inside
  is a body that does not decode.\<close>

definition readBounded :: "body \<Rightarrow> proposal option option" where
  "readBounded b =
     (case b of
        BodyFails \<Rightarrow> None
      | NoBody \<Rightarrow> Some None
      | Body n d \<Rightarrow> if 65536 < n then None else Some d)"

definition classify :: "agent_error \<Rightarrow> refusal" where
  "classify e =
     (if e \<in> {ErrLease ErrChurning, ErrLease ErrCooldown} then BackingOff
      else if e \<in> {ErrLease ErrTenantQuota, ErrLease ErrNoTenant} then OverQuota
      else if e \<in> {ErrLease ErrBadClass, ErrLease ErrBadTerm} then Malformed
      else NoCapacity)"

text \<open>The outcomes of the system calls the handlers make through the agent.\<close>

record api_faults =
  fAlloc :: alloc_fault
  fDiscard :: discard_fault

definition server_propose :: "api_faults \<Rightarrow> agent \<Rightarrow> request \<Rightarrow> time \<Rightarrow> response \<times> agent" where
  "server_propose fl a r now =
     (case readBounded (rBody r) of
        None \<Rightarrow> (\<lparr>rsStatus = 400, rsPayload = JDecision (refuse Malformed)\<rparr>, a)
      | Some None \<Rightarrow> (\<lparr>rsStatus = 400, rsPayload = JDecision (refuse Malformed)\<rparr>, a)
      | Some (Some p) \<Rightarrow>
          (case proposal_Lease p of
             Inl _ \<Rightarrow> (\<lparr>rsStatus = 400, rsPayload = JDecision (refuse Malformed)\<rparr>, a)
           | Inr l \<Rightarrow>
               (case Grant (fAlloc fl) a l now of
                  (None, a') \<Rightarrow> (\<lparr>rsStatus = 200, rsPayload = JDecision \<lparr>dGranted = True, dAlready = False, dRefusal = NoRefusal\<rparr>\<rparr>, a')
                | (Some e, a') \<Rightarrow>
                    if e = ErrLease ErrDuplicate
                    then (\<lparr>rsStatus = 200, rsPayload = JDecision \<lparr>dGranted = True, dAlready = True, dRefusal = NoRefusal\<rparr>\<rparr>, a')
                    else (\<lparr>rsStatus = 200, rsPayload = JDecision (refuse (classify e))\<rparr>, a'))))"

definition server_release :: "api_faults \<Rightarrow> agent \<Rightarrow> string \<Rightarrow> time \<Rightarrow> response \<times> agent" where
  "server_release fl a i now =
     (case agent_Release (fDiscard fl) a i now of
        (_, e, a') \<Rightarrow>
          if e \<in> {None, Some (ErrLease ErrNoSuchLease), Some ErrNoExtent}
          then (\<lparr>rsStatus = 204, rsPayload = Empty\<rparr>, a')
          else (\<lparr>rsStatus = 500, rsPayload = Text\<rparr>, a'))"

definition server_capacity :: "agent \<Rightarrow> time \<Rightarrow> response" where
  "server_capacity a now =
     (let ac = acct (a_leases a) in
      \<lparr>rsStatus = 200, rsPayload = JCapacity \<lparr>cBytes = Capacity ac, cReserved = Reserved ac, cBorrowed = Borrowed ac,
         cFree = Free ac, cMeasuredAt = now\<rparr>\<rparr>)"

definition guard :: "string \<Rightarrow> request \<Rightarrow> agent \<Rightarrow> (response \<times> agent) \<Rightarrow> response \<times> agent" where
  "guard token r a next_handler =
     (if authorised token r then next_handler else (\<lparr>rsStatus = 401, rsPayload = Text\<rparr>, a))"

text \<open>
  The routes of \<open>Handler\<close>. A path is its segments; a wildcard matches one non-empty segment, a path
  with another method is 405 and any other path 404; a GET pattern also takes HEAD.
\<close>

definition api_Handler :: "string \<Rightarrow> api_faults \<Rightarrow> agent \<Rightarrow> request \<Rightarrow> time \<Rightarrow> response \<times> agent" where
  "api_Handler token fl a r now =
     (let bad = (\<lambda>n. (\<lparr>rsStatus = n, rsPayload = Text\<rparr>, a)) in
      case rPath r of
        [s] \<Rightarrow>
          if s = ''leases''
          then (if rMethod r = ''POST'' then guard token r a (server_propose fl a r now) else bad 405)
          else if s = ''capacity''
          then (if rMethod r \<in> {''GET'', ''HEAD''} then guard token r a (server_capacity a now, a) else bad 405)
          else bad 404
      | [s, i] \<Rightarrow>
          if s = ''leases'' \<and> i \<noteq> ''''
          then (if rMethod r = ''DELETE'' then guard token r a (server_release fl a i now) else bad 405)
          else bad 404
      | _ \<Rightarrow> bad 404)"

section \<open>The client\<close>

datatype transport = Reached | NotReached | AnswerLost

definition send :: "string \<Rightarrow> string \<Rightarrow> string list \<Rightarrow> body \<Rightarrow> request" where
  "send token method path b = \<lparr>rMethod = method, rPath = path, rAuth = ''Bearer '' @ token, rBody = b\<rparr>"

text \<open>
  \<open>serve\<close> is the node at the other end, with its state; \<open>wire\<close> is the length of the encoded proposal and
  what it is read as.
\<close>

definition client_Propose ::
    "transport \<Rightarrow> ('n \<Rightarrow> request \<Rightarrow> response \<times> 'n) \<Rightarrow> string \<Rightarrow> nat \<times> proposal option \<Rightarrow> 'n \<Rightarrow> decision \<times> 'n" where
  "client_Propose tr serve token wire n =
     (case tr of
        NotReached \<Rightarrow> (refuse Unavailable, n)
      | _ \<Rightarrow>
          (case serve n (send token ''POST'' [''leases''] (Body (fst wire) (snd wire))) of
             (resp, n') \<Rightarrow>
               if tr = AnswerLost then (refuse Unavailable, n')
               else if rsStatus resp = 401 then (refuse Malformed, n')
               else (case rsPayload resp of JDecision d \<Rightarrow> (d, n') | _ \<Rightarrow> (refuse Unavailable, n'))))"

datatype client_error = ErrTransport | ErrStatus int | ErrDecode

definition client_Release ::
    "transport \<Rightarrow> ('n \<Rightarrow> request \<Rightarrow> response \<times> 'n) \<Rightarrow> string \<Rightarrow> string \<Rightarrow> 'n \<Rightarrow> client_error option \<times> 'n" where
  "client_Release tr serve token i n =
     (case tr of
        NotReached \<Rightarrow> (Some ErrTransport, n)
      | _ \<Rightarrow>
          (case serve n (send token ''DELETE'' [''leases'', i] NoBody) of
             (resp, n') \<Rightarrow>
               if tr = AnswerLost then (Some ErrTransport, n')
               else if 300 \<le> rsStatus resp then (Some (ErrStatus (rsStatus resp)), n') else (None, n')))"

definition client_Capacity ::
    "transport \<Rightarrow> ('n \<Rightarrow> request \<Rightarrow> response \<times> 'n) \<Rightarrow> string \<Rightarrow> 'n \<Rightarrow> (client_error + capacity) \<times> 'n" where
  "client_Capacity tr serve token n =
     (case tr of
        NotReached \<Rightarrow> (Inl ErrTransport, n)
      | _ \<Rightarrow>
          (case serve n (send token ''GET'' [''capacity''] NoBody) of
             (resp, n') \<Rightarrow>
               if tr = AnswerLost then (Inl ErrTransport, n')
               else if 300 \<le> rsStatus resp then (Inl (ErrStatus (rsStatus resp)), n')
               else (case rsPayload resp of JCapacity c \<Rightarrow> (Inr c, n') | _ \<Rightarrow> (Inl ErrDecode, n'))))"

section \<open>What the node does with a request\<close>

lemma authorised_send [simp]: "authorised token (send t m p b) \<longleftrightarrow> t = token"
  by (auto simp: authorised_def send_def TrimPrefix_def HasPrefix_def)

lemma Handler_unauthorised:
  assumes "\<not> authorised token r"
  shows "snd (api_Handler token fl a r now) = a" and "rsPayload (fst (api_Handler token fl a r now)) = Text"
    and "rsStatus (fst (api_Handler token fl a r now)) \<in> {401, 404, 405}"
  using assms by (auto simp: api_Handler_def guard_def Let_def split: list.splits if_splits)

lemma Accept_duplicate:
  assumes "restored m" "class_Valid (lClass l)" "0 < lTerm l" "map_of (leases m) (lID l) \<noteq> None"
  shows "Accept J m l now = (Some ErrDuplicate, prune m now)"
  using assms by (simp add: Accept_def Let_def accept_checks_def)

text \<open>The decision on a proposal that arrived.\<close>

definition decide :: "api_faults \<Rightarrow> agent \<Rightarrow> lease \<Rightarrow> time \<Rightarrow> decision" where
  "decide fl a l now =
     (case fst (Grant (fAlloc fl) a l now) of
        None \<Rightarrow> \<lparr>dGranted = True, dAlready = False, dRefusal = NoRefusal\<rparr>
      | Some e \<Rightarrow> if e = ErrLease ErrDuplicate then \<lparr>dGranted = True, dAlready = True, dRefusal = NoRefusal\<rparr>
                  else refuse (classify e))"

lemma propose_over_wire:
  assumes "proposal_Lease p = Inr l" "n \<le> 65536"
  shows "client_Propose Reached (\<lambda>a r. api_Handler token fl a r now) token (n, Some p) a
      = (decide fl a l now, snd (Grant (fAlloc fl) a l now))"
    and "client_Propose AnswerLost (\<lambda>a r. api_Handler token fl a r now) token (n, Some p) a
      = (refuse Unavailable, snd (Grant (fAlloc fl) a l now))"
proof -
  have h: "api_Handler token fl a (send token ''POST'' [''leases''] (Body n (Some p))) now
      = (\<lparr>rsStatus = 200, rsPayload = JDecision (decide fl a l now)\<rparr>, snd (Grant (fAlloc fl) a l now))"
    using assms unfolding api_Handler_def guard_def authorised_send
    by (auto simp: send_def server_propose_def readBounded_def decide_def split: option.splits prod.splits)
  show "client_Propose Reached (\<lambda>a r. api_Handler token fl a r now) token (n, Some p) a
      = (decide fl a l now, snd (Grant (fAlloc fl) a l now))"
    "client_Propose AnswerLost (\<lambda>a r. api_Handler token fl a r now) token (n, Some p) a
      = (refuse Unavailable, snd (Grant (fAlloc fl) a l now))"
    by (simp_all add: client_Propose_def h)
qed

lemma proposal_Lease_fields:
  assumes "proposal_Lease p = Inr l"
  shows "lID l = pID p" "lTenant l = pTenant p" "lSize l = pBytes p" "0 < lSize l" "class_Valid (lClass l)"
    "class_String (lClass l) = pClass p" "ParseDuration (pTerm p) = Some (lTerm l)"
  using assms
  by (auto simp: proposal_Lease_def ParseClass_def class_Valid_def class_String_def class_defs split: sum.splits option.splits if_splits)

text \<open>What a decision says about the leases.\<close>

lemma decide_truthful:
  assumes ok: "agent_ok a" and sz: "in_i64 (lSize l)" and run: "Grant (fAlloc fl) a l now = (e, a')"
  shows "agent_ok a'"
    and "dGranted (decide fl a l now) \<Longrightarrow> \<exists>k\<in>held (a_leases a'). lID k = lID l \<and> map_of (a_dir a') (lID l) = Some (lSize k)"
    and "dGranted (decide fl a l now) \<Longrightarrow> \<not> dAlready (decide fl a l now)
      \<Longrightarrow> held (a_leases a') = insert (l\<lparr>lGrantedAt := now\<rparr>) (held (a_leases a)) \<and> map_of (leases (a_leases a)) (lID l) = None"
    and "dAlready (decide fl a l now) \<or> \<not> dGranted (decide fl a l now) \<Longrightarrow> held (a_leases a') = held (a_leases a)"
proof -
  note g = Grant_cases [OF ok sz run]
  show ok': "agent_ok a'" by (rule g(1))
  have dup: "e = Some (ErrLease ErrDuplicate) \<Longrightarrow> map_of (leases (a_leases a)) (lID l) \<noteq> None"
    using run by (auto simp: Grant_def Accept_def Let_def accept_checks_def allocate_def ExtentPath_def validLeaseID_def withinQuota_def
        split: option.splits prod.splits if_splits alloc_fault.splits)
  show held: "held (a_leases a') = held (a_leases a)" if "dAlready (decide fl a l now) \<or> \<not> dGranted (decide fl a l now)"
    using that g(3) run by (auto simp: decide_def refuse_def split: option.splits if_splits)
  show ins: "held (a_leases a') = insert (l\<lparr>lGrantedAt := now\<rparr>) (held (a_leases a)) \<and> map_of (leases (a_leases a)) (lID l) = None"
    if "dGranted (decide fl a l now)" "\<not> dAlready (decide fl a l now)"
  proof -
    have e: "e = None" using that run by (auto simp: decide_def refuse_def split: option.splits if_splits)
    have "map_of (leases (a_leases a)) (lID l) = None"
    proof (rule ccontr)
      assume "map_of (leases (a_leases a)) (lID l) \<noteq> None"
      then obtain k where "k \<in> held (a_leases a)" "lID k = lID l"
        using mgr_ok_lookup [of "a_leases a" "lID l"] ok by (auto simp: agent_ok_def)
      then show False using g(2) [OF e] ok by (auto simp: agent_ok_def backed_def)
    qed
    then show ?thesis using g(2) [OF e] by simp
  qed
  show "\<exists>k\<in>held (a_leases a'). lID k = lID l \<and> map_of (a_dir a') (lID l) = Some (lSize k)" if gr: "dGranted (decide fl a l now)"
  proof -
    have "\<exists>k\<in>held (a_leases a'). lID k = lID l"
    proof (cases "dAlready (decide fl a l now)")
      case True
      then have "e = Some (ErrLease ErrDuplicate)"
        using run by (auto simp: decide_def refuse_def split: option.splits if_splits)
      then obtain k where "k \<in> held (a_leases a)" "lID k = lID l"
        using dup mgr_ok_lookup [of "a_leases a" "lID l"] ok by (auto simp: agent_ok_def)
      then show ?thesis using held True by blast
    qed (use ins gr in auto)
    then show ?thesis using ok' unfolding agent_ok_def backed_def by metis
  qed
qed

text \<open>A proposal sent again after it was granted is answered as held, whatever time has passed and
  whatever calls would fail, and changes no lease and no file.\<close>

lemma propose_again:
  assumes ok: "agent_ok a" and sz: "in_i64 (lSize l)" and cl: "class_Valid (lClass l)"
    and g: "Grant fl a l now = (None, a')"
  shows "decide fl2 a' l later = \<lparr>dGranted = True, dAlready = True, dRefusal = NoRefusal\<rparr>"
    and "snd (Grant fl2' a' l later) = a'\<lparr>a_leases := prune (a_leases a') later\<rparr>"
proof -
  obtain m1 where acc: "Accept file_ops (a_leases a) l now = (None, m1)" and al: "allocate fl (a\<lparr>a_leases := m1\<rparr>) (lID l) (lSize l) = (None, a')"
    using g by (auto simp: Grant_def split: prod.splits option.splits)
  have mok: "mgr_ok (a_leases a)" using ok by (simp add: agent_ok_def)
  note ag = Accept_granted [OF mok sz acc]
  have m1: "a_leases a' = m1" using allocate_cases(1) [OF al] by simp
  have c: "restored (a_leases a)" "0 < lTerm l"
    using ag(1) by (auto simp: accept_checks_def split: if_splits)
  have "map_of (leases m1) (lID l) \<noteq> None" using ag(5) by (simp add: grant_def map_of_update_if)
  then have "Accept file_ops (a_leases a') l later = (Some ErrDuplicate, prune (a_leases a') later)"
    using Accept_duplicate [of m1 l file_ops later] c cl ag(8) m1 by simp
  then show "decide fl2 a' l later = \<lparr>dGranted = True, dAlready = True, dRefusal = NoRefusal\<rparr>"
    "snd (Grant fl2' a' l later) = a'\<lparr>a_leases := prune (a_leases a') later\<rparr>"
    by (simp_all add: decide_def Grant_def)
qed

lemma held_prune [simp]: "held (prune m now) = held m"
  by (simp add: held_def)

section \<open>Releasing over the wire\<close>

lemma release_done:
  assumes ok: "agent_ok a" and fl: "fDiscard fl \<noteq> RemoveFails" and run: "server_release fl a i now = (r, a')" and s: "rsStatus r = 204"
  shows "agent_ok a'" and "map_of (a_dir a') i = None" and "\<forall>l\<in>held (a_leases a'). lID l \<noteq> i"
    and "\<forall>l\<in>held (a_leases a). lID l \<noteq> i \<longrightarrow> l \<in> held (a_leases a')"
proof -
  obtain n e a1 where ar: "agent_Release (fDiscard fl) a i now = (n, e, a1)" by (metis prod_cases3)
  have a1: "a1 = a'" and e: "e \<in> {None, Some (ErrLease ErrNoSuchLease), Some ErrNoExtent}"
    using run s ar by (auto simp: server_release_def split: if_splits)
  show ok': "agent_ok a'" using agent_Release_ok [OF ok fl ar] a1 by simp
  obtain d a2 where dc: "discard (fDiscard fl) a i = (d, a2)" by force
  have mok: "mgr_ok (a_leases a)" using ok by (simp add: agent_ok_def)
  note dcs = discard_cases [OF dc]
  have dir: "map_of (a_dir a') i = None"
  proof (cases d)
    case None
    then show ?thesis using ar dc dcs(3) a1 by (auto simp: agent_Release_def split: prod.splits)
  next
    case (Some x)
    then have "x = ErrNoExtent" "a' = a2" "e = Some x" using ar dc e a1
      by (auto simp: agent_Release_def discard_def ExtentPath_def validLeaseID_def split: option.splits if_splits)
    then show ?thesis using dc Some by (auto simp: discard_def ExtentPath_def validLeaseID_def split: option.splits if_splits)
  qed
  then show "map_of (a_dir a') i = None" .
  show "\<forall>l\<in>held (a_leases a'). lID l \<noteq> i" using ok' dir by (auto simp: agent_ok_def backed_def)
  show "\<forall>l\<in>held (a_leases a). lID l \<noteq> i \<longrightarrow> l \<in> held (a_leases a')"
  proof (cases d)
    case None
    obtain n3 e3 m3 where r: "Release file_ops (a_leases a2) i now = (n3, e3, m3)" by (metis prod_cases3)
    then have "a_leases a' = m3" using ar dc None a1 by (auto simp: agent_Release_def)
    then show ?thesis using Release_ok(5) [OF mok, of file_ops i now n3 e3 m3] r dcs(1) by auto
  next
    case (Some x)
    then show ?thesis using ar dc a1 dcs(1) by (auto simp: agent_Release_def)
  qed
qed

text \<open>
  After a failed unlink the lease is still held, and a release sent again is answered as done all
  the same.
\<close>

lemma release_done_but_held:
  assumes "validLeaseID i = None" "map_of (a_dir a) i = Some n" "map_of (leases (a_leases a)) i = Some l"
    and "fDiscard fl = RemoveFails" "server_release fl a i now = (r, a1)"
  shows "rsStatus r = 500" and "rsStatus (fst (server_release fl2 a1 i later)) = 204"
    and "map_of (leases (a_leases (snd (server_release fl2 a1 i later)))) i = Some l"
proof -
  obtain k e a2 where ar: "agent_Release RemoveFails a i now = (k, e, a2)" by (metis prod_cases3)
  note st = agent_Release_stuck [OF assms(1-3) ar, of "fDiscard fl2" later]
  have "r = \<lparr>rsStatus = 500, rsPayload = Text\<rparr>" "a1 = a2" using assms(4,5) ar st by (auto simp: server_release_def)
  then show "rsStatus r = 500" "rsStatus (fst (server_release fl2 a1 i later)) = 204"
    "map_of (leases (a_leases (snd (server_release fl2 a1 i later)))) i = Some l"
    using st by (simp_all add: server_release_def)
qed

end
