(* ===== verification/Intent.thy ===== *)
theory Intent
  imports Driver_Backend
begin

text \<open>
  Package intent (\<open>internal/intent/intent.go\<close>, \<open>floor.go\<close>): what a user declares of a dataset, what an
  administrator's floor makes of it, and whether a backend and a fleet can meet it; and the status
  package kube (\<open>internal/kube/dataset.go\<close>) records of a dataset from it.

  Words are strings, as in the source, so a word outside the vocabulary is a value the code must
  refuse. The store a dataset is sized by is an argument: what \<open>SizeOf\<close> answered.

  The lemmas: resolution refuses exactly what cannot be met and names exactly what is missing; a
  floor raises durability to the larger of the two words and nothing else; and a declaration
  raised by a floor is met only where the user's own would have been.
\<close>

section \<open>Declarations\<close>

definition DurabilityNone :: string where "DurabilityNone = ''none''"
definition DurabilityBackend :: string where "DurabilityBackend = ''backend''"
definition DurabilityReplicated :: string where "DurabilityReplicated = ''replicated''"
definition DurabilityRackTolerant :: string where "DurabilityRackTolerant = ''rack-tolerant''"
definition LatencyBestEffort :: string where "LatencyBestEffort = ''best-effort''"
definition LatencyCached :: string where "LatencyCached = ''cached''"
definition CostCheapest :: string where "CostCheapest = ''cheapest''"
definition CostBalanced :: string where "CostBalanced = ''balanced''"

lemmas durability_defs = DurabilityNone_def DurabilityBackend_def DurabilityReplicated_def DurabilityRackTolerant_def
lemmas intent_words = durability_defs LatencyBestEffort_def LatencyCached_def CostCheapest_def CostBalanced_def

definition Replicate_cap :: Capability where
  "Replicate_cap = ''replicate''"

record intent =
  iDurability :: string
  iLatency :: string
  iCost :: string

definition intent_WithDefaults :: "intent \<Rightarrow> intent" where
  "intent_WithDefaults i =
     \<lparr>iDurability = (if iDurability i = '''' then DurabilityBackend else iDurability i),
      iLatency = (if iLatency i = '''' then LatencyBestEffort else iLatency i),
      iCost = (if iCost i = '''' then CostBalanced else iCost i)\<rparr>"

datatype intent_error =
    ErrBadDurability | ErrBadLatency | ErrBadCost | ErrContradiction | ErrNoBackend
  | Unsatisfiable "Capability list" "string list"

definition intent_Validate :: "intent \<Rightarrow> intent_error option" where
  "intent_Validate i0 =
     (let i = intent_WithDefaults i0 in
      if iDurability i \<notin> {DurabilityNone, DurabilityBackend, DurabilityReplicated, DurabilityRackTolerant}
      then Some ErrBadDurability
      else if iLatency i \<notin> {LatencyBestEffort, LatencyCached} then Some ErrBadLatency
      else if iCost i \<notin> {CostCheapest, CostBalanced} then Some ErrBadCost
      else if iCost i = CostCheapest \<and> iLatency i = LatencyCached then Some ErrContradiction
      else None)"

definition Needs :: "intent \<Rightarrow> Capability list" where
  "Needs i =
     (if iDurability (intent_WithDefaults i) \<in> {DurabilityReplicated, DurabilityRackTolerant} then [Replicate_cap] else [])"

record fleet =
  KnowsRacks :: bool

definition no_racks :: string where
  "no_racks = ''this fleet cannot say which rack a node is in''"

definition intent_Resolve :: "intent \<Rightarrow> 'w backend option \<Rightarrow> fleet \<Rightarrow> intent_error option" where
  "intent_Resolve i0 bo f =
     (case intent_Validate i0 of
        Some e \<Rightarrow> Some e
      | None \<Rightarrow>
          (case bo of
             None \<Rightarrow> Some ErrNoBackend
           | Some b \<Rightarrow>
               (let i = intent_WithDefaults i0;
                    missing = filter (\<lambda>c. \<not> b_Supports b c) (Needs i);
                    lacking = (if iDurability i = DurabilityRackTolerant \<and> \<not> KnowsRacks f then [no_racks] else [])
                in if missing = [] \<and> lacking = [] then None else Some (Unsatisfiable missing lacking))))"

section \<open>Floors\<close>

record floor =
  fDurability :: string

definition durabilityRank :: "string \<Rightarrow> int option" where
  "durabilityRank = map_of [(DurabilityNone, 0), (DurabilityBackend, 1), (DurabilityReplicated, 2), (DurabilityRackTolerant, 3)]"

definition rank_or_zero :: "string \<Rightarrow> int" where
  "rank_or_zero w = (case durabilityRank w of None \<Rightarrow> 0 | Some n \<Rightarrow> n)"

definition floor_Apply :: "floor \<Rightarrow> intent \<Rightarrow> intent" where
  "floor_Apply f i0 =
     (let i = intent_WithDefaults i0 in
      case durabilityRank (iDurability i) of
        None \<Rightarrow> i
      | Some asked \<Rightarrow> if asked < rank_or_zero (fDurability f) then i\<lparr>iDurability := fDurability f\<rparr> else i)"

definition floor_Validate :: "floor \<Rightarrow> intent_error option" where
  "floor_Validate f =
     (if fDurability f = '''' then None
      else if durabilityRank (fDurability f) = None then Some ErrBadDurability else None)"

section \<open>The status of a dataset\<close>

record metadata =
  mdName :: string
  mdNamespace :: string
  mdGeneration :: int

record dataset_spec =
  spIntent :: intent
  spObject :: string

text \<open>Texts are the reason's presence: whether the store or the resolution had something to say.\<close>

record dataset_status =
  stPresent :: bool
  stBytes :: int
  stReason :: "driver_error option"
  stSatisfiable :: bool
  stUnsatisfiable :: "intent_error option"
  stRaisedTo :: string
  stObservedGeneration :: int

record dataset =
  dMetadata :: metadata
  dSpec :: dataset_spec
  dStatus :: "dataset_status option"

definition dataset_Resolve :: "(driver_error + int) \<Rightarrow> dataset \<Rightarrow> dataset_status option" where
  "dataset_Resolve sized d =
     (if spObject (dSpec d) = '''' then None
      else let status = \<lparr>stPresent = False, stBytes = 0, stReason = None, stSatisfiable = True, stUnsatisfiable = None,
                         stRaisedTo = '''', stObservedGeneration = mdGeneration (dMetadata d)\<rparr>
           in Some (case sized of
                      Inl e \<Rightarrow> status\<lparr>stReason := Some e\<rparr>
                    | Inr n \<Rightarrow> status\<lparr>stPresent := True, stBytes := n\<rparr>))"

record 'w resolvable =
  rsBackend :: "'w backend option"
  rsFleet :: fleet
  rsFloor :: floor

definition ResolveIntent :: "dataset \<Rightarrow> 'w resolvable \<Rightarrow> dataset_status \<Rightarrow> dataset_status" where
  "ResolveIntent d r status =
     (let effective = floor_Apply (rsFloor r) (spIntent (dSpec d));
          status = status\<lparr>stRaisedTo := ''''\<rparr>;
          status = (if iDurability effective \<noteq> iDurability (intent_WithDefaults (spIntent (dSpec d)))
                    then status\<lparr>stRaisedTo := iDurability effective\<rparr> else status)
      in case intent_Resolve effective (rsBackend r) (rsFleet r) of
           Some e \<Rightarrow> status\<lparr>stSatisfiable := False, stUnsatisfiable := Some e\<rparr>
         | None \<Rightarrow> status\<lparr>stSatisfiable := True, stUnsatisfiable := None\<rparr>)"

definition status_Changed :: "dataset_status option \<Rightarrow> dataset_status \<Rightarrow> bool" where
  "status_Changed was now = (case was of None \<Rightarrow> True | Some w \<Rightarrow> w \<noteq> now)"

section \<open>Resolution\<close>

lemma WithDefaults_idem [simp]: "intent_WithDefaults (intent_WithDefaults i) = intent_WithDefaults i"
  by (simp add: intent_WithDefaults_def intent_words)

lemma Validate_WithDefaults [simp]: "intent_Validate (intent_WithDefaults i) = intent_Validate i"
  by (simp add: intent_Validate_def)

lemma Needs_WithDefaults [simp]: "Needs (intent_WithDefaults i) = Needs i"
  by (simp add: Needs_def)

lemma Resolve_None:
  "intent_Resolve i bo f = None \<longleftrightarrow> intent_Validate i = None \<and> (\<exists>b. bo = Some b \<and> (\<forall>c\<in>set (Needs i). b_Supports b c))
     \<and> (iDurability (intent_WithDefaults i) = DurabilityRackTolerant \<longrightarrow> KnowsRacks f)"
  by (auto simp: intent_Resolve_def Let_def filter_empty_conv split: option.splits)

lemma Resolve_Unsatisfiable:
  assumes "intent_Resolve i (Some b) f = Some (Unsatisfiable missing lacking)"
  shows "intent_Validate i = None" and "set missing = {c \<in> set (Needs i). \<not> b_Supports b c}"
    and "lacking \<noteq> [] \<longleftrightarrow> iDurability (intent_WithDefaults i) = DurabilityRackTolerant \<and> \<not> KnowsRacks f"
    and "missing \<noteq> [] \<or> lacking \<noteq> []"
proof -
  have v: "intent_Validate i = None"
  proof (rule ccontr)
    assume "intent_Validate i \<noteq> None"
    then obtain e where "intent_Validate i = Some e" by blast
    moreover have "e \<noteq> Unsatisfiable missing lacking"
      using calculation by (auto simp: intent_Validate_def Let_def split: if_splits)
    ultimately show False using assms by (simp add: intent_Resolve_def)
  qed
  then show "intent_Validate i = None" "set missing = {c \<in> set (Needs i). \<not> b_Supports b c}"
    "lacking \<noteq> [] \<longleftrightarrow> iDurability (intent_WithDefaults i) = DurabilityRackTolerant \<and> \<not> KnowsRacks f"
    "missing \<noteq> [] \<or> lacking \<noteq> []"
    using assms by (auto simp: intent_Resolve_def Let_def split: if_splits)
qed

section \<open>What a floor does\<close>

lemma rank_cases:
  "durabilityRank w = (if w = DurabilityNone then Some 0 else if w = DurabilityBackend then Some 1
     else if w = DurabilityReplicated then Some 2 else if w = DurabilityRackTolerant then Some 3 else None)"
  by (auto simp: durabilityRank_def durability_defs)

text \<open>A valid declaration under any floor: the larger durability, and what was declared otherwise.\<close>

lemma Apply_raises:
  assumes "durabilityRank (iDurability (intent_WithDefaults i)) = Some n"
  shows "durabilityRank (iDurability (floor_Apply f i)) = Some (max n (rank_or_zero (fDurability f)))"
    and "iDurability (floor_Apply f i) = (if n < rank_or_zero (fDurability f) then fDurability f
           else iDurability (intent_WithDefaults i))"
    and "iLatency (floor_Apply f i) = iLatency (intent_WithDefaults i)" and "iCost (floor_Apply f i) = iCost (intent_WithDefaults i)"
proof -
  have nn: "0 \<le> n" using assms by (auto simp: rank_cases split: if_splits)
  show "iDurability (floor_Apply f i) = (if n < rank_or_zero (fDurability f) then fDurability f
           else iDurability (intent_WithDefaults i))"
    "iLatency (floor_Apply f i) = iLatency (intent_WithDefaults i)" "iCost (floor_Apply f i) = iCost (intent_WithDefaults i)"
    using assms by (auto simp: floor_Apply_def Let_def)
  then show "durabilityRank (iDurability (floor_Apply f i)) = Some (max n (rank_or_zero (fDurability f)))"
    using assms nn by (auto simp: rank_or_zero_def split: option.splits)
qed

lemma Apply_unknown: "durabilityRank (iDurability (intent_WithDefaults i)) = None \<Longrightarrow> floor_Apply f i = intent_WithDefaults i"
  by (simp add: floor_Apply_def Let_def)

lemma valid_rank: "intent_Validate i = None \<Longrightarrow> durabilityRank (iDurability (intent_WithDefaults i)) \<noteq> None"
  by (auto simp: intent_Validate_def Let_def rank_cases split: if_splits)

lemma WithDefaults_Apply [simp]: "intent_WithDefaults (floor_Apply f i) = floor_Apply f i"
proof (cases "durabilityRank (iDurability (intent_WithDefaults i))")
  case (Some n)
  have "iDurability (floor_Apply f i) \<noteq> ''''"
    using Apply_raises(1) [OF Some, of f] by (auto simp: rank_cases durability_defs split: if_splits)
  moreover have "iLatency (floor_Apply f i) \<noteq> ''''" "iCost (floor_Apply f i) \<noteq> ''''"
    using Apply_raises(3,4) [OF Some, of f] by (auto simp: intent_WithDefaults_def intent_words)
  ultimately show ?thesis by (simp add: intent_WithDefaults_def)
qed (simp add: Apply_unknown)

lemma Validate_by_rank:
  "intent_Validate i = None \<longleftrightarrow> durabilityRank (iDurability (intent_WithDefaults i)) \<noteq> None
     \<and> iLatency (intent_WithDefaults i) \<in> {LatencyBestEffort, LatencyCached}
     \<and> iCost (intent_WithDefaults i) \<in> {CostCheapest, CostBalanced}
     \<and> \<not> (iCost (intent_WithDefaults i) = CostCheapest \<and> iLatency (intent_WithDefaults i) = LatencyCached)"
  by (auto simp: intent_Validate_def Let_def rank_cases)

lemma Needs_by_rank: "Needs i = (if 2 \<le> rank_or_zero (iDurability (intent_WithDefaults i)) then [Replicate_cap] else [])"
  by (auto simp: Needs_def rank_or_zero_def rank_cases durability_defs)

lemma racks_by_rank: "iDurability (intent_WithDefaults i) = DurabilityRackTolerant \<longleftrightarrow> rank_or_zero (iDurability (intent_WithDefaults i)) = 3"
  by (auto simp: rank_or_zero_def rank_cases durability_defs)

lemma Validate_Apply [simp]: "intent_Validate (floor_Apply f i) = None \<longleftrightarrow> intent_Validate i = None"
proof (cases "durabilityRank (iDurability (intent_WithDefaults i))")
  case (Some n)
  then show ?thesis using Apply_raises [OF Some, of f] by (simp add: Validate_by_rank)
qed (simp add: Apply_unknown Validate_by_rank)

text \<open>What meets the raised declaration meets the user's own.\<close>

lemma Resolve_Apply:
  assumes "intent_Resolve (floor_Apply f i) bo fl = None"
  shows "intent_Resolve i bo fl = None"
    and "durabilityRank (fDurability f) \<noteq> None \<Longrightarrow> intent_Resolve \<lparr>iDurability = fDurability f, iLatency = '''', iCost = ''''\<rparr> bo fl = None"
proof -
  have v: "intent_Validate i = None" using assms Validate_Apply [of f i] by (simp add: Resolve_None)
  then obtain n where n: "durabilityRank (iDurability (intent_WithDefaults i)) = Some n" using valid_rank by blast
  have r: "rank_or_zero (iDurability (floor_Apply f i)) = max n (rank_or_zero (fDurability f))"
    using Apply_raises(1) [OF n, of f] by (simp add: rank_or_zero_def)
  have ri: "rank_or_zero (iDurability (intent_WithDefaults i)) = n" using n by (simp add: rank_or_zero_def)
  have le: "n \<le> 3" "rank_or_zero (fDurability f) \<le> 3" using n by (auto simp: rank_or_zero_def rank_cases split: if_splits)
  have c: "3 = max n (rank_or_zero (fDurability f)) \<longrightarrow> KnowsRacks fl"
    "\<exists>b. bo = Some b \<and> (2 \<le> max n (rank_or_zero (fDurability f)) \<longrightarrow> b_Supports b Replicate_cap)"
    using assms racks_by_rank [of "floor_Apply f i"] by (auto simp: Resolve_None Needs_by_rank r)
  then show "intent_Resolve i bo fl = None"
    using v le by (auto simp: Resolve_None Needs_by_rank racks_by_rank ri)
  show "intent_Resolve \<lparr>iDurability = fDurability f, iLatency = '''', iCost = ''''\<rparr> bo fl = None" if "durabilityRank (fDurability f) \<noteq> None"
  proof -
    let ?i = "\<lparr>iDurability = fDurability f, iLatency = '''', iCost = ''''\<rparr>"
    have d: "intent_WithDefaults ?i = \<lparr>iDurability = fDurability f, iLatency = LatencyBestEffort, iCost = CostBalanced\<rparr>"
      using that by (auto simp: intent_WithDefaults_def rank_cases durability_defs)
    have "intent_Validate ?i = None" using that by (simp add: Validate_by_rank d intent_words)
    then show ?thesis using c le racks_by_rank [of ?i] by (auto simp: Resolve_None Needs_by_rank d)
  qed
qed

end
