(* ===== verification/Controller.thy ===== *)
theory Controller
  imports Lease_Api Intent
begin

text \<open>
  The controller's passes: which agents there are (\<open>internal/kube/nodes.go\<close>), what the datasets ask for
  and what each node is asked to lend (\<open>cmd/forebay-controller/plan.go\<close>), and the statuses it records
  (\<open>reconcile\<close> of \<open>cmd/forebay-controller/main.go\<close>). What the API server lists is an argument; a status
  is written as a merge patch, whose effect on the object is \<open>merge_status\<close>: a field the encoding
  omits because it is empty keeps the value it had.

  The planner talks to nodes through \<open>lending_node\<close>, the locale of what it relies on; the node of
  \<open>Lease_Api\<close> with every answer heard is its interpretation. The lemmas: a tenant's demand is the total
  of its datasets that ask for the tier; a pass asks no node for more than its share of what was
  free; a pass over the datasets that succeeds leaves nothing to write, unless a field has to be
  emptied, in which case it is written again on every pass.
\<close>

section \<open>Agents\<close>

record endpoint =
  epAddresses :: "string list"
  epNodeName :: "string option"
  epReady :: "bool option"

record endpoint_slice =
  slLabels :: "(string, string) gomap"
  slEndpoints :: "endpoint list"
  slPorts :: "int option list"

record agent_ref =
  agNode :: string
  agAddress :: string

fun first_port :: "int option list \<Rightarrow> int" where
  "first_port [] = 0"
| "first_port (Some p # ps) = p"
| "first_port (None # ps) = first_port ps"

definition slice_agents :: "string \<Rightarrow> endpoint_slice \<Rightarrow> agent_ref list" where
  "slice_agents service s =
     (if (case map_of (slLabels s) ''kubernetes.io/service-name'' of None \<Rightarrow> '''' | Some v \<Rightarrow> v) \<noteq> service then []
      else let port = first_port (slPorts s) in
           if port = 0 then []
           else map (\<lambda>e. \<lparr>agNode = the (epNodeName e), agAddress = hd (epAddresses e) @ '':'' @ dec_int port\<rparr>)
                  (filter (\<lambda>e. \<not> (epReady e = Some False)
                             \<and> \<not> (epNodeName e = None \<or> epNodeName e = Some '''' \<or> epAddresses e = [])) (slEndpoints s)))"

definition kube_Agents :: "string \<Rightarrow> endpoint_slice list \<Rightarrow> agent_ref list" where
  "kube_Agents service items = sort_key agNode (concat (map (slice_agents service) items))"

section \<open>Demand\<close>

record demand =
  dmTenant :: string
  dmBytes :: int

definition wants_tier :: "floor \<Rightarrow> dataset \<Rightarrow> bool" where
  "wants_tier f d \<longleftrightarrow>
     \<not> (case dStatus d of None \<Rightarrow> True | Some st \<Rightarrow> \<not> stPresent st \<or> stBytes st \<le> 0)
     \<and> \<not> iLatency (floor_Apply f (spIntent (dSpec d))) \<noteq> LatencyCached"

fun by_tenant :: "floor \<Rightarrow> dataset list \<Rightarrow> (string, int) gomap \<Rightarrow> (string, int) gomap" where
  "by_tenant f [] m = m"
| "by_tenant f (d # ds) m =
     (if wants_tier f d
      then let t = mdNamespace (dMetadata d);
               n = (case map_of m t of None \<Rightarrow> 0 | Some n \<Rightarrow> n)
           in by_tenant f ds (AList.update t (wrap64 (n + stBytes (the (dStatus d)))) m)
      else by_tenant f ds m)"

definition wanted :: "dataset list \<Rightarrow> floor \<Rightarrow> demand list" where
  "wanted items f = sort_key dmTenant (map (\<lambda>(t, n). \<lparr>dmTenant = t, dmBytes = n\<rparr>) (by_tenant f items []))"

section \<open>Proposing\<close>

definition leaseID :: "string \<Rightarrow> string" where
  "leaseID tenant = ''forebay-tier-'' @ tenant"

definition plan_proposal :: "string \<Rightarrow> int \<Rightarrow> proposal" where
  "plan_proposal tenant n = \<lparr>pID = leaseID tenant, pTenant = tenant, pClass = ''elastic'', pBytes = n, pTerm = ''24h''\<rparr>"

text \<open>The loop over the demand at one node: the counts, the budget left and the node.\<close>

fun plan_loop :: "(proposal \<Rightarrow> 'n \<Rightarrow> decision \<times> 'n) \<Rightarrow> demand list \<Rightarrow> int \<Rightarrow> nat \<Rightarrow> nat \<Rightarrow> 'n \<Rightarrow> nat \<times> nat \<times> int \<times> 'n" where
  "plan_loop ask [] budget granted refused n = (granted, refused, budget, n)"
| "plan_loop ask (d # ds) budget granted refused n =
     (let sz = min (dmBytes d) budget in
      if sz \<le> 0 then plan_loop ask ds budget granted refused n
      else case ask (plan_proposal (dmTenant d) sz) n of
             (dec, n') \<Rightarrow>
               if dGranted dec \<and> \<not> dAlready dec then plan_loop ask ds (wrap64 (budget - sz)) (Suc granted) refused n'
               else if dGranted dec then plan_loop ask ds budget granted refused n'
               else plan_loop ask ds budget granted (Suc refused) n')"

definition plan_budget :: "float64 \<Rightarrow> capacity \<Rightarrow> int" where
  "plan_budget share c = i64_of_f64 (f64_mul (f64_of_int (cFree c)) share)"

text \<open>The loop over the agents: the counts, the nodes that could not be asked, and the nodes after.\<close>

fun plan_nodes :: "('n \<Rightarrow> (client_error + capacity) \<times> 'n) \<Rightarrow> (proposal \<Rightarrow> 'n \<Rightarrow> decision \<times> 'n) \<Rightarrow> float64 \<Rightarrow> demand list
    \<Rightarrow> (string \<times> 'n) list \<Rightarrow> nat \<Rightarrow> nat \<Rightarrow> string list \<Rightarrow> nat \<times> nat \<times> string list \<times> (string \<times> 'n) list" where
  "plan_nodes cap ask share want [] granted refused failed = (granted, refused, failed, [])"
| "plan_nodes cap ask share want ((name, n) # ns) granted refused failed =
     (case cap n of
        (Inl e, n') \<Rightarrow>
          (case plan_nodes cap ask share want ns granted refused (failed @ [name]) of
             (g, r, fd, ns') \<Rightarrow> (g, r, fd, (name, n') # ns'))
      | (Inr c, n') \<Rightarrow>
          (case plan_loop ask want (plan_budget share c) granted refused n' of
             (g, r, _, n'') \<Rightarrow>
               (case plan_nodes cap ask share want ns g r failed of
                  (g', r', fd, ns') \<Rightarrow> (g', r', fd, (name, n'') # ns'))))"

definition plan_propose :: "('n \<Rightarrow> (client_error + capacity) \<times> 'n) \<Rightarrow> (proposal \<Rightarrow> 'n \<Rightarrow> decision \<times> 'n) \<Rightarrow> float64 \<Rightarrow> demand list
    \<Rightarrow> (string \<times> 'n) list \<Rightarrow> nat \<times> nat \<times> string list \<times> (string \<times> 'n) list" where
  "plan_propose cap ask share want ns = (if want = [] then (0, 0, [], ns) else plan_nodes cap ask share want ns 0 0 [])"

section \<open>Recording statuses\<close>

text \<open>The merge patch of a status: fields the encoding omits when empty keep what the object had.\<close>

definition merge_status :: "dataset_status option \<Rightarrow> dataset_status \<Rightarrow> dataset_status" where
  "merge_status was now =
     (case was of
        None \<Rightarrow> now
      | Some w \<Rightarrow>
          now\<lparr>stBytes := (if stBytes now = 0 then stBytes w else stBytes now),
              stReason := (if stReason now = None then stReason w else stReason now),
              stUnsatisfiable := (if stUnsatisfiable now = None then stUnsatisfiable w else stUnsatisfiable now),
              stRaisedTo := (if stRaisedTo now = '''' then stRaisedTo w else stRaisedTo now),
              stObservedGeneration := (if stObservedGeneration now = 0 then stObservedGeneration w else stObservedGeneration now)\<rparr>)"

datatype patch_outcome = Patched | Gone | PatchFails

text \<open>
  One pass over the datasets listed: how many were written, which failed, and the datasets after.
  \<open>sized\<close> is what the store says of an object, \<open>env\<close> what the API server does with a patch.
\<close>

fun reconcile_datasets :: "(string \<Rightarrow> driver_error + int) \<Rightarrow> 'w resolvable \<Rightarrow> (metadata \<Rightarrow> patch_outcome) \<Rightarrow> dataset list
    \<Rightarrow> nat \<times> metadata list \<times> dataset list" where
  "reconcile_datasets sized r env [] = (0, [], [])"
| "reconcile_datasets sized r env (d # ds) =
     (case reconcile_datasets sized r env ds of
        (wrote, failed, ds') \<Rightarrow>
          (case dataset_Resolve (sized (spObject (dSpec d))) d of
             None \<Rightarrow> (wrote, failed, d # ds')
           | Some st \<Rightarrow>
               (let status = ResolveIntent d r st in
                if \<not> status_Changed (dStatus d) status then (wrote, failed, d # ds')
                else case env (dMetadata d) of
                       Patched \<Rightarrow> (Suc wrote, failed, d\<lparr>dStatus := Some (merge_status (dStatus d) status)\<rparr> # ds')
                     | Gone \<Rightarrow> (wrote, failed, ds')
                     | PatchFails \<Rightarrow> (wrote, dMetadata d # failed, d # ds'))))"

section \<open>Demand is what the datasets ask for\<close>

definition tenant_total :: "floor \<Rightarrow> dataset list \<Rightarrow> string \<Rightarrow> int" where
  "tenant_total f ds t = (\<Sum>d\<leftarrow>filter (\<lambda>d. wants_tier f d \<and> mdNamespace (dMetadata d) = t) ds. stBytes (the (dStatus d)))"

definition asks :: "floor \<Rightarrow> dataset list \<Rightarrow> string \<Rightarrow> bool" where
  "asks f ds t \<longleftrightarrow> (\<exists>d\<in>set ds. wants_tier f d \<and> mdNamespace (dMetadata d) = t)"

lemma asks_Cons [simp]: "asks f (d # ds) t \<longleftrightarrow> wants_tier f d \<and> mdNamespace (dMetadata d) = t \<or> asks f ds t"
  by (auto simp: asks_def)

lemma asks_Nil [simp]: "\<not> asks f [] t"
  by (simp add: asks_def)

lemma tenant_total_Cons: "tenant_total f (d # ds) t
    = (if wants_tier f d \<and> mdNamespace (dMetadata d) = t then stBytes (the (dStatus d)) else 0) + tenant_total f ds t"
  by (simp add: tenant_total_def)

lemma tenant_total_none: "\<not> asks f ds t \<Longrightarrow> tenant_total f ds t = 0"
  by (induction ds) (auto simp: tenant_total_Cons tenant_total_def [of _ "[]"])

definition start_at :: "(string, int) gomap \<Rightarrow> string \<Rightarrow> int" where
  "start_at m t = (case map_of m t of None \<Rightarrow> 0 | Some n \<Rightarrow> n)"

lemma start_at_update: "start_at (AList.update k v m) t = (if t = k then v else start_at m t)"
  by (simp add: start_at_def map_of_update_if)

lemma by_tenant_lookup:
  assumes "gomap_ok m"
  shows "gomap_ok (by_tenant f ds m) \<and> map_of (by_tenant f ds m) t =
       (if asks f ds t then Some (wrap64 (start_at m t + tenant_total f ds t)) else map_of m t)"
  using assms
proof (induction ds arbitrary: m)
  case (Cons d ds)
  show ?case
  proof (cases "wants_tier f d")
    case True
    let ?t = "mdNamespace (dMetadata d)"
    let ?m = "AList.update ?t (wrap64 (start_at m ?t + stBytes (the (dStatus d)))) m"
    have step: "by_tenant f (d # ds) m = by_tenant f ds ?m" using True by (simp add: Let_def start_at_def)
    have IH: "gomap_ok (by_tenant f ds ?m) \<and> map_of (by_tenant f ds ?m) t =
       (if asks f ds t then Some (wrap64 (start_at ?m t + tenant_total f ds t)) else map_of ?m t)"
      using Cons by simp
    show ?thesis
      unfolding step using IH True tenant_total_none [of f ds t]
      by (auto simp: start_at_update map_of_update_if tenant_total_Cons wrap64_add_wrap add.assoc)
  next
    case False
    then have "by_tenant f (d # ds) m = by_tenant f ds m" "asks f (d # ds) t = asks f ds t"
      "tenant_total f (d # ds) t = tenant_total f ds t" by (simp_all add: tenant_total_Cons)
    then show ?thesis using Cons by simp
  qed
qed simp

lemma wanted_exact:
  "sorted (map dmTenant (wanted ds f)) \<and> distinct (map dmTenant (wanted ds f))
   \<and> set (wanted ds f) = {\<lparr>dmTenant = t, dmBytes = wrap64 (tenant_total f ds t)\<rparr> |t. asks f ds t}"
proof -
  let ?m = "by_tenant f ds []"
  have ok: "gomap_ok ?m" and lk: "map_of ?m t = (if asks f ds t then Some (wrap64 (tenant_total f ds t)) else None)" for t
    using by_tenant_lookup [of "[]" f ds] by (auto simp: start_at_def)
  have d: "distinct (map fst ?m)" using ok by (simp add: gomap_ok_def)
  have "map dmTenant (map (\<lambda>(t, n). \<lparr>dmTenant = t, dmBytes = n\<rparr>) ?m) = map fst ?m" by (simp add: case_prod_unfold)
  then have "distinct (map dmTenant (wanted ds f))"
    using d unfolding wanted_def by (metis mset_map mset_sort mset_eq_imp_distinct_iff)
  moreover have "sorted (map dmTenant (wanted ds f))" by (simp add: wanted_def)
  moreover have "(t, n) \<in> set ?m \<longleftrightarrow> asks f ds t \<and> n = wrap64 (tenant_total f ds t)" for t n
    using lk [of t] map_of_eq_Some_iff [OF d, of t n] by (auto split: if_splits)
  then have "set (wanted ds f) = {\<lparr>dmTenant = t, dmBytes = wrap64 (tenant_total f ds t)\<rparr> |t. asks f ds t}"
    by (force simp: wanted_def image_iff)
  ultimately show ?thesis by blast
qed

section \<open>What the planner relies on\<close>

text \<open>
  A node as the planner sees it: what it says is free, what it decides on a proposal, and the bytes
  it has lent. Only a fresh grant changes them, by what was asked.
\<close>

locale lending_node =
  fixes cap :: "'n \<Rightarrow> (client_error + capacity) \<times> 'n"
    and ask :: "proposal \<Rightarrow> 'n \<Rightarrow> decision \<times> 'n"
    and lent :: "'n \<Rightarrow> int"
    and ready :: "'n \<Rightarrow> bool"
  assumes cap_keeps: "ready n \<Longrightarrow> cap n = (r, n') \<Longrightarrow> ready n' \<and> lent n' = lent n"
    and cap_range: "ready n \<Longrightarrow> cap n = (Inr c, n') \<Longrightarrow> 0 \<le> cFree c"
    and ask_lends: "ready n \<Longrightarrow> 0 < pBytes p \<Longrightarrow> in_i64 (pBytes p) \<Longrightarrow> ask p n = (d, n')
      \<Longrightarrow> ready n' \<and> lent n' = lent n + (if dGranted d \<and> \<not> dAlready d then pBytes p else 0)"
begin

lemma plan_loop_bound:
  assumes "plan_loop ask ds budget g r n = (g', r', budget', n')" "ready n" "in_i64 budget"
  shows "ready n' \<and> lent n \<le> lent n' \<and> lent n' - lent n \<le> max 0 budget \<and> g \<le> g' \<and> (g' = g \<longrightarrow> lent n' = lent n)"
  using assms
proof (induction ds arbitrary: budget g r n)
  case (Cons d ds)
  let ?sz = "min (dmBytes d) budget"
  show ?case
  proof (cases "?sz \<le> 0")
    case True
    then have "plan_loop ask ds budget g r n = (g', r', budget', n')" using Cons.prems(1) by (simp add: Let_def)
    then show ?thesis using Cons.prems(2,3) by (rule Cons.IH)
  next
    case False
    have sz: "0 < pBytes (plan_proposal (dmTenant d) ?sz)" "in_i64 (pBytes (plan_proposal (dmTenant d) ?sz))"
      using False Cons.prems(3) by (auto simp: plan_proposal_def i64_defs)
    obtain dec n1 where a: "ask (plan_proposal (dmTenant d) ?sz) n = (dec, n1)" by force
    note al = ask_lends [OF Cons.prems(2) sz a]
    have p: "pBytes (plan_proposal (dmTenant d) ?sz) = ?sz" by (simp add: plan_proposal_def)
    show ?thesis
    proof (cases "dGranted dec \<and> \<not> dAlready dec")
      case True
      have b: "in_i64 (budget - ?sz)" using False Cons.prems(3) by (auto simp: i64_defs min_def)
      then have w: "wrap64 (budget - ?sz) = budget - ?sz" by (rule wrap64_id)
      have pl: "plan_loop ask ds (budget - ?sz) (Suc g) r n1 = (g', r', budget', n')"
        using Cons.prems(1) a True False w by (simp add: Let_def)
      have IH: "ready n' \<and> lent n1 \<le> lent n' \<and> lent n' - lent n1 \<le> max 0 (budget - ?sz) \<and> Suc g \<le> g' \<and> (g' = Suc g \<longrightarrow> lent n' = lent n1)"
        using al b by (intro Cons.IH [OF pl]) simp_all
      have "lent n1 = lent n + ?sz" "?sz \<le> budget" using al True p by simp_all
      then show ?thesis using IH False by auto
    next
      case no: False
      obtain r1 where "plan_loop ask ds budget g r1 n1 = (g', r', budget', n')"
        using Cons.prems(1) a no False by (auto simp: Let_def split: if_splits)
      then show ?thesis using Cons.IH [of budget g r1 n1] al no Cons.prems(3) by auto
    qed
  qed
qed simp

text \<open>Every node of a pass: it is asked for at most its share of what it said was free.\<close>

definition within_share :: "float64 \<Rightarrow> 'n \<Rightarrow> 'n \<Rightarrow> bool" where
  "within_share share n n' \<longleftrightarrow> ready n' \<and> lent n \<le> lent n'
     \<and> (lent n' = lent n \<or> (\<exists>c n1. cap n = (Inr c, n1) \<and> lent n' - lent n \<le> max 0 (plan_budget share c)))"

lemma plan_nodes_share:
  assumes "plan_nodes cap ask share want ns g r fd = (g', r', fd', ns')" "\<forall>(k, n)\<in>set ns. ready n"
  shows "map fst ns' = map fst ns \<and> list_all2 (\<lambda>(k, n) (k', n'). within_share share n n') ns ns' \<and> g \<le> g'"
  using assms
proof (induction ns arbitrary: g r fd g' r' fd' ns')
  case (Cons kn ns)
  obtain k n where kn: "kn = (k, n)" by force
  obtain x n1 where c: "cap n = (x, n1)" by force
  have n: "ready n" using Cons.prems(2) kn by simp
  note ck = cap_keeps [OF n c]
  show ?case
  proof (cases x)
    case (Inl e)
    obtain g1 r1 fd1 ns1 where rest: "plan_nodes cap ask share want ns g r (fd @ [k]) = (g1, r1, fd1, ns1)" by (metis prod_cases4)
    then have out: "ns' = (k, n1) # ns1" "g' = g1" using Cons.prems(1) kn c Inl by auto
    show ?thesis using Cons.IH [OF rest] Cons.prems(2) ck kn by (auto simp: out within_share_def)
  next
    case (Inr cc)
    obtain g0 r0 b0 n2 where pl: "plan_loop ask want (plan_budget share cc) g r n1 = (g0, r0, b0, n2)" by (metis prod_cases4)
    obtain g1 r1 fd1 ns1 where rest: "plan_nodes cap ask share want ns g0 r0 fd = (g1, r1, fd1, ns1)" by (metis prod_cases4)
    have out: "ns' = (k, n2) # ns1" "g' = g1" using Cons.prems(1) kn c Inr pl rest by auto
    have "in_i64 (plan_budget share cc)" by (simp add: plan_budget_def i64_of_f64_range)
    note b = plan_loop_bound [OF pl _ this]
    have "within_share share n n2" using b ck c Inr by (auto simp: within_share_def)
    then show ?thesis using Cons.IH [OF rest] Cons.prems(2) b ck kn by (auto simp: out)
  qed
qed simp

lemma plan_propose_share:
  assumes "plan_propose cap ask share want ns = (g, r, fd, ns')" "\<forall>(k, n)\<in>set ns. ready n"
  shows "map fst ns' = map fst ns \<and> list_all2 (\<lambda>(k, n) (k', n'). within_share share n n') ns ns'"
proof (cases "want = []")
  case True
  then have "ns' = ns" using assms(1) by (simp add: plan_propose_def)
  then show ?thesis using assms(2) by (auto simp: list_all2_same within_share_def)
qed (use plan_nodes_share [of share want ns 0 0 "[]"] assms in \<open>auto simp: plan_propose_def\<close>)

end

section \<open>Nodes\<close>

text \<open>
  A node behind the client: its agent, and for each request to come whether it arrives and its
  answer returns, how long its body is, whether the body decodes, the outcomes of the system calls
  and the time. Requests beyond the script succeed.
\<close>

record turn =
  tTransport :: transport
  tLength :: nat
  tIntact :: bool
  tFaults :: api_faults
  tNow :: time

record lease_node =
  ln_agent :: agent
  ln_turns :: "turn list"

definition this_turn :: "lease_node \<Rightarrow> turn" where
  "this_turn n = (case ln_turns n of t # _ \<Rightarrow> t
     | [] \<Rightarrow> \<lparr>tTransport = Reached, tLength = 0, tIntact = True, tFaults = \<lparr>fAlloc = AllocOk, fDiscard = DiscardOk\<rparr>, tNow = 0\<rparr>)"

definition node_cap :: "string \<Rightarrow> lease_node \<Rightarrow> (client_error + capacity) \<times> lease_node" where
  "node_cap token n =
     (let t = this_turn n in
      case client_Capacity (tTransport t) (\<lambda>a r. api_Handler token (tFaults t) a r (tNow t)) token (ln_agent n) of
        (r, a) \<Rightarrow> (r, \<lparr>ln_agent = a, ln_turns = tl (ln_turns n)\<rparr>))"

definition node_ask :: "string \<Rightarrow> proposal \<Rightarrow> lease_node \<Rightarrow> decision \<times> lease_node" where
  "node_ask token p n =
     (let t = this_turn n in
      case client_Propose (tTransport t) (\<lambda>a r. api_Handler token (tFaults t) a r (tNow t)) token
             (tLength t, if tIntact t then Some p else None) (ln_agent n) of
        (d, a) \<Rightarrow> (d, \<lparr>ln_agent = a, ln_turns = tl (ln_turns n)\<rparr>))"

definition node_lent :: "lease_node \<Rightarrow> int" where
  "node_lent n = Borrowed (acct (a_leases (ln_agent n)))"

text \<open>A node whose accounts are in order and whose answers are all heard.\<close>

definition node_ready :: "lease_node \<Rightarrow> bool" where
  "node_ready n \<longleftrightarrow> agent_ok (ln_agent n) \<and> (\<forall>t\<in>set (ln_turns n). tTransport t \<noteq> AnswerLost)"

lemma this_turn_heard: "node_ready n \<Longrightarrow> tTransport (this_turn n) \<noteq> AnswerLost"
  by (auto simp: node_ready_def this_turn_def split: list.splits)

lemma node_ready_tl: "agent_ok a \<Longrightarrow> node_ready n \<Longrightarrow> node_ready \<lparr>ln_agent = a, ln_turns = tl (ln_turns n)\<rparr>"
  by (cases "ln_turns n") (auto simp: node_ready_def)

lemma Borrowed_held: "mgr_ok m \<Longrightarrow> Borrowed (acct m) = sum lSize (held m)"
  using msum_held [of m lSize] by (simp add: mgr_ok_def)

lemma capacity_over_wire:
  "api_Handler token fl a (send token ''GET'' [''capacity''] NoBody) now = (server_capacity a now, a)"
proof -
  have "rMethod (send token ''GET'' [''capacity''] NoBody) = ''GET''" "rPath (send token ''GET'' [''capacity''] NoBody) = [''capacity'']"
    by (simp_all add: send_def)
  then show ?thesis by (simp add: api_Handler_def guard_def)
qed

lemma client_Capacity_node:
  assumes "tr \<noteq> AnswerLost"
  shows "client_Capacity tr (\<lambda>a r. api_Handler token fl a r now) token a
    = (if tr = NotReached then (Inl ErrTransport, a)
       else (case rsPayload (server_capacity a now) of JCapacity c \<Rightarrow> (Inr c, a) | _ \<Rightarrow> (Inl ErrDecode, a)))"
  using assms by (cases tr) (simp_all add: client_Capacity_def capacity_over_wire server_capacity_def Let_def)

text \<open>A proposal that is not read is refused and changes nothing; one that is read is decided on.\<close>

lemma propose_unread:
  assumes "65536 < k \<or> w = None \<or> w = Some p \<and> (\<exists>e. proposal_Lease p = Inl e)"
  shows "client_Propose Reached (\<lambda>a r. api_Handler token fl a r now) token (k, w) a = (refuse Malformed, a)"
proof -
  have "rMethod (send token ''POST'' [''leases''] (Body k w)) = ''POST''" "rPath (send token ''POST'' [''leases''] (Body k w)) = [''leases'']"
    "rBody (send token ''POST'' [''leases''] (Body k w)) = Body k w" by (simp_all add: send_def)
  then show ?thesis
    using assms by (auto simp: client_Propose_def api_Handler_def guard_def server_propose_def readBounded_def)
qed

lemma node_ask_lends:
  assumes rd: "node_ready n" and sz: "0 < pBytes p" "in_i64 (pBytes p)" and run: "node_ask token p n = (d, n')"
  shows "node_ready n' \<and> node_lent n' = node_lent n + (if dGranted d \<and> \<not> dAlready d then pBytes p else 0)"
proof -
  let ?t = "this_turn n" let ?a = "ln_agent n"
  let ?w = "if tIntact ?t then Some p else None"
  have ok: "agent_ok ?a" using rd by (simp add: node_ready_def)
  obtain a' where c: "client_Propose (tTransport ?t) (\<lambda>a r. api_Handler token (tFaults ?t) a r (tNow ?t)) token (tLength ?t, ?w) ?a = (d, a')"
    and n': "n' = \<lparr>ln_agent = a', ln_turns = tl (ln_turns n)\<rparr>"
    using run by (auto simp: node_ask_def Let_def split: prod.splits)
  have idle: ?thesis if "a' = ?a" "\<not> dGranted d"
    using that node_ready_tl [OF ok rd] by (simp add: n' node_lent_def)
  consider "tTransport ?t = NotReached" | "tTransport ?t = Reached" using this_turn_heard [OF rd] by (cases "tTransport ?t") auto
  then show ?thesis
  proof cases
    case 1
    then show ?thesis using c idle by (auto simp: client_Propose_def refuse_def)
  next
    case 2
    show ?thesis
    proof (cases "tLength ?t \<le> 65536 \<and> ?w = Some p \<and> (\<exists>l. proposal_Lease p = Inr l)")
      case True
      then obtain l where l: "proposal_Lease p = Inr l" and k: "tLength ?t \<le> 65536" "?w = Some p" by blast
      obtain e a1 where g: "Grant (fAlloc (tFaults ?t)) ?a l (tNow ?t) = (e, a1)" by force
      have out: "d = decide (tFaults ?t) ?a l (tNow ?t)" "a' = a1"
        using c propose_over_wire(1) [OF l k(1), of token "tFaults ?t" "tNow ?t" ?a] k(2) 2 g by simp_all
      note pf = proposal_Lease_fields [OF l]
      have "in_i64 (lSize l)" using pf sz by simp
      note dt = decide_truthful [OF ok this g, folded out(1)]
      have m: "mgr_ok (a_leases ?a)" "mgr_ok (a_leases a')" using ok dt(1) out(2) by (simp_all add: agent_ok_def)
      have "Borrowed (acct (a_leases a')) = Borrowed (acct (a_leases ?a)) + (if dGranted d \<and> \<not> dAlready d then pBytes p else 0)"
      proof (cases "dGranted d \<and> \<not> dAlready d")
        case True
        then show ?thesis
          using dt(3) fresh_not_held [OF m(1), of l "tNow ?t"] pf
          by (simp add: Borrowed_held [OF m(1)] Borrowed_held [OF m(2), unfolded out(2)] out(2))
      qed (use dt(4) in \<open>auto simp: Borrowed_held [OF m(1)] Borrowed_held [OF m(2), unfolded out(2)] out(2)\<close>)
      then show ?thesis using node_ready_tl [OF _ rd] dt(1) out(2) by (simp add: n' node_lent_def)
    next
      case False
      then have "65536 < tLength ?t \<or> ?w = None \<or> ?w = Some p \<and> (\<exists>e. proposal_Lease p = Inl e)"
        by (cases "proposal_Lease p") auto
      from propose_unread [OF this] have "a' = ?a" "d = refuse Malformed" using c 2 by auto
      then show ?thesis using idle by (simp add: refuse_def)
    qed
  qed
qed

interpretation node: lending_node "node_cap token" "node_ask token" node_lent node_ready for token
proof
  fix n r n' assume n: "node_ready n" and c: "node_cap token n = (r, n')"
  have "n' = \<lparr>ln_agent = ln_agent n, ln_turns = tl (ln_turns n)\<rparr>"
    using c client_Capacity_node [OF this_turn_heard [OF n]]
    by (auto simp: node_cap_def Let_def split: prod.splits payload.splits if_splits)
  moreover have "agent_ok (ln_agent n)" using n by (simp add: node_ready_def)
  ultimately show "node_ready n' \<and> node_lent n' = node_lent n" using node_ready_tl [OF _ n] by (simp add: node_lent_def)
next
  fix n c n' assume n: "node_ready n" and c: "node_cap token n = (Inr c, n')"
  have "cFree c = Free (acct (a_leases (ln_agent n)))"
    using c client_Capacity_node [OF this_turn_heard [OF n]]
    by (auto simp: node_cap_def Let_def server_capacity_def split: prod.splits if_splits)
  moreover have "acct_ok (acct (a_leases (ln_agent n)))" using n by (simp add: node_ready_def agent_ok_def mgr_ok_def)
  ultimately show "0 \<le> cFree c" by (simp add: Free_ok) (simp add: acct_ok_def)
qed (rule node_ask_lends)

section \<open>Recording statuses\<close>

text \<open>The status a pass means to record of a dataset.\<close>

definition due_status :: "(string \<Rightarrow> driver_error + int) \<Rightarrow> 'w resolvable \<Rightarrow> dataset \<Rightarrow> dataset_status option" where
  "due_status sized r d = map_option (ResolveIntent d r) (dataset_Resolve (sized (spObject (dSpec d))) d)"

lemma due_status_patched [simp]: "due_status sized r (d\<lparr>dStatus := st\<rparr>) = due_status sized r d"
proof -
  have "ResolveIntent (d\<lparr>dStatus := st\<rparr>) r = ResolveIntent d r" by (rule ext) (simp add: ResolveIntent_def)
  then show ?thesis by (simp add: due_status_def dataset_Resolve_def)
qed

lemma reconcile_Cons:
  "reconcile_datasets sized r env (d # ds) =
     (case reconcile_datasets sized r env ds of
        (wrote, failed, ds') \<Rightarrow>
          (case due_status sized r d of
             None \<Rightarrow> (wrote, failed, d # ds')
           | Some status \<Rightarrow>
               if dStatus d = Some status then (wrote, failed, d # ds')
               else case env (dMetadata d) of
                      Patched \<Rightarrow> (Suc wrote, failed, d\<lparr>dStatus := Some (merge_status (dStatus d) status)\<rparr> # ds')
                    | Gone \<Rightarrow> (wrote, failed, ds')
                    | PatchFails \<Rightarrow> (wrote, dMetadata d # failed, d # ds')))"
  by (auto simp: due_status_def status_Changed_def Let_def split: option.splits prod.splits)

declare reconcile_datasets.simps(2) [simp del]

text \<open>
  A pass whose patches are taken leaves every dataset with the status it is due, when no patch has
  to empty a field; the next pass with the same answers then writes nothing.
\<close>

definition mergeable :: "(string \<Rightarrow> driver_error + int) \<Rightarrow> 'w resolvable \<Rightarrow> dataset \<Rightarrow> bool" where
  "mergeable sized r d \<longleftrightarrow> (case due_status sized r d of None \<Rightarrow> True | Some st \<Rightarrow> merge_status (dStatus d) st = st)"

lemma reconcile_settles:
  assumes "reconcile_datasets sized r (\<lambda>_. Patched) ds = (w, fd, ds')" "\<forall>d\<in>set ds. mergeable sized r d"
  shows "reconcile_datasets sized r env ds' = (0, [], ds') \<and> fd = [] \<and> map dMetadata ds' = map dMetadata ds
    \<and> map (due_status sized r) ds' = map (due_status sized r) ds
    \<and> (\<forall>d\<in>set ds'. due_status sized r d \<noteq> None \<longrightarrow> dStatus d = due_status sized r d)"
  using assms
proof (induction ds arbitrary: w fd ds')
  case (Cons d ds)
  obtain w1 fd1 ds1 where rest: "reconcile_datasets sized r (\<lambda>_. Patched) ds = (w1, fd1, ds1)" by (metis prod_cases3)
  note IH = Cons.IH [OF rest]
  define d1 where "d1 = (if due_status sized r d = None then d else d\<lparr>dStatus := due_status sized r d\<rparr>)"
  have m: "mergeable sized r d" using Cons.prems(2) by simp
  have d1: "ds' = d1 # ds1" "fd = fd1"
    using Cons.prems(1) rest m by (auto simp: reconcile_Cons mergeable_def d1_def split: option.splits if_splits)
  have "due_status sized r d1 = due_status sized r d" "dMetadata d1 = dMetadata d"
    "due_status sized r d1 \<noteq> None \<longrightarrow> dStatus d1 = due_status sized r d1" by (simp_all add: d1_def)
  then show ?case using IH Cons.prems(2) by (auto simp: d1 reconcile_Cons split: option.splits)
qed simp

text \<open>A field to be emptied stays, and the same patch is written on every pass.\<close>

lemma merge_again: "merge_status (Some (merge_status was st)) st = merge_status was st"
  by (cases was) (auto simp: merge_status_def)

lemma reconcile_restless:
  assumes "due_status sized r d = Some st" "merge_status (dStatus d) st \<noteq> st"
  defines "d' \<equiv> d\<lparr>dStatus := Some (merge_status (dStatus d) st)\<rparr>"
  shows "reconcile_datasets sized r (\<lambda>_. Patched) [d] = (1, [], [d'])"
    and "reconcile_datasets sized r (\<lambda>_. Patched) [d'] = (1, [], [d'])" and "dStatus d' \<noteq> Some st"
proof -
  have "dStatus d \<noteq> Some st" using assms(2) by (auto simp: merge_status_def)
  then show "reconcile_datasets sized r (\<lambda>_. Patched) [d] = (1, [], [d'])"
    using assms(1) by (simp add: reconcile_Cons d'_def)
  show "reconcile_datasets sized r (\<lambda>_. Patched) [d'] = (1, [], [d'])"
    using assms(1,2) by (simp add: reconcile_Cons d'_def merge_again)
  show "dStatus d' \<noteq> Some st" using assms(2) by (simp add: d'_def)
qed

end
