(* ===== verification/Checkpoint.thy ===== *)
theory Checkpoint
  imports Node_Agent File_Driver
begin

text \<open>
  Package checkpoint (\<open>internal/checkpoint/checkpoint.go\<close>, \<open>stage.go\<close>, \<open>http.go\<close>): staging a checkpoint in
  capacity nobody may take, and making it durable.

  The stager's node is the agent of \<open>Node_Agent\<close>, its store any store with a streaming write
  (\<open>streaming_store\<close> says what staging relies on; the backend over the directory driver is its
  interpretation). The bytes written into an extent are kept beside the agent's directory. A
  staged acknowledgement leaves the upload to be done: it is a pending entry and \<open>upload_step\<close> does
  it. System calls have their outcomes as arguments; a context that ended while the writer waited
  is one of them.

  The lemmas: a durable acknowledgement means the store has exactly the bytes the writer sent; a
  staged one that a guaranteed lease holds them; a checkpoint that was not staged leaves no lease;
  an upload that failed leaves the lease and the bytes; no reclaim takes them before the lease's
  term is over, and a reclaim after it does.
\<close>

section \<open>Acknowledgements and reservations\<close>

definition Durable :: string where "Durable = ''durable''"
definition Staged :: string where "Staged = ''staged''"

datatype ck_error =
    ErrRequest | ErrNothing | ErrRevocable | ErrTooLarge | ErrReserve agent_error | ErrOverran | ErrNotStaged
  | ErrStaging | ErrReading | ErrDurable driver_error | ErrContext

definition ack_known :: "string \<Rightarrow> bool" where
  "ack_known a \<longleftrightarrow> a = Durable \<or> a = Staged"

definition ack_Survives :: "string \<Rightarrow> (string \<times> string) option" where
  "ack_Survives a =
     (if a = Durable then Some (''whatever the backend survives'', ''whatever the backend does not'')
      else if a = Staged then Some (''the process, and a restart of the agent'', ''the node'')
      else None)"

definition ack_WithDefault :: "string \<Rightarrow> string" where
  "ack_WithDefault a = (if a = '''' then Durable else a)"

record reservation =
  rvBytes :: int
  rvClass :: lease_class

definition ck_Check :: "reservation \<Rightarrow> int \<Rightarrow> ck_error option" where
  "ck_Check r guaranteedFree =
     (if rvBytes r \<le> 0 then Some ErrNothing
      else if rvClass r \<noteq> Guaranteed then Some ErrRevocable
      else if guaranteedFree < rvBytes r then Some ErrTooLarge
      else None)"

record ck_request =
  ckID :: string
  ckTenant :: string
  ckObject :: string
  ckBytes :: int
  ckAck :: string

definition ck_check :: "ck_request \<Rightarrow> ck_error option" where
  "ck_check r = (if ckID r = '''' then Some ErrRequest else if ckObject r = '''' then Some ErrRequest else None)"

section \<open>The stager\<close>

record 'w stager =
  sg_agent :: agent
  sg_files :: "(string, bytes) gomap"
  sg_store :: 'w
  sg_term :: duration
  sg_pending :: "(ck_request \<times> nat) list"

definition stager_New :: "agent option \<Rightarrow> 'w option \<Rightarrow> duration \<Rightarrow> 'w stager option" where
  "stager_New a w term =
     (case a of None \<Rightarrow> None | Some a \<Rightarrow>
        (case w of None \<Rightarrow> None | Some w \<Rightarrow>
           if term \<le> 0 then None else Some \<lparr>sg_agent = a, sg_files = [], sg_store = w, sg_term = term, sg_pending = []\<rparr>))"

record stage_faults =
  sfAlloc :: alloc_fault
  sfOpen :: bool
  sfWrite :: bool
  sfSync :: bool
  sfReopen :: bool
  sfDiscard :: discard_fault
  sfCut :: bool

definition stageTo :: "stage_faults \<Rightarrow> (string, bytes) gomap \<Rightarrow> string \<Rightarrow> source \<Rightarrow> int \<Rightarrow> (ck_error + nat) \<times> (string, bytes) gomap" where
  "stageTo fl files path src sz =
     (if \<not> sfOpen fl then (Inl ErrStaging, files)
      else case copied src sz of
             (data, failed) \<Rightarrow>
               (let files' = AList.update path data files in
                if failed \<or> \<not> sfWrite fl then (Inl ErrStaging, files')
                else if sz < int (length data) then (Inl ErrOverran, files')
                else if \<not> sfSync fl then (Inl ErrStaging, files')
                else (Inr (length data), files')))"

text \<open>A release reports its failure and goes on; the bytes are gone with the extent.\<close>

definition sg_release :: "stage_faults \<Rightarrow> 'w stager \<Rightarrow> string \<Rightarrow> time \<Rightarrow> 'w stager" where
  "sg_release fl sg i now =
     (case agent_Release (sfDiscard fl) (sg_agent sg) i now of
        (_, _, a) \<Rightarrow> sg\<lparr>sg_agent := a,
          sg_files := (if map_of (a_dir a) i = None then AList.delete i (sg_files sg) else sg_files sg)\<rparr>)"

type_synonym 'w putter = "'w \<Rightarrow> string \<Rightarrow> source \<Rightarrow> int \<Rightarrow> driver_error option \<times> 'w"

definition durable :: "'w putter \<Rightarrow> stage_faults \<Rightarrow> 'w stager \<Rightarrow> ck_request \<Rightarrow> nat \<Rightarrow> ck_error option \<times> 'w stager" where
  "durable put fl sg r written =
     (if \<not> sfReopen fl then (Some ErrReading, sg)
      else let f = (case map_of (sg_files sg) (ckID r) of None \<Rightarrow> [] | Some b \<Rightarrow> b) in
           case put (sg_store sg) (ckObject r) \<lparr>src_bytes = take written f, src_fails = False\<rparr> (int written) of
             (e, w) \<Rightarrow> (map_option ErrDurable e, sg\<lparr>sg_store := w\<rparr>))"

definition upload :: "'w putter \<Rightarrow> stage_faults \<Rightarrow> 'w stager \<Rightarrow> ck_request \<Rightarrow> nat \<Rightarrow> time \<Rightarrow> ck_error option \<times> 'w stager" where
  "upload put fl sg r written now =
     (case durable put fl sg r written of
        (None, sg1) \<Rightarrow> (None, sg_release fl sg1 (ckID r) now)
      | (Some e, sg1) \<Rightarrow> (Some e, sg1))"

definition stage_lease :: "'w stager \<Rightarrow> ck_request \<Rightarrow> lease" where
  "stage_lease sg r = \<lparr>lID = ckID r, lTenant = ckTenant r, lClass = Guaranteed, lSize = ckBytes r, lGrantedAt = 0, lTerm = sg_term sg\<rparr>"

text \<open>The part of \<open>Stage\<close> after the capacity was granted, up to the acknowledgement.\<close>

definition stage_bytes :: "stage_faults \<Rightarrow> 'w stager \<Rightarrow> ck_request \<Rightarrow> source \<Rightarrow> time \<Rightarrow> (ck_error + nat) \<times> 'w stager" where
  "stage_bytes fl sg r src now =
     (case ExtentPath (ckID r) of
        Inl e \<Rightarrow> (Inl (ErrReserve e), sg_release fl sg (ckID r) now)
      | Inr path \<Rightarrow>
          (case stageTo fl (sg_files sg) path src (ckBytes r) of
             (Inl e, fs) \<Rightarrow> (Inl e, sg_release fl (sg\<lparr>sg_files := fs\<rparr>) (ckID r) now)
           | (Inr written, fs) \<Rightarrow>
               if written = 0 then (Inl ErrNotStaged, sg_release fl (sg\<lparr>sg_files := fs\<rparr>) (ckID r) now)
               else (Inr written, sg\<lparr>sg_files := fs\<rparr>)))"

definition Stage :: "'w putter \<Rightarrow> stage_faults \<Rightarrow> 'w stager \<Rightarrow> ck_request \<Rightarrow> source \<Rightarrow> time \<Rightarrow> (ck_error + string) \<times> 'w stager" where
  "Stage put fl sg r src now =
     (case ck_check r of
        Some e \<Rightarrow> (Inl e, sg)
      | None \<Rightarrow>
          (let ack = ack_WithDefault (ckAck r) in
           if ack_Survives ack = None then (Inl ErrRequest, sg)
           else case ck_Check \<lparr>rvBytes = ckBytes r, rvClass = Guaranteed\<rparr> (GuaranteedFree (a_leases (sg_agent sg))) of
                  Some e \<Rightarrow> (Inl e, sg)
                | None \<Rightarrow>
                    (case Grant (sfAlloc fl) (sg_agent sg) (stage_lease sg r) now of
                       (Some e, a) \<Rightarrow> (Inl (ErrReserve e), sg\<lparr>sg_agent := a\<rparr>)
                     | (None, a) \<Rightarrow>
                         (case stage_bytes fl (sg\<lparr>sg_agent := a\<rparr>) r src now of
                            (Inl e, sg1) \<Rightarrow> (Inl e, sg1)
                          | (Inr written, sg1) \<Rightarrow>
                              if ack = Durable
                              then (case upload put fl sg1 r written now of
                                      (e, sg2) \<Rightarrow> (if sfCut fl then Inl ErrContext
                                                   else case e of Some x \<Rightarrow> Inl x | None \<Rightarrow> Inr ack, sg2))
                              else (Inr ack, sg1\<lparr>sg_pending := sg_pending sg1 @ [(r, written)]\<rparr>)))))"

text \<open>The goroutine of a staged acknowledgement.\<close>

definition upload_step :: "'w putter \<Rightarrow> stage_faults \<Rightarrow> 'w stager \<Rightarrow> time \<Rightarrow> ck_error option \<times> 'w stager" where
  "upload_step put fl sg now =
     (case sg_pending sg of
        [] \<Rightarrow> (None, sg)
      | (r, written) # ps \<Rightarrow> upload put fl (sg\<lparr>sg_pending := ps\<rparr>) r written now)"

section \<open>Over HTTP\<close>

definition ck_statusFor :: "ck_error \<Rightarrow> int" where
  "ck_statusFor e =
     (if e \<in> {ErrTooLarge, ErrRevocable} then 409
      else if e = ErrOverran then 400
      else if e \<in> {ErrNotStaged, ErrRequest} then 400
      else 500)"

record ck_outcome =
  oAck :: string
  oSurvives :: string
  oLost :: string
  oBytes :: int

text \<open>The handler behind the token: the query with the length of the body, and its bytes.\<close>

definition ck_stage :: "'w putter \<Rightarrow> stage_faults \<Rightarrow> 'w stager \<Rightarrow> ck_request \<Rightarrow> source \<Rightarrow> time \<Rightarrow> (int + ck_outcome) \<times> 'w stager" where
  "ck_stage put fl sg q src now =
     (if ckBytes q < 0 then (Inl 411, sg)
      else case Stage put fl sg q src now of
             (Inl e, sg1) \<Rightarrow> (Inl (ck_statusFor e), sg1)
           | (Inr ack, sg1) \<Rightarrow>
               (let sl = (case ack_Survives ack of Some x \<Rightarrow> x | None \<Rightarrow> ('''', '''')) in
                (Inr \<lparr>oAck = ack, oSurvives = fst sl, oLost = snd sl, oBytes = ckBytes q\<rparr>, sg1)))"

definition ck_Handler :: "string \<Rightarrow> string \<Rightarrow> 'w putter \<Rightarrow> stage_faults \<Rightarrow> 'w stager \<Rightarrow> ck_request \<Rightarrow> source \<Rightarrow> time
    \<Rightarrow> (int + ck_outcome) \<times> 'w stager" where
  "ck_Handler token auth put fl sg q src now =
     (if (if HasPrefix auth ''Bearer '' then drop 7 auth else auth) \<noteq> token then (Inl 401, sg)
      else ck_stage put fl sg q src now)"

section \<open>What staging relies on\<close>

locale streaming_store =
  fixes put :: "'w putter" and contents :: "'w \<Rightarrow> string \<Rightarrow> bytes option" and good :: "'w \<Rightarrow> bool"
  assumes put_good: "good w \<Longrightarrow> put w obj src n = (e, w') \<Longrightarrow> n \<le> max_i64 \<Longrightarrow> good w'"
    and put_data: "good w \<Longrightarrow> put w obj src n = (None, w') \<Longrightarrow> n \<le> max_i64
      \<Longrightarrow> contents w' = (contents w)(obj \<mapsto> src_bytes src) \<and> int (length (src_bytes src)) = n"
    and put_keeps: "good w \<Longrightarrow> put w obj src n = (e, w') \<Longrightarrow> n \<le> max_i64
      \<Longrightarrow> (\<forall>x. x \<noteq> obj \<or> contents w x \<noteq> None \<longrightarrow> contents w' x = contents w x)"

section \<open>Staging\<close>

text \<open>What a checkpoint that was staged holds: its lease, and exactly the bytes that were sent.\<close>

definition staged_at :: "'w stager \<Rightarrow> ck_request \<Rightarrow> bytes \<Rightarrow> time \<Rightarrow> bool" where
  "staged_at sg r b now \<longleftrightarrow>
     (stage_lease sg r)\<lparr>lGrantedAt := now\<rparr> \<in> held (a_leases (sg_agent sg))
     \<and> map_of (a_dir (sg_agent sg)) (ckID r) = Some (ckBytes r) \<and> map_of (sg_files sg) (ckID r) = Some b
     \<and> b \<noteq> [] \<and> int (length b) \<le> ckBytes r"

lemma stageTo_Inr:
  assumes "stageTo fl fs p src sz = (Inr written, fs')" "0 < sz" "sz < max_i64"
  shows "fs' = AList.update p (src_bytes src) fs \<and> written = length (src_bytes src) \<and> int written \<le> sz \<and> \<not> src_fails src"
proof -
  obtain data failed where c: "copied src sz = (data, failed)" by force
  have d: "\<not> failed" "int (length data) \<le> sz" "fs' = AList.update p data fs" "written = length data"
    using assms(1) c by (auto simp: stageTo_def Let_def split: if_splits)
  have "wrap64 (sz + 1) = sz + 1" using assms(2,3) by (intro wrap64_id') (auto simp: min_i64_def)
  then have t: "data = take (nat (sz + 1)) (src_bytes src)" "\<not> (src_fails src \<and> length (src_bytes src) < nat (sz + 1))"
    using c d(1) by (auto simp: copied_def Let_def)
  have l: "length (src_bytes src) \<le> nat sz"
  proof (rule ccontr)
    assume "\<not> length (src_bytes src) \<le> nat sz"
    then have "length data = nat (sz + 1)" using t(1) assms(2) by auto
    then show False using d(2) assms(2) by linarith
  qed
  then have "data = src_bytes src" using t(1) assms(2) by simp
  moreover have "length (src_bytes src) < nat (sz + 1)" using l assms(2) by linarith
  ultimately show ?thesis using d t(2) by blast
qed

lemma sg_release_frame:
  "sg_store (sg_release fl sg i now) = sg_store sg" "sg_term (sg_release fl sg i now) = sg_term sg"
  "sg_pending (sg_release fl sg i now) = sg_pending sg"
  by (simp_all add: sg_release_def split: prod.splits)

lemma stage_bytes_term: "stage_bytes fl sg r src now = (res, sg') \<Longrightarrow> sg_term sg' = sg_term sg"
  by (auto simp: stage_bytes_def sg_release_frame split: sum.splits prod.splits if_splits)

lemma upload_term: "upload put fl sg r n now = (e, sg') \<Longrightarrow> sg_term sg' = sg_term sg"
  by (auto simp: upload_def durable_def Let_def sg_release_frame split: option.splits prod.splits if_splits)

lemma Stage_term: "Stage put fl sg r src now = (res, sg') \<Longrightarrow> sg_term sg' = sg_term sg"
  unfolding Stage_def Let_def
  by (auto split: option.splits if_splits prod.splits sum.splits dest!: stage_bytes_term upload_term)

lemma sg_release_held:
  assumes ok: "agent_ok (sg_agent sg)" and fl: "sfDiscard fl = DiscardOk" and l: "\<exists>l\<in>held (a_leases (sg_agent sg)). lID l = i"
  shows "agent_ok (sg_agent (sg_release fl sg i now))"
    and "held (a_leases (sg_agent (sg_release fl sg i now))) = {l \<in> held (a_leases (sg_agent sg)). lID l \<noteq> i}"
proof -
  let ?a = "sg_agent sg"
  obtain n e a' where r: "agent_Release DiscardOk ?a i now = (n, e, a')" by (metis prod_cases3)
  have out: "sg_agent (sg_release fl sg i now) = a'" using r fl by (simp add: sg_release_def)
  show "agent_ok (sg_agent (sg_release fl sg i now))" using agent_Release_ok [OF ok _ r] out by simp
  obtain d a1 where dc: "discard DiscardOk ?a i = (d, a1)" by force
  have "validLeaseID i = None" "map_of (a_dir ?a) i \<noteq> None" using l ok by (auto simp: agent_ok_def backed_def)
  then have d: "d = None" using dc by (auto simp: discard_def ExtentPath_def split: option.splits)
  obtain n3 e3 m3 where rl: "Release file_ops (a_leases ?a) i now = (n3, e3, m3)" by (metis prod_cases3)
  have "a_leases a' = m3" using r dc d rl discard_cases(1) [OF dc] by (auto simp: agent_Release_def)
  then show "held (a_leases (sg_agent (sg_release fl sg i now))) = {l \<in> held (a_leases ?a). lID l \<noteq> i}"
    using Release_ok(5) [OF _ rl] ok out by (simp add: agent_ok_def)
qed

lemma stage_bytes_cases:
  assumes ok: "agent_ok (sg_agent sg)" and sz: "0 < ckBytes r" "ckBytes r < max_i64"
    and l: "(stage_lease sg r)\<lparr>lGrantedAt := t\<rparr> \<in> held (a_leases (sg_agent sg))"
    and run: "stage_bytes fl sg r src now = (res, sg')"
  shows "sg_store sg' = sg_store sg" and "sg_term sg' = sg_term sg"
    and "res = Inr written \<Longrightarrow> sg_agent sg' = sg_agent sg \<and> staged_at sg' r (src_bytes src) t
      \<and> written = length (src_bytes src) \<and> \<not> src_fails src"
    and "res = Inl e \<Longrightarrow> sfDiscard fl = DiscardOk \<Longrightarrow> agent_ok (sg_agent sg')
      \<and> held (a_leases (sg_agent sg')) = {l \<in> held (a_leases (sg_agent sg)). lID l \<noteq> ckID r}"
proof -
  have bk: "validLeaseID (ckID r) = None" "map_of (a_dir (sg_agent sg)) (ckID r) = Some (ckBytes r)"
    using ok l by (auto simp: agent_ok_def backed_def stage_lease_def)
  obtain x fs where st: "stageTo fl (sg_files sg) (ckID r) src (ckBytes r) = (x, fs)" by force
  have run': "(res, sg') = (case x of Inl e \<Rightarrow> (Inl e, sg_release fl (sg\<lparr>sg_files := fs\<rparr>) (ckID r) now)
      | Inr written \<Rightarrow> if written = 0 then (Inl ErrNotStaged, sg_release fl (sg\<lparr>sg_files := fs\<rparr>) (ckID r) now)
          else (Inr written, sg\<lparr>sg_files := fs\<rparr>))"
    using run bk st by (simp add: stage_bytes_def ExtentPath_def)
  show "sg_store sg' = sg_store sg" "sg_term sg' = sg_term sg"
    using run' by (auto simp: sg_release_frame split: sum.splits if_splits)
  show "sg_agent sg' = sg_agent sg \<and> staged_at sg' r (src_bytes src) t \<and> written = length (src_bytes src) \<and> \<not> src_fails src"
    if "res = Inr written"
  proof -
    have x: "x = Inr written" "written \<noteq> 0" "sg' = sg\<lparr>sg_files := fs\<rparr>" using run' that by (auto split: sum.splits if_splits)
    note s = stageTo_Inr [OF st [unfolded x(1)] sz]
    show ?thesis using s x l bk by (auto simp: staged_at_def stage_lease_def map_of_update_if)
  qed
  show "agent_ok (sg_agent sg') \<and> held (a_leases (sg_agent sg')) = {l \<in> held (a_leases (sg_agent sg)). lID l \<noteq> ckID r}"
    if "res = Inl e" "sfDiscard fl = DiscardOk"
  proof -
    have "sg' = sg_release fl (sg\<lparr>sg_files := fs\<rparr>) (ckID r) now" using run' that by (auto split: sum.splits if_splits)
    moreover have "\<exists>l\<in>held (a_leases (sg_agent (sg\<lparr>sg_files := fs\<rparr>))). lID l = ckID r" using l by (force simp: stage_lease_def)
    ultimately show ?thesis using sg_release_held [of "sg\<lparr>sg_files := fs\<rparr>" fl "ckID r" now] ok that(2) by simp
  qed
qed

context streaming_store
begin

text \<open>An upload of what was staged: the store has it and the lease is gone, or nothing is lost.\<close>

lemma upload_cases:
  assumes ok: "agent_ok (sg_agent sg)" and gd: "good (sg_store sg)" and st: "staged_at sg r b t"
    and sz: "ckBytes r \<le> max_i64" and run: "upload put fl sg r (length b) now = (e, sg')"
  shows "good (sg_store sg')"
    and "\<forall>x. x \<noteq> ckObject r \<or> contents (sg_store sg) x \<noteq> None \<longrightarrow> e \<noteq> None \<or> x \<noteq> ckObject r
      \<longrightarrow> contents (sg_store sg') x = contents (sg_store sg) x"
    and "e = None \<Longrightarrow> contents (sg_store sg') = (contents (sg_store sg))(ckObject r \<mapsto> b)"
    and "e = None \<Longrightarrow> sfDiscard fl = DiscardOk
      \<Longrightarrow> agent_ok (sg_agent sg') \<and> held (a_leases (sg_agent sg')) = {l \<in> held (a_leases (sg_agent sg)). lID l \<noteq> ckID r}"
    and "e \<noteq> None \<Longrightarrow> sg_agent sg' = sg_agent sg \<and> staged_at sg' r b t"
proof -
  have f: "map_of (sg_files sg) (ckID r) = Some b" "int (length b) \<le> max_i64"
    using st sz by (auto simp: staged_at_def)
  have l: "\<exists>l\<in>held (a_leases (sg_agent sg)). lID l = ckID r" using st by (force simp: staged_at_def stage_lease_def)
  let ?src = "\<lparr>src_bytes = b, src_fails = False\<rparr>"
  have "good (sg_store sg')
    \<and> (\<forall>x. x \<noteq> ckObject r \<or> contents (sg_store sg) x \<noteq> None \<longrightarrow> e \<noteq> None \<or> x \<noteq> ckObject r
      \<longrightarrow> contents (sg_store sg') x = contents (sg_store sg) x)
    \<and> (e = None \<longrightarrow> contents (sg_store sg') = (contents (sg_store sg))(ckObject r \<mapsto> b)
      \<and> (sfDiscard fl = DiscardOk \<longrightarrow> agent_ok (sg_agent sg')
           \<and> held (a_leases (sg_agent sg')) = {l \<in> held (a_leases (sg_agent sg)). lID l \<noteq> ckID r}))
    \<and> (e \<noteq> None \<longrightarrow> sg_agent sg' = sg_agent sg \<and> staged_at sg' r b t)"
  proof (cases "sfReopen fl")
    case False
    then show ?thesis using run gd st by (auto simp: upload_def durable_def)
  next
    case True
    obtain pe w where p: "put (sg_store sg) (ckObject r) ?src (int (length b)) = (pe, w)" by force
    note laws = put_good [OF gd p f(2)] put_keeps [OF gd p f(2)]
    have d: "durable put fl sg r (length b) = (map_option ErrDurable pe, sg\<lparr>sg_store := w\<rparr>)"
      using True f(1) p by (simp add: durable_def)
    show ?thesis
    proof (cases pe)
      case None
      have "contents w = (contents (sg_store sg))(ckObject r \<mapsto> b)" using put_data [OF gd p [unfolded None] f(2)] by simp
      moreover have "e = None" "sg' = sg_release fl (sg\<lparr>sg_store := w\<rparr>) (ckID r) now" using run d None by (simp_all add: upload_def)
      ultimately show ?thesis
        using laws sg_release_held [of "sg\<lparr>sg_store := w\<rparr>" fl "ckID r" now] ok l by (auto simp: sg_release_frame)
    next
      case (Some x)
      then have "e = Some (ErrDurable x)" "sg' = sg\<lparr>sg_store := w\<rparr>" using run d by (simp_all add: upload_def)
      then show ?thesis using laws st by (simp add: staged_at_def stage_lease_def)
    qed
  qed
  then show "good (sg_store sg')"
    "\<forall>x. x \<noteq> ckObject r \<or> contents (sg_store sg) x \<noteq> None \<longrightarrow> e \<noteq> None \<or> x \<noteq> ckObject r
      \<longrightarrow> contents (sg_store sg') x = contents (sg_store sg) x"
    "e = None \<Longrightarrow> contents (sg_store sg') = (contents (sg_store sg))(ckObject r \<mapsto> b)"
    "e = None \<Longrightarrow> sfDiscard fl = DiscardOk
      \<Longrightarrow> agent_ok (sg_agent sg') \<and> held (a_leases (sg_agent sg')) = {l \<in> held (a_leases (sg_agent sg)). lID l \<noteq> ckID r}"
    "e \<noteq> None \<Longrightarrow> sg_agent sg' = sg_agent sg \<and> staged_at sg' r b t" by auto
qed

text \<open>
  How a call of \<open>Stage\<close> ends, on a node whose system calls for giving an extent back work.
\<close>

lemma Stage_cases:
  assumes ok: "agent_ok (sg_agent sg)" and gd: "good (sg_store sg)" and sz: "ckBytes r < max_i64" "in_i64 (ckBytes r)"
    and fl: "sfDiscard fl = DiscardOk" and run: "Stage put fl sg r src now = (res, sg')"
  obtains
    (durable) "res = Inr Durable" "ack_WithDefault (ckAck r) = Durable" "agent_ok (sg_agent sg')"
      "contents (sg_store sg') = (contents (sg_store sg))(ckObject r \<mapsto> src_bytes src)" "\<not> src_fails src"
      "held (a_leases (sg_agent sg')) = held (a_leases (sg_agent sg))"
  | (staged) "res = Inr Staged" "ack_WithDefault (ckAck r) = Staged" "agent_ok (sg_agent sg')"
      "staged_at sg' r (src_bytes src) now" "\<not> src_fails src" "sg_store sg' = sg_store sg"
      "sg_pending sg' = sg_pending sg @ [(r, length (src_bytes src))]"
      "held (a_leases (sg_agent sg')) = insert ((stage_lease sg r)\<lparr>lGrantedAt := now\<rparr>) (held (a_leases (sg_agent sg)))"
  | (refused) e where "res = Inl e" "agent_ok (sg_agent sg')" "sg_store sg' = sg_store sg"
      "held (a_leases (sg_agent sg')) = held (a_leases (sg_agent sg))"
  | (not_uploaded) e where "res = Inl e" "agent_ok (sg_agent sg')" "staged_at sg' r (src_bytes src) now"
      "\<forall>x. x \<noteq> ckObject r \<or> contents (sg_store sg) x \<noteq> None \<longrightarrow> contents (sg_store sg') x = contents (sg_store sg) x"
  | (cut) "res = Inl ErrContext" "sfCut fl" "agent_ok (sg_agent sg')"
      "contents (sg_store sg') = (contents (sg_store sg))(ckObject r \<mapsto> src_bytes src)"
      "held (a_leases (sg_agent sg')) = held (a_leases (sg_agent sg))"
proof -
  let ?ack = "ack_WithDefault (ckAck r)" and ?a = "sg_agent sg" and ?l = "stage_lease sg r"
  consider (early) e where "(res, sg') = (Inl e, sg)"
    | (go) "ck_check r = None" "ack_Survives ?ack \<noteq> None"
        "ck_Check \<lparr>rvBytes = ckBytes r, rvClass = Guaranteed\<rparr> (GuaranteedFree (a_leases ?a)) = None"
    using run by (auto simp: Stage_def Let_def split: option.splits if_splits)
  then show thesis
  proof cases
    case early
    then show ?thesis using refused ok by auto
  next
    case go
    have pos: "0 < ckBytes r" using go(3) by (auto simp: ck_Check_def split: if_splits)
    have ack: "?ack = Durable \<or> ?ack = Staged" using go(2) by (auto simp: ack_Survives_def split: if_splits)
    obtain ge a where g: "Grant (sfAlloc fl) ?a ?l now = (ge, a)" by force
    have lsz: "in_i64 (lSize ?l)" using sz by (simp add: stage_lease_def)
    note gc = Grant_cases [OF ok lsz g]
    show ?thesis
    proof (cases ge)
      case (Some x)
      then have "res = Inl (ErrReserve x)" "sg' = sg\<lparr>sg_agent := a\<rparr>" using run go g by (auto simp: Stage_def Let_def)
      then show ?thesis using refused gc Some by auto
    next
      case None
      note gn = gc(2) [OF None]
      let ?sg = "sg\<lparr>sg_agent := a\<rparr>"
      have in_held: "(stage_lease ?sg r)\<lparr>lGrantedAt := now\<rparr> \<in> held (a_leases (sg_agent ?sg))"
        using gn by (simp add: stage_lease_def)
      have fresh: "{l \<in> held (a_leases a). lID l \<noteq> ckID r} = held (a_leases ?a)"
      proof -
        have "\<forall>l\<in>held (a_leases ?a). lID l \<noteq> ckID r"
          using gn ok by (auto simp: agent_ok_def backed_def stage_lease_def)
        then show ?thesis using gn by (auto simp: stage_lease_def)
      qed
      obtain sr sg1 where sb: "stage_bytes fl ?sg r src now = (sr, sg1)" by force
      have ok1: "agent_ok (sg_agent ?sg)" using gc(1) by simp
      note sc = stage_bytes_cases [OF ok1 pos sz(1) in_held sb]
      show ?thesis
      proof (cases sr)
        case (Inl e)
        then have "res = Inl e" "sg' = sg1" using run go g None sb by (auto simp: Stage_def Let_def)
        then show ?thesis using refused [of e] sc(1) sc(4) [OF Inl fl] fresh by simp
      next
        case (Inr written)
        note s = sc(3) [OF Inr]
        have ok2: "agent_ok (sg_agent sg1)" "good (sg_store sg1)" using s sc(1) gc(1) gd by simp_all
        have run2: "(res, sg') = (if ?ack = Durable
            then (case upload put fl sg1 r written now of
                    (e, sg2) \<Rightarrow> (if sfCut fl then Inl ErrContext else case e of Some x \<Rightarrow> Inl x | None \<Rightarrow> Inr ?ack, sg2))
            else (Inr ?ack, sg1\<lparr>sg_pending := sg_pending sg1 @ [(r, written)]\<rparr>))"
          using run go g None sb Inr by (simp add: Stage_def Let_def)
        show ?thesis
        proof (cases "?ack = Durable")
          case True
          obtain e sg2 where u: "upload put fl sg1 r written now = (e, sg2)" by force
          have w: "written = length (src_bytes src)" using s by simp
          note uc = upload_cases [OF ok2 conjunct1 [OF conjunct2 [OF s]] _ u [unfolded w]]
          have le: "ckBytes r \<le> max_i64" using sz by simp
          have out: "sg' = sg2" "res = (if sfCut fl then Inl ErrContext else case e of Some x \<Rightarrow> Inl x | None \<Rightarrow> Inr Durable)"
            using run2 True u by (cases e; auto)+
          have store: "sg_store sg1 = sg_store sg" using sc(1) by simp
          show ?thesis
          proof (cases e)
            case None
            have h: "agent_ok (sg_agent sg')" "held (a_leases (sg_agent sg')) = held (a_leases ?a)"
              "contents (sg_store sg') = (contents (sg_store sg))(ckObject r \<mapsto> src_bytes src)"
              using uc(3,4) [OF le None] fl s fresh out(1) store by simp_all
            then show ?thesis
              using durable cut out None True s by (cases "sfCut fl") auto
          next
            case (Some x)
            have "\<exists>e. res = Inl e" using out Some by auto
            moreover have "agent_ok (sg_agent sg')" "staged_at sg' r (src_bytes src) now"
              "\<forall>x. x \<noteq> ckObject r \<or> contents (sg_store sg) x \<noteq> None \<longrightarrow> contents (sg_store sg') x = contents (sg_store sg) x"
              using uc(2) [OF le] uc(5) [OF le] Some ok2 out(1) store by auto
            ultimately show ?thesis using not_uploaded by blast
          qed
        next
          case False
          have pend: "sg_pending sg1 = sg_pending sg"
            using sb Inr by (auto simp: stage_bytes_def split: sum.splits prod.splits if_splits)
          have "res = Inr Staged" "sg' = sg1\<lparr>sg_pending := sg_pending sg @ [(r, length (src_bytes src))]\<rparr>"
            using run2 False ack s pend by auto
          then show ?thesis
            using staged [OF _ _ _ _ _ _ _] False ack s sc(1) gn ok2 by (auto simp: staged_at_def stage_lease_def)
        qed
      qed
    qed
  qed
qed

end

section \<open>The backend as a store\<close>

definition file_backend :: "fstore backend \<Rightarrow> bool" where
  "file_backend b \<longleftrightarrow> b_streamer b = Some fd_WriteObjectFrom"

definition backend_contents :: "fstore backend \<Rightarrow> string \<Rightarrow> bytes option" where
  "backend_contents b = fd_contents (b_store b)"

interpretation durable_files: streaming_store b_WriteObjectFrom backend_contents file_backend
proof
  fix b :: "fstore backend" and obj src n e b'
  assume gd: "file_backend b" and run: "b_WriteObjectFrom b obj src n = (e, b')" and n: "n \<le> max_i64"
  show "file_backend b'"
    using gd run by (auto simp: file_backend_def b_WriteObjectFrom_def split: if_splits prod.splits)
  show "\<forall>x. x \<noteq> obj \<or> backend_contents b x \<noteq> None \<longrightarrow> backend_contents b' x = backend_contents b x"
  proof (cases "b_Supports b WriteStream_cap \<and> 0 \<le> n")
    case True
    obtain we w where w: "fd_WriteObjectFrom (b_store b) obj src n = (we, w)" by force
    have "b_store b' = w" using run gd True w by (auto simp: file_backend_def b_WriteObjectFrom_def)
    then have "backend_contents b' = fd_contents w" "backend_contents b = fd_contents (b_store b)"
      by (simp_all add: backend_contents_def)
    moreover have "fd_contents w x = fd_contents (b_store b) x" if "x \<noteq> obj \<or> fd_contents (b_store b) x \<noteq> None" for x
      using fd_stream_contents [OF w n] that by (metis fun_upd_other)
    ultimately show ?thesis by simp
  next
    case False
    then have "b' = b" using run gd by (auto simp: file_backend_def b_WriteObjectFrom_def split: if_splits)
    then show ?thesis by simp
  qed
next
  fix b :: "fstore backend" and obj src n b'
  assume gd: "file_backend b" and run: "b_WriteObjectFrom b obj src n = (None, b')" and n: "n \<le> max_i64"
  obtain we w where w: "fd_WriteObjectFrom (b_store b) obj src n = (we, w)" by force
  have "b_store b' = w" "we = None" using run gd w by (auto simp: file_backend_def b_WriteObjectFrom_def split: if_splits)
  then show "backend_contents b' = (backend_contents b)(obj \<mapsto> src_bytes src) \<and> int (length (src_bytes src)) = n"
    using fd_stream_contents [OF w n] by (simp add: backend_contents_def)
qed

section \<open>Reclaiming around a staged checkpoint\<close>

text \<open>No reclaim takes a guaranteed lease before its term is over, nor its extent.\<close>

lemma ReclaimCapacity_keeps_guaranteed:
  assumes ok: "agent_ok a" and need: "in_i64 need" and run: "ReclaimCapacity fls el a need now = (rec, e, a')"
    and l: "l \<in> held (a_leases a)" "lClass l = Guaranteed" "\<not> Expired l now"
  shows "l \<in> held (a_leases a')" and "map_of (a_dir a') (lID l) = map_of (a_dir a) (lID l)"
proof -
  obtain res m where r: "Reclaim file_ops (a_leases a) need now = (res, m)" by force
  obtain failed a1 where d: "discard_loop fls (a\<lparr>a_leases := m\<rparr>) (Dropped res) [] = (failed, a1)" by force
  have a': "a' = a1" using run r d by (auto simp: ReclaimCapacity_def Let_def)
  note dl = discard_loop_cases [OF d]
  have mok: "mgr_ok (a_leases a)" using ok by (simp add: agent_ok_def)
  have h: "l \<in> held m"
  proof (cases "0 < need")
    case True
    then show ?thesis using Reclaim_promise(4) [OF mok _ need r] l by blast
  next
    case False
    then show ?thesis using r l by (simp add: Reclaim_nonpos)
  qed
  then show "l \<in> held (a_leases a')" using dl a' by simp
  have "validLeaseID (lID l) = None" using ok l by (auto simp: agent_ok_def backed_def)
  moreover have "lID l \<notin> set (Dropped res)"
  proof (cases "0 < need")
    case True
    obtain es ts where tk: "reclaim_takes (a_leases a) need now = (es, ts)" by force
    note c = Reclaim_closed [OF mok True need r tk] and th = reclaim_takes_held [OF mok tk]
    have "held m = held (forget (a_leases a) (es @ ts))" using c(7) by (simp add: held_def)
    then show ?thesis using h c(2) by (auto simp: held_forget [OF mok])
  next
    case False
    then show ?thesis using r by (auto simp: Reclaim_nonpos no_result_def)
  qed
  ultimately show "map_of (a_dir a') (lID l) = map_of (a_dir a) (lID l)"
    using discard_loop_cases [OF d, of "lID l"] a' by simp
qed

text \<open>Once its term is over the next reclaim of any size takes it, upload or no upload.\<close>

lemma ReclaimCapacity_takes_expired:
  assumes ok: "agent_ok a" and need: "0 < need" "in_i64 need" and run: "ReclaimCapacity [] el a need now = (rec, e, a')"
    and l: "l \<in> held (a_leases a)" "Expired l now"
  shows "l \<notin> held (a_leases a')" and "map_of (a_dir a') (lID l) = None"
proof -
  obtain res m where r: "Reclaim file_ops (a_leases a) need now = (res, m)" by force
  obtain failed a1 where d: "discard_loop [] (a\<lparr>a_leases := m\<rparr>) (Dropped res) [] = (failed, a1)" by force
  have a': "a' = a1" "rcResult rec = res" using run r d by (auto simp: ReclaimCapacity_def Let_def)
  have mok: "mgr_ok (a_leases a)" using ok by (simp add: agent_ok_def)
  show "l \<notin> held (a_leases a')" using Reclaim_promise(7) [OF mok need r] l discard_loop_cases [OF d] a' by auto
  obtain es ts where tk: "reclaim_takes (a_leases a) need now = (es, ts)" by force
  have "l \<in> set es" using reclaim_takes_split(1) [OF tk] l by simp
  then have "lID l \<in> set (Dropped res)" using Reclaim_closed(2) [OF mok need r tk] by simp
  then show "map_of (a_dir a') (lID l) = None"
    using ReclaimCapacity_ok(2) [OF ok need(2) run refl] a'(2) by blast
qed

end
