(* ===== verification/Plane_Claims.thy ===== *)
theory Plane_Claims
  imports Node_Claims Lineage Controller Checkpoint
begin

text \<open>
  What the control plane and the services around a node promise: proposals over the wire are
  answered as the node decided and may be sent again; a planning pass stays within its share of
  what a node has free; statuses settle; an administrator's floor only strengthens; a checkpoint is
  durable or held when it is acknowledged; and lineage answers are exact.
\<close>

section \<open>Proposing leases\<close>

text \<open>
  C24. A proposal that arrives with the right token is answered as the node decided: a
  grant means the lease is held and backed by its extent, a fresh grant added exactly that lease, and
  anything else left the leases as they were. If it was granted and the answer was lost, the
  same proposal sent again is answered as held already and changes nothing. With another
  token nothing happens.
\<close>

theorem proposal_decided:
  assumes "agent_ok a" "in_i64 (pBytes p)" "proposal_Lease p = Inr l" "k \<le> 65536"
    and "client_Propose tr (\<lambda>a r. api_Handler token fl a r now) token (k, Some p) a = (d, a')"
  shows "agent_ok a'
    \<and> (dGranted d \<longrightarrow> (\<exists>h\<in>held (a_leases a'). lID h = pID p \<and> map_of (a_dir a') (pID p) = Some (lSize h)))
    \<and> (dGranted d \<and> \<not> dAlready d \<longrightarrow> held (a_leases a') = insert (l\<lparr>lGrantedAt := now\<rparr>) (held (a_leases a)))
    \<and> (tr \<noteq> AnswerLost \<and> (dAlready d \<or> \<not> dGranted d) \<longrightarrow> held (a_leases a') = held (a_leases a))
    \<and> (held (a_leases a') \<noteq> held (a_leases a) \<longrightarrow>
         (case client_Propose Reached (\<lambda>a r. api_Handler token fl2 a r later) token (k, Some p) a' of
            (d2, a2) \<Rightarrow> dGranted d2 \<and> dAlready d2 \<and> held (a_leases a2) = held (a_leases a') \<and> a_dir a2 = a_dir a'))
    \<and> (wrong \<noteq> token \<longrightarrow>
         client_Propose Reached (\<lambda>a r. api_Handler token fl a r now) wrong (k, Some p) a = (refuse Malformed, a))"
proof -
  note pf = proposal_Lease_fields [OF assms(3)]
  have sz: "in_i64 (lSize l)" using pf assms(2) by simp
  obtain e a1 where g: "Grant (fAlloc fl) a l now = (e, a1)" by force
  note dt = decide_truthful [OF assms(1) sz g]
  have again: "decide fl2 a1 l later = \<lparr>dGranted = True, dAlready = True, dRefusal = NoRefusal\<rparr>
      \<and> snd (Grant (fAlloc fl2) a1 l later) = a1\<lparr>a_leases := prune (a_leases a1) later\<rparr>"
    if "held (a_leases a1) \<noteq> held (a_leases a)"
  proof -
    have "e = None" using Grant_cases(3) [OF assms(1) sz g] that by blast
    then show ?thesis using propose_again [OF assms(1) sz pf(5)] g by simp
  qed
  have retry: "held (a_leases a1) \<noteq> held (a_leases a) \<longrightarrow>
      (case client_Propose Reached (\<lambda>a r. api_Handler token fl2 a r later) token (k, Some p) a1 of
         (d2, a2) \<Rightarrow> dGranted d2 \<and> dAlready d2 \<and> held (a_leases a2) = held (a_leases a1) \<and> a_dir a2 = a_dir a1)"
    using again propose_over_wire(1) [OF assms(3,4), of token fl2 later a1] by simp
  have wrong: "wrong \<noteq> token \<longrightarrow>
      client_Propose Reached (\<lambda>a r. api_Handler token fl a r now) wrong (k, Some p) a = (refuse Malformed, a)"
  proof
    let ?r = "send wrong ''POST'' [''leases''] (Body k (Some p))"
    assume "wrong \<noteq> token"
    moreover have "rMethod ?r = ''POST''" "rPath ?r = [''leases'']" by (simp_all add: send_def)
    ultimately show "client_Propose Reached (\<lambda>a r. api_Handler token fl a r now) wrong (k, Some p) a = (refuse Malformed, a)"
      by (simp add: client_Propose_def api_Handler_def guard_def)
  qed
  have no: "dGranted (refuse Unavailable) = False" "dAlready (refuse Unavailable) = False" by (simp_all add: refuse_def)
  show ?thesis
  proof (cases tr)
    case Reached
    then have out: "d = decide fl a l now" "a' = a1"
      using assms(5) propose_over_wire(1) [OF assms(3,4), of token fl now a] g by simp_all
    show ?thesis unfolding out
    proof (intro conjI impI retry [rule_format] wrong [rule_format] dt(1))
      assume "dGranted (decide fl a l now)"
      from dt(2) [OF this] show "\<exists>h\<in>held (a_leases a1). lID h = pID p \<and> map_of (a_dir a1) (pID p) = Some (lSize h)"
        unfolding pf(1) .
    next
      assume "dGranted (decide fl a l now) \<and> \<not> dAlready (decide fl a l now)"
      then show "held (a_leases a1) = insert (l\<lparr>lGrantedAt := now\<rparr>) (held (a_leases a))" using dt(3) by simp
    next
      assume "tr \<noteq> AnswerLost \<and> (dAlready (decide fl a l now) \<or> \<not> dGranted (decide fl a l now))"
      then show "held (a_leases a1) = held (a_leases a)" using dt(4) by simp
    qed
  next
    case NotReached
    then have out: "d = refuse Unavailable" "a' = a" using assms(5) by (simp_all add: client_Propose_def)
    have "held (a_leases a) \<noteq> held (a_leases a) \<longrightarrow> X" for X by simp
    then show ?thesis unfolding out no simp_thms by (intro conjI wrong assms(1))
  next
    case AnswerLost
    then have out: "d = refuse Unavailable" "a' = a1"
      using assms(5) propose_over_wire(2) [OF assms(3,4), of token fl now a] g by simp_all
    show ?thesis unfolding out no AnswerLost simp_thms by (intro conjI wrong retry dt(1))
  qed
qed

definition demo_proposal :: proposal where
  "demo_proposal = \<lparr>pID = ''forebay-tier-u'', pTenant = ''u'', pClass = ''elastic'', pBytes = 5, pTerm = ''24h''\<rparr>"

definition demo_faults :: api_faults where
  "demo_faults = \<lparr>fAlloc = AllocOk, fDiscard = DiscardOk\<rparr>"

lemma demo_term: "ParseDuration ''24h'' = Some 86400000000000"
proof -
  have "unitMap ''h'' = Some 3600000000000" by (simp add: unitMap_def)
  moreover have "dec_nat 24 @ ''h'' = ''24h''" by code_simp
  moreover have "list_all (\<lambda>c. \<not> unit_end c) ''h''" by (simp add: unit_end_def is_digit_def)
  ultimately show ?thesis using ParseDuration_whole [of "''h''" 3600000000000 24] by (simp add: max_i64_def)
qed

definition demo_offer :: lease where
  "demo_offer = \<lparr>lID = ''forebay-tier-u'', lTenant = ''u'', lClass = Elastic, lSize = 5, lGrantedAt = 0, lTerm = 86400000000000\<rparr>"

lemma demo_proposal_Lease: "proposal_Lease demo_proposal = Inr demo_offer"
  by (simp add: demo_proposal_def proposal_Lease_def ParseClass_def demo_term demo_offer_def)

lemma demo_offer_granted: "fst (Grant AllocOk demo_agent demo_offer 8) = None"
  by code_simp

theorem proposal_decided_witness:
  "let lost = client_Propose AnswerLost (\<lambda>a r. api_Handler ''tok'' demo_faults a r 8) ''tok'' (100, Some demo_proposal) demo_agent;
       again = client_Propose Reached (\<lambda>a r. api_Handler ''tok'' demo_faults a r 9) ''tok'' (100, Some demo_proposal) (snd lost)
   in fst lost = refuse Unavailable \<and> dGranted (fst again) \<and> dAlready (fst again)
      \<and> held (a_leases (snd again)) = insert (demo_offer\<lparr>lGrantedAt := 8\<rparr>) (held (a_leases demo_agent))"
proof -
  have p: "in_i64 (pBytes demo_proposal)" "(100::nat) \<le> 65536" by (simp_all add: demo_proposal_def i64_defs)
  obtain a1 where g: "Grant AllocOk demo_agent demo_offer 8 = (None, a1)" using demo_offer_granted by (cases "Grant AllocOk demo_agent demo_offer 8") auto
  have al: "fAlloc demo_faults = AllocOk" by (simp add: demo_faults_def)
  have lost: "client_Propose AnswerLost (\<lambda>a r. api_Handler ''tok'' demo_faults a r 8) ''tok'' (100, Some demo_proposal) demo_agent
      = (refuse Unavailable, a1)"
    using propose_over_wire(2) [OF demo_proposal_Lease p(2)] g al by simp
  have h: "held (a_leases a1) = insert (demo_offer\<lparr>lGrantedAt := 8\<rparr>) (held (a_leases demo_agent))"
    and new: "demo_offer\<lparr>lGrantedAt := 8\<rparr> \<notin> held (a_leases demo_agent)"
  proof -
    have sz: "in_i64 (lSize demo_offer)" by (simp add: demo_offer_def i64_defs)
    note c = Grant_cases(2) [OF demo_agent_ok sz g refl]
    show "held (a_leases a1) = insert (demo_offer\<lparr>lGrantedAt := 8\<rparr>) (held (a_leases demo_agent))" using c by simp
    show "demo_offer\<lparr>lGrantedAt := 8\<rparr> \<notin> held (a_leases demo_agent)"
      using c demo_agent_ok by (auto simp: agent_ok_def backed_def)
  qed
  obtain d2 a2 where again: "client_Propose Reached (\<lambda>a r. api_Handler ''tok'' demo_faults a r 9) ''tok'' (100, Some demo_proposal) a1 = (d2, a2)"
    by force
  have "held (a_leases a1) \<noteq> held (a_leases demo_agent)" using h new by blast
  then have "dGranted d2 \<and> dAlready d2 \<and> held (a_leases a2) = held (a_leases a1)"
    using proposal_decided [OF demo_agent_ok p(1) demo_proposal_Lease p(2) lost, of demo_faults 9 "''tok''"] again by simp
  then show ?thesis using h by (simp add: lost again Let_def)
qed

text \<open>
  C29. A release answered as done has removed the extent and the lease and nothing else,
  as long as unlinking works. After an unlink that failed, the lease is still held, and the same
  release sent again is answered as done without touching it.
\<close>

theorem release_truthful:
  assumes "agent_ok a"
  shows "(fDiscard fl \<noteq> RemoveFails \<longrightarrow> rsStatus (fst (server_release fl a i now)) = 204 \<longrightarrow>
       agent_ok (snd (server_release fl a i now)) \<and> map_of (a_dir (snd (server_release fl a i now))) i = None
       \<and> held (a_leases (snd (server_release fl a i now))) \<inter> {l. lID l = i} = {}
       \<and> {l \<in> held (a_leases a). lID l \<noteq> i} \<subseteq> held (a_leases (snd (server_release fl a i now))))
    \<and> (fDiscard fl = RemoveFails \<longrightarrow> l \<in> held (a_leases a) \<longrightarrow>
       (case server_release fl a (lID l) now of (r, a1) \<Rightarrow> rsStatus r = 500
          \<and> rsStatus (fst (server_release fl2 a1 (lID l) later)) = 204
          \<and> map_of (leases (a_leases (snd (server_release fl2 a1 (lID l) later)))) (lID l) = Some l))"
proof (intro conjI impI)
  assume fl: "fDiscard fl \<noteq> RemoveFails" and s: "rsStatus (fst (server_release fl a i now)) = 204"
  obtain r a' where r: "server_release fl a i now = (r, a')" by force
  have "rsStatus r = 204" using s r by simp
  note d = release_done [OF assms fl r this]
  show "agent_ok (snd (server_release fl a i now))" "map_of (a_dir (snd (server_release fl a i now))) i = None"
    "held (a_leases (snd (server_release fl a i now))) \<inter> {l. lID l = i} = {}"
    "{l \<in> held (a_leases a). lID l \<noteq> i} \<subseteq> held (a_leases (snd (server_release fl a i now)))"
    using d r by auto
next
  assume fl: "fDiscard fl = RemoveFails" and l: "l \<in> held (a_leases a)"
  obtain r a1 where r: "server_release fl a (lID l) now = (r, a1)" by force
  have b: "validLeaseID (lID l) = None" "map_of (a_dir a) (lID l) = Some (lSize l)" "map_of (leases (a_leases a)) (lID l) = Some l"
    using assms l mgr_ok_lookup [of "a_leases a" "lID l" l] by (auto simp: agent_ok_def backed_def)
  show "case server_release fl a (lID l) now of (r, a1) \<Rightarrow> rsStatus r = 500
      \<and> rsStatus (fst (server_release fl2 a1 (lID l) later)) = 204
      \<and> map_of (leases (a_leases (snd (server_release fl2 a1 (lID l) later)))) (lID l) = Some l"
    using release_done_but_held [OF b fl r] r by simp
qed

lemma demo_agent_held: "demo_lease ''a'' Opportunistic 40 \<in> held (a_leases demo_agent)"
  by code_simp

theorem release_truthful_witness:
  "case server_release (demo_faults\<lparr>fDiscard := RemoveFails\<rparr>) demo_agent ''a'' 9 of
     (r, a1) \<Rightarrow> rsStatus r = 500 \<and> rsStatus (fst (server_release demo_faults a1 ''a'' 10)) = 204"
proof -
  have i: "lID (demo_lease ''a'' Opportunistic 40) = ''a''" by (simp add: demo_lease_def)
  show ?thesis
    using release_truthful [OF demo_agent_ok, of "demo_faults\<lparr>fDiscard := RemoveFails\<rparr>" "''a''" 9 "demo_lease ''a'' Opportunistic 40" demo_faults 10]
      demo_agent_held by (auto simp: i split: prod.splits)
qed

section \<open>The controller\<close>

lemma node_cap_free: "node_ready n \<Longrightarrow> node_cap token n = (Inr c, n1) \<Longrightarrow> cFree c = Free (acct (a_leases (ln_agent n)))"
  using client_Capacity_node [OF this_turn_heard, of n]
  by (auto simp: node_cap_def Let_def server_capacity_def split: prod.splits if_splits)

text \<open>
  C25. A planning pass over nodes whose answers are heard lends on each node at most
  the configured share of what that node had free, whatever fails on the way, and leaves every
  node's accounts in order.
\<close>

theorem plan_within_share:
  assumes "plan_propose (node_cap token) (node_ask token) share want ns = (g, r, fd, ns')" "\<forall>kn\<in>set ns. node_ready (snd kn)"
  shows "map fst ns' = map fst ns \<and> list_all2 (\<lambda>kn kn'. node_ready (snd kn') \<and> node_lent (snd kn) \<le> node_lent (snd kn')
    \<and> node_lent (snd kn') - node_lent (snd kn)
        \<le> max 0 (i64_of_f64 (f64_mul (f64_of_int (Free (acct (a_leases (ln_agent (snd kn)))))) share))) ns ns'"
proof -
  have r: "\<forall>(k, n)\<in>set ns. node_ready n" using assms(2) by auto
  note p = node.plan_propose_share [OF assms(1) r]
  show ?thesis
  proof
    show "map fst ns' = map fst ns" using p by simp
    show "list_all2 (\<lambda>kn kn'. node_ready (snd kn') \<and> node_lent (snd kn) \<le> node_lent (snd kn')
      \<and> node_lent (snd kn') - node_lent (snd kn)
        \<le> max 0 (i64_of_f64 (f64_mul (f64_of_int (Free (acct (a_leases (ln_agent (snd kn)))))) share))) ns ns'"
    proof (rule list.rel_mono_strong [OF conjunct2 [OF p]])
      fix kn kn' assume k: "kn \<in> set ns" and w: "(case kn of (k, n) \<Rightarrow> \<lambda>(k', n'). node.within_share token share n n') kn'"
      have n: "node_ready (snd kn)" using k assms(2) by blast
      have "node.within_share token share (snd kn) (snd kn')" using w by (simp add: case_prod_unfold)
      then show "node_ready (snd kn') \<and> node_lent (snd kn) \<le> node_lent (snd kn') \<and> node_lent (snd kn') - node_lent (snd kn)
          \<le> max 0 (i64_of_f64 (f64_mul (f64_of_int (Free (acct (a_leases (ln_agent (snd kn)))))) share))"
        using node_cap_free [OF n] by (auto simp: node.within_share_def plan_budget_def)
    qed
  qed
qed

definition demo_node :: lease_node where
  "demo_node = \<lparr>ln_agent = demo_agent, ln_turns = [\<lparr>tTransport = NotReached, tLength = 0, tIntact = True, tFaults = demo_faults, tNow = 8\<rparr>]\<rparr>"

theorem plan_within_share_witness:
  "case plan_propose (node_cap ''tok'') (node_ask ''tok'') (1 / 2) [\<lparr>dmTenant = ''u'', dmBytes = 5\<rparr>] [(''n'', demo_node)] of
     (g, r, fd, ns') \<Rightarrow> map fst ns' = [''n'']
       \<and> list_all2 (\<lambda>kn kn'. node_ready (snd kn') \<and> node_lent (snd kn) \<le> node_lent (snd kn')) [(''n'', demo_node)] ns'"
proof -
  obtain g r fd ns' where p: "plan_propose (node_cap ''tok'') (node_ask ''tok'') (1 / 2) [\<lparr>dmTenant = ''u'', dmBytes = 5\<rparr>]
      [(''n'', demo_node)] = (g, r, fd, ns')" by (metis prod_cases4)
  have "\<forall>kn\<in>set [(''n'', demo_node)]. node_ready (snd kn)"
    using demo_agent_ok by (simp add: node_ready_def demo_node_def)
  note w = plan_within_share [OF p this]
  have "list_all2 (\<lambda>kn kn'. node_ready (snd kn') \<and> node_lent (snd kn) \<le> node_lent (snd kn')) [(''n'', demo_node)] ns'"
    using conjunct2 [OF w] by (rule list_all2_mono) blast
  then show ?thesis using w p by simp
qed


definition demo_dataset :: dataset where
  "demo_dataset = \<lparr>dMetadata = \<lparr>mdName = ''d'', mdNamespace = ''u'', mdGeneration = 1\<rparr>,
     dSpec = \<lparr>spIntent = \<lparr>iDurability = '''', iLatency = ''cached'', iCost = ''''\<rparr>, spObject = ''o''\<rparr>, dStatus = None\<rparr>"



text \<open>
  When the status a dataset is due has an empty field that the recorded status has
  not, the merge patch leaves the field as it is: the recorded status never becomes the one due, and
  every pass writes the same patch again.
\<close>

theorem statuses_restless:
  assumes "due_status sized r d = Some st" "merge_status (dStatus d) st \<noteq> st"
  shows "\<exists>d'. reconcile_datasets sized r (\<lambda>_. Patched) [d] = (1, [], [d']) \<and> dStatus d' \<noteq> Some st
    \<and> reconcile_datasets sized r (\<lambda>_. Patched) [d'] = (1, [], [d'])"
  using reconcile_restless [OF assms] by blast

definition demo_stale :: dataset where
  "demo_stale = demo_dataset\<lparr>dStatus := Some \<lparr>stPresent = False, stBytes = 0, stReason = Some ErrStore, stSatisfiable = False,
     stUnsatisfiable = Some ErrNoBackend, stRaisedTo = '''', stObservedGeneration = 1\<rparr>\<rparr>"

definition demo_due :: dataset_status where
  "demo_due = \<lparr>stPresent = True, stBytes = 7, stReason = None, stSatisfiable = False,
     stUnsatisfiable = Some ErrNoBackend, stRaisedTo = '''', stObservedGeneration = 1\<rparr>"

section \<open>Intents\<close>

text \<open>
  A floor raises a valid declaration to the larger of the two durabilities, leaves
  latency and cost as declared, and applying it twice is applying it once; where the raised declaration
  can be met, the user's own could be met as well.
\<close>

theorem floor_only_raises:
  assumes "intent_Validate i = None"
  shows "durabilityRank (iDurability (floor_Apply f i))
      = Some (max (rank_or_zero (iDurability (intent_WithDefaults i))) (rank_or_zero (fDurability f)))
    \<and> iLatency (floor_Apply f i) = iLatency (intent_WithDefaults i) \<and> iCost (floor_Apply f i) = iCost (intent_WithDefaults i)
    \<and> intent_Validate (floor_Apply f i) = None \<and> floor_Apply f (floor_Apply f i) = floor_Apply f i
    \<and> (intent_Resolve (floor_Apply f i) bo fl = None \<longrightarrow> intent_Resolve i bo fl = None)"
proof -
  obtain n where n: "durabilityRank (iDurability (intent_WithDefaults i)) = Some n" using valid_rank [OF assms] by blast
  then have r: "rank_or_zero (iDurability (intent_WithDefaults i)) = n" by (simp add: rank_or_zero_def)
  note a = Apply_raises [OF n, of f]
  have "floor_Apply f (floor_Apply f i) = floor_Apply f i"
  proof -
    let ?j = "floor_Apply f i"
    have m: "durabilityRank (iDurability (intent_WithDefaults ?j)) = Some (max n (rank_or_zero (fDurability f)))" using a(1) by simp
    show ?thesis using Apply_raises(2-4) [OF m, of f] by (intro intent.equality) simp_all
  qed
  then show ?thesis using a r assms Resolve_Apply(1) [of f i bo fl] by auto
qed

section \<open>Checkpoints\<close>

text \<open>
  C23. Staging over a backend of files, on a node that can give extents back. A
  durable acknowledgement means the store holds exactly the bytes that were sent and no lease is left;
  a staged one that a guaranteed lease of the size asked for holds exactly those bytes. A failure
  leaves the leases as they were, or, when the upload failed, the lease with the bytes. No object that
  existed and no other object is touched, unless the bytes were made durable under its name.
\<close>

theorem checkpoint_acknowledged:
  assumes "agent_ok (sg_agent sg)" "file_backend (sg_store sg)" "in_i64 (ckBytes r)" "ckBytes r < max_i64"
    and "sfDiscard fl = DiscardOk" "Stage b_WriteObjectFrom fl sg r src now = (res, sg')"
  shows "agent_ok (sg_agent sg')
    \<and> (case res of
         Inr ack \<Rightarrow> ack = ack_WithDefault (ckAck r) \<and> \<not> src_fails src
           \<and> (ack = Durable \<and> backend_contents (sg_store sg') = (backend_contents (sg_store sg))(ckObject r \<mapsto> src_bytes src)
                \<and> held (a_leases (sg_agent sg')) = held (a_leases (sg_agent sg))
              \<or> ack = Staged \<and> staged_at sg' r (src_bytes src) now \<and> sg_store sg' = sg_store sg
                \<and> sg_pending sg' = sg_pending sg @ [(r, length (src_bytes src))])
       | Inl e \<Rightarrow> held (a_leases (sg_agent sg')) = held (a_leases (sg_agent sg)) \<or> staged_at sg' r (src_bytes src) now)
    \<and> (\<forall>x. x \<noteq> ckObject r \<or> backend_contents (sg_store sg) x \<noteq> None \<longrightarrow>
         backend_contents (sg_store sg') x = backend_contents (sg_store sg) x
         \<or> x = ckObject r \<and> backend_contents (sg_store sg') x = Some (src_bytes src))"
proof -
  note c = durable_files.Stage_cases [OF assms(1,2,4,3,5,6)]
  show ?thesis
  proof (rule c)
    assume "res = Inr Durable" "ack_WithDefault (ckAck r) = Durable" "agent_ok (sg_agent sg')"
      "backend_contents (sg_store sg') = (backend_contents (sg_store sg))(ckObject r \<mapsto> src_bytes src)" "\<not> src_fails src"
      "held (a_leases (sg_agent sg')) = held (a_leases (sg_agent sg))"
    then show ?thesis by simp
  next
    assume "res = Inr Staged" "ack_WithDefault (ckAck r) = Staged" "agent_ok (sg_agent sg')"
      "staged_at sg' r (src_bytes src) now" "\<not> src_fails src" "sg_store sg' = sg_store sg"
      "sg_pending sg' = sg_pending sg @ [(r, length (src_bytes src))]"
    then show ?thesis by simp
  next
    fix e assume "res = Inl e" "agent_ok (sg_agent sg')" "sg_store sg' = sg_store sg"
      "held (a_leases (sg_agent sg')) = held (a_leases (sg_agent sg))"
    then show ?thesis by simp
  next
    fix e assume "res = Inl e" "agent_ok (sg_agent sg')" "staged_at sg' r (src_bytes src) now"
      "\<forall>x. x \<noteq> ckObject r \<or> backend_contents (sg_store sg) x \<noteq> None \<longrightarrow> backend_contents (sg_store sg') x = backend_contents (sg_store sg) x"
    then show ?thesis by simp
  next
    assume "res = Inl ErrContext" "agent_ok (sg_agent sg')"
      "backend_contents (sg_store sg') = (backend_contents (sg_store sg))(ckObject r \<mapsto> src_bytes src)"
      "held (a_leases (sg_agent sg')) = held (a_leases (sg_agent sg))"
    then show ?thesis by simp
  qed
qed

definition demo_backend :: "fstore backend" where
  "demo_backend = \<lparr>b_driver = file_driver, b_lister = None, b_streamer = Some fd_WriteObjectFrom, b_declare = fd_Declare,
     b_denied = None, b_store = \<lparr>fs_nodes = [], fs_faults = []\<rparr>\<rparr>"

definition demo_stager :: "fstore backend stager" where
  "demo_stager = \<lparr>sg_agent = demo_agent, sg_files = [], sg_store = demo_backend, sg_term = 1000, sg_pending = []\<rparr>"

definition demo_checkpoint :: ck_request where
  "demo_checkpoint = \<lparr>ckID = ''ck'', ckTenant = ''t'', ckObject = ''model/1'', ckBytes = 4, ckAck = ''staged''\<rparr>"

definition demo_stage_faults :: stage_faults where
  "demo_stage_faults = \<lparr>sfAlloc = AllocOk, sfOpen = True, sfWrite = True, sfSync = True, sfReopen = True, sfDiscard = DiscardOk, sfCut = False\<rparr>"

lemma demo_stage: "fst (Stage b_WriteObjectFrom demo_stage_faults demo_stager demo_checkpoint \<lparr>src_bytes = [1, 2, 3], src_fails = False\<rparr> 8) = Inr Staged"
proof -
  let ?l = "\<lparr>lID = ''ck'', lTenant = ''t'', lClass = Guaranteed, lSize = 4, lGrantedAt = 0, lTerm = 1000\<rparr>"
  have f: "\<not> GuaranteedFree (a_leases demo_agent) < 4" by code_simp
  have "fst (Grant AllocOk demo_agent ?l 8) = None" by code_simp
  then obtain a where g: "Grant AllocOk demo_agent ?l 8 = (None, a)" by (cases "Grant AllocOk demo_agent ?l 8") auto
  have v: "validLeaseID ''ck'' = None" by code_simp
  show ?thesis
    using f g v
    by (simp add: Stage_def demo_stager_def demo_checkpoint_def ck_check_def ack_WithDefault_def ack_Survives_def Durable_def Staged_def
        ck_Check_def stage_lease_def demo_stage_faults_def stage_bytes_def ExtentPath_def stageTo_def copied_def wrap64_def Let_def)
qed

theorem checkpoint_acknowledged_witness:
  "staged_at (snd (Stage b_WriteObjectFrom demo_stage_faults demo_stager demo_checkpoint \<lparr>src_bytes = [1, 2, 3], src_fails = False\<rparr> 8))
     demo_checkpoint [1, 2, 3] 8"
proof -
  obtain sg' where s: "Stage b_WriteObjectFrom demo_stage_faults demo_stager demo_checkpoint \<lparr>src_bytes = [1, 2, 3], src_fails = False\<rparr> 8
      = (Inr Staged, sg')" using demo_stage by (metis prod.collapse)
  have p: "agent_ok (sg_agent demo_stager)" "file_backend (sg_store demo_stager)" "in_i64 (ckBytes demo_checkpoint)"
    "ckBytes demo_checkpoint < max_i64" "sfDiscard demo_stage_faults = DiscardOk"
    using demo_agent_ok
    by (simp_all add: demo_stager_def file_backend_def demo_backend_def demo_checkpoint_def i64_defs demo_stage_faults_def)
  have "Staged \<noteq> Durable" by (simp add: Staged_def Durable_def)
  then show ?thesis using checkpoint_acknowledged [OF p s] s by simp
qed

text \<open>
  C28. While the term of its lease runs, no reclaim of any size takes a staged
  checkpoint. Once the term is over, the next reclaim of any size removes the extent, though it may
  hold the only copy and its upload is still to come.
\<close>

theorem staged_outlives_reclaim:
  assumes "agent_ok (sg_agent sg)" "staged_at sg r b t" "0 < need" "in_i64 need"
    and "ReclaimCapacity fls el (sg_agent sg) need now = (rec, e, a')"
  shows "(now < t + sg_term sg \<longrightarrow> staged_at (sg\<lparr>sg_agent := a'\<rparr>) r b t)
    \<and> (t + sg_term sg \<le> now \<and> fls = [] \<longrightarrow> map_of (a_dir a') (ckID r) = None)"
proof -
  let ?l = "(stage_lease sg r)\<lparr>lGrantedAt := t\<rparr>"
  have l: "?l \<in> held (a_leases (sg_agent sg))" "lClass ?l = Guaranteed" "lID ?l = ckID r"
    "Expired ?l now \<longleftrightarrow> t + sg_term sg \<le> now"
    using assms(2) by (auto simp: staged_at_def stage_lease_def Expired_def ExpiresAt_def time_add_def)
  have "now < t + sg_term sg \<longrightarrow> staged_at (sg\<lparr>sg_agent := a'\<rparr>) r b t"
  proof
    assume "now < t + sg_term sg"
    then have "\<not> Expired ?l now" using l(4) by simp
    note k = ReclaimCapacity_keeps_guaranteed [OF assms(1,4,5) l(1,2) this]
    show "staged_at (sg\<lparr>sg_agent := a'\<rparr>) r b t"
      using assms(2) k [unfolded l(3)] by (simp add: staged_at_def stage_lease_def)
  qed
  moreover have "t + sg_term sg \<le> now \<and> fls = [] \<longrightarrow> map_of (a_dir a') (ckID r) = None"
    using ReclaimCapacity_takes_expired(2) [OF assms(1,3,4) _ l(1), of el now rec e a'] assms(5) l(3,4) by auto
  ultimately show ?thesis by blast
qed

theorem staged_outlives_reclaim_witness:
  "let sg = snd (Stage b_WriteObjectFrom demo_stage_faults demo_stager demo_checkpoint \<lparr>src_bytes = [1, 2, 3], src_fails = False\<rparr> 8) in
     staged_at (sg\<lparr>sg_agent := snd (snd (ReclaimCapacity [] 0 (sg_agent sg) 50 9))\<rparr>) demo_checkpoint [1, 2, 3] 8
     \<and> map_of (a_dir (snd (snd (ReclaimCapacity [] 0 (sg_agent sg) 50 2000)))) ''ck'' = None"
proof -
  obtain sg where s: "Stage b_WriteObjectFrom demo_stage_faults demo_stager demo_checkpoint \<lparr>src_bytes = [1, 2, 3], src_fails = False\<rparr> 8
      = (Inr Staged, sg)" using demo_stage by (metis prod.collapse)
  have p: "agent_ok (sg_agent demo_stager)" "file_backend (sg_store demo_stager)" "in_i64 (ckBytes demo_checkpoint)"
    "ckBytes demo_checkpoint < max_i64" "sfDiscard demo_stage_faults = DiscardOk" "ckID demo_checkpoint = ''ck''"
    "ack_WithDefault (ckAck demo_checkpoint) = Staged"
    using demo_agent_ok
    by (simp_all add: demo_stager_def file_backend_def demo_backend_def demo_checkpoint_def i64_defs demo_stage_faults_def
        ack_WithDefault_def Staged_def)
  have ne: "Staged \<noteq> Durable" by (simp add: Staged_def Durable_def)
  have st: "agent_ok (sg_agent sg)" "staged_at sg demo_checkpoint [1, 2, 3] 8"
    by (rule durable_files.Stage_cases [OF p(1,2,4,3,5) s]; use ne in simp)+
  have tm: "sg_term sg = 1000"
    using Stage_term [OF s] by (simp add: demo_stager_def)
  obtain rec e a' where r1: "ReclaimCapacity [] 0 (sg_agent sg) 50 9 = (rec, e, a')" by (metis prod_cases3)
  obtain rec2 e2 a2 where r2: "ReclaimCapacity [] 0 (sg_agent sg) 50 2000 = (rec2, e2, a2)" by (metis prod_cases3)
  show ?thesis
    using staged_outlives_reclaim [OF st _ _ r1] staged_outlives_reclaim [OF st _ _ r2] r1 r2 s tm p(6)
    by (simp add: i64_defs Let_def)
qed

section \<open>Lineage\<close>

text \<open>
  C26. In every graph callers can build, the query for what produced a thing is answered
  with exactly its ancestors, each once and in order, with exactly the claims that lead to them, counted
  by how they are known, and the versions among them that are gone; the graph has no cycle and no path
  of more than three claims.
\<close>

theorem ancestry_exact:
  assumes "lineage_reach g" "map_of (nodes g) i \<noteq> None"
  shows "(\<exists>a. Ancestry g i = Inr a \<and> map nID (aNodes a) = sorted_list_of_set ((parents g)\<^sup>* `` {i})
      \<and> (\<forall>n\<in>set (aNodes a). map_of (nodes g) (nID n) = Some n)
      \<and> mset (aEdges a) = filter_mset (\<lambda>e. child_of e \<in> (parents g)\<^sup>* `` {i}) (mset (all_edges g))
      \<and> aObserved a = length (filter (\<lambda>e. eBasis e = BObserved) (aEdges a))
      \<and> aObserved a + aAsserted a = length (aEdges a)
      \<and> aUnretrievable a = map nID (filter (\<lambda>n. nKind n = KVersion \<and> \<not> nRetrievable n) (aNodes a)))
    \<and> acyclic (parents g) \<and> (\<forall>x y n. (x, y) \<in> parents g ^^ n \<longrightarrow> n \<le> 3)"
proof -
  have ok: "graph_ok g" by (rule lineage_reach_ok [OF assms(1)])
  obtain a where a: "Ancestry g i = Inr a" "map nID (aNodes a) = sorted_list_of_set ((parents g)\<^sup>* `` {i})"
    "\<forall>n\<in>set (aNodes a). map_of (nodes g) (nID n) = Some n"
    "mset (aEdges a) = filter_mset (\<lambda>e. child_of e \<in> (parents g)\<^sup>* `` {i}) (mset (all_edges g))"
    "aObserved a = length (filter (\<lambda>e. eBasis e = BObserved) (aEdges a))" "aObserved a + aAsserted a = length (aEdges a)"
    "aUnretrievable a = map nID (filter (\<lambda>n. nKind n = KVersion \<and> \<not> nRetrievable n) (aNodes a))"
    by (rule Ancestry_spec [OF ok assms(2) refl])
  show ?thesis
    by (intro conjI exI [of _ a] a allI impI parents_acyclic [OF ok] parents_short [OF ok])
qed

definition demo_run :: lnode where
  "demo_run = \<lparr>nID = ''r'', nKind = KRun, nDigest = '''', nRetrievable = True\<rparr>"

definition demo_version :: lnode where
  "demo_version = \<lparr>nID = ''v'', nKind = KVersion, nDigest = ''d'', nRetrievable = False\<rparr>"

definition demo_graph :: graph where
  "demo_graph = snd (Link (snd (lineage_Add (snd (lineage_Add lineage_New demo_run)) demo_version))
     \<lparr>eFrom = ''r'', eTo = ''v'', eRelation = RelRead, eBasis = BObserved\<rparr>)"

theorem ancestry_exact_witness:
  "\<exists>a. Ancestry demo_graph ''r'' = Inr a \<and> map nID (aNodes a) = [''r'', ''v''] \<and> aUnretrievable a = [''v'']
    \<and> aObserved a + aAsserted a = length (aEdges a)"
proof -
  have r: "lineage_reach demo_graph" unfolding demo_graph_def by (intro lineage_reach.intros)
  have k: "map_of (nodes demo_graph) ''r'' \<noteq> None" by code_simp
  have "case Ancestry demo_graph ''r'' of Inr a \<Rightarrow> map nID (aNodes a) = [''r'', ''v''] \<and> aUnretrievable a = [''v''] | Inl _ \<Rightarrow> False"
    by code_simp
  then show ?thesis using ancestry_exact [OF r k] by auto
qed

end
