(* ===== verification/Residency.thy ===== *)
theory Residency
  imports Fast_Tier File_Driver Go_Float
begin

text \<open>
  What a node holds of each dataset, as a level stable enough to publish: package residency
  (\<open>internal/residency/residency.go\<close>) and the agent's reporter over the tier
  (\<open>cmd/forebay-agent/residency.go\<close>).

  The thresholds are the doubles their decimal literals denote. Levels are compared by the order of
  their constants, which is an instance of \<open>linorder\<close> here. The hash of a label key is FNV-1a on 64-bit
  words. A pass of the reporter walks the counts of the tier in one of the orders a Go map may give.

  The lemmas: a level that has just changed survives every movement between the two thresholds; an
  unchanged fraction never changes the level twice; what is reported is what the tier holds and the
  tracker published; a label key fits the bound of the API server. The thresholds have a hole: from the
  highest level a fraction between the two lower thresholds keeps the highest level, though a larger
  fraction would lower it (\<open>Next_hole\<close>).
\<close>

section \<open>Levels\<close>

datatype level = LNone | LSome | LMost

fun level_rank :: "level \<Rightarrow> nat" where
  "level_rank LNone = 0"
| "level_rank LSome = 1"
| "level_rank LMost = 2"

instantiation level :: linorder
begin

definition less_eq_level :: "level \<Rightarrow> level \<Rightarrow> bool" where
  "less_eq_level a b \<longleftrightarrow> level_rank a \<le> level_rank b"

definition less_level :: "level \<Rightarrow> level \<Rightarrow> bool" where
  "less_level a b \<longleftrightarrow> level_rank a < level_rank b"

instance
proof
  fix x y :: level
  show "x \<le> y \<Longrightarrow> y \<le> x \<Longrightarrow> x = y"
    by (cases x; cases y) (simp_all add: less_eq_level_def)
qed (auto simp: less_eq_level_def less_level_def)

end

definition level_String :: "level \<Rightarrow> string" where
  "level_String l = (case l of LSome \<Rightarrow> ''some'' | LMost \<Rightarrow> ''most'' | LNone \<Rightarrow> '''')"

definition rise :: "level \<Rightarrow> float64" where
  "rise l = (case l of LNone \<Rightarrow> 0 | LSome \<Rightarrow> rnd64 (25 / 100) | LMost \<Rightarrow> rnd64 (75 / 100))"

definition fall :: "level \<Rightarrow> float64" where
  "fall l = (case l of LNone \<Rightarrow> 0 | LSome \<Rightarrow> rnd64 (20 / 100) | LMost \<Rightarrow> rnd64 (70 / 100))"

definition Next :: "level \<Rightarrow> float64 \<Rightarrow> level" where
  "Next current fraction =
     (if rise LMost \<le> fraction then LMost
      else if rise LSome \<le> fraction then
        (if current = LMost \<and> fall LMost \<le> fraction then LMost else LSome)
      else if fall LSome \<le> fraction then
        (if LSome \<le> current then current else LNone)
      else LNone)"

section \<open>Label keys\<close>

definition fnv_offset :: "64 word" where "fnv_offset = 14695981039346656037"
definition fnv_prime :: "64 word" where "fnv_prime = 1099511628211"

definition fnv_Write :: "bytes \<Rightarrow> 64 word \<Rightarrow> 64 word" where
  "fnv_Write bs h = fold (\<lambda>b h. xor h (ucast b) * fnv_prime) bs h"

definition hex_digit :: "nat \<Rightarrow> char" where
  "hex_digit n = ''0123456789abcdef'' ! n"

text \<open>\<open>%016x\<close> of a 64-bit number: sixteen digits, the most significant first.\<close>

definition hex16 :: "64 word \<Rightarrow> string" where
  "hex16 w = map (\<lambda>i. hex_digit (unat w div 16 ^ (15 - i) mod 16)) [0..<16]"

definition label_prefix :: string where
  "label_prefix = ''forebay.io/''"

definition res_Key :: "string \<Rightarrow> string \<Rightarrow> string" where
  "res_Key tenant dataset =
     label_prefix @ ''resident-'' @ hex16 (fnv_Write (of_text dataset) (fnv_Write [0] (fnv_Write (of_text tenant) fnv_offset)))"

definition RackKey :: "string \<Rightarrow> string \<Rightarrow> string" where
  "RackKey tenant dataset = res_Key tenant dataset @ ''-rack''"

section \<open>Fractions and the tracker\<close>

datatype residency_error = ErrNoBytes | ErrNegative | ErrMoreThanTotal

definition Fraction :: "int \<Rightarrow> int \<Rightarrow> residency_error + float64" where
  "Fraction resident sz =
     (if sz \<le> 0 then Inl ErrNoBytes
      else if resident < 0 then Inl ErrNegative
      else if sz < resident then Inl ErrMoreThanTotal
      else Inr (f64_div (f64_of_int resident) (f64_of_int sz)))"

type_synonym tracker = "(string, level) gomap"

definition NewTracker :: tracker where
  "NewTracker = []"

definition level_at :: "tracker \<Rightarrow> string \<Rightarrow> level" where
  "level_at t k = (case map_of t k of None \<Rightarrow> LNone | Some l \<Rightarrow> l)"

definition tr_Update :: "tracker \<Rightarrow> string \<Rightarrow> float64 \<Rightarrow> level \<times> tracker" where
  "tr_Update t key fraction =
     (let next = Next (level_at t key) fraction in
      if next = LNone then (LNone, AList.delete key t) else (next, AList.update key next t))"

definition tr_Forget :: "tracker \<Rightarrow> string \<Rightarrow> tracker" where
  "tr_Forget t key = AList.delete key t"

definition tr_Levels :: "tracker \<Rightarrow> (string, level) gomap" where
  "tr_Levels t = fold (\<lambda>(k, v) out. AList.update k v out) t []"

section \<open>The agent's report\<close>

record residencyOf =
  roTenant :: string
  roObject :: string
  roLevel :: string
  roBlocks :: nat
  roBytes :: int
  roTotal :: int
  roLabel :: string
  roRack :: string
  roFraction :: float64

record 'w reporter =
  rp_tier :: cache
  rp_backend :: "'w backend"
  rp_levels :: tracker
  rp_sizes :: "(string, int) gomap"

definition newResidencyReporter :: "cache \<Rightarrow> 'w backend \<Rightarrow> 'w reporter" where
  "newResidencyReporter tier b = \<lparr>rp_tier = tier, rp_backend = b, rp_levels = NewTracker, rp_sizes = []\<rparr>"

definition trackKey :: "Held \<Rightarrow> string" where
  "trackKey h = hTenant h @ [CHR 0x00] @ hObject h"

definition rp_sizeOf :: "'w reporter \<Rightarrow> string \<Rightarrow> int option \<times> 'w reporter" where
  "rp_sizeOf r obj =
     (case map_of (rp_sizes r) obj of
        Some n \<Rightarrow> (Some n, r)
      | None \<Rightarrow>
          (case b_SizeOf (rp_backend r) obj of
             (Inl e, b) \<Rightarrow> (None, r\<lparr>rp_backend := b\<rparr>)
           | (Inr n, b) \<Rightarrow>
               if n \<le> 0 then (None, r\<lparr>rp_backend := b\<rparr>)
               else (Some n, r\<lparr>rp_backend := b, rp_sizes := AList.update obj n (rp_sizes r)\<rparr>)))"

text \<open>Levels of datasets the tier holds nothing of any more are forgotten first.\<close>

definition forget_gone :: "(Held, nat) gomap \<Rightarrow> tracker \<Rightarrow> tracker" where
  "forget_gone counts t =
     fold (\<lambda>(key, _) t. if key \<in> trackKey ` fst ` set counts then t else tr_Forget t key) (tr_Levels t) t"

fun report_loop :: "(Held \<times> nat) list \<Rightarrow> 'w reporter \<Rightarrow> residencyOf list \<times> 'w reporter" where
  "report_loop [] r = ([], r)"
| "report_loop ((h, blocks) # hs) r =
     (case rp_sizeOf r (hObject h) of
        (None, r1) \<Rightarrow> report_loop hs r1
      | (Some whole, r1) \<Rightarrow>
          (let n = min (wrap64 (int blocks * BlockSize (c_cfg (rp_tier r1)))) whole in
           case Fraction n whole of
             Inl e \<Rightarrow> report_loop hs r1
           | Inr fraction \<Rightarrow>
               (case tr_Update (rp_levels r1) (trackKey h) fraction of
                  (lvl, t) \<Rightarrow>
                    (case report_loop hs (r1\<lparr>rp_levels := t\<rparr>) of
                       (out, r2) \<Rightarrow>
                         (\<lparr>roTenant = hTenant h, roObject = hObject h, roLevel = level_String lvl, roBlocks = blocks,
                           roBytes = n, roTotal = whole, roLabel = res_Key (hTenant h) (hObject h),
                           roRack = RackKey (hTenant h) (hObject h), roFraction = fraction\<rparr> # out, r2)))))"

definition report :: "'w reporter \<Rightarrow> residencyOf list \<times> 'w reporter" where
  "report r =
     (let counts = HeldBlocks (rp_tier r) in
      case report_loop counts (r\<lparr>rp_levels := forget_gone counts (rp_levels r)\<rparr>) of
        (out, r1) \<Rightarrow> (sort_key (\<lambda>e. (roTenant e, roObject e)) out, r1))"

section \<open>The thresholds\<close>

lemma rise_vals: "rise LSome = 1 / 4" "rise LMost = 3 / 4" "rise LNone = 0"
  by (simp_all add: rise_def) (code_simp)+

lemma fall_vals: "fall LSome = 3602879701896397 / 18014398509481984" "fall LMost = 3152519739159347 / 4503599627370496" "fall LNone = 0"
  by (simp_all add: fall_def) (code_simp)+

lemmas level_order = less_eq_level_def less_level_def

section \<open>Hysteresis\<close>

lemmas thresholds = rise_vals fall_vals

lemma Next_some: "LSome \<le> Next c f \<longleftrightarrow> rise LSome \<le> f \<or> (fall LSome \<le> f \<and> LSome \<le> c)"
  by (cases c) (simp_all add: Next_def level_order thresholds)

lemma Next_most:
  "Next c f = LMost \<longleftrightarrow> rise LMost \<le> f \<or> (c = LMost \<and> (fall LMost \<le> f \<or> (fall LSome \<le> f \<and> f < rise LSome)))"
  by (cases c) (auto simp: Next_def level_order thresholds)

lemma Next_idem: "Next (Next c f) f = Next c f"
  by (cases c) (simp_all add: Next_def level_order thresholds)

lemma Next_rose: "c < Next c f \<Longrightarrow> fall (Next c f) \<le> f' \<Longrightarrow> Next c f \<le> Next (Next c f) f'"
  by (cases c) (auto simp: Next_def level_order thresholds split: if_splits)

lemma Next_fell: "Next c f < c \<Longrightarrow> Next c f < l \<Longrightarrow> f' < rise l \<Longrightarrow> Next (Next c f) f' < l"
  by (cases c; cases l) (auto simp: Next_def level_order thresholds split: if_splits)

lemma Next_hole: "fall LSome \<le> f \<Longrightarrow> f < rise LSome \<Longrightarrow> rise LSome \<le> g \<Longrightarrow> g < fall LMost \<Longrightarrow>
    Next LMost f = LMost \<and> Next LMost g = LSome"
  by (simp add: Next_def level_order thresholds)

section \<open>Keys fit a label\<close>

lemma length_hex16 [simp]: "length (hex16 w) = 16"
  by (simp add: hex16_def)

lemma hex16_digits: "set (hex16 w) \<subseteq> set ''0123456789abcdef''"
proof -
  have "hex_digit (n mod 16) \<in> set ''0123456789abcdef''" for n
    unfolding hex_digit_def by (rule nth_mem) simp
  then show ?thesis by (auto simp: hex16_def)
qed

lemma length_Key [simp]: "length (res_Key t d) = 36" and length_RackKey [simp]: "length (RackKey t d) = 41"
  by (simp_all add: res_Key_def RackKey_def label_prefix_def)

lemma Key_prefix: "take 11 (res_Key t d) = label_prefix" "take 11 (RackKey t d) = label_prefix"
  by (simp_all add: res_Key_def RackKey_def label_prefix_def)

lemma Key_not_Rack: "res_Key t d \<noteq> RackKey t' d'"
  by (rule notI, drule arg_cong [of _ _ length]) simp

section \<open>The tracker\<close>

lemma fold_update_fresh:
  "distinct (map fst xs) \<Longrightarrow> \<forall>k \<in> fst ` set xs. map_of m k = None \<Longrightarrow> fold (\<lambda>(k, v) out. AList.update k v out) xs m = m @ xs"
proof (induction xs arbitrary: m)
  case (Cons x xs)
  obtain k v where x: "x = (k, v)" by force
  have "map_of (m @ [(k, v)]) j = None" if "j \<in> fst ` set xs" for j
    using that Cons.prems x by (auto simp: map_add_def split: option.splits)
  then show ?case using Cons.IH [of "m @ [(k, v)]"] Cons.prems x by (simp add: update_fresh)
qed simp

lemma tr_Levels_id: "gomap_ok t \<Longrightarrow> tr_Levels t = t"
  by (simp add: tr_Levels_def fold_update_fresh gomap_ok_def)

lemma map_of_fold_forget:
  "map_of (fold (\<lambda>(key, _) t. if key \<in> K then t else tr_Forget t key) xs t) j
     = (if j \<in> fst ` set xs \<and> j \<notin> K then None else map_of t j)"
  by (induction xs arbitrary: t) (auto simp: tr_Forget_def map_of_delete_if)

lemma fold_forget_ok: "gomap_ok t \<Longrightarrow> gomap_ok (fold (\<lambda>(key, _) t. if key \<in> K then t else tr_Forget t key) xs t)"
  by (induction xs arbitrary: t) (auto simp: tr_Forget_def)

lemma level_forget_gone:
  assumes "gomap_ok t"
  shows "level_at (forget_gone counts t) k = (if k \<in> trackKey ` fst ` set counts then level_at t k else LNone)"
    and "gomap_ok (forget_gone counts t)"
proof -
  have "k \<in> fst ` set t \<or> map_of t k = None" by (simp add: map_of_eq_None_iff)
  then show "level_at (forget_gone counts t) k = (if k \<in> trackKey ` fst ` set counts then level_at t k else LNone)"
    using assms by (auto simp: level_at_def forget_gone_def tr_Levels_id map_of_fold_forget)
  show "gomap_ok (forget_gone counts t)" using assms by (simp add: forget_gone_def fold_forget_ok)
qed

lemma tr_Update_level:
  assumes "tr_Update t key f = (l, t')"
  shows "l = Next (level_at t key) f" and "level_at t' k = (if k = key then l else level_at t k)"
    and "gomap_ok t \<Longrightarrow> gomap_ok t'"
  using assms by (auto simp: tr_Update_def Let_def level_at_def map_of_delete_if map_of_update_if split: if_splits)

section \<open>Counting the tier\<close>

lemma count_fold:
  "map_of (foldl (\<lambda>out k. AList.update (held_of k) (case map_of out (held_of k) of None \<Rightarrow> 1 | Some n \<Rightarrow> n + 1) out) m ks) h
     = (let n = length (filter (\<lambda>k. held_of k = h) ks) in
        case map_of m h of None \<Rightarrow> (if n = 0 then None else Some n) | Some c \<Rightarrow> Some (c + n))"
  by (induction ks arbitrary: m) (auto simp: map_of_update_if Let_def split: option.splits)

lemma count_fold_ok: "gomap_ok m \<Longrightarrow> gomap_ok (foldl (\<lambda>out k. AList.update (f k) (g out k) out) m ks)"
  by (induction ks arbitrary: m) auto

lemma HeldBlocks_ok: "gomap_ok (HeldBlocks c)"
  unfolding HeldBlocks_def by (rule count_fold_ok) simp

lemma HeldBlocks_count:
  "(h, n) \<in> set (HeldBlocks c) \<longleftrightarrow> 0 < n \<and> n = length (filter (\<lambda>k. held_of k = h) (map fst (c_resident c)))"
proof -
  have "(h, n) \<in> set (HeldBlocks c) \<longleftrightarrow> map_of (HeldBlocks c) h = Some n"
    using HeldBlocks_ok [of c] by (simp add: gomap_ok_def)
  also have "\<dots> \<longleftrightarrow> 0 < n \<and> n = length (filter (\<lambda>k. held_of k = h) (map fst (c_resident c)))"
    unfolding HeldBlocks_def by (subst count_fold) (auto simp: Let_def)
  finally show ?thesis .
qed

section \<open>What is reported\<close>

definition sizes_true :: "(string \<Rightarrow> bytes option) \<Rightarrow> (string, int) gomap \<Rightarrow> bool" where
  "sizes_true cont m \<longleftrightarrow> (\<forall>obj n. map_of m obj = Some n \<longrightarrow> 0 < n \<and> (\<exists>bs. cont obj = Some bs \<and> n = int (length bs)))"

text \<open>An entry says how many blocks the tier holds of a dataset, of what object, and the next level.\<close>

definition entry_true :: "int \<Rightarrow> (string \<Rightarrow> bytes option) \<Rightarrow> tracker \<Rightarrow> Held \<Rightarrow> nat \<Rightarrow> residencyOf \<Rightarrow> bool" where
  "entry_true bsz cont t h n e \<longleftrightarrow>
     roTenant e = hTenant h \<and> roObject e = hObject h \<and> roBlocks e = n
     \<and> roLabel e = res_Key (hTenant h) (hObject h) \<and> roRack e = RackKey (hTenant h) (hObject h)
     \<and> (\<exists>bs. cont (hObject h) = Some bs \<and> bs \<noteq> [] \<and> roTotal e = int (length bs) \<and> roBytes e = min (int n * bsz) (roTotal e))
     \<and> Fraction (roBytes e) (roTotal e) = Inr (roFraction e)
     \<and> roLevel e = level_String (Next (level_at t (trackKey h)) (roFraction e))"

lemma entry_true_cong: "level_at t (trackKey h) = level_at t' (trackKey h) \<Longrightarrow> entry_true bsz cont t h n e = entry_true bsz cont t' h n e"
  by (simp add: entry_true_def)

lemma sizeOf_frame:
  assumes "rp_sizeOf r obj = (x, r1)"
  shows "rp_tier r1 = rp_tier r" "rp_levels r1 = rp_levels r"
    and "map_of (rp_sizes r) k = Some n \<Longrightarrow> map_of (rp_sizes r1) k = Some n"
    and "map_of (rp_sizes r) obj = Some n \<Longrightarrow> x = Some n"
  using assms by (auto simp: rp_sizeOf_def map_of_update_if split: option.splits prod.splits sum.splits if_splits)

lemma Fraction_ok: "0 < whole \<Longrightarrow> 0 \<le> n \<Longrightarrow> n \<le> whole \<Longrightarrow> \<exists>f. Fraction n whole = Inr f"
  by (simp add: Fraction_def)

definition rp_true :: "'w Driver \<Rightarrow> ('w \<Rightarrow> string \<Rightarrow> bytes option) \<Rightarrow> (string \<Rightarrow> bytes option) \<Rightarrow> 'w reporter \<Rightarrow> bool" where
  "rp_true d contents cont r \<longleftrightarrow>
     b_driver (rp_backend r) = d \<and> contents (b_store (rp_backend r)) = cont \<and> sizes_true cont (rp_sizes r)"

lemma rp_true_levels [simp]: "rp_true d contents cont (r\<lparr>rp_levels := t\<rparr>) = rp_true d contents cont r"
  by (simp add: rp_true_def)

context lawful_driver
begin

lemma sizeOf_true:
  assumes "rp_sizeOf r obj = (x, r1)" "rp_true drv contents cont r"
  shows "rp_true drv contents cont r1 \<and> (\<forall>n. x = Some n \<longrightarrow> 0 < n \<and> (\<exists>bs. cont obj = Some bs \<and> n = int (length bs)))"
proof (cases "map_of (rp_sizes r) obj")
  case (Some n)
  then show ?thesis using assms by (auto simp: rp_true_def rp_sizeOf_def sizes_true_def)
next
  case None
  obtain s b where s: "b_SizeOf (rp_backend r) obj = (s, b)" by force
  have d: "b_driver (rp_backend r) = drv" using assms(2) by (simp add: rp_true_def)
  note k = b_size_keeps [OF d s]
  show ?thesis
  proof (cases s)
    case (Inl e)
    then show ?thesis using None assms s k by (auto simp: rp_true_def rp_sizeOf_def)
  next
    case (Inr n)
    then show ?thesis using None assms s k b_size_data [OF d, of obj n b]
      by (auto simp: rp_true_def rp_sizeOf_def sizes_true_def map_of_update_if split: if_splits)
  qed
qed

lemma report_loop_true:
  assumes "report_loop hs r = (out, r')" "rp_true drv contents cont r" "distinct (map (trackKey \<circ> fst) hs)"
    and "bsz = BlockSize (c_cfg (rp_tier r))" "0 < bsz" "\<forall>(h, n) \<in> set hs. int n * bsz \<le> max_i64"
  shows "rp_true drv contents cont r' \<and> rp_tier r' = rp_tier r
    \<and> (gomap_ok (rp_levels r) \<longrightarrow> gomap_ok (rp_levels r'))
    \<and> (\<forall>k. k \<notin> trackKey ` fst ` set hs \<longrightarrow> level_at (rp_levels r') k = level_at (rp_levels r) k)
    \<and> (\<forall>e\<in>set out. \<exists>(h, n)\<in>set hs. entry_true bsz cont (rp_levels r) h n e \<and> roLevel e = level_String (level_at (rp_levels r') (trackKey h)))
    \<and> (\<forall>(h, n)\<in>set hs. map_of (rp_sizes r) (hObject h) \<noteq> None \<longrightarrow> (\<exists>e\<in>set out. entry_true bsz cont (rp_levels r) h n e))"
  using assms
proof (induction hs arbitrary: r out r')
  case (Cons hn hs)
  obtain h n where hn: "hn = (h, n)" by force
  obtain x r1 where s: "rp_sizeOf r (hObject h) = (x, r1)" by force
  note t1 = sizeOf_true [OF s Cons.prems(2)] and fr = sizeOf_frame [OF s]
  have h: "trackKey h \<notin> trackKey ` fst ` set hs" and d: "distinct (map (trackKey \<circ> fst) hs)"
    using Cons.prems(3) by (simp_all add: hn image_image comp_def)
  have b: "\<forall>(h, n) \<in> set hs. int n * bsz \<le> max_i64" "int n * bsz \<le> max_i64" "bsz = BlockSize (c_cfg (rp_tier r1))"
    using Cons.prems(4,6) by (simp_all add: hn fr)
  show ?case
  proof (cases x)
    case None
    then have "report_loop hs r1 = (out, r')" using Cons.prems(1) s hn by simp
    note IH = Cons.IH [OF this conjunct1 [OF t1] d b(3) Cons.prems(5) b(1)]
    have "map_of (rp_sizes r) (hObject h) = None" using fr(4) None by (cases "map_of (rp_sizes r) (hObject h)") auto
    then show ?thesis using IH fr by (fastforce simp: hn)
  next
    case (Some whole)
    then obtain bs where w: "0 < whole" "cont (hObject h) = Some bs" "whole = int (length bs)" using t1 by blast
    define m where "m = min (int n * bsz) whole"
    have "0 \<le> int n * bsz" using Cons.prems(5) by simp
    then have m: "wrap64 (int n * bsz) = int n * bsz" using b(2) by (intro wrap64_id') (simp_all add: min_i64_def)
    obtain f where f: "Fraction m whole = Inr f" using Fraction_ok [of whole m] w Cons.prems(5) by (auto simp: m_def)
    obtain l t where u: "tr_Update (rp_levels r) (trackKey h) f = (l, t)" by force
    note u' = tr_Update_level [OF u]
    obtain o2 r2 where rest: "report_loop hs (r1\<lparr>rp_levels := t\<rparr>) = (o2, r2)" by force
    have b': "bsz = BlockSize (c_cfg (rp_tier (r1\<lparr>rp_levels := t\<rparr>)))" using b(3) by simp
    note IH = Cons.IH [OF rest _ d b' Cons.prems(5) b(1), unfolded rp_true_levels, OF conjunct1 [OF t1]]
    define e where "e = \<lparr>roTenant = hTenant h, roObject = hObject h, roLevel = level_String l, roBlocks = n, roBytes = m,
      roTotal = whole, roLabel = res_Key (hTenant h) (hObject h), roRack = RackKey (hTenant h) (hObject h), roFraction = f\<rparr>"
    have "report_loop (hn # hs) r = (e # o2, r2)"
      by (simp add: hn s Some m b(3) [symmetric] f u rest fr(2) e_def flip: m_def)
    then have out: "out = e # o2" "r' = r2" using Cons.prems(1) by simp_all
    have "bs \<noteq> []" using w by auto
    then have e: "entry_true bsz cont (rp_levels r) h n e" "roLevel e = level_String l"
      using w f u'(1) by (simp_all add: entry_true_def e_def m_def)
    have keep: "entry_true bsz cont t h' n' e' = entry_true bsz cont (rp_levels r) h' n' e'" if "(h', n') \<in> set hs" for h' n' e'
    proof (rule entry_true_cong)
      have "trackKey h' \<in> trackKey ` fst ` set hs" using that by (metis fst_conv image_eqI)
      then have "trackKey h' \<noteq> trackKey h" using h by metis
      then show "level_at t (trackKey h') = level_at (rp_levels r) (trackKey h')" by (simp add: u'(2))
    qed
    show ?thesis
      using IH u' fr h e keep by (auto simp: hn out) fastforce+
  qed
qed simp

text \<open>
  A pass reports only datasets the tier holds, with their counts, their true sizes and the level that
  follows the one published before; nothing the tier does not hold keeps a level.
\<close>

lemma report_true:
  assumes run: "report r = (out, r')" and tr: "rp_true drv contents cont r" and lv: "gomap_ok (rp_levels r)"
    and inj: "inj_on trackKey (fst ` set (HeldBlocks (rp_tier r)))"
    and bsz: "bsz = BlockSize (c_cfg (rp_tier r))" "0 < bsz" "\<forall>(h, n) \<in> set (HeldBlocks (rp_tier r)). int n * bsz \<le> max_i64"
  shows "rp_true drv contents cont r' \<and> rp_tier r' = rp_tier r \<and> gomap_ok (rp_levels r')
    \<and> (\<forall>k. level_at (rp_levels r') k \<noteq> LNone \<longrightarrow> k \<in> trackKey ` fst ` set (HeldBlocks (rp_tier r)))
    \<and> (\<forall>e\<in>set out. \<exists>(h, n)\<in>set (HeldBlocks (rp_tier r)). entry_true bsz cont (rp_levels r) h n e
          \<and> roLevel e = level_String (level_at (rp_levels r') (trackKey h)))
    \<and> (\<forall>(h, n)\<in>set (HeldBlocks (rp_tier r)). map_of (rp_sizes r) (hObject h) \<noteq> None \<longrightarrow>
          (\<exists>e\<in>set out. entry_true bsz cont (rp_levels r) h n e))
    \<and> sorted (map (\<lambda>e. (roTenant e, roObject e)) out)"
proof -
  let ?c = "HeldBlocks (rp_tier r)"
  define r0 where "r0 = r\<lparr>rp_levels := forget_gone ?c (rp_levels r)\<rparr>"
  obtain o1 where l: "report_loop ?c r0 = (o1, r')" and out: "out = sort_key (\<lambda>e. (roTenant e, roObject e)) o1"
    using run by (auto simp: report_def Let_def r0_def split: prod.splits)
  have "distinct (map (trackKey \<circ> fst) ?c)"
    using HeldBlocks_ok [of "rp_tier r"] inj by (simp add: gomap_ok_def distinct_map flip: map_map)
  from report_loop_true [OF l _ this _ bsz(2,3), of cont]
  have *: "rp_true drv contents cont r' \<and> rp_tier r' = rp_tier r \<and> (gomap_ok (rp_levels r0) \<longrightarrow> gomap_ok (rp_levels r'))
    \<and> (\<forall>k. k \<notin> trackKey ` fst ` set ?c \<longrightarrow> level_at (rp_levels r') k = level_at (rp_levels r0) k)
    \<and> (\<forall>e\<in>set o1. \<exists>(h, n)\<in>set ?c. entry_true bsz cont (rp_levels r0) h n e
          \<and> roLevel e = level_String (level_at (rp_levels r') (trackKey h)))
    \<and> (\<forall>(h, n)\<in>set ?c. map_of (rp_sizes r) (hObject h) \<noteq> None \<longrightarrow> (\<exists>e\<in>set o1. entry_true bsz cont (rp_levels r0) h n e))"
    using tr bsz(1) by (simp add: r0_def)
  have lr: "level_at (rp_levels r0) k = (if k \<in> trackKey ` fst ` set ?c then level_at (rp_levels r) k else LNone)" for k
    using level_forget_gone(1) [OF lv] by (simp add: r0_def)
  have eq: "entry_true bsz cont (rp_levels r0) h n e = entry_true bsz cont (rp_levels r) h n e" if "(h, n) \<in> set ?c" for h n e
  proof (rule entry_true_cong)
    have "trackKey h \<in> trackKey ` fst ` set ?c" using that by (metis fst_conv image_eqI)
    then show "level_at (rp_levels r0) (trackKey h) = level_at (rp_levels r) (trackKey h)" by (simp add: lr)
  qed
  have ok: "gomap_ok (rp_levels r0)" using level_forget_gone(2) [OF lv] by (simp add: r0_def)
  have "\<forall>k. level_at (rp_levels r') k \<noteq> LNone \<longrightarrow> k \<in> trackKey ` fst ` set ?c" using * lr by metis
  moreover have "\<forall>e\<in>set out. \<exists>(h, n)\<in>set ?c. entry_true bsz cont (rp_levels r) h n e
      \<and> roLevel e = level_String (level_at (rp_levels r') (trackKey h))"
    using * eq by (fastforce simp: out)
  moreover have "\<forall>(h, n)\<in>set ?c. map_of (rp_sizes r) (hObject h) \<noteq> None \<longrightarrow> (\<exists>e\<in>set out. entry_true bsz cont (rp_levels r) h n e)"
    using * eq by (fastforce simp: out)
  moreover have "sorted (map (\<lambda>e. (roTenant e, roObject e)) out)" by (simp add: out)
  ultimately show ?thesis using * ok by blast
qed

end

end
