(* ===== verification/Residency_Labels.thy ===== *)
theory Residency_Labels
  imports Residency Controller
begin

text \<open>
  The controller's pass over node labels (\<open>cmd/forebay-controller/residency.go\<close>): it asks each agent what
  it holds, reads the node's labels and patches what differs. The answer of an agent is the lines of
  its report, or nothing when it cannot be asked or read; the patch is a JSON merge patch, in which a
  null takes a label back (\<open>merge_labels\<close>). A cluster is the labels of its nodes by name.

  The lemmas: a pass leaves exactly the labels wanted among those with the project's prefix and every
  other label alone, and a second pass with the same answers writes nothing. A label outside the prefix
  that an agent asks for is written and never taken back (\<open>foreign_label_stays\<close>).
\<close>

type_synonym labels = "(string, string) gomap"

record held_line =
  hlLevel :: string
  hlLabel :: string
  hlRack :: string

text \<open>What the controller reads of a line of the report.\<close>

definition line_of :: "residencyOf \<Rightarrow> held_line" where
  "line_of e = \<lparr>hlLevel = roLevel e, hlLabel = roLabel e, hlRack = roRack e\<rparr>"

fun want_loop :: "held_line list \<Rightarrow> labels \<Rightarrow> labels" where
  "want_loop [] want = want"
| "want_loop (h # hs) want =
     (if hlLevel h = '''' \<or> hlLabel h = '''' then want_loop hs want
      else let want1 = AList.update (hlLabel h) (hlLevel h) want in
           want_loop hs (if hlRack h \<noteq> '''' then AList.update (hlRack h) (hlLevel h) want1 else want1))"

definition wanted_labels :: "held_line list \<Rightarrow> labels" where
  "wanted_labels rep = want_loop rep []"

definition label_at :: "labels \<Rightarrow> string \<Rightarrow> string" where
  "label_at m k = (case map_of m k of None \<Rightarrow> '''' | Some v \<Rightarrow> v)"

fun diff_want :: "labels \<Rightarrow> (string \<times> string) list \<Rightarrow> (string, string option) gomap \<Rightarrow> (string, string option) gomap" where
  "diff_want have [] patch = patch"
| "diff_want have ((k, v) # ws) patch =
     diff_want have ws (if label_at have k \<noteq> v then AList.update k (Some v) patch else patch)"

fun diff_have :: "labels \<Rightarrow> (string \<times> string) list \<Rightarrow> (string, string option) gomap \<Rightarrow> (string, string option) gomap" where
  "diff_have want [] patch = patch"
| "diff_have want ((k, v) # hs) patch =
     (if \<not> HasPrefix k label_prefix then diff_have want hs patch
      else diff_have want hs (if map_of want k = None then AList.update k None patch else patch))"

definition label_diff :: "labels \<Rightarrow> labels \<Rightarrow> (string, string option) gomap" where
  "label_diff have want = diff_have want have (diff_want have want [])"

definition merge_labels :: "labels \<Rightarrow> (string, string option) gomap \<Rightarrow> labels" where
  "merge_labels have patch =
     fold (\<lambda>(k, v) m. case v of None \<Rightarrow> AList.delete k m | Some s \<Rightarrow> AList.update k s m) patch have"

datatype label_error = ErrAsking | ErrReadingNode | ErrPatching

text \<open>One node: the report asked for, the labels read, and whether a patch is taken.\<close>

definition pass_one :: "held_line list option \<Rightarrow> bool \<Rightarrow> labels option \<Rightarrow> (label_error + bool) \<times> labels option" where
  "pass_one asked taken node =
     (case asked of
        None \<Rightarrow> (Inl ErrAsking, node)
      | Some lines \<Rightarrow>
          (case node of
             None \<Rightarrow> (Inl ErrReadingNode, node)
           | Some have \<Rightarrow>
               (let patch = label_diff have (wanted_labels lines) in
                if patch = [] then (Inr False, node)
                else if taken then (Inr True, Some (merge_labels have patch))
                else (Inl ErrPatching, node))))"

definition put_node :: "(string, labels) gomap \<Rightarrow> string \<Rightarrow> labels option \<Rightarrow> (string, labels) gomap" where
  "put_node ns name m = (case m of None \<Rightarrow> ns | Some l \<Rightarrow> AList.update name l ns)"

fun pass_run :: "(agent_ref \<Rightarrow> held_line list option) \<Rightarrow> (string \<Rightarrow> bool) \<Rightarrow> agent_ref list \<Rightarrow> (string, labels) gomap
    \<Rightarrow> nat \<times> (string \<times> label_error) list \<times> (string, labels) gomap" where
  "pass_run ask taken [] ns = (0, [], ns)"
| "pass_run ask taken (a # as) ns =
     (case pass_one (ask a) (taken (agNode a)) (map_of ns (agNode a)) of
        (r, m) \<Rightarrow>
          (case pass_run ask taken as (put_node ns (agNode a) m) of
             (written, failed, ns') \<Rightarrow>
               (case r of
                  Inl e \<Rightarrow> (written, (agNode a, e) # failed, ns')
                | Inr wrote \<Rightarrow> (if wrote then Suc written else written, failed, ns'))))"

section \<open>What is wanted\<close>

lemma want_loop_ok: "gomap_ok m \<Longrightarrow> gomap_ok (want_loop hs m)"
  by (induction hs arbitrary: m) (simp_all add: Let_def)

lemma wanted_ok: "gomap_ok (wanted_labels hs)"
  by (simp add: wanted_labels_def want_loop_ok)

definition line_says :: "held_line \<Rightarrow> string \<Rightarrow> string \<Rightarrow> bool" where
  "line_says h k v \<longleftrightarrow> hlLevel h = v \<and> v \<noteq> '''' \<and> hlLabel h \<noteq> '''' \<and> (k = hlLabel h \<or> (k = hlRack h \<and> k \<noteq> ''''))"

lemma want_loop_from: "map_of (want_loop hs m) k = Some v \<Longrightarrow> map_of m k = Some v \<or> (\<exists>h\<in>set hs. line_says h k v)"
  by (induction hs arbitrary: m) (fastforce simp: Let_def line_says_def map_of_update_if split: if_splits)+

lemma want_loop_keeps: "map_of m k \<noteq> None \<Longrightarrow> map_of (want_loop hs m) k \<noteq> None"
  by (induction hs arbitrary: m) (simp_all add: Let_def map_of_update_if)

lemma want_loop_has: "h \<in> set hs \<Longrightarrow> line_says h k v \<Longrightarrow> map_of (want_loop hs m) k \<noteq> None"
proof (induction hs arbitrary: m)
  case (Cons x xs)
  show ?case
  proof (cases "h = x")
    case True
    let ?m1 = "AList.update (hlLabel x) (hlLevel x) m"
    have "map_of (if hlRack x \<noteq> '''' then AList.update (hlRack x) (hlLevel x) ?m1 else ?m1) k \<noteq> None"
      using Cons.prems(2) True by (auto simp: line_says_def map_of_update_if)
    from want_loop_keeps [OF this, of xs] show ?thesis using Cons.prems(2) True by (auto simp: line_says_def Let_def)
  qed (use Cons in \<open>simp add: Let_def\<close>)
qed simp

section \<open>What a patch does\<close>

lemma diff_want_at:
  "gomap_ok ws \<Longrightarrow> map_of (diff_want have ws p) k
     = (case map_of ws k of None \<Rightarrow> map_of p k | Some v \<Rightarrow> if label_at have k \<noteq> v then Some (Some v) else map_of p k)"
  by (induction "have" ws p rule: diff_want.induct) (auto simp: map_of_update_if gomap_ok_Cons split: option.splits)

lemma diff_have_at:
  "map_of (diff_have want hs p) k
     = (if map_of hs k \<noteq> None \<and> HasPrefix k label_prefix \<and> map_of want k = None then Some None else map_of p k)"
  by (induction want hs p rule: diff_have.induct) (auto simp: map_of_update_if)

lemma diff_want_ok: "gomap_ok p \<Longrightarrow> gomap_ok (diff_want have ws p)"
  by (induction "have" ws p rule: diff_want.induct) simp_all

lemma diff_have_ok: "gomap_ok p \<Longrightarrow> gomap_ok (diff_have want hs p)"
  by (induction want hs p rule: diff_have.induct) simp_all

lemma label_diff_at:
  assumes "gomap_ok want"
  shows "map_of (label_diff have want) k =
    (case map_of want k of
       Some v \<Rightarrow> if label_at have k \<noteq> v then Some (Some v) else None
     | None \<Rightarrow> if map_of have k \<noteq> None \<and> HasPrefix k label_prefix then Some None else None)"
  using assms by (auto simp: label_diff_def diff_have_at diff_want_at split: option.splits)

lemma label_diff_ok: "gomap_ok (label_diff have want)"
  by (simp add: label_diff_def diff_want_ok diff_have_ok)

lemma merge_labels_at:
  "gomap_ok patch \<Longrightarrow> map_of (merge_labels have patch) k
     = (case map_of patch k of None \<Rightarrow> map_of have k | Some v \<Rightarrow> v)"
  unfolding merge_labels_def
  by (induction patch arbitrary: "have") (auto simp: map_of_update_if map_of_delete_if gomap_ok_Cons split: option.splits)

lemma merge_labels_ok: "gomap_ok have \<Longrightarrow> gomap_ok (merge_labels have patch)"
  unfolding merge_labels_def by (induction patch arbitrary: "have") (auto split: option.splits)

text \<open>The labels of a node after the patch: what is wanted, and every label that is not the project's.\<close>

definition settled :: "labels \<Rightarrow> labels \<Rightarrow> labels \<Rightarrow> bool" where
  "settled have want now \<longleftrightarrow> (\<forall>k. map_of now k =
     (case map_of want k of Some v \<Rightarrow> Some v | None \<Rightarrow> if HasPrefix k label_prefix then None else map_of have k))"

lemma wanted_value: "map_of (wanted_labels hs) k = Some v \<Longrightarrow> v \<noteq> ''''"
  using want_loop_from [of hs "[]" k v] by (auto simp: wanted_labels_def line_says_def)

lemma merge_settles:
  assumes "gomap_ok want" "\<And>k. map_of want k \<noteq> Some ''''"
  shows "settled have want (merge_labels have (label_diff have want))"
  unfolding settled_def
proof
  fix k
  show "map_of (merge_labels have (label_diff have want)) k =
     (case map_of want k of Some v \<Rightarrow> Some v | None \<Rightarrow> if HasPrefix k label_prefix then None else map_of have k)"
    using assms(2) [of k]
    by (cases "map_of want k"; cases "map_of have k")
       (simp_all add: merge_labels_at label_diff_ok label_diff_at [OF assms(1)] label_at_def)
qed

lemma diff_settled:
  assumes "gomap_ok want"
  shows "label_diff have want = [] \<longleftrightarrow> (\<forall>k. (\<forall>v. map_of want k = Some v \<longrightarrow> label_at have k = v)
      \<and> (map_of want k = None \<and> HasPrefix k label_prefix \<longrightarrow> map_of have k = None))"
proof -
  have "label_diff have want = [] \<longleftrightarrow> (\<forall>k. map_of (label_diff have want) k = None)"
    by (auto simp: map_of_eq_None_iff)
  also have "\<dots> \<longleftrightarrow> (\<forall>k. (\<forall>v. map_of want k = Some v \<longrightarrow> label_at have k = v)
      \<and> (map_of want k = None \<and> HasPrefix k label_prefix \<longrightarrow> map_of have k = None))"
  proof (rule all_cong1)
    show "map_of (label_diff have want) k = None \<longleftrightarrow> (\<forall>v. map_of want k = Some v \<longrightarrow> label_at have k = v)
        \<and> (map_of want k = None \<and> HasPrefix k label_prefix \<longrightarrow> map_of have k = None)" for k
      by (cases "map_of want k") (auto simp: label_diff_at [OF assms])
  qed
  finally show ?thesis .
qed

lemma pass_one_settles:
  assumes "pass_one (Some lines) taken (Some have) = (Inr w, m)"
  shows "\<exists>now. m = Some now \<and> settled have (wanted_labels lines) now
    \<and> pass_one (Some lines) taken' (Some now) = (Inr False, Some now) \<and> (\<not> w \<longrightarrow> now = have)"
proof -
  let ?w = "wanted_labels lines"
  have v: "map_of ?w k \<noteq> Some ''''" for k using wanted_value [of lines k] by blast
  define now where "now = (if label_diff have ?w = [] then have else merge_labels have (label_diff have ?w))"
  have m: "m = Some now" "\<not> w \<longrightarrow> now = have"
    using assms by (auto simp: pass_one_def Let_def now_def split: if_splits)
  have s: "settled have ?w now"
  proof (cases "label_diff have ?w = []")
    case True
    show ?thesis
      unfolding settled_def
    proof
      fix k
      show "map_of now k = (case map_of ?w k of Some v \<Rightarrow> Some v | None \<Rightarrow> if HasPrefix k label_prefix then None else map_of have k)"
        using True [unfolded diff_settled [OF wanted_ok]] v [of k]
        by (auto simp: now_def True label_at_def split: option.splits)
    qed
  qed (simp add: now_def merge_settles wanted_ok v)
  then have "label_diff now ?w = []"
    by (auto simp: diff_settled [OF wanted_ok] settled_def label_at_def)
  with m s show ?thesis by (simp add: pass_one_def)
qed

text \<open>A label outside the prefix is kept even when no agent asks for it any more.\<close>

lemma foreign_label_stays:
  "\<not> HasPrefix k label_prefix \<Longrightarrow> pass_one (Some []) taken (Some have) = (Inr w, Some now) \<Longrightarrow> map_of now k = map_of have k"
  using pass_one_settles [of "[]" taken "have" w "Some now"] by (auto simp: settled_def wanted_labels_def)

section \<open>A pass over the cluster\<close>

lemma map_of_put_node: "map_of (put_node ns name m) k = (if k = name \<and> m \<noteq> None then m else map_of ns k)"
  by (auto simp: put_node_def map_of_update_if split: option.splits)

lemma pass_one_none: "pass_one asked taken node = (r, m) \<Longrightarrow> m = None \<longleftrightarrow> node = None"
  by (auto simp: pass_one_def Let_def split: option.splits if_splits)

lemma pass_one_failed: "pass_one asked taken node = (Inl e, m) \<Longrightarrow> m = node"
  by (auto simp: pass_one_def Let_def split: option.splits if_splits)

text \<open>Every node ends as if it had been visited alone.\<close>

lemma pass_run_at:
  assumes "pass_run ask taken as ns = (written, failed, ns')" "distinct (map agNode as)"
  shows "(\<forall>a\<in>set as. case pass_one (ask a) (taken (agNode a)) (map_of ns (agNode a)) of (r, m) \<Rightarrow>
        map_of ns' (agNode a) = m \<and> (\<forall>e. (agNode a, e) \<in> set failed \<longleftrightarrow> r = Inl e))
    \<and> (\<forall>k. k \<notin> agNode ` set as \<longrightarrow> map_of ns' k = map_of ns k)
    \<and> fst ` set failed \<subseteq> agNode ` set as
    \<and> written = length (filter (\<lambda>a. fst (pass_one (ask a) (taken (agNode a)) (map_of ns (agNode a))) = Inr True) as)"
  using assms
proof (induction "as" arbitrary: ns written failed ns')
  case (Cons a as)
  obtain r m where o: "pass_one (ask a) (taken (agNode a)) (map_of ns (agNode a)) = (r, m)" by force
  let ?n1 = "put_node ns (agNode a) m"
  obtain w f where rest: "pass_run ask taken as ?n1 = (w, f, ns')"
    and wf: "written = (if r = Inr True then Suc w else w)" "failed = (case r of Inl e \<Rightarrow> (agNode a, e) # f | Inr _ \<Rightarrow> f)"
    using Cons.prems(1) o by (auto split: prod.splits sum.splits if_splits)
  have d: "distinct (map agNode as)" "agNode a \<notin> agNode ` set as" using Cons.prems(2) by auto
  have same: "map_of ?n1 (agNode b) = map_of ns (agNode b)" if "b \<in> set as" for b
  proof -
    have "agNode b \<noteq> agNode a" using that d(2) by (metis image_eqI)
    then show ?thesis by (simp add: map_of_put_node)
  qed
  have here: "map_of ?n1 (agNode a) = m" using pass_one_none [OF o] by (auto simp: map_of_put_node)
  have filt: "filter (\<lambda>a. fst (pass_one (ask a) (taken (agNode a)) (map_of ?n1 (agNode a))) = Inr True) as
      = filter (\<lambda>a. fst (pass_one (ask a) (taken (agNode a)) (map_of ns (agNode a))) = Inr True) as"
    by (rule filter_cong) (simp_all add: same)
  note IH = Cons.IH [OF rest d(1), unfolded filt]
  have "agNode a \<notin> fst ` set f" using IH d(2) by blast
  then have nf: "(agNode a, e) \<notin> set f" for e by (metis fst_conv image_eqI)
  have A: "case pass_one (ask b) (taken (agNode b)) (map_of ns (agNode b)) of (r, m) \<Rightarrow>
        map_of ns' (agNode b) = m \<and> (\<forall>e. (agNode b, e) \<in> set failed \<longleftrightarrow> r = Inl e)" if "b \<in> set (a # as)" for b
  proof (cases "b = a")
    case True
    then show ?thesis using IH d(2) here nf by (auto simp: o wf(2) split: sum.splits)
  next
    case False
    then have b: "b \<in> set as" using that by simp
    then have "agNode b \<noteq> agNode a" using d(2) by (metis image_eqI)
    then show ?thesis using IH same [OF b] b by (auto simp: wf(2) split: sum.splits)
  qed
  have B: "\<forall>k. k \<notin> agNode ` set (a # as) \<longrightarrow> map_of ns' k = map_of ns k"
    using IH by (auto simp: map_of_put_node)
  have C: "fst ` set failed \<subseteq> agNode ` set (a # as)" using IH by (auto simp: wf(2) split: sum.splits)
  show ?case using A B C IH by (auto simp: o wf(1))
qed simp

section \<open>What a report makes wanted\<close>

lemma level_String_empty [simp]: "level_String l = '''' \<longleftrightarrow> l = LNone"
  by (cases l) (simp_all add: level_String_def)

lemma Key_HasPrefix [simp]: "HasPrefix (res_Key t d) label_prefix" "HasPrefix (RackKey t d) label_prefix"
  by (simp_all add: HasPrefix_def res_Key_def RackKey_def)

lemma Key_nonempty [simp]: "res_Key t d \<noteq> ''''" "RackKey t d \<noteq> ''''"
  by (simp_all add: res_Key_def RackKey_def label_prefix_def)

text \<open>Lines that carry the keys of a dataset want exactly those keys.\<close>

definition keyed :: "residencyOf \<Rightarrow> Held \<Rightarrow> bool" where
  "keyed e h \<longleftrightarrow> roLabel e = res_Key (hTenant h) (hObject h) \<and> roRack e = RackKey (hTenant h) (hObject h)"

lemma wanted_from:
  assumes "map_of (wanted_labels (map line_of out)) k = Some v"
  obtains e where "e \<in> set out" "roLevel e = v" "v \<noteq> ''''" "k = roLabel e \<or> k = roRack e"
  using want_loop_from [OF assms [unfolded wanted_labels_def]] that by (auto simp: line_says_def line_of_def)

lemma wanted_has:
  assumes "e \<in> set out" "keyed e h" "roLevel e \<noteq> ''''"
  shows "map_of (wanted_labels (map line_of out)) (res_Key (hTenant h) (hObject h)) \<noteq> None"
    and "map_of (wanted_labels (map line_of out)) (RackKey (hTenant h) (hObject h)) \<noteq> None"
proof -
  have e: "line_of e \<in> set (map line_of out)" using assms(1) by simp
  have "line_says (line_of e) (res_Key (hTenant h) (hObject h)) (roLevel e)"
    "line_says (line_of e) (RackKey (hTenant h) (hObject h)) (roLevel e)"
    using assms(2,3) by (simp_all add: line_says_def line_of_def keyed_def)
  then show "map_of (wanted_labels (map line_of out)) (res_Key (hTenant h) (hObject h)) \<noteq> None"
    "map_of (wanted_labels (map line_of out)) (RackKey (hTenant h) (hObject h)) \<noteq> None"
    unfolding wanted_labels_def by (metis e want_loop_has)+
qed

lemma wanted_prefixed:
  assumes "\<forall>e\<in>set out. \<exists>h. keyed e h" "map_of (wanted_labels (map line_of out)) k = Some v"
  shows "HasPrefix k label_prefix"
  using wanted_from [OF assms(2)] assms(1) by (metis Key_HasPrefix keyed_def)

lemma pass_one_taken:
  obtains w where "pass_one (Some lines) True (Some have) = (Inr w, snd (pass_one (Some lines) True (Some have)))"
proof (cases "label_diff have (wanted_labels lines) = []")
  case True
  then show thesis by (intro that [of False]) (simp add: pass_one_def)
next
  case False
  then show thesis by (intro that [of True]) (simp add: pass_one_def Let_def)
qed

end
