(* ===== verification/Go_Path.thy ===== *)
theory Go_Path
  imports Go_Text
begin

text \<open>
  What the code uses of the package \<open>path\<close> and of splitting strings into a bounded number of parts.
  \<open>path.Clean\<close> works on the parts between slashes: empty parts and dots go, two dots take the part
  before them back, and are kept at the front of a path that is not rooted. The lemmas: cleaning is
  idempotent and keeps what was appended in plain parts.
\<close>

fun clean_steps :: "bool \<Rightarrow> string list \<Rightarrow> string list \<Rightarrow> string list" where
  "clean_steps rooted acc [] = rev acc"
| "clean_steps rooted acc (s # ss) =
     (if s = [] \<or> s = ''.'' then clean_steps rooted acc ss
      else if s = ''..'' then
        (if acc \<noteq> [] \<and> hd acc \<noteq> ''..'' then clean_steps rooted (tl acc) ss
         else if rooted then clean_steps rooted acc ss
         else clean_steps rooted (''..'' # acc) ss)
      else clean_steps rooted (s # acc) ss)"

definition clean_parts :: "string \<Rightarrow> string list" where
  "clean_parts p = clean_steps (HasPrefix p ''/'') [] (Split p (CHR ''/''))"

definition render :: "bool \<Rightarrow> string list \<Rightarrow> string" where
  "render rooted cs = (if rooted then ''/'' @ Join cs ''/'' else if cs = [] then ''.'' else Join cs ''/'')"

definition path_Clean :: "string \<Rightarrow> string" where
  "path_Clean p = render (HasPrefix p ''/'') (clean_parts p)"

definition path_Join :: "string list \<Rightarrow> string" where
  "path_Join es = (let ne = filter (\<lambda>e. e \<noteq> []) es in if ne = [] then [] else path_Clean (Join ne ''/''))"

definition CutPrefix :: "string \<Rightarrow> string \<Rightarrow> string option" where
  "CutPrefix s p = (if HasPrefix s p then Some (drop (length p) s) else None)"

fun SplitN :: "string \<Rightarrow> char \<Rightarrow> nat \<Rightarrow> string list" where
  "SplitN s sep 0 = []"
| "SplitN s sep (Suc 0) = [s]"
| "SplitN s sep (Suc (Suc n)) =
     (case Cut s sep of (a, b, found) \<Rightarrow> if found then a # SplitN b sep (Suc n) else [s])"

section \<open>Splitting\<close>

lemma Split_plain: "sep \<notin> set s \<Longrightarrow> Split s sep = [s]"
  by (induction s) auto

lemma Split_append: "Split (a @ sep # b) sep = Split a sep @ Split b sep"
  by (induction a) (auto split: list.splits)

lemma Split_Join: "ss \<noteq> [] \<Longrightarrow> \<forall>s\<in>set ss. sep \<notin> set s \<Longrightarrow> Split (Join ss [sep]) sep = ss"
proof (induction ss "[sep]" rule: Join.induct)
  case (3 s t ss)
  then show ?case by (simp add: Split_append Split_plain)
qed (auto simp: Split_plain)

lemma Join_append: "xs \<noteq> [] \<Longrightarrow> ys \<noteq> [] \<Longrightarrow> Join (xs @ ys) sep = Join xs sep @ sep @ Join ys sep"
proof (induction xs sep rule: Join.induct)
  case (2 s sep)
  then show ?case by (cases ys) simp_all
qed auto

lemma Cut_append: "sep \<notin> set a \<Longrightarrow> Cut (a @ sep # b) sep = (a, b, True)"
  by (induction a) (auto simp: Cut_def split: if_splits)

section \<open>Cleaning\<close>

definition plain :: "string \<Rightarrow> bool" where
  "plain s \<longleftrightarrow> s \<noteq> [] \<and> s \<noteq> ''.'' \<and> s \<noteq> ''..'' \<and> CHR ''/'' \<notin> set s"

text \<open>The parts a cleaned path has.\<close>

definition norm :: "bool \<Rightarrow> string list \<Rightarrow> bool" where
  "norm rooted cs \<longleftrightarrow> (\<exists>n ts. cs = replicate n ''..'' @ ts \<and> list_all plain ts \<and> (rooted \<longrightarrow> n = 0))"

lemma clean_steps_append: "clean_steps r acc (ss @ ts) = clean_steps r (rev (clean_steps r acc ss)) ts"
  by (induction r acc ss rule: clean_steps.induct) auto

lemma clean_steps_plain: "list_all plain ts \<Longrightarrow> clean_steps r acc ts = rev acc @ ts"
  by (induction r acc ts rule: clean_steps.induct) (auto simp: plain_def)

lemma clean_steps_dots: "clean_steps False (replicate k ''..'') (replicate n ''..'' @ ts) = clean_steps False (replicate (n + k) ''..'') ts"
proof (induction n arbitrary: k)
  case (Suc n)
  have "k = 0 \<or> hd (replicate k ''..'') = ''..''" by (cases k) auto
  then show ?case using Suc [of "Suc k"] by auto
qed simp

lemma clean_steps_norm: "norm r cs \<Longrightarrow> clean_steps r [] cs = cs"
  using clean_steps_dots [of 0] by (auto simp: norm_def clean_steps_plain)

lemma norm_snoc: "norm r cs \<Longrightarrow> plain s \<Longrightarrow> norm r (cs @ [s])"
  unfolding norm_def by (elim exE conjE, rule_tac x = n in exI, rule_tac x = "ts @ [s]" in exI) simp

lemma norm_dots: "norm False cs \<Longrightarrow> cs = [] \<or> last cs = ''..'' \<Longrightarrow> norm False (cs @ [''..''])"
proof -
  assume "norm False cs" and l: "cs = [] \<or> last cs = ''..''"
  then obtain n ts where c: "cs = replicate n ''..'' @ ts" "list_all plain ts" by (auto simp: norm_def)
  have "ts = []" using l c by (cases ts rule: rev_cases) (auto simp: plain_def)
  then have "cs @ [''..''] = replicate (Suc n) ''..'' @ []" using c by (simp add: replicate_append_same)
  then show ?thesis unfolding norm_def by (intro exI [of _ "Suc n"] exI [of _ "[]"]) simp
qed

lemma norm_butlast: "norm r cs \<Longrightarrow> norm r (butlast cs)"
  unfolding norm_def
proof (elim exE conjE)
  fix n ts assume c: "cs = replicate n ''..'' @ ts" "list_all plain ts" "r \<longrightarrow> n = 0"
  show "\<exists>n ts. butlast cs = replicate n ''..'' @ ts \<and> list_all plain ts \<and> (r \<longrightarrow> n = 0)"
  proof (cases ts rule: rev_cases)
    case Nil
    then have "butlast cs = replicate (n - 1) ''..'' @ []" using c(1) by (simp add: butlast_conv_take)
    then show ?thesis using c(3) by (intro exI [of _ "n - 1"] exI [of _ "[]"]) simp
  next
    case (snoc us u)
    then show ?thesis using c by (intro exI [of _ n] exI [of _ us]) (simp add: butlast_append)
  qed
qed

lemma clean_steps_norm_result:
  "norm r (rev acc) \<Longrightarrow> \<forall>s\<in>set ss. CHR ''/'' \<notin> set s \<Longrightarrow> norm r (clean_steps r acc ss)"
proof (induction r acc ss rule: clean_steps.induct)
  case (2 r acc s ss)
  consider "s = [] \<or> s = ''.''" | "s = ''..''" "acc \<noteq> []" "hd acc \<noteq> ''..''" | "s = ''..''" "acc = [] \<or> hd acc = ''..''" r
    | "s = ''..''" "acc = [] \<or> hd acc = ''..''" "\<not> r" | "plain s"
    using 2(7) by (auto simp: plain_def)
  then show ?case
  proof cases
    case 2
    have "norm r (rev (tl acc))" using norm_butlast [OF "2.prems"(1)] by (simp add: butlast_rev)
    then show ?thesis using 2 "2.IH" "2.prems" by simp
  next
    case 4
    then have "norm False (rev acc @ [''..''])" using "2.prems"(1) by (intro norm_dots) (auto simp: last_rev)
    then have "norm r (rev (''..'' # acc))" using 4 by simp
    then show ?thesis using 4 "2.IH" "2.prems" by auto
  next
    case 5
    have "norm r (rev (s # acc))" using norm_snoc [OF "2.prems"(1) 5] by simp
    then show ?thesis using 5 "2.IH" "2.prems" by (auto simp: plain_def)
  qed (use "2.IH" "2.prems" in auto)
qed simp

lemma clean_parts_norm: "norm (HasPrefix p ''/'') (clean_parts p)"
  unfolding clean_parts_def
proof (rule clean_steps_norm_result)
  show "norm (HasPrefix p ''/'') (rev [])" unfolding norm_def by (intro exI [of _ 0] exI [of _ "[]"]) simp
qed (rule Split_no_sep)

lemma norm_no_slash:
  assumes "norm r cs" "s \<in> set cs"
  shows "CHR ''/'' \<notin> set s \<and> s \<noteq> []"
proof -
  obtain n ts where c: "cs = replicate n ''..'' @ ts" "list_all plain ts" using assms(1) by (auto simp: norm_def)
  have "s = ''..'' \<or> s \<in> set ts" using assms(2) c(1) by (cases "n = 0") auto
  moreover have "plain s" if "s \<in> set ts" using that c(2) by (simp add: list_all_iff)
  ultimately show ?thesis by (auto simp: plain_def)
qed

lemma HasPrefix_slash: "HasPrefix s ''/'' \<longleftrightarrow> s \<noteq> [] \<and> hd s = CHR ''/''"
  by (cases s) (auto simp: HasPrefix_def)

text \<open>The parts of a rendered path are the parts it was rendered from.\<close>

lemma render_parts:
  assumes "norm r cs" "r \<or> cs \<noteq> []"
  shows "HasPrefix (render r cs) ''/'' = r" "clean_parts (render r cs) = cs"
proof -
  have ns: "\<forall>s\<in>set cs. CHR ''/'' \<notin> set s" using norm_no_slash [OF assms(1)] by blast
  have hp: "HasPrefix (Join cs ''/'') ''/'' = False" if "cs \<noteq> []" "\<not> r"
  proof -
    obtain c cs' where c: "cs = c # cs'" using \<open>cs \<noteq> []\<close> by (cases cs) auto
    have "c \<noteq> []" "CHR ''/'' \<notin> set c" using norm_no_slash [OF assms(1), of c] by (simp_all add: c)
    then have "c \<noteq> []" "hd c \<noteq> CHR ''/''" by (metis hd_in_set)+
    then show ?thesis by (cases cs') (simp_all add: c HasPrefix_slash)
  qed
  then show p: "HasPrefix (render r cs) ''/'' = r" using assms(2) by (auto simp: render_def HasPrefix_def)
  have "clean_steps r [] (Split (render r cs) (CHR ''/'')) = clean_steps r [] cs"
  proof (cases "cs = []")
    case False
    then show ?thesis using Split_Join [OF False ns] Split_append [of "[]" "CHR ''/''"] by (simp add: render_def)
  qed (use assms(2) in \<open>simp add: render_def\<close>)
  then show "clean_parts (render r cs) = cs" using clean_steps_norm [OF assms(1)] p by (simp add: clean_parts_def)
qed

lemma path_Clean_idem: "path_Clean (path_Clean p) = path_Clean p"
proof (cases "HasPrefix p ''/'' \<or> clean_parts p \<noteq> []")
  case True
  then show ?thesis using render_parts [OF clean_parts_norm True] by (simp add: path_Clean_def)
next
  case False
  then show ?thesis by (simp add: path_Clean_def render_def) (simp add: clean_parts_def HasPrefix_def render_def)
qed

text \<open>Joining plain parts to a root appends them to its parts.\<close>

lemma clean_parts_append:
  assumes "root \<noteq> []" "list_all plain (Split rest (CHR ''/''))"
  shows "clean_parts (root @ ''/'' @ rest) = clean_parts root @ Split rest (CHR ''/'')"
proof -
  have "HasPrefix (root @ ''/'' @ rest) ''/'' = HasPrefix root ''/''" using assms(1) by (simp add: HasPrefix_slash)
  then show ?thesis
    using assms(2) by (simp add: clean_parts_def Split_append clean_steps_append clean_steps_plain)
qed

lemma norm_append: "norm r cs \<Longrightarrow> list_all plain ts \<Longrightarrow> norm r (cs @ ts)"
proof (induction ts rule: rev_induct)
  case (snoc t ts)
  then show ?case using norm_snoc [of r "cs @ ts" t] by simp
qed simp

end
