(* ===== verification/Dataset_Ref.thy ===== *)
theory Dataset_Ref
  imports Go_Path Driver_Backend
begin

text \<open>
  Package dataset (\<open>internal/dataset\<close>): what a user named, where the bytes are, and the two views of it.
  A resolver is a function from a dataset and a version to a placement; that there is no resolver is
  \<open>None\<close>. The loop of \<open>Validate\<close> ranges over a map of two entries, so which of two bad names an error
  mentions is open; the error's kind is not.

  The lemmas: references that are valid have distinct addresses, an object key and a file path are
  read back as the reference they came from, and what resolves to one address names one object of one
  placement. A path is read back only when none of its names is a dot or two dots: a valid reference
  may leave the root it is served under (\<open>FilePath_escapes\<close>).
\<close>

record Ref =
  rDataset :: string
  rVersion :: string
  rObject :: string

datatype dataset_error = ErrEmpty | ErrSeparator | ErrNoResolver | ErrUnknown | ErrNotUnderRoot

abbreviation slash :: char where "slash \<equiv> CHR ''/''"

definition ref_Validate :: "Ref \<Rightarrow> dataset_error option" where
  "ref_Validate r =
     (if rDataset r = [] \<or> rVersion r = [] \<or> rObject r = [] then Some ErrEmpty
      else if slash \<in> set (rDataset r) \<or> slash \<in> set (rVersion r) then Some ErrSeparator
      else None)"

definition ref_String :: "Ref \<Rightarrow> string" where
  "ref_String r = rDataset r @ ''/'' @ rVersion r @ ''/'' @ rObject r"

record Placement =
  plDataset :: string
  plVersion :: string

type_synonym resolver = "string \<Rightarrow> string \<Rightarrow> Placement option"

definition ref_Backend :: "Ref \<Rightarrow> resolver option \<Rightarrow> dataset_error + string" where
  "ref_Backend r res =
     (case ref_Validate r of
        Some e \<Rightarrow> Inl e
      | None \<Rightarrow>
          (case res of
             None \<Rightarrow> Inl ErrNoResolver
           | Some f \<Rightarrow>
               (case f (rDataset r) (rVersion r) of
                  None \<Rightarrow> Inl ErrUnknown
                | Some p \<Rightarrow> Inr (plDataset p @ ''/'' @ plVersion p @ ''/'' @ rObject r))))"

section \<open>The two views\<close>

definition FilePath :: "Ref \<Rightarrow> string \<Rightarrow> string" where
  "FilePath r root = path_Join [root, rDataset r, rVersion r, rObject r]"

definition ObjectKey :: "Ref \<Rightarrow> string" where
  "ObjectKey r = ref_String r"

definition ParseObjectKey :: "string \<Rightarrow> dataset_error + Ref" where
  "ParseObjectKey key =
     (let parts = SplitN (TrimPrefix key ''/'') slash 3 in
      if length parts < 3 then Inl ErrEmpty
      else let r = \<lparr>rDataset = parts ! 0, rVersion = parts ! 1, rObject = parts ! 2\<rparr> in
           case ref_Validate r of Some e \<Rightarrow> Inl e | None \<Rightarrow> Inr r)"

definition ParseFilePath :: "string \<Rightarrow> string \<Rightarrow> dataset_error + Ref" where
  "ParseFilePath root p =
     (let clean = path_Clean p; cleanRoot = path_Clean root in
      if cleanRoot \<noteq> ''.'' \<and> cleanRoot \<noteq> ''/'' then
        (case CutPrefix clean (cleanRoot @ ''/'') of
           None \<Rightarrow> Inl ErrNotUnderRoot
         | Some rest \<Rightarrow> ParseObjectKey rest)
      else ParseObjectKey clean)"

datatype clone_error = NoBackend | SnapshotOnly | NeitherDeclared

definition CanClone :: "'w backend option \<Rightarrow> clone_error option" where
  "CanClone b =
     (case b of
        None \<Rightarrow> Some NoBackend
      | Some b \<Rightarrow>
          if b_Supports b Clone_cap then None
          else if b_Supports b Snapshot_cap then Some SnapshotOnly
          else Some NeitherDeclared)"

section \<open>Keys are read back\<close>

lemma valid_parts:
  assumes "ref_Validate r = None"
  shows "rDataset r \<noteq> []" "rVersion r \<noteq> []" "rObject r \<noteq> []" "slash \<notin> set (rDataset r)" "slash \<notin> set (rVersion r)"
  using assms by (auto simp: ref_Validate_def split: if_splits)

lemma SplitN_three:
  "SplitN s sep 3 = (case Cut s sep of (a, b, f) \<Rightarrow> if f then (case Cut b sep of (c, d, g) \<Rightarrow> if g then [a, c, d] else [a, b]) else [s])"
  by (simp add: numeral_3_eq_3 split: prod.splits)

lemma ParseObjectKey_String: "ref_Validate r = None \<Longrightarrow> ParseObjectKey (ObjectKey r) = Inr r"
proof -
  assume v: "ref_Validate r = None"
  note p = valid_parts [OF v]
  have "hd (rDataset r) \<noteq> slash" using p by (metis hd_in_set)
  then have "TrimPrefix (ObjectKey r) ''/'' = ObjectKey r"
    using p(1) by (simp add: TrimPrefix_def HasPrefix_slash ObjectKey_def ref_String_def)
  then have s: "SplitN (TrimPrefix (ObjectKey r) ''/'') slash 3 = [rDataset r, rVersion r, rObject r]"
    using p by (simp add: SplitN_three ObjectKey_def ref_String_def Cut_append)
  have e: "\<lparr>rDataset = rDataset r, rVersion = rVersion r, rObject = rObject r\<rparr> = r" by simp
  show ?thesis using v by (simp add: ParseObjectKey_def Let_def s e)
qed

lemma ParseObjectKey_sound: "ParseObjectKey key = Inr r \<Longrightarrow> ref_Validate r = None \<and> ObjectKey r = TrimPrefix key ''/''"
  by (auto simp: ParseObjectKey_def SplitN_three Let_def ObjectKey_def ref_String_def
      split: prod.splits if_splits option.splits dest!: Cut_join)

lemma ObjectKey_inj: "ref_Validate r = None \<Longrightarrow> ref_Validate s = None \<Longrightarrow> ObjectKey r = ObjectKey s \<Longrightarrow> r = s"
  using ParseObjectKey_String by (metis sum.inject(2))

text \<open>Placements that are themselves plain names give one object one address.\<close>

lemma Backend_inj:
  assumes "ref_Backend r (Some f) = Inr a" "ref_Backend s (Some f) = Inr a"
    and "\<And>d v p. f d v = Some p \<Longrightarrow> plDataset p \<noteq> [] \<and> plVersion p \<noteq> [] \<and> slash \<notin> set (plDataset p) \<and> slash \<notin> set (plVersion p)"
  shows "f (rDataset r) (rVersion r) = f (rDataset s) (rVersion s) \<and> rObject r = rObject s"
proof -
  obtain p q where p: "f (rDataset r) (rVersion r) = Some p" and q: "f (rDataset s) (rVersion s) = Some q"
    and v: "ref_Validate r = None" "ref_Validate s = None"
    and a: "a = ObjectKey \<lparr>rDataset = plDataset p, rVersion = plVersion p, rObject = rObject r\<rparr>"
      "a = ObjectKey \<lparr>rDataset = plDataset q, rVersion = plVersion q, rObject = rObject s\<rparr>"
    using assms(1,2) by (auto simp: ref_Backend_def ObjectKey_def ref_String_def split: option.splits)
  have "\<lparr>rDataset = plDataset p, rVersion = plVersion p, rObject = rObject r\<rparr>
      = \<lparr>rDataset = plDataset q, rVersion = plVersion q, rObject = rObject s\<rparr>"
    using a assms(3) [OF p] assms(3) [OF q] valid_parts [OF v(1)] valid_parts [OF v(2)]
    by (intro ObjectKey_inj) (simp_all add: ref_Validate_def)
  then show ?thesis using p q by simp
qed

section \<open>Paths are read back\<close>

definition plain_ref :: "Ref \<Rightarrow> bool" where
  "plain_ref r \<longleftrightarrow> plain (rDataset r) \<and> plain (rVersion r) \<and> list_all plain (Split (rObject r) slash)"

lemma plain_ref_valid: "plain_ref r \<Longrightarrow> ref_Validate r = None"
  by (cases "rObject r") (auto simp: plain_ref_def ref_Validate_def plain_def)

lemma plain_ref_parts:
  assumes "plain_ref r"
  shows "Split (ref_String r) slash = rDataset r # rVersion r # Split (rObject r) slash"
    and "list_all plain (Split (ref_String r) slash)"
  using assms by (simp_all add: plain_ref_def ref_String_def Split_append Split_plain plain_def)

lemma FilePath_parts:
  assumes "plain_ref r"
  shows "FilePath r root = render (HasPrefix root ''/'') (clean_parts root @ Split (ref_String r) slash)"
proof -
  note v = valid_parts [OF plain_ref_valid [OF assms]] and pr = plain_ref_parts [OF assms]
  have ds: "hd (rDataset r) \<noteq> slash" using v by (metis hd_in_set)
  show ?thesis
  proof (cases "root = []")
    case True
    have "FilePath r root = path_Clean (ref_String r)" using v by (simp add: FilePath_def path_Join_def True ref_String_def)
    moreover have "HasPrefix (ref_String r) ''/'' = False" using v(1) ds by (simp add: HasPrefix_slash ref_String_def)
    ultimately show ?thesis
      using clean_steps_plain [OF pr(2)] by (simp add: path_Clean_def clean_parts_def True HasPrefix_def)
  next
    case False
    have "FilePath r root = path_Clean (root @ ''/'' @ ref_String r)"
      using v False by (simp add: FilePath_def path_Join_def ref_String_def)
    moreover have "HasPrefix (root @ ''/'' @ ref_String r) ''/'' = HasPrefix root ''/''" using False by (simp add: HasPrefix_slash)
    ultimately show ?thesis using clean_parts_append [OF False pr(2)] by (simp add: path_Clean_def)
  qed
qed

lemma ParseFilePath_FilePath:
  assumes "plain_ref r"
  shows "ParseFilePath root (FilePath r root) = Inr r"
proof -
  define R where "R = HasPrefix root ''/''"
  define C where "C = clean_parts root"
  define D where "D = Split (ref_String r) slash"
  have D: "D \<noteq> []" "Join D ''/'' = ref_String r" "list_all plain D"
    using plain_ref_parts [OF assms] Join_Split [of "ref_String r" slash] by (simp_all add: D_def)
  have nC: "norm R C" using clean_parts_norm by (simp add: R_def C_def)
  have f: "FilePath r root = render R (C @ D)" using FilePath_parts [OF assms] by (simp add: R_def C_def D_def)
  have cl: "path_Clean (FilePath r root) = render R (C @ D)"
    using render_parts [OF norm_append [OF nC D(3)]] D(1) by (simp add: f path_Clean_def)
  have rt: "path_Clean root = render R C" by (simp add: path_Clean_def R_def C_def)
  have key: "ParseObjectKey (ref_String r) = Inr r"
    using ParseObjectKey_String [OF plain_ref_valid [OF assms]] by (simp add: ObjectKey_def)
  have key': "ParseObjectKey (''/'' @ ref_String r) = Inr r"
  proof -
    have "TrimPrefix (''/'' @ ref_String r) ''/'' = ref_String r" by (simp add: TrimPrefix_def HasPrefix_def)
    moreover have "TrimPrefix (ref_String r) ''/'' = ref_String r"
      using valid_parts [OF plain_ref_valid [OF assms]]
      by (metis HasPrefix_slash TrimPrefix_def append_is_Nil_conv hd_append2 hd_in_set ref_String_def)
    ultimately show ?thesis using key by (simp add: ParseObjectKey_def)
  qed
  show ?thesis
  proof (cases "C = []")
    case True
    then show ?thesis using key key' D by (cases R) (simp_all add: ParseFilePath_def cl rt render_def Let_def)
  next
    case False
    have J: "Join (C @ D) ''/'' = Join C ''/'' @ ''/'' @ ref_String r" using Join_append [OF False D(1)] D(2) by simp
    have "clean_parts ''.'' = []" "clean_parts ''/'' = []" by (simp_all add: clean_parts_def HasPrefix_def)
    then have ne: "render R C \<noteq> ''.''" "render R C \<noteq> ''/''" using render_parts(2) [OF nC] False by metis+
    have "CutPrefix (render R (C @ D)) (render R C @ ''/'') = Some (ref_String r)"
      using False by (simp add: CutPrefix_def HasPrefix_def render_def J)
    then show ?thesis using key ne by (simp add: ParseFilePath_def cl rt Let_def)
  qed
qed

text \<open>A valid reference whose dataset is two dots is served outside the root.\<close>

lemma FilePath_escapes:
  "ref_Validate \<lparr>rDataset = ''..'', rVersion = ''other'', rObject = ''x''\<rparr> = None
   \<and> FilePath \<lparr>rDataset = ''..'', rVersion = ''other'', rObject = ''x''\<rparr> ''/srv/export'' = ''/srv/other/x''"
  by code_simp

end
