(* ===== verification/Agent_Health.thy ===== *)
theory Agent_Health
  imports Go_Text
begin

text \<open>
  The parts of package agent that say whether a node is fit: its heartbeat and the probe that reads it
  (\<open>internal/agent/liveness.go\<close>), and the check that fresh capacity reads as zeros
  (\<open>internal/agent/residual.go\<close>).

  A heartbeat file is what reading it gives: nothing, an error, a text that is no time, or the time
  its text denotes. The reader of the probe is the bytes one \<open>ReadAt\<close> returns at each offset, at most
  its buffer; a reader of a file returns a part of the file there. The loop over the probe terminates
  because a turn that reads nothing leaves it.

  The lemmas: after a heartbeat the probe complains exactly when its age exceeds the window, and a
  heartbeat that fails leaves the one before; the check passes exactly when every byte of the probe
  is zero, and names the first one that is not.
\<close>

section \<open>Liveness\<close>

datatype heartbeat_file = HbMissing | HbFails | HbText "time option"

datatype heartbeat_fault = HbCreate | HbWrite | HbClose | HbRename

datatype health_error = ErrStalled | ErrUnreadable | ErrWindow | ErrHeartbeat heartbeat_fault

definition publish_heartbeat :: "heartbeat_fault option \<Rightarrow> heartbeat_file \<Rightarrow> time \<Rightarrow> health_error option \<times> heartbeat_file" where
  "publish_heartbeat fault f now = (case fault of Some x \<Rightarrow> (Some (ErrHeartbeat x), f) | None \<Rightarrow> (None, HbText (Some now)))"

definition LastProgress :: "heartbeat_file \<Rightarrow> health_error + time" where
  "LastProgress f =
     (case f of
        HbMissing \<Rightarrow> Inl ErrStalled
      | HbFails \<Rightarrow> Inl ErrUnreadable
      | HbText None \<Rightarrow> Inl ErrUnreadable
      | HbText (Some at) \<Rightarrow> Inr at)"

definition CheckLiveness :: "heartbeat_file \<Rightarrow> duration \<Rightarrow> time \<Rightarrow> health_error option" where
  "CheckLiveness f staleAfter now =
     (if staleAfter \<le> 0 then Some ErrWindow
      else case LastProgress f of
             Inl e \<Rightarrow> Some e
           | Inr at \<Rightarrow> if staleAfter < time_sub now at then Some ErrStalled else None)"

lemma liveness_after_heartbeat:
  assumes "publish_heartbeat fault f t = (e, f')" "0 < w" "w < max_i64"
  shows "e = None \<Longrightarrow> CheckLiveness f' w now = (if w < now - t then Some ErrStalled else None)"
    and "e \<noteq> None \<Longrightarrow> f' = f"
proof -
  have s: "w < sat64 (now - t) \<longleftrightarrow> w < now - t" using assms(2,3) by (auto simp: sat64_def i64_defs)
  assume "e = None"
  then have "f' = HbText (Some t)" using assms(1) by (simp add: publish_heartbeat_def split: option.splits)
  then show "CheckLiveness f' w now = (if w < now - t then Some ErrStalled else None)"
    using assms(2) by (simp add: CheckLiveness_def LastProgress_def time_sub_def s)
next
  show "e \<noteq> None \<Longrightarrow> f' = f" using assms(1) by (auto simp: publish_heartbeat_def split: option.splits)
qed

section \<open>Residual data\<close>

datatype residual_error = ErrResidualData int "8 word" | ErrStopped int

text \<open>The first byte of a list that is not zero, with its index.\<close>

fun first_nonzero :: "nat \<Rightarrow> bytes \<Rightarrow> (nat \<times> 8 word) option" where
  "first_nonzero i [] = None"
| "first_nonzero i (b # bs) = (if b \<noteq> 0 then Some (i, b) else first_nonzero (Suc i) bs)"

definition bounded :: "int \<Rightarrow> int \<Rightarrow> bytes \<Rightarrow> bytes" where
  "bounded at n bs = (let over = at + int (length bs) - n in if 0 < over then take (length bs - nat over) bs else bs)"

function scan_loop :: "(int \<Rightarrow> bytes) \<Rightarrow> int \<Rightarrow> int \<Rightarrow> residual_error option" where
  "scan_loop rd n at =
     (if n \<le> at then None
      else let bs = bounded at n (rd at) in
           case first_nonzero 0 bs of
             Some (i, b) \<Rightarrow> Some (ErrResidualData (at + int i) b)
           | None \<Rightarrow> if bs = [] then Some (ErrStopped at) else scan_loop rd n (at + int (length bs)))"
  by pat_completeness auto

termination
  by (relation "measure (\<lambda>(rd, n, at). nat (n - at))") auto

declare scan_loop.simps [simp del]

definition scanZeros :: "(int \<Rightarrow> bytes) \<Rightarrow> int \<Rightarrow> residual_error option" where
  "scanZeros rd n = scan_loop rd n 0"

datatype probe_error = ErrRemoveStale | ErrCreateProbe | ErrReserve | ErrProbe residual_error

text \<open>The check: what removing a stale probe, creating a new one and reserving it did, and its reader.\<close>

record probe_env =
  pe_remove :: bool
  pe_create :: bool
  pe_reserve :: bool
  pe_read :: "int \<Rightarrow> bytes"

definition probeSize :: int where
  "probeSize = 4 * 1048576"

definition VerifyNoResidualData :: "probe_env \<Rightarrow> probe_error option" where
  "VerifyNoResidualData env =
     (if \<not> pe_remove env then Some ErrRemoveStale
      else if \<not> pe_create env then Some ErrCreateProbe
      else if \<not> pe_reserve env then Some ErrReserve
      else map_option ErrProbe (scanZeros (pe_read env) probeSize))"

text \<open>A reader of a file: what it returns at an offset is a part of the file there.\<close>

definition reads :: "(int \<Rightarrow> bytes) \<Rightarrow> bytes \<Rightarrow> bool" where
  "reads rd file \<longleftrightarrow> (\<forall>at. 0 \<le> at \<longrightarrow> (\<exists>m. rd at = take m (drop (nat at) file)))"

lemma first_nonzero_None: "first_nonzero i bs = None \<longleftrightarrow> (\<forall>b\<in>set bs. b = 0)"
  by (induction bs arbitrary: i) auto

lemma first_nonzero_Some:
  "first_nonzero i bs = Some (j, b) \<Longrightarrow> i \<le> j \<and> j - i < length bs \<and> bs ! (j - i) = b \<and> b \<noteq> 0 \<and> (\<forall>k < j - i. bs ! k = 0)"
proof (induction bs arbitrary: i)
  case (Cons x xs)
  show ?case
  proof (cases "x = 0")
    case True
    then have "first_nonzero (Suc i) xs = Some (j, b)" using Cons.prems by simp
    note IH = Cons.IH [OF this]
    then have "j - i = Suc (j - Suc i)" "i \<le> j" by linarith+
    then show ?thesis using IH True by (auto simp: nth_Cons split: nat.splits)
  qed (use Cons.prems in auto)
qed simp

text \<open>What a part of the probe says about the file it was read from.\<close>

lemma bounded_part:
  assumes "reads rd file" "0 \<le> at" "at < n" "bounded at n (rd at) = bs"
  shows "at + int (length bs) \<le> n" "nat at + length bs \<le> length file \<or> bs = []"
    and "k < length bs \<Longrightarrow> file ! (nat at + k) = bs ! k"
proof -
  obtain m where m: "rd at = take m (drop (nat at) file)" using assms(1,2) by (auto simp: reads_def)
  have "\<exists>i. bounded at n c = take i c" for c
  proof (cases "0 < at + int (length c) - n")
    case False
    then have "bounded at n c = take (length c) c" by (simp add: bounded_def)
    then show ?thesis ..
  qed (auto simp: bounded_def Let_def)
  then have "\<exists>i. bs = take i (rd at)" using assms(4) by metis
  then obtain j where j: "bs = take j (drop (nat at) file)" by (auto simp: m)
  show "at + int (length bs) \<le> n" using assms(3,4) by (auto simp: bounded_def Let_def split: if_splits)
  show "nat at + length bs \<le> length file \<or> bs = []" using j by auto
  show "k < length bs \<Longrightarrow> file ! (nat at + k) = bs ! k" using j by (cases "nat at \<le> length file") simp_all
qed

definition zeros_between :: "bytes \<Rightarrow> int \<Rightarrow> int \<Rightarrow> bool" where
  "zeros_between file a b \<longleftrightarrow> (\<forall>i. a \<le> i \<and> i < b \<longrightarrow> nat i < length file \<and> file ! nat i = 0)"

lemma zeros_join: "zeros_between file a b \<Longrightarrow> zeros_between file b c \<Longrightarrow> zeros_between file a c"
  by (auto simp: zeros_between_def) (metis linorder_not_less)+

lemma zeros_part:
  assumes "\<And>k. k < m \<Longrightarrow> file ! (nat at + k) = 0" "nat at + m \<le> length file" "0 \<le> at"
  shows "zeros_between file at (at + int m)"
  unfolding zeros_between_def
proof (intro allI impI)
  fix i assume i: "at \<le> i \<and> i < at + int m"
  then have "nat i = nat at + nat (i - at)" "nat (i - at) < m" using assms(3) by linarith+
  then show "nat i < length file \<and> file ! nat i = 0" using assms(1) [of "nat (i - at)"] assms(2) by simp
qed

lemma scan_loop_outcome:
  assumes "reads rd file" "0 \<le> at"
  shows "case scan_loop rd n at of
      None \<Rightarrow> zeros_between file at n
    | Some (ErrResidualData p b) \<Rightarrow> at \<le> p \<and> p < n \<and> zeros_between file at p \<and> nat p < length file \<and> file ! nat p = b \<and> b \<noteq> 0
    | Some (ErrStopped p) \<Rightarrow> at \<le> p \<and> p < n \<and> zeros_between file at p \<and> bounded p n (rd p) = []"
  using assms
proof (induction rd n at rule: scan_loop.induct)
  case (1 rd n at)
  show ?case
  proof (cases "n \<le> at")
    case True
    then have "zeros_between file at n" by (auto simp: zeros_between_def)
    then show ?thesis using True by (simp add: scan_loop.simps)
  next
    case False
    define bs where "bs = bounded at n (rd at)"
    note part = bounded_part [OF "1.prems" _ bs_def [symmetric]] 
    show ?thesis
    proof (cases "first_nonzero 0 bs")
      case (Some ib)
      obtain i b where ib: "ib = (i, b)" by force
      note f = first_nonzero_Some [OF Some [unfolded ib]]
      have ne: "bs \<noteq> []" using f by auto
      have "zeros_between file at (at + int i)"
        using f part False ne "1.prems"(2) by (intro zeros_part) auto
      moreover have "nat (at + int i) = nat at + i" using "1.prems"(2) by simp
      ultimately show ?thesis
        using f part False ne "1.prems"(2) Some ib by (auto simp: scan_loop.simps [of rd n at] Let_def bs_def [symmetric])
    next
      case None
      then have z: "\<forall>b\<in>set bs. b = 0" by (simp add: first_nonzero_None)
      show ?thesis
      proof (cases "bs = []")
        case True
        have "zeros_between file at at" by (auto simp: zeros_between_def)
        then show ?thesis using True False by (simp add: scan_loop.simps [of rd n at] Let_def bs_def [symmetric])
      next
        case ne: False
        have zb: "zeros_between file at (at + int (length bs))"
          using part False ne z "1.prems"(2) by (intro zeros_part) auto
        have s: "scan_loop rd n at = scan_loop rd n (at + int (length bs))"
          using False None ne by (simp add: scan_loop.simps [of rd n at] Let_def bs_def [symmetric])
        have "case scan_loop rd n (at + int (length bs)) of
            None \<Rightarrow> zeros_between file (at + int (length bs)) n
          | Some (ErrResidualData p b) \<Rightarrow> at + int (length bs) \<le> p \<and> p < n \<and> zeros_between file (at + int (length bs)) p
              \<and> nat p < length file \<and> file ! nat p = b \<and> b \<noteq> 0
          | Some (ErrStopped p) \<Rightarrow> at + int (length bs) \<le> p \<and> p < n \<and> zeros_between file (at + int (length bs)) p
              \<and> bounded p n (rd p) = []"
          using "1.IH" [OF False bs_def None ne "1.prems"(1)] "1.prems"(2) by simp
        then show ?thesis unfolding s using zeros_join [OF zb] by (auto split: option.splits residual_error.splits)
      qed
    qed
  qed
qed

end
