(* ===== verification/Kv_Spill.thy ===== *)
theory Kv_Spill
  imports Go_Float
begin

text \<open>
  Package kvspill (\<open>internal/kvspill/kvspill.go\<close>): whether reading a block of a prefix back beats computing
  it again. The rates are doubles, and every operation on them rounds; \<open>Duration.Seconds\<close> adds the whole
  seconds to the rest. What the gate explains to an operator is text and is left out.

  The lemmas: a crossing that is reported is a positive 32-bit length, the gate opens exactly from the
  computed crossing on and stays open, and where the arithmetic is exact it opens exactly where reading
  costs no more than computing.
\<close>

record cost =
  PrefillTokensPerSecond :: float64
  ReadLatency :: duration
  ReadBytesPerSecond :: float64
  BytesPerToken :: float64

datatype cost_error = ErrPrefillRate | ErrReadRate | ErrTokenBytes | ErrLatency

definition cost_Validate :: "cost \<Rightarrow> cost_error option" where
  "cost_Validate c =
     (if PrefillTokensPerSecond c \<le> 0 then Some ErrPrefillRate
      else if ReadBytesPerSecond c \<le> 0 then Some ErrReadRate
      else if BytesPerToken c \<le> 0 then Some ErrTokenBytes
      else if ReadLatency c < 0 then Some ErrLatency
      else None)"

definition Recompute :: "cost \<Rightarrow> int \<Rightarrow> duration" where
  "Recompute c tokens = i64_of_f64 (f64_mul (f64_div (f64_of_int tokens) (PrefillTokensPerSecond c)) (f64_of_int Second))"

definition kv_Read :: "cost \<Rightarrow> int \<Rightarrow> duration" where
  "kv_Read c tokens =
     (let transfer = f64_div (f64_mul (f64_of_int tokens) (BytesPerToken c)) (ReadBytesPerSecond c)
      in wrap64 (ReadLatency c + i64_of_f64 (f64_mul transfer (f64_of_int Second))))"

text \<open>\<open>Duration.Seconds\<close> of the standard library, for a duration that is not negative.\<close>

definition dur_Seconds :: "duration \<Rightarrow> float64" where
  "dur_Seconds d = f64_add (f64_of_int (d div Second)) (f64_div (f64_of_int (d mod Second)) (f64_of_int Second))"

definition per_token :: "cost \<Rightarrow> float64" where
  "per_token c = f64_sub (f64_div 1 (PrefillTokensPerSecond c)) (f64_div (BytesPerToken c) (ReadBytesPerSecond c))"

definition crossing :: "cost \<Rightarrow> float64" where
  "crossing c = f64_div (dur_Seconds (ReadLatency c)) (per_token c)"

definition breakEven :: "cost \<Rightarrow> int \<times> bool" where
  "breakEven c =
     (if per_token c \<le> 0 then (0, False)
      else let tokens = crossing c in
           if 2147483647 < tokens then (0, False)
           else let n = i64_of_f64 (of_int \<lceil>tokens\<rceil>) in (if n < 1 then 1 else n, True))"

record gate =
  g_cost :: cost
  g_breakEven :: int
  g_exists :: bool

definition gate_New :: "cost \<Rightarrow> cost_error + gate" where
  "gate_New c =
     (case cost_Validate c of
        Some e \<Rightarrow> Inl e
      | None \<Rightarrow> Inr \<lparr>g_cost = c, g_breakEven = fst (breakEven c), g_exists = snd (breakEven c)\<rparr>)"

definition BreakEven :: "gate \<Rightarrow> int \<times> bool" where
  "BreakEven g = (g_breakEven g, g_exists g)"

definition Worth :: "gate \<Rightarrow> int \<Rightarrow> bool" where
  "Worth g tokens \<longleftrightarrow> g_exists g \<and> g_breakEven g \<le> tokens"

section \<open>Where the gate opens\<close>

lemma dur_Seconds_nonneg: "0 \<le> d \<Longrightarrow> 0 \<le> dur_Seconds d"
  unfolding dur_Seconds_def f64_add_def f64_div_def f64_of_int_def
  by (intro rnd64_nonneg add_nonneg_nonneg divide_nonneg_nonneg) simp_all

lemma crossing_nonneg: "0 \<le> ReadLatency c \<Longrightarrow> 0 < per_token c \<Longrightarrow> 0 \<le> crossing c"
  unfolding crossing_def f64_div_def by (intro rnd64_nonneg divide_nonneg_pos dur_Seconds_nonneg)

lemma gate_opens:
  assumes "gate_New c = Inr g"
  shows "g_exists g \<longleftrightarrow> 0 < per_token c \<and> crossing c \<le> 2147483647"
    and "g_exists g \<Longrightarrow> 1 \<le> g_breakEven g \<and> g_breakEven g \<le> 2147483647"
    and "Worth g k \<longleftrightarrow> 0 < per_token c \<and> crossing c \<le> 2147483647 \<and> 1 \<le> k \<and> crossing c \<le> of_int k"
proof -
  have lat: "0 \<le> ReadLatency c" using assms by (auto simp: gate_New_def cost_Validate_def split: if_splits option.splits)
  have g: "g_breakEven g = fst (breakEven c)" "g_exists g = snd (breakEven c)"
    using assms by (auto simp: gate_New_def split: option.splits)
  show ex: "g_exists g \<longleftrightarrow> 0 < per_token c \<and> crossing c \<le> 2147483647"
    by (auto simp: g breakEven_def Let_def)
  have n: "i64_of_f64 (of_int \<lceil>crossing c\<rceil>) = \<lceil>crossing c\<rceil> \<and> \<lceil>crossing c\<rceil> \<le> 2147483647"
    if "0 < per_token c" "crossing c \<le> 2147483647"
  proof -
    have "\<lceil>crossing c\<rceil> \<le> 2147483647" using that(2) by (simp add: ceiling_le_iff)
    moreover have "0 \<le> \<lceil>crossing c\<rceil>" using crossing_nonneg [OF lat that(1)] by simp
    ultimately show ?thesis by (auto simp: i64_defs intro!: i64_of_f64_of_int)
  qed
  show "g_exists g \<Longrightarrow> 1 \<le> g_breakEven g \<and> g_breakEven g \<le> 2147483647"
    using n by (auto simp: ex g breakEven_def Let_def)
  show "Worth g k \<longleftrightarrow> 0 < per_token c \<and> crossing c \<le> 2147483647 \<and> 1 \<le> k \<and> crossing c \<le> of_int k"
    using n by (auto simp: Worth_def ex g breakEven_def Let_def ceiling_le_iff)
qed

text \<open>With exact arithmetic the gate opens where reading costs no more than computing.\<close>

lemma gate_exact:
  assumes "gate_New c = Inr g" "g_exists g"
    and "per_token c = 1 / PrefillTokensPerSecond c - BytesPerToken c / ReadBytesPerSecond c"
    and "crossing c = of_int (ReadLatency c) / of_int Second / per_token c"
  shows "Worth g k \<longleftrightarrow> 1 \<le> k \<and> of_int (ReadLatency c) / of_int Second + of_int k * BytesPerToken c / ReadBytesPerSecond c
      \<le> of_int k / PrefillTokensPerSecond c"
proof -
  have p: "0 < per_token c" "crossing c \<le> 2147483647" using gate_opens(1) [OF assms(1)] assms(2) by auto
  have "crossing c \<le> of_int k \<longleftrightarrow> of_int (ReadLatency c) / of_int Second \<le> of_int k * per_token c"
    using p(1) by (simp add: assms(4) pos_divide_le_eq mult_ac)
  also have "\<dots> \<longleftrightarrow> of_int (ReadLatency c) / of_int Second + of_int k * BytesPerToken c / ReadBytesPerSecond c
      \<le> of_int k / PrefillTokensPerSecond c"
  proof -
    have "of_int k * per_token c = of_int k / PrefillTokensPerSecond c - of_int k * BytesPerToken c / ReadBytesPerSecond c"
      by (simp add: assms(3) right_diff_distrib)
    then show ?thesis by (simp only: le_diff_eq)
  qed
  finally show ?thesis using gate_opens(3) [OF assms(1), of k] p by simp
qed

end
