(* ===== verification/Freed.thy ===== *)
theory Freed
  imports Go_Base
begin

text \<open>
  Package freed (\<open>internal/freed/freed.go\<close>): how long after a removal its space is seen. The readings the
  loop takes are a list, each with what the file system said and when the clock was looked at; a run
  that has used up the list is still waiting (\<open>None\<close>). The lemmas: what each outcome says about the
  readings, and that a watch ends with the first reading past its deadline at the latest.
\<close>

record freed_result =
  fUnlink :: duration
  fVisible :: duration
  fSaw :: int
  fPolls :: nat

datatype freed_error = ErrWant | ErrPeriods | ErrFirstReading | ErrReleasing | ErrReading | ErrConfounded | ErrNotSeen

text \<open>One turn of the loop: the reading, the clock when it is judged, and the clock at the deadline check.\<close>

record poll =
  po_free :: "int option"
  po_since :: time
  po_now :: time

definition no_result :: freed_result where
  "no_result = \<lparr>fUnlink = 0, fVisible = 0, fSaw = 0, fPolls = 0\<rparr>"

fun watch_loop :: "int \<Rightarrow> int \<Rightarrow> time \<Rightarrow> time \<Rightarrow> int \<Rightarrow> freed_result \<Rightarrow> poll list \<Rightarrow> (freed_result \<times> freed_error option) option" where
  "watch_loop before want after deadline peak r [] = None"
| "watch_loop before want after deadline peak r (p # ps) =
     (case po_free p of
        None \<Rightarrow> Some (r, Some ErrReading)
      | Some now \<Rightarrow>
          (let r1 = r\<lparr>fPolls := Suc (fPolls r)\<rparr>;
               got = wrap64 (now - before);
               done = r1\<lparr>fSaw := got, fVisible := time_sub (po_since p) after\<rparr> in
           if want \<le> got then Some (done, None)
           else if now < peak then Some (done, Some ErrConfounded)
           else if deadline < po_now p then Some (done, Some ErrNotSeen)
           else watch_loop before want after deadline now r1 ps))"

record release =
  re_ok :: bool
  re_start :: time
  re_end :: time
  re_armed :: time
  re_after :: time

definition Watch :: "int option \<Rightarrow> release \<Rightarrow> int \<Rightarrow> duration \<Rightarrow> duration \<Rightarrow> poll list \<Rightarrow> (freed_result \<times> freed_error option) option" where
  "Watch first rel want every patience polls =
     (if want \<le> 0 then Some (no_result, Some ErrWant)
      else if every \<le> 0 \<or> patience \<le> 0 then Some (no_result, Some ErrPeriods)
      else case first of
             None \<Rightarrow> Some (no_result, Some ErrFirstReading)
           | Some before \<Rightarrow>
               if \<not> re_ok rel then Some (no_result, Some ErrReleasing)
               else watch_loop before want (re_after rel) (time_add (re_armed rel) patience) before
                      (no_result\<lparr>fUnlink := time_sub (re_end rel) (re_start rel)\<rparr>) polls)"

section \<open>What an outcome says\<close>

text \<open>The readings before the one that decided: present, rising, and short of what was wanted.\<close>

fun waiting :: "int \<Rightarrow> int \<Rightarrow> time \<Rightarrow> int \<Rightarrow> poll list \<Rightarrow> bool" where
  "waiting before want deadline peak [] = True"
| "waiting before want deadline peak (p # ps) =
     (case po_free p of None \<Rightarrow> False
      | Some now \<Rightarrow> wrap64 (now - before) < want \<and> peak \<le> now \<and> po_now p \<le> deadline \<and> waiting before want deadline now ps)"

fun last_peak :: "int \<Rightarrow> poll list \<Rightarrow> int" where
  "last_peak peak [] = peak"
| "last_peak peak (p # ps) = last_peak (case po_free p of None \<Rightarrow> peak | Some now \<Rightarrow> now) ps"

definition decides :: "int \<Rightarrow> int \<Rightarrow> time \<Rightarrow> time \<Rightarrow> int \<Rightarrow> nat \<Rightarrow> poll \<Rightarrow> freed_result \<Rightarrow> freed_error option \<Rightarrow> bool" where
  "decides before want after deadline peak n p res e \<longleftrightarrow>
    (case po_free p of
       None \<Rightarrow> e = Some ErrReading \<and> fPolls res = n
     | Some now \<Rightarrow> fPolls res = n + 1 \<and> fSaw res = wrap64 (now - before) \<and> fVisible res = time_sub (po_since p) after
         \<and> (e = None \<longleftrightarrow> want \<le> fSaw res)
         \<and> (e = Some ErrConfounded \<longleftrightarrow> fSaw res < want \<and> now < peak)
         \<and> (e = Some ErrNotSeen \<longleftrightarrow> fSaw res < want \<and> peak \<le> now \<and> deadline < po_now p))"

lemma watch_loop_outcome:
  assumes "watch_loop before want after deadline peak r ps = Some (res, e)"
  shows "\<exists>ps1 p ps2. ps = ps1 @ p # ps2 \<and> waiting before want deadline peak ps1
    \<and> decides before want after deadline (last_peak peak ps1) (fPolls r + length ps1) p res e"
  using assms
proof (induction ps arbitrary: peak r)
  case (Cons p ps)
  show ?case
  proof (cases "\<exists>now. po_free p = Some now \<and> wrap64 (now - before) < want \<and> peak \<le> now \<and> po_now p \<le> deadline")
    case True
    then obtain now where n: "po_free p = Some now" "wrap64 (now - before) < want" "peak \<le> now" "po_now p \<le> deadline" by blast
    then have "watch_loop before want after deadline now (r\<lparr>fPolls := Suc (fPolls r)\<rparr>) ps = Some (res, e)"
      using Cons.prems by (simp add: Let_def)
    from Cons.IH [OF this] obtain ps1 q ps2 where "ps = ps1 @ q # ps2" "waiting before want deadline now ps1"
      "decides before want after deadline (last_peak now ps1) (fPolls (r\<lparr>fPolls := Suc (fPolls r)\<rparr>) + length ps1) q res e" by blast
    then show ?thesis using n by (intro exI [of _ "p # ps1"] exI [of _ q] exI [of _ ps2]) simp
  next
    case False
    then have "decides before want after deadline peak (fPolls r) p res e"
      using Cons.prems by (auto simp: Let_def decides_def split: option.splits if_splits)
    then show ?thesis by (intro exI [of _ "[]"] exI [of _ p] exI [of _ ps]) simp
  qed
qed simp

text \<open>Some reading past the deadline is enough for the watch to end.\<close>

lemma watch_loop_ends: "\<exists>p\<in>set ps. po_free p = None \<or> deadline < po_now p \<Longrightarrow> watch_loop before want after deadline peak r ps \<noteq> None"
  by (induction ps arbitrary: peak r) (auto simp: Let_def split: option.splits, blast+)

end
