(* ===== verification/Residence.thy ===== *)
theory Residence
  imports Go_Text
begin

text \<open>
  Package residence (\<open>internal/residence/residence.go\<close>): where the bytes of a version may be. A region is
  its name; white space is read as the ASCII white space of \<open>TrimSpace\<close>. The lemmas: a region is
  permitted exactly when it has a name, is not denied and is allowed where anything is; tightening a
  policy never permits more; the breaches are the regions not permitted, in order.
\<close>

type_synonym region = string

datatype residence_error = RDenied | RNotAllowed | RUnnamed

record policy =
  pAllowed :: "region list"
  pDenied :: "region list"

definition Permits :: "policy \<Rightarrow> region \<Rightarrow> residence_error option" where
  "Permits p r =
     (if TrimSpace r = '''' then Some RUnnamed
      else if r \<in> set (pDenied p) then Some RDenied
      else if pAllowed p = [] then None
      else if r \<in> set (pAllowed p) then None
      else Some RNotAllowed)"

datatype transfer_error = AtOrigin residence_error | AtDestination residence_error

definition Transfer :: "policy \<Rightarrow> region \<Rightarrow> region \<Rightarrow> transfer_error option" where
  "Transfer p from to =
     (case Permits p from of
        Some e \<Rightarrow> Some (AtOrigin e)
      | None \<Rightarrow> (case Permits p to of Some e \<Rightarrow> Some (AtDestination e) | None \<Rightarrow> None))"

fun breach_loop :: "policy \<Rightarrow> region list \<Rightarrow> region list" where
  "breach_loop p [] = []"
| "breach_loop p (r # rs) = (if Permits p r \<noteq> None then r # breach_loop p rs else breach_loop p rs)"

definition Breaches :: "policy \<Rightarrow> region list \<Rightarrow> region list" where
  "Breaches p rs = sort (breach_loop p rs)"

lemma Permits_iff:
  "Permits p r = None \<longleftrightarrow> TrimSpace r \<noteq> '''' \<and> r \<notin> set (pDenied p) \<and> (pAllowed p = [] \<or> r \<in> set (pAllowed p))"
  by (simp add: Permits_def)

text \<open>A policy at least as strict: it denies no less, and is confined to no more.\<close>

definition tighter :: "policy \<Rightarrow> policy \<Rightarrow> bool" where
  "tighter q p \<longleftrightarrow> set (pDenied p) \<subseteq> set (pDenied q)
     \<and> (pAllowed p = [] \<or> (pAllowed q \<noteq> [] \<and> set (pAllowed q) \<subseteq> set (pAllowed p)))"

lemma tighter_permits: "tighter q p \<Longrightarrow> Permits q r = None \<Longrightarrow> Permits p r = None"
  by (auto simp: Permits_iff tighter_def)

lemma Transfer_iff: "Transfer p from to = None \<longleftrightarrow> Permits p from = None \<and> Permits p to = None"
  by (simp add: Transfer_def split: option.splits)

lemma breach_loop_filter: "breach_loop p rs = filter (\<lambda>r. Permits p r \<noteq> None) rs"
  by (induction rs) simp_all

lemma Breaches_exact: "sorted (Breaches p rs) \<and> mset (Breaches p rs) = filter_mset (\<lambda>r. Permits p r \<noteq> None) (mset rs)"
  by (simp add: Breaches_def breach_loop_filter mset_filter)

lemma Breaches_tighter: "tighter q p \<Longrightarrow> set (Breaches p rs) \<subseteq> set (Breaches q rs)"
  using tighter_permits by (fastforce simp: Breaches_def breach_loop_filter)

end
