(* ===== verification/Label_Claims.thy ===== *)
theory Label_Claims
  imports Residency_Labels Dataset_Ref Agent_Health Kv_Spill Freed Residence File_Driver
begin

text \<open>
  What a node says about itself: the levels it publishes do not flap, the labels a node carries are
  exactly what its tier holds, and fresh capacity is lent only after it has been read as zeros. And
  the names users give: keys and paths are read back as what was named.
\<close>

section \<open>Levels\<close>

text \<open>
  An unchanged fraction never changes a level twice. A level that rose is kept by
  every fraction down to its lower threshold, and one that fell does not come back below the upper
  one. From the highest level, a fraction between the two lower thresholds keeps the highest level,
  though every larger fraction up to its own lower threshold gives the middle one.
\<close>

theorem residency_hysteresis:
  "Next (Next c f) f = Next c f
   \<and> (c < Next c f \<and> fall (Next c f) \<le> f' \<longrightarrow> Next c f \<le> Next (Next c f) f')
   \<and> (Next c f < c \<and> Next c f < l \<and> f' < rise l \<longrightarrow> Next (Next c f) f' < l)
   \<and> (fall LSome \<le> f \<and> f < rise LSome \<and> rise LSome \<le> f' \<and> f' < fall LMost \<longrightarrow> Next LMost f = LMost \<and> Next LMost f' = LSome)"
  using Next_idem Next_rose Next_fell Next_hole by blast

section \<open>Labels\<close>







text \<open>
  C31. A pass over a cluster with one agent per node treats every node as if it were the only
  one: a node that cannot be asked, read or patched keeps its labels and is reported, whatever
  happens elsewhere; every other node ends with the labels wanted. When none failed, a second pass
  with the same answers writes nothing and changes nothing.
\<close>

theorem labels_converge:
  assumes "pass_run ask taken as ns = (written, failed, ns')" "distinct (map agNode as)"
  shows "(\<forall>a\<in>set as. (\<exists>e. (agNode a, e) \<in> set failed) \<longrightarrow> map_of ns' (agNode a) = map_of ns (agNode a))
    \<and> (\<forall>a\<in>set as. (\<nexists>e. (agNode a, e) \<in> set failed) \<longrightarrow> (\<exists>lines have now. ask a = Some lines \<and> map_of ns (agNode a) = Some have
         \<and> map_of ns' (agNode a) = Some now \<and> settled have (wanted_labels lines) now))
    \<and> (\<forall>k. k \<notin> agNode ` set as \<longrightarrow> map_of ns' k = map_of ns k)
    \<and> (failed = [] \<longrightarrow> (case pass_run ask taken' as ns' of (written2, failed2, ns2) \<Rightarrow>
         written2 = 0 \<and> failed2 = [] \<and> (\<forall>k. map_of ns2 k = map_of ns' k)))"
proof -
  note at = pass_run_at [OF assms]
  let ?o = "\<lambda>a. pass_one (ask a) (taken (agNode a)) (map_of ns (agNode a))"
  have one: "map_of ns' (agNode a) = snd (?o a) \<and> (\<forall>e. (agNode a, e) \<in> set failed \<longleftrightarrow> fst (?o a) = Inl e)" if "a \<in> set as" for a
    using bspec [OF at [THEN conjunct1] that] by (simp add: case_prod_unfold)
  have A: "map_of ns' (agNode a) = map_of ns (agNode a)" if "a \<in> set as" "(agNode a, e) \<in> set failed" for a e
    using one [OF that(1)] that(2) pass_one_failed by (metis prod.collapse)
  have B: "\<exists>lines have now. ask a = Some lines \<and> map_of ns (agNode a) = Some have \<and> map_of ns' (agNode a) = Some now
      \<and> settled have (wanted_labels lines) now \<and> pass_one (ask a) t (map_of ns' (agNode a)) = (Inr False, Some now)"
    if a: "a \<in> set as" "\<nexists>e. (agNode a, e) \<in> set failed" for a t
  proof -
    obtain w where w: "?o a = (Inr w, map_of ns' (agNode a))"
      using one [OF a(1)] a(2) by (cases "?o a"; cases "fst (?o a)") auto
    then obtain lines "have" where lh: "ask a = Some lines" "map_of ns (agNode a) = Some have"
      by (auto simp: pass_one_def split: option.splits)
    then show ?thesis using pass_one_settles [of lines "taken (agNode a)" "have" w "map_of ns' (agNode a)" t] w by auto
  qed
  have C: "case pass_run ask taken' as ns' of (written2, failed2, ns2) \<Rightarrow>
      written2 = 0 \<and> failed2 = [] \<and> (\<forall>k. map_of ns2 k = map_of ns' k)" if "failed = []"
  proof -
    obtain written2 failed2 ns2 where r2: "pass_run ask taken' as ns' = (written2, failed2, ns2)" by (metis prod_cases3)
    note at2 = pass_run_at [OF r2 assms(2)]
    have q: "pass_one (ask a) (taken' (agNode a)) (map_of ns' (agNode a)) = (Inr False, map_of ns' (agNode a))" if "a \<in> set as" for a
      using B [OF that, of "taken' (agNode a)"] \<open>failed = []\<close> by auto
    have "map_of ns2 k = map_of ns' k" for k
    proof (cases "k \<in> agNode ` set as")
      case True
      then show ?thesis using bspec [OF at2 [THEN conjunct1]] q by fastforce
    qed (use at2 in blast)
    moreover have "failed2 = []"
    proof (rule ccontr)
      assume "failed2 \<noteq> []"
      then obtain k e where ke: "(k, e) \<in> set failed2" by (cases failed2) auto
      then have "k \<in> agNode ` set as" using at2 [THEN conjunct2, THEN conjunct2, THEN conjunct1] by (metis fst_conv image_eqI subsetD)
      then obtain a where a: "a \<in> set as" "k = agNode a" by blast
      then show False using bspec [OF at2 [THEN conjunct1] a(1)] q [OF a(1)] ke by simp
    qed
    moreover have "written2 = 0" using at2 q by simp
    ultimately show ?thesis using r2 by simp
  qed
  have "\<forall>a\<in>set as. (\<nexists>e. (agNode a, e) \<in> set failed) \<longrightarrow> (\<exists>lines have now. ask a = Some lines \<and> map_of ns (agNode a) = Some have
         \<and> map_of ns' (agNode a) = Some now \<and> settled have (wanted_labels lines) now)"
    using B by blast
  moreover have "\<forall>a\<in>set as. (\<exists>e. (agNode a, e) \<in> set failed) \<longrightarrow> map_of ns' (agNode a) = map_of ns (agNode a)"
    using A by blast
  moreover note C at [THEN conjunct2, THEN conjunct1]
  ultimately show ?thesis by simp
qed

theorem labels_converge_witness:
  "case pass_run (\<lambda>a. if agNode a = ''n1'' then Some [\<lparr>hlLevel = ''most'', hlLabel = ''forebay.io/x'', hlRack = ''''\<rparr>] else Some [])
      (\<lambda>_. True) [\<lparr>agNode = ''n1'', agAddress = ''a''\<rparr>, \<lparr>agNode = ''n2'', agAddress = ''b''\<rparr>]
      [(''n1'', []), (''n2'', [(''forebay.io/y'', ''some''), (''zone'', ''z'')])] of
    (written, failed, ns') \<Rightarrow> written = 2 \<and> failed = [] \<and> ns' = [(''n1'', [(''forebay.io/x'', ''most'')]), (''n2'', [(''zone'', ''z'')])]
      \<and> fst (pass_run (\<lambda>a. if agNode a = ''n1'' then Some [\<lparr>hlLevel = ''most'', hlLabel = ''forebay.io/x'', hlRack = ''''\<rparr>] else Some [])
          (\<lambda>_. True) [\<lparr>agNode = ''n1'', agAddress = ''a''\<rparr>, \<lparr>agNode = ''n2'', agAddress = ''b''\<rparr>] ns') = 0"
proof -
  let ?ask = "\<lambda>a. if agNode a = ''n1'' then Some [\<lparr>hlLevel = ''most'', hlLabel = ''forebay.io/x'', hlRack = ''''\<rparr>] else Some []"
  let ?as = "[\<lparr>agNode = ''n1'', agAddress = ''a''\<rparr>, \<lparr>agNode = ''n2'', agAddress = ''b''\<rparr>]"
  have r: "pass_run ?ask (\<lambda>_. True) ?as [(''n1'', []), (''n2'', [(''forebay.io/y'', ''some''), (''zone'', ''z'')])]
      = (2, [], [(''n1'', [(''forebay.io/x'', ''most'')]), (''n2'', [(''zone'', ''z'')])])"
    by (simp add: pass_one_def wanted_labels_def label_diff_def label_at_def HasPrefix_def label_prefix_def merge_labels_def put_node_def)
  have "distinct (map agNode ?as)" by simp
  from labels_converge [OF r this, of "\<lambda>_. True"] show ?thesis
    unfolding r by (simp only: case_prod_unfold fst_conv snd_conv)
qed

section \<open>Fresh capacity\<close>

text \<open>
  The check a node makes before it lends passes only if every byte of the file it
  reserved reads as zero, and passes whenever they all do and the reader makes progress. A
  failure over the contents names the first byte that is not zero.
\<close>

theorem fresh_capacity_zero:
  assumes "reads (pe_read env) file"
  shows "(VerifyNoResidualData env = None \<longrightarrow> zeros_between file 0 probeSize)
    \<and> (pe_remove env \<and> pe_create env \<and> pe_reserve env \<and> zeros_between file 0 probeSize
        \<and> (\<forall>off. 0 \<le> off \<and> off < probeSize \<longrightarrow> pe_read env off \<noteq> []) \<longrightarrow> VerifyNoResidualData env = None)
    \<and> (VerifyNoResidualData env = Some (ErrProbe (ErrResidualData p b)) \<longrightarrow>
        0 \<le> p \<and> p < probeSize \<and> zeros_between file 0 p \<and> nat p < length file \<and> file ! nat p = b \<and> b \<noteq> 0)"
proof -
  note o = scan_loop_outcome [OF assms order_refl, of probeSize]
  have bounded: "bounded off n bs \<noteq> []" if "off < n" "bs \<noteq> []" for off n bs
    using that by (auto simp: bounded_def Let_def)
  have "scanZeros (pe_read env) probeSize = None"
    if z: "zeros_between file 0 probeSize" and p: "\<forall>off. 0 \<le> off \<and> off < probeSize \<longrightarrow> pe_read env off \<noteq> []"
  proof (rule ccontr)
    assume "scanZeros (pe_read env) probeSize \<noteq> None"
    then obtain e where e: "scan_loop (pe_read env) probeSize 0 = Some e" by (auto simp: scanZeros_def)
    show False
    proof (cases e)
      case (ErrResidualData q b)
      then show False using o z by (auto simp: e zeros_between_def)
    next
      case (ErrStopped q)
      then show False using o p bounded by (auto simp: e)
    qed
  qed
  then show ?thesis using o by (auto simp: VerifyNoResidualData_def scanZeros_def split: if_splits)
qed

definition demo_probe :: probe_env where
  "demo_probe = \<lparr>pe_remove = True, pe_create = True, pe_reserve = True,
     pe_read = (\<lambda>off. take 1048576 (drop (nat off) (replicate 4194304 0)))\<rparr>"

section \<open>Names\<close>

text \<open>
  The key of a valid reference is read back as the reference, and a key is read only as a
  reference it is the key of. The path of a reference whose names are plain is read back under any
  root. Two references with one backend address share placement and object, as long as placements have
  plain names.
\<close>

theorem views_agree:
  "(ref_Validate r = None \<longrightarrow> ParseObjectKey (ObjectKey r) = Inr r)
   \<and> (ParseObjectKey key = Inr r \<longrightarrow> ref_Validate r = None \<and> ObjectKey r = TrimPrefix key ''/'')
   \<and> (plain_ref r \<longrightarrow> ParseFilePath dir (FilePath r dir) = Inr r)
   \<and> (ref_Backend r (Some f) = Inr a \<and> ref_Backend s (Some f) = Inr a
      \<and> (\<forall>d v p. f d v = Some p \<longrightarrow> plDataset p \<noteq> [] \<and> plVersion p \<noteq> [] \<and> slash \<notin> set (plDataset p) \<and> slash \<notin> set (plVersion p)) \<longrightarrow>
      f (rDataset r) (rVersion r) = f (rDataset s) (rVersion s) \<and> rObject r = rObject s)"
  using ParseObjectKey_String ParseObjectKey_sound ParseFilePath_FilePath Backend_inj by (intro conjI) blast+

end
