(* ===== verification/S3_Driver.thy ===== *)
theory S3_Driver
  imports Driver_Backend
begin

text \<open>
  The driver over an S3-compatible store (\<open>driver/s3driver/s3driver.go\<close>).

  The store is outside: an exchange takes the request that was sent and gives the response, or
  nothing when the connection failed. A response is its status, the bytes its body yields before it
  ends or fails, the length its header announces, and what its body decodes to as the XML the code
  reads (a listing, an error code). A wait between attempts that the caller's context ended and a
  rewind of the source that failed are outcomes of their own. Signing is in \<open>S3_Sign\<close>.

  The locale \<open>object_store\<close> is what HTTP and S3 document of reads; its sublocale says that the driver
  over such a store is a \<open>lawful_driver\<close>, so that everything proved over lawful drivers holds over S3.
\<close>

section \<open>Requests and responses\<close>

datatype http_method = GET | HEAD | PUT | DELETE

record list_query =
  lqPrefix :: string
  lqAfter :: string
  lqMax :: int

datatype target = ObjectKey string | Listing list_query

text \<open>\<open>rqRange\<close> is the first and the last byte of a \<open>Range\<close> header.\<close>

record http_request =
  rqMethod :: http_method
  rqTarget :: target
  rqRange :: "(int \<times> int) option"
  rqBody :: bytes

record listing =
  lsContents :: "(string \<times> int) list"
  lsCommonPrefixes :: "string list"

record http_response =
  rsStatus :: int
  rsBody :: bytes
  rsBodyFails :: bool
  rsLength :: int
  rsListing :: "listing option"
  rsErrorCode :: string

record 'w s3 =
  s3_exchange :: "'w \<Rightarrow> http_request \<Rightarrow> http_response option \<times> 'w"
  s3_pause :: "'w \<Rightarrow> bool \<times> 'w"
  s3_rewind :: "'w \<Rightarrow> bool \<times> 'w"
  s3_attempts :: int

section \<open>Configuration\<close>

record s3_config =
  cfEndpoint :: "(string \<times> string) option"
  cfBucket :: string
  cfRegion :: string
  cfAccessKey :: string
  cfSecretKey :: string
  cfAttempts :: int

datatype s3_config_error = ErrEndpoint | ErrSchemeHost | ErrNoBucket | ErrNoCredentials

text \<open>
  \<open>New\<close>: the endpoint is what parsing its URL gave, scheme and host; the result is the region and the
  number of attempts the driver works with.
\<close>

definition s3_New :: "s3_config \<Rightarrow> s3_config_error + string \<times> int" where
  "s3_New c =
     (case cfEndpoint c of
        None \<Rightarrow> Inl ErrEndpoint
      | Some (scheme, host) \<Rightarrow>
          if scheme = '''' \<or> host = '''' then Inl ErrSchemeHost
          else if cfBucket c = '''' then Inl ErrNoBucket
          else if cfAccessKey c = '''' \<or> cfSecretKey c = '''' then Inl ErrNoCredentials
          else Inr (if cfRegion c = '''' then ''us-east-1'' else cfRegion c, if cfAttempts c \<le> 0 then 3 else cfAttempts c))"

definition s3_Declare :: Declaration where
  "s3_Declare = \<lparr>Contract = 1, Capabilities = [ReadRange_cap, ObjectSize_cap, WriteObject_cap, DeleteObject_cap,
     ListObjects_cap, WriteStream_cap]\<rparr>"

section \<open>Sending\<close>

definition checkObject :: "string \<Rightarrow> bool" where
  "checkObject obj \<longleftrightarrow> \<not> (obj = '''' \<or> HasPrefix obj ''/'')"

definition transient :: "int \<Rightarrow> bool" where
  "transient status \<longleftrightarrow> status \<in> {429, 500, 502, 503, 504}"

definition denied :: "int \<Rightarrow> string \<Rightarrow> bool" where
  "denied status code \<longleftrightarrow> status = 403 \<or> code = ''AccessDenied''"

definition errorFor :: "http_response \<Rightarrow> driver_error option" where
  "errorFor resp =
     (if 200 \<le> rsStatus resp \<and> rsStatus resp < 300 then None
      else if denied (rsStatus resp) (rsErrorCode resp) then Some ErrDenied
      else Some ErrStore)"

text \<open>
  The loop of \<open>send\<close>, by the attempts left: an answer that is not transient ends it, the last attempt ends
  it, and so does a caller that gave up during the pause.
\<close>

fun send_loop :: "'w s3 \<Rightarrow> http_request \<Rightarrow> nat \<Rightarrow> 'w \<Rightarrow> (driver_error + http_response) \<times> 'w" where
  "send_loop d rq 0 w = (Inl ErrStore, w)"
| "send_loop d rq (Suc n) w =
     (case s3_exchange d w rq of
        (resp, w1) \<Rightarrow>
          if resp \<noteq> None \<and> \<not> transient (rsStatus (the resp)) then (Inr (the resp), w1)
          else if n = 0 then (Inl ErrStore, w1)
          else case s3_pause d w1 of
                 (waited, w2) \<Rightarrow> if waited then send_loop d rq n w2 else (Inl ErrStore, w2))"

definition s3_send :: "'w s3 \<Rightarrow> http_method \<Rightarrow> string \<Rightarrow> bytes \<Rightarrow> (int \<times> int) option \<Rightarrow> 'w \<Rightarrow> (driver_error + http_response) \<times> 'w" where
  "s3_send d m obj body rg w =
     (if \<not> checkObject obj then (Inl ErrBadObject, w)
      else send_loop d \<lparr>rqMethod = m, rqTarget = ObjectKey obj, rqRange = rg, rqBody = body\<rparr> (nat (s3_attempts d)) w)"

text \<open>\<open>io.ReadAll\<close> of a body cut off at a limit.\<close>

definition read_body :: "http_response \<Rightarrow> int \<Rightarrow> bytes option" where
  "read_body resp n =
     (if int (length (rsBody resp)) < n \<and> rsBodyFails resp then None else Some (take (nat n) (rsBody resp)))"

section \<open>The operations\<close>

definition s3_SizeOf :: "'w s3 \<Rightarrow> 'w \<Rightarrow> string \<Rightarrow> (driver_error + int) \<times> 'w" where
  "s3_SizeOf d w obj =
     (case s3_send d HEAD obj [] None w of
        (Inl e, w1) \<Rightarrow> (Inl e, w1)
      | (Inr resp, w1) \<Rightarrow>
          (case errorFor resp of
             Some e \<Rightarrow> (Inl e, w1)
           | None \<Rightarrow> if rsLength resp < 0 then (Inl ErrStore, w1) else (Inr (rsLength resp), w1)))"

definition s3_ReadRange :: "'w s3 \<Rightarrow> 'w \<Rightarrow> string \<Rightarrow> int \<Rightarrow> int \<Rightarrow> (driver_error + bytes) \<times> 'w" where
  "s3_ReadRange d w obj off len =
     (if len = 0 then
        (case s3_SizeOf d w obj of
           (Inl e, w1) \<Rightarrow> (Inl e, w1)
         | (Inr total_size, w1) \<Rightarrow> if total_size < off then (Inl ErrOutOfRange, w1) else (Inr [], w1))
      else
        (case s3_send d GET obj [] (Some (off, wrap64 (off + len - 1))) w of
           (Inl e, w1) \<Rightarrow> (Inl e, w1)
         | (Inr resp, w1) \<Rightarrow>
             if rsStatus resp = 416 then (Inl ErrOutOfRange, w1)
             else (case errorFor resp of
                     Some e \<Rightarrow> (Inl e, w1)
                   | None \<Rightarrow>
                       if rsStatus resp \<noteq> 206 then (Inl ErrStore, w1)
                       else (case read_body resp len of
                               None \<Rightarrow> (Inl ErrStore, w1)
                             | Some buf \<Rightarrow> if int (length buf) \<noteq> len then (Inl ErrOutOfRange, w1) else (Inr buf, w1)))))"

definition s3_WriteObject :: "'w s3 \<Rightarrow> 'w \<Rightarrow> string \<Rightarrow> bytes \<Rightarrow> driver_error option \<times> 'w" where
  "s3_WriteObject d w obj data =
     (case s3_send d PUT obj data None w of
        (Inl e, w1) \<Rightarrow> (Some e, w1)
      | (Inr resp, w1) \<Rightarrow> (errorFor resp, w1))"

definition s3_DeleteObject :: "'w s3 \<Rightarrow> 'w \<Rightarrow> string \<Rightarrow> driver_error option \<times> 'w" where
  "s3_DeleteObject d w obj =
     (case s3_send d DELETE obj [] None w of
        (Inl e, w1) \<Rightarrow> (Some e, w1)
      | (Inr resp, w1) \<Rightarrow> (errorFor resp, w1))"

definition s3_SnapshotObject :: "'w \<Rightarrow> string \<Rightarrow> (driver_error + string) \<times> 'w" where
  "s3_SnapshotObject w obj = (Inl ErrNotSupported, w)"

definition s3_CloneObject :: "'w \<Rightarrow> string \<Rightarrow> string \<Rightarrow> driver_error option \<times> 'w" where
  "s3_CloneObject w src dst = (Some ErrNotSupported, w)"

text \<open>The loop of \<open>WriteObjectFrom\<close> rewinds the source before every attempt.\<close>

fun stream_loop :: "'w s3 \<Rightarrow> http_request \<Rightarrow> nat \<Rightarrow> 'w \<Rightarrow> (driver_error + http_response) \<times> 'w" where
  "stream_loop d rq 0 w = (Inl ErrStore, w)"
| "stream_loop d rq (Suc n) w =
     (case s3_rewind d w of
        (False, w0) \<Rightarrow> (Inl ErrStore, w0)
      | (True, w0) \<Rightarrow>
          (case s3_exchange d w0 rq of
             (resp, w1) \<Rightarrow>
               if resp \<noteq> None \<and> \<not> transient (rsStatus (the resp)) then (Inr (the resp), w1)
               else if n = 0 then (Inl ErrStore, w1)
               else case s3_pause d w1 of
                      (waited, w2) \<Rightarrow> if waited then stream_loop d rq n w2 else (Inl ErrStore, w2)))"

text \<open>\<open>hashFrom\<close>: how many bytes the source holds, unless reading it fails. The hash itself is for the signature.\<close>

definition hashFrom :: "source \<Rightarrow> int option" where
  "hashFrom src = (if src_fails src then None else Some (int (length (src_bytes src))))"

definition s3_WriteObjectFrom :: "'w s3 \<Rightarrow> 'w \<Rightarrow> string \<Rightarrow> source \<Rightarrow> int \<Rightarrow> driver_error option \<times> 'w" where
  "s3_WriteObjectFrom d w obj src n =
     (if \<not> checkObject obj then (Some ErrBadObject, w)
      else case hashFrom src of
             None \<Rightarrow> (Some ErrStore, w)
           | Some got \<Rightarrow>
               if got \<noteq> n then (Some ErrStore, w)
               else (case stream_loop d \<lparr>rqMethod = PUT, rqTarget = ObjectKey obj, rqRange = None, rqBody = src_bytes src\<rparr>
                            (nat (s3_attempts d)) w of
                       (Inl e, w1) \<Rightarrow> (Some e, w1)
                     | (Inr resp, w1) \<Rightarrow> (errorFor resp, w1)))"

section \<open>Listing\<close>

definition level_of :: "string \<Rightarrow> string" where
  "level_of prefix = (if prefix \<noteq> '''' \<and> \<not> HasSuffix prefix ''/'' then prefix @ ''/'' else prefix)"

definition list_request :: "string \<Rightarrow> string \<Rightarrow> int \<Rightarrow> http_request" where
  "list_request full after limit =
     \<lparr>rqMethod = GET, rqTarget = Listing \<lparr>lqPrefix = full, lqAfter = (if after \<noteq> '''' then full @ after else ''''), lqMax = limit\<rparr>,
      rqRange = None, rqBody = []\<rparr>"

definition entries_of :: "string \<Rightarrow> listing \<Rightarrow> Entry list" where
  "entries_of full ls =
     map (\<lambda>n. \<lparr>eName = n, eDir = True, eBytes = 0\<rparr>)
       (filter (\<lambda>n. n \<noteq> '''') (map (\<lambda>p. TrimSuffix (TrimPrefix p full) ''/'') (lsCommonPrefixes ls)))
     @ map (\<lambda>(n, size). \<lparr>eName = n, eDir = False, eBytes = size\<rparr>)
         (filter (\<lambda>(n, _). n \<noteq> '''') (map (\<lambda>(k, size). (TrimPrefix k full, size)) (lsContents ls)))"

definition s3_List :: "'w s3 \<Rightarrow> 'w \<Rightarrow> string \<Rightarrow> string \<Rightarrow> int \<Rightarrow> (driver_error + Entry list) \<times> 'w" where
  "s3_List d w prefix after limit =
     (case s3_exchange d w (list_request (level_of prefix) after limit) of
        (None, w1) \<Rightarrow> (Inl ErrStore, w1)
      | (Some resp, w1) \<Rightarrow>
          (case errorFor resp of
             Some e \<Rightarrow> (Inl e, w1)
           | None \<Rightarrow>
               (case rsListing resp of
                  None \<Rightarrow> (Inl ErrStore, w1)
                | Some ls \<Rightarrow> (Inr (take (nat limit) (sort_key eName (entries_of (level_of prefix) ls))), w1))))"

definition s3_driver :: "'w s3 \<Rightarrow> 'w Driver" where
  "s3_driver d = \<lparr>Declare = s3_Declare, dReadRange = s3_ReadRange d, dSizeOf = s3_SizeOf d, dWriteObject = s3_WriteObject d,
     dDeleteObject = s3_DeleteObject d, dSnapshotObject = s3_SnapshotObject, dCloneObject = s3_CloneObject,
     dList = Some (s3_List d), dWriteObjectFrom = Some (s3_WriteObjectFrom d)\<rparr>"

section \<open>Sending\<close>

text \<open>An answer of \<open>send\<close> is an answer of the store to that request, after attempts that changed only what the request may change.\<close>

lemma send_loop_answer:
  assumes "send_loop d rq n w = (r, w')"
    and step: "\<And>w x w1. s3_exchange d w rq = (x, w1) \<Longrightarrow> I w \<Longrightarrow> I w1" and pause: "\<And>w b w1. s3_pause d w = (b, w1) \<Longrightarrow> I w \<Longrightarrow> I w1"
    and "I w"
  shows "I w' \<and> (case r of Inl e \<Rightarrow> e = ErrStore
      | Inr resp \<Rightarrow> \<not> transient (rsStatus resp) \<and> (\<exists>w0. I w0 \<and> s3_exchange d w0 rq = (Some resp, w')))"
  using assms(1) \<open>I w\<close>
proof (induction n arbitrary: w)
  case (Suc n)
  obtain x w1 where x: "s3_exchange d w rq = (x, w1)" by force
  obtain b w2 where b: "s3_pause d w1 = (b, w2)" by force
  have i: "I w1" "I w2" using step [OF x Suc.prems(2)] pause [OF b] by blast+
  show ?case using Suc x b i by (fastforce split: if_splits)
qed auto

lemma stream_loop_answer:
  assumes "stream_loop d rq n w = (r, w')"
    and step: "\<And>w x w1. s3_exchange d w rq = (x, w1) \<Longrightarrow> I w \<Longrightarrow> I w1" and pause: "\<And>w b w1. s3_pause d w = (b, w1) \<Longrightarrow> I w \<Longrightarrow> I w1"
    and rewind: "\<And>w b w1. s3_rewind d w = (b, w1) \<Longrightarrow> I w \<Longrightarrow> I w1" and "I w"
  shows "I w' \<and> (case r of Inl e \<Rightarrow> e = ErrStore
      | Inr resp \<Rightarrow> \<not> transient (rsStatus resp) \<and> (\<exists>w0. I w0 \<and> s3_exchange d w0 rq = (Some resp, w')))"
  using assms(1) \<open>I w\<close>
proof (induction n arbitrary: w)
  case (Suc n)
  obtain rb w0 where rb: "s3_rewind d w = (rb, w0)" by force
  obtain x w1 where x: "s3_exchange d w0 rq = (x, w1)" by force
  obtain b w2 where b: "s3_pause d w1 = (b, w2)" by force
  have i: "I w0" "I w1" "I w2" using rewind [OF rb Suc.prems(2)] step [OF x] pause [OF b] by blast+
  show ?case using Suc rb x b i by (cases rb) (fastforce split: if_splits)+
qed auto

text \<open>An exchange that ends after some attempts that came to nothing, each followed by a pause.\<close>

inductive answered_after :: "'w s3 \<Rightarrow> http_request \<Rightarrow> nat \<Rightarrow> 'w \<Rightarrow> http_response \<Rightarrow> 'w \<Rightarrow> bool" for d rq where
  answered: "s3_exchange d w rq = (Some resp, w') \<Longrightarrow> \<not> transient (rsStatus resp) \<Longrightarrow> answered_after d rq 0 w resp w'"
| again: "s3_exchange d w rq = (x, w1) \<Longrightarrow> x = None \<or> transient (rsStatus (the x)) \<Longrightarrow> s3_pause d w1 = (True, w2)
    \<Longrightarrow> answered_after d rq n w2 resp w' \<Longrightarrow> answered_after d rq (Suc n) w resp w'"

lemma send_loop_exact: "send_loop d rq k w = (Inr resp, w') \<longleftrightarrow> (\<exists>n<k. answered_after d rq n w resp w')"
proof
  show "\<exists>n<k. answered_after d rq n w resp w'" if "send_loop d rq k w = (Inr resp, w')" using that
  proof (induction k arbitrary: w)
    case (Suc k)
    obtain x w1 where x: "s3_exchange d w rq = (x, w1)" by force
    obtain b w2 where b: "s3_pause d w1 = (b, w2)" by force
    show ?case
    proof (cases "x \<noteq> None \<and> \<not> transient (rsStatus (the x))")
      case True
      then have "answered_after d rq 0 w resp w'" using Suc.prems x by (auto intro: answered)
      then show ?thesis by blast
    next
      case False
      then have "b" "send_loop d rq k w2 = (Inr resp, w')" using Suc.prems x b by (auto split: if_splits)
      then obtain n where "n < k" "answered_after d rq n w2 resp w'" using Suc.IH by blast
      then have "answered_after d rq (Suc n) w resp w'" using again [OF x, of w2 n resp w'] False b \<open>b\<close> by simp
      then show ?thesis using \<open>n < k\<close> by blast
    qed
  qed simp
  have "send_loop d rq k w = (Inr resp, w')" if "answered_after d rq n w resp w'" "n < k" for n using that
  proof (induction arbitrary: k rule: answered_after.induct)
    case (answered w resp w')
    then show ?case by (cases k) auto
  next
    case (again w x w1 w2 n resp w')
    then obtain j where "k = Suc j" "n < j" by (cases k) auto
    then show ?case using again by auto
  qed
  then show "send_loop d rq k w = (Inr resp, w')" if "\<exists>n<k. answered_after d rq n w resp w'" using that by blast
qed

section \<open>What a store documents\<close>

text \<open>
  Of reads: a partial answer holds the bytes of the range that exist, at least one, and when its body
  breaks off it holds fewer than announced; a range not satisfiable starts at or after the end; a range
  whose end lies before its start is not answered as a range; the answer to a \<open>HEAD\<close> announces the
  object's size; neither changes anything; and an object has a 64-bit size. Waiting and rewinding do not touch the store.
\<close>

locale object_store =
  fixes d :: "'w s3" and contents :: "'w \<Rightarrow> string \<Rightarrow> bytes option"
  assumes reads_keep: "s3_exchange d w rq = (x, w') \<Longrightarrow> rqMethod rq \<in> {GET, HEAD} \<Longrightarrow> contents w' = contents w"
    and pause_keeps: "s3_pause d w = (ok, w') \<Longrightarrow> contents w' = contents w"
    and rewind_keeps: "s3_rewind d w = (ok, w') \<Longrightarrow> contents w' = contents w"
    and partial: "s3_exchange d w rq = (Some resp, w') \<Longrightarrow> rqMethod rq = GET \<Longrightarrow> rqTarget rq = ObjectKey k \<Longrightarrow>
      rqRange rq = Some (a, b) \<Longrightarrow> 0 \<le> a \<Longrightarrow> rsStatus resp = 206 \<Longrightarrow>
      a \<le> b \<and> (\<exists>bs. contents w k = Some bs \<and> nat a < length bs \<and>
        (let part = take (nat (b - a + 1)) (drop (nat a) bs) in
         if rsBodyFails resp then length (rsBody resp) < length part else rsBody resp = part))"
    and unsatisfiable: "s3_exchange d w rq = (Some resp, w') \<Longrightarrow> rqMethod rq = GET \<Longrightarrow> rqTarget rq = ObjectKey k \<Longrightarrow>
      rqRange rq = Some (a, b) \<Longrightarrow> 0 \<le> a \<Longrightarrow> rsStatus resp = 416 \<Longrightarrow> contents w k = Some bs \<Longrightarrow> a \<le> b \<and> length bs \<le> nat a"
    and head_size: "s3_exchange d w rq = (Some resp, w') \<Longrightarrow> rqMethod rq = HEAD \<Longrightarrow> rqTarget rq = ObjectKey k \<Longrightarrow>
      200 \<le> rsStatus resp \<Longrightarrow> rsStatus resp < 300 \<Longrightarrow> 0 \<le> rsLength resp \<Longrightarrow>
      \<exists>bs. contents w k = Some bs \<and> rsLength resp = int (length bs)"
    and small: "contents w k = Some bs \<Longrightarrow> int (length bs) \<le> max_i64"
begin

lemma send_read:
  assumes "s3_send d m obj body rg w = (r, w')" "m \<in> {GET, HEAD}"
  shows "contents w' = contents w"
    and "r = Inr resp \<Longrightarrow> \<exists>w0. contents w0 = contents w
      \<and> s3_exchange d w0 \<lparr>rqMethod = m, rqTarget = ObjectKey obj, rqRange = rg, rqBody = body\<rparr> = (Some resp, w')"
    and "r = Inl e \<Longrightarrow> e \<in> {ErrStore, ErrBadObject}"
proof -
  let ?rq = "\<lparr>rqMethod = m, rqTarget = ObjectKey obj, rqRange = rg, rqBody = body\<rparr>"
  show "contents w' = contents w"
    "r = Inr resp \<Longrightarrow> \<exists>w0. contents w0 = contents w \<and> s3_exchange d w0 ?rq = (Some resp, w')"
    "r = Inl e \<Longrightarrow> e \<in> {ErrStore, ErrBadObject}"
    using assms send_loop_answer [of d ?rq "nat (s3_attempts d)" w r w' "\<lambda>v. contents v = contents w"]
      reads_keep [of _ ?rq] pause_keeps
    by (auto simp: s3_send_def split: if_splits)
qed

lemma SizeOf_lawful:
  assumes "s3_SizeOf d w obj = (r, w')"
  shows "contents w' = contents w" and "r = Inr n \<Longrightarrow> \<exists>bs. contents w obj = Some bs \<and> n = int (length bs)"
    and "r \<noteq> Inl ErrOutOfRange"
proof -
  obtain s w1 where s: "s3_send d HEAD obj [] None w = (s, w1)" by force
  note sr = send_read [OF s]
  have w': "w' = w1" using assms s by (auto simp: s3_SizeOf_def split: sum.splits option.splits if_splits)
  then show "contents w' = contents w" using sr(1) by simp
  show "r = Inr n \<Longrightarrow> \<exists>bs. contents w obj = Some bs \<and> n = int (length bs)"
  proof -
    assume r: "r = Inr n"
    then obtain resp where resp: "s = Inr resp" "errorFor resp = None" "0 \<le> rsLength resp" "n = rsLength resp"
      using assms s by (auto simp: s3_SizeOf_def split: sum.splits option.splits if_splits)
    then have "200 \<le> rsStatus resp" "rsStatus resp < 300" by (auto simp: errorFor_def split: if_splits)
    then show ?thesis using sr(2) [of resp] head_size resp by fastforce
  qed
  show "r \<noteq> Inl ErrOutOfRange"
    using assms s sr(3) by (auto simp: s3_SizeOf_def errorFor_def split: sum.splits option.splits if_splits)
qed

lemma ReadRange_keeps: "s3_ReadRange d w obj off len = (r, w') \<Longrightarrow> contents w' = contents w"
proof -
  assume run: "s3_ReadRange d w obj off len = (r, w')"
  obtain z wz where z: "s3_SizeOf d w obj = (z, wz)" by force
  obtain s w1 where s: "s3_send d GET obj [] (Some (off, wrap64 (off + len - 1))) w = (s, w1)" by force
  have "w' = wz \<or> w' = w1" using run z s by (auto simp: s3_ReadRange_def split: sum.splits option.splits if_splits)
  then show ?thesis using SizeOf_lawful(1) [OF z] send_read(1) [OF s] by auto
qed

text \<open>The answer of a read of some bytes, by the answer of the store.\<close>

lemma ReadRange_cases:
  assumes "s3_ReadRange d w obj off len = (r, w')" "0 < len" "0 \<le> off" "r = Inr data \<or> r = Inl ErrOutOfRange"
  obtains resp w0 where "contents w0 = contents w"
    "s3_exchange d w0 \<lparr>rqMethod = GET, rqTarget = ObjectKey obj, rqRange = Some (off, wrap64 (off + len - 1)), rqBody = []\<rparr> = (Some resp, w')"
    "rsStatus resp = 416 \<and> r = Inl ErrOutOfRange \<or> rsStatus resp = 206 \<and> (\<exists>buf. read_body resp len = Some buf
       \<and> r = (if int (length buf) \<noteq> len then Inl ErrOutOfRange else Inr buf))"
proof -
  obtain s w1 where s: "s3_send d GET obj [] (Some (off, wrap64 (off + len - 1))) w = (s, w1)" by force
  note sr = send_read [OF s]
  have "s \<noteq> Inl e" for e using assms s sr(3) by (auto simp: s3_ReadRange_def)
  then obtain resp where resp: "s = Inr resp" by (cases s) auto
  have "errorFor resp \<noteq> Some ErrOutOfRange" by (simp add: errorFor_def)
  then have "w' = w1 \<and> (rsStatus resp = 416 \<and> r = Inl ErrOutOfRange \<or> rsStatus resp = 206 \<and> (\<exists>buf. read_body resp len = Some buf
       \<and> r = (if int (length buf) \<noteq> len then Inl ErrOutOfRange else Inr buf)))"
    using assms s resp by (auto simp: s3_ReadRange_def split: option.splits if_splits)
  then show thesis using that sr(2) [OF _ resp] by auto
qed

text \<open>A partial answer is the bytes that exist of the range, and the range did not wrap when the object reaches into it.\<close>

lemma partial_body:
  assumes "s3_exchange d w0 \<lparr>rqMethod = GET, rqTarget = ObjectKey obj, rqRange = Some (off, wrap64 (off + len - 1)), rqBody = []\<rparr> = (Some resp, w')"
    and "rsStatus resp = 206" "0 \<le> off" "0 < len" "read_body resp len = Some buf"
  obtains bs where "contents w0 obj = Some bs" "nat off < length bs" "buf = take (nat (wrap64 (off + len - 1) - off + 1)) (drop (nat off) bs)"
    "wrap64 (off + len - 1) \<le> off + len - 1"
proof -
  have wr: "wrap64 (off + len - 1) \<le> off + len - 1" using assms by (intro wrap64_le) simp
  obtain bs where bs: "contents w0 obj = Some bs" "nat off < length bs" and p: "let part = take (nat (wrap64 (off + len - 1) - off + 1)) (drop (nat off) bs) in
      if rsBodyFails resp then length (rsBody resp) < length part else rsBody resp = part"
    using partial [OF assms(1), of obj off "wrap64 (off + len - 1)"] assms(2,3) by auto
  have "nat (wrap64 (off + len - 1) - off + 1) \<le> nat len" using wr by simp
  moreover have "\<not> rsBodyFails resp"
  proof
    assume f: "rsBodyFails resp"
    then have "length (rsBody resp) < nat len" using p calculation by (auto simp: Let_def)
    then show False using assms(5) f by (simp add: read_body_def split: if_splits)
  qed
  ultimately have "buf = take (nat (wrap64 (off + len - 1) - off + 1)) (drop (nat off) bs)"
    using p assms(5) by (simp add: read_body_def Let_def min_def split: if_splits)
  then show thesis using that bs wr by blast
qed

lemma ReadRange_data:
  assumes "s3_ReadRange d w obj off len = (Inr data, w')" "0 \<le> off" "0 \<le> len"
  shows "\<exists>bs. contents w obj = Some bs \<and> nat off + nat len \<le> length bs \<and> data = take (nat len) (drop (nat off) bs)"
proof (cases "len = 0")
  case True
  then obtain n where "s3_SizeOf d w obj = (Inr n, w')" "off \<le> n" "data = []"
    using assms(1) by (auto simp: s3_ReadRange_def split: prod.splits sum.splits if_splits)
  then show ?thesis using SizeOf_lawful(2) True by fastforce
next
  case False
  then have l: "0 < len" using assms(3) by simp
  obtain resp w0 where r: "contents w0 = contents w"
    "s3_exchange d w0 \<lparr>rqMethod = GET, rqTarget = ObjectKey obj, rqRange = Some (off, wrap64 (off + len - 1)), rqBody = []\<rparr> = (Some resp, w')"
    "rsStatus resp = 206" "read_body resp len = Some data" "int (length data) = len"
    by (rule ReadRange_cases [OF assms(1) l assms(2), of data]) (auto split: if_splits)
  obtain bs where bs: "contents w0 obj = Some bs" "nat off < length bs" "data = take (nat (wrap64 (off + len - 1) - off + 1)) (drop (nat off) bs)"
    "wrap64 (off + len - 1) \<le> off + len - 1"
    by (rule partial_body [OF r(2,3) assms(2) l r(4)])
  have "length data \<le> nat (wrap64 (off + len - 1) - off + 1)" using bs(3) by simp
  then have w: "wrap64 (off + len - 1) - off + 1 = len" using bs(4) r(5) l by linarith
  then have "data = take (nat len) (drop (nat off) bs)" using bs(3) by simp
  moreover have "nat len \<le> length bs - nat off" using r(5) calculation by auto
  ultimately show ?thesis using bs r(1) by auto
qed

lemma ReadRange_range:
  assumes "s3_ReadRange d w obj off len = (Inl ErrOutOfRange, w')" "0 \<le> off" "0 \<le> len" "contents w obj = Some bs"
  shows "length bs < nat off + nat len"
proof (cases "len = 0")
  case True
  then obtain n where "s3_SizeOf d w obj = (Inr n, w')" "n < off"
    using assms(1) SizeOf_lawful(3) by (auto simp: s3_ReadRange_def split: prod.splits sum.splits if_splits)
  then show ?thesis using SizeOf_lawful(2) True assms(4) by fastforce
next
  case False
  then have l: "0 < len" using assms(3) by simp
  obtain resp w0 where r: "contents w0 = contents w"
    "s3_exchange d w0 \<lparr>rqMethod = GET, rqTarget = ObjectKey obj, rqRange = Some (off, wrap64 (off + len - 1)), rqBody = []\<rparr> = (Some resp, w')"
    "rsStatus resp = 416 \<or> rsStatus resp = 206 \<and> (\<exists>buf. read_body resp len = Some buf \<and> int (length buf) \<noteq> len)"
    by (rule ReadRange_cases [OF assms(1) l assms(2)]) (auto split: if_splits)
  from r(3) show ?thesis
  proof
    assume "rsStatus resp = 416"
    then have "length bs \<le> nat off" using unsatisfiable [OF r(2), of obj off] assms(2,4) r(1) by simp
    then show ?thesis using l by simp
  next
    assume "rsStatus resp = 206 \<and> (\<exists>buf. read_body resp len = Some buf \<and> int (length buf) \<noteq> len)"
    then obtain buf where b: "rsStatus resp = 206" "read_body resp len = Some buf" "int (length buf) \<noteq> len" by blast
    obtain bs' where bs: "contents w0 obj = Some bs'" "nat off < length bs'" "buf = take (nat (wrap64 (off + len - 1) - off + 1)) (drop (nat off) bs')"
      by (rule partial_body [OF r(2) b(1) assms(2) l b(2)])
    have "bs' = bs" using bs(1) r(1) assms(4) by simp
    show ?thesis
    proof (cases "off + len - 1 \<le> max_i64")
      case True
      then have "wrap64 (off + len - 1) = off + len - 1" using assms(2) l by (intro wrap64_id') (simp_all add: min_i64_def)
      then show ?thesis using b(3) bs(3) \<open>bs' = bs\<close> l assms(2) by (auto simp: min_def split: if_splits)
    next
      case False
      then show ?thesis using small [OF assms(4)] assms(2,3) by linarith
    qed
  qed
qed

end

text \<open>A driver over a store that behaves as documented is lawful.\<close>

sublocale object_store \<subseteq> lawful_driver "s3_driver d" contents
proof
  fix w w' obj off len data r bs n e s list prefix after es
  show "\<exists>bs. contents w obj = Some bs \<and> nat off + nat len \<le> length bs \<and> data = take (nat len) (drop (nat off) bs)"
    if "dReadRange (s3_driver d) w obj off len = (Inr data, w')" "0 \<le> off" "0 \<le> len"
    using that ReadRange_data by (simp add: s3_driver_def)
  show "length bs < nat off + nat len"
    if "dReadRange (s3_driver d) w obj off len = (Inl ErrOutOfRange, w')" "0 \<le> off" "0 \<le> len" "contents w obj = Some bs"
    using that ReadRange_range by (simp add: s3_driver_def)
  show "contents w' = contents w" if "dReadRange (s3_driver d) w obj off len = (r, w')"
    using that ReadRange_keeps by (simp add: s3_driver_def)
  show "\<exists>bs. contents w obj = Some bs \<and> n = int (length bs)" if "dSizeOf (s3_driver d) w obj = (Inr n, w')"
    using that SizeOf_lawful(2) by (simp add: s3_driver_def)
  show "e \<noteq> ErrOutOfRange" if "dSizeOf (s3_driver d) w obj = (Inl e, w')"
    using that SizeOf_lawful(3) by (auto simp: s3_driver_def)
  show "contents w' = contents w" if "dSizeOf (s3_driver d) w obj = (s, w')" for s
    using that SizeOf_lawful(1) by (simp add: s3_driver_def)
  show "contents w' = contents w" if "dList (s3_driver d) = Some list" "list w prefix after n = (es, w')" for n es
    using that reads_keep by (auto simp: s3_driver_def s3_List_def list_request_def split: prod.splits option.splits)
qed

context object_store
begin

lemma driver_lawful: "lawful_driver (s3_driver d) contents"
  by unfold_locales

end

section \<open>Changes\<close>

text \<open>
  Of changes a store documents, besides: a request that was carried out, heard or not, had its whole
  effect on its one object, and an answer of success says that it was.
\<close>

definition effect :: "http_method \<Rightarrow> string \<Rightarrow> bytes \<Rightarrow> (string \<Rightarrow> bytes option) \<Rightarrow> string \<Rightarrow> bytes option" where
  "effect m k body c = (case m of PUT \<Rightarrow> c(k \<mapsto> body) | DELETE \<Rightarrow> c(k := None) | _ \<Rightarrow> c)"

lemma effect_twice [simp]: "effect m k body (effect m k body c) = effect m k body c"
  by (simp add: effect_def split: http_method.splits)

locale durable_store = object_store +
  assumes changes: "s3_exchange d w rq = (x, w') \<Longrightarrow> rqTarget rq = ObjectKey k \<Longrightarrow>
      contents w' \<in> {contents w, effect (rqMethod rq) k (rqBody rq) (contents w)}"
    and acknowledged: "s3_exchange d w rq = (Some resp, w') \<Longrightarrow> rqTarget rq = ObjectKey k \<Longrightarrow>
      200 \<le> rsStatus resp \<Longrightarrow> rsStatus resp < 300 \<Longrightarrow> contents w' = effect (rqMethod rq) k (rqBody rq) (contents w)"
begin

definition known_outcome :: "'a \<Rightarrow> http_request \<Rightarrow> string \<Rightarrow> 'a \<Rightarrow> bool" where
  "known_outcome w rq k v \<longleftrightarrow> contents v \<in> {contents w, effect (rqMethod rq) k (rqBody rq) (contents w)}"

lemma known_steps:
  "s3_exchange d v rq = (x, v1) \<Longrightarrow> rqTarget rq = ObjectKey k \<Longrightarrow> known_outcome w rq k v \<Longrightarrow> known_outcome w rq k v1"
  "s3_pause d v = (b, v1) \<Longrightarrow> known_outcome w rq k v \<Longrightarrow> known_outcome w rq k v1"
  "s3_rewind d v = (b, v1) \<Longrightarrow> known_outcome w rq k v \<Longrightarrow> known_outcome w rq k v1"
  unfolding known_outcome_def using changes [of v rq x v1 k] pause_keeps [of v b v1] rewind_keeps [of v b v1] by auto

lemma known_answer:
  assumes "known_outcome w rq k v" "s3_exchange d v rq = (Some resp, v1)" "rqTarget rq = ObjectKey k" "errorFor resp = None"
  shows "contents v1 = effect (rqMethod rq) k (rqBody rq) (contents w)"
proof -
  have "200 \<le> rsStatus resp" "rsStatus resp < 300" using assms(4) by (auto simp: errorFor_def split: if_splits)
  then show ?thesis using acknowledged [OF assms(2,3)] assms(1) by (auto simp: known_outcome_def)
qed

lemma send_known:
  assumes "s3_send d m k body rg w = (r, w')"
  shows "contents w' \<in> {contents w, effect m k body (contents w)}"
    and "r = Inr resp \<Longrightarrow> errorFor resp = None \<Longrightarrow> contents w' = effect m k body (contents w)"
proof -
  let ?rq = "\<lparr>rqMethod = m, rqTarget = ObjectKey k, rqRange = rg, rqBody = body\<rparr>"
  have a: "w' = w \<and> r = Inl ErrBadObject \<or> known_outcome w ?rq k w' \<and> (case r of Inl e \<Rightarrow> e = ErrStore
      | Inr resp \<Rightarrow> \<not> transient (rsStatus resp) \<and> (\<exists>w0. known_outcome w ?rq k w0 \<and> s3_exchange d w0 ?rq = (Some resp, w')))"
  proof (cases "checkObject k")
    case True
    then have "send_loop d ?rq (nat (s3_attempts d)) w = (r, w')" using assms by (simp add: s3_send_def)
    from send_loop_answer [OF this, of "known_outcome w ?rq k"] show ?thesis
      using known_steps(1) [of _ ?rq _ _ k w] known_steps(2) [of _ _ _ w ?rq k] by (auto simp: known_outcome_def)
  qed (use assms in \<open>simp add: s3_send_def\<close>)
  then show "contents w' \<in> {contents w, effect m k body (contents w)}" by (auto simp: known_outcome_def)
  assume "r = Inr resp" "errorFor resp = None"
  then show "contents w' = effect m k body (contents w)" using a known_answer [of w ?rq k _ resp w'] by auto
qed

lemma WriteObject_outcome:
  assumes "s3_WriteObject d w obj data = (e, w')"
  shows "contents w' \<in> {contents w, (contents w)(obj \<mapsto> data)}" and "e = None \<Longrightarrow> contents w' = (contents w)(obj \<mapsto> data)"
proof -
  obtain r w1 where r: "s3_send d PUT obj data None w = (r, w1)" by force
  show "contents w' \<in> {contents w, (contents w)(obj \<mapsto> data)}" "e = None \<Longrightarrow> contents w' = (contents w)(obj \<mapsto> data)"
    using assms r send_known [OF r] by (auto simp: s3_WriteObject_def effect_def split: sum.splits)
qed

lemma DeleteObject_outcome:
  assumes "s3_DeleteObject d w obj = (e, w')"
  shows "contents w' \<in> {contents w, (contents w)(obj := None)}" and "e = None \<Longrightarrow> contents w' = (contents w)(obj := None)"
proof -
  obtain r w1 where r: "s3_send d DELETE obj [] None w = (r, w1)" by force
  show "contents w' \<in> {contents w, (contents w)(obj := None)}" "e = None \<Longrightarrow> contents w' = (contents w)(obj := None)"
    using assms r send_known [OF r] by (auto simp: s3_DeleteObject_def effect_def split: sum.splits)
qed

lemma WriteObjectFrom_outcome:
  assumes "s3_WriteObjectFrom d w obj src n = (e, w')"
  shows "contents w' \<in> {contents w, (contents w)(obj \<mapsto> src_bytes src)}"
    and "e = None \<Longrightarrow> contents w' = (contents w)(obj \<mapsto> src_bytes src) \<and> int (length (src_bytes src)) = n \<and> \<not> src_fails src"
proof -
  let ?rq = "\<lparr>rqMethod = PUT, rqTarget = ObjectKey obj, rqRange = None, rqBody = src_bytes src\<rparr>"
  obtain r w1 where r: "stream_loop d ?rq (nat (s3_attempts d)) w = (r, w1)" by force
  from stream_loop_answer [OF r, of "known_outcome w ?rq obj"]
  have a: "known_outcome w ?rq obj w1 \<and> (case r of Inl e \<Rightarrow> e = ErrStore | Inr resp \<Rightarrow> \<not> transient (rsStatus resp)
      \<and> (\<exists>w0. known_outcome w ?rq obj w0 \<and> s3_exchange d w0 ?rq = (Some resp, w1)))"
    using known_steps(1) [of _ ?rq _ _ obj w] known_steps(2,3) [of _ _ _ w ?rq obj] by (auto simp: known_outcome_def)
  then show "contents w' \<in> {contents w, (contents w)(obj \<mapsto> src_bytes src)}"
    using assms r by (auto simp: s3_WriteObjectFrom_def known_outcome_def effect_def split: option.splits sum.splits if_splits)
  assume "e = None"
  then obtain resp where resp: "r = Inr resp" "errorFor resp = None" "w' = w1" "hashFrom src = Some n"
    using assms r by (auto simp: s3_WriteObjectFrom_def split: option.splits sum.splits if_splits)
  then have "contents w' = (contents w)(obj \<mapsto> src_bytes src)" using a known_answer [of w ?rq obj _ resp w1] by (auto simp: effect_def)
  then show "contents w' = (contents w)(obj \<mapsto> src_bytes src) \<and> int (length (src_bytes src)) = n \<and> \<not> src_fails src"
    using resp(4) by (auto simp: hashFrom_def split: if_splits)
qed

end

end
