(* ===== verification/S3_Store.thy ===== *)
theory S3_Store
  imports S3_Driver
begin

text \<open>
  A store as S3 documents it, to run the driver of \<open>S3_Driver\<close> against: a bucket of objects, and a script
  of what goes wrong with each request in turn. It discharges the laws of \<open>object_store\<close>. The listing is
  ListObjectsV2 with a delimiter, which the fake store of the driver's tests models as well: the keys
  under the prefix that come after a key, in order, with all that share the part up to the next slash
  rolled into one common prefix, at most a thousand.

  The lemmas: reads over the bucket are lawful whatever the script; a write that is acknowledged left
  exactly what was sent, and one that is not left the old object or the new; transient failures up to
  the number of attempts are invisible; a listing that fits one page is the level. Listing after the
  name of a directory returns that directory again (\<open>List_repeats\<close>), and a streamed write replaces an
  object that exists (\<open>WriteObjectFrom_replaces\<close>).
\<close>

datatype fault = Fine | Lost | Unheard | Busy int | Refused | Broken nat

record bucket =
  bk_objects :: "(string, bytes) gomap"
  bk_faults :: "fault list"
  bk_patience :: nat
  bk_seeks :: bool

definition bucket_contents :: "bucket \<Rightarrow> string \<Rightarrow> bytes option" where
  "bucket_contents w k = (case map_of (bk_objects w) k of
     Some bs \<Rightarrow> if int (length bs) \<le> max_i64 then Some bs else None | None \<Rightarrow> None)"

definition answer :: "int \<Rightarrow> bytes \<Rightarrow> int \<Rightarrow> http_response" where
  "answer status body len = \<lparr>rsStatus = status, rsBody = body, rsBodyFails = False, rsLength = len, rsListing = None, rsErrorCode = ''''\<rparr>"

section \<open>ListObjectsV2\<close>

datatype item = IKey string | IPrefix string

definition item_of :: "string \<Rightarrow> string \<Rightarrow> item" where
  "item_of prefix k =
     (let rest = drop (length prefix) k in
      if CHR ''/'' \<in> set rest then IPrefix (prefix @ takeWhile (\<lambda>c. c \<noteq> CHR ''/'') rest @ ''/'') else IKey k)"

definition list_items :: "string list \<Rightarrow> list_query \<Rightarrow> item list" where
  "list_items ks q = remdups_adj (map (item_of (lqPrefix q)) (sort (filter (\<lambda>k. HasPrefix k (lqPrefix q) \<and> lqAfter q < k) ks)))"

definition list_page :: "bucket \<Rightarrow> list_query \<Rightarrow> listing" where
  "list_page w q =
     (let page = take (nat (min (lqMax q) 1000)) (list_items (filter (\<lambda>k. bucket_contents w k \<noteq> None) (map fst (bk_objects w))) q) in
      \<lparr>lsContents = concat (map (\<lambda>i. case i of IKey k \<Rightarrow> [(k, int (length (the (bucket_contents w k))))] | IPrefix p \<Rightarrow> []) page),
       lsCommonPrefixes = concat (map (\<lambda>i. case i of IKey k \<Rightarrow> [] | IPrefix p \<Rightarrow> [p]) page)\<rparr>)"

section \<open>Serving\<close>

definition serve_get :: "bucket \<Rightarrow> string \<Rightarrow> (int \<times> int) option \<Rightarrow> http_response" where
  "serve_get w k rg =
     (case bucket_contents w k of
        None \<Rightarrow> answer 404 [] 0
      | Some bs \<Rightarrow>
          (case rg of
             None \<Rightarrow> answer 200 bs (int (length bs))
           | Some (a, b) \<Rightarrow>
               if a < 0 \<or> b < a then answer 200 bs (int (length bs))
               else if length bs \<le> nat a then answer 416 [] 0
               else let part = take (nat (b - a + 1)) (drop (nat a) bs) in answer 206 part (int (length part))))"

definition serve :: "bucket \<Rightarrow> http_request \<Rightarrow> http_response \<times> bucket" where
  "serve w rq =
     (case rqTarget rq of
        Listing q \<Rightarrow> ((answer 200 [] 0)\<lparr>rsListing := Some (list_page w q)\<rparr>, w)
      | ObjectKey k \<Rightarrow>
          (case rqMethod rq of
             GET \<Rightarrow> (serve_get w k (rqRange rq), w)
           | HEAD \<Rightarrow> (case bucket_contents w k of None \<Rightarrow> answer 404 [] 0 | Some bs \<Rightarrow> answer 200 [] (int (length bs)), w)
           | PUT \<Rightarrow> if max_i64 < int (length (rqBody rq)) then (answer 400 [] 0, w)
                    else (answer 200 [] 0, w\<lparr>bk_objects := AList.update k (rqBody rq) (bk_objects w)\<rparr>)
           | DELETE \<Rightarrow> (answer 204 [] 0, w\<lparr>bk_objects := AList.delete k (bk_objects w)\<rparr>)))"

definition break_body :: "nat \<Rightarrow> http_response \<Rightarrow> http_response" where
  "break_body n resp = (if n < length (rsBody resp) then resp\<lparr>rsBody := take n (rsBody resp), rsBodyFails := True\<rparr> else resp)"

definition bucket_exchange :: "bucket \<Rightarrow> http_request \<Rightarrow> http_response option \<times> bucket" where
  "bucket_exchange w rq =
     (let w1 = w\<lparr>bk_faults := tl (bk_faults w)\<rparr> in
      case (if bk_faults w = [] then Fine else hd (bk_faults w)) of
        Fine \<Rightarrow> (case serve w1 rq of (resp, w2) \<Rightarrow> (Some resp, w2))
      | Lost \<Rightarrow> (None, w1)
      | Unheard \<Rightarrow> (case serve w1 rq of (resp, w2) \<Rightarrow> (None, w2))
      | Busy s \<Rightarrow> (Some (answer (if transient s then s else 503) [] 0), w1)
      | Refused \<Rightarrow> (Some (answer 403 [] 0), w1)
      | Broken n \<Rightarrow> (case serve w1 rq of (resp, w2) \<Rightarrow> (Some (break_body n resp), w2)))"

definition bucket_s3 :: "int \<Rightarrow> bucket s3" where
  "bucket_s3 attempts = \<lparr>s3_exchange = bucket_exchange,
     s3_pause = (\<lambda>w. if bk_patience w = 0 then (False, w) else (True, w\<lparr>bk_patience := bk_patience w - 1\<rparr>)),
     s3_rewind = (\<lambda>w. (bk_seeks w, w)), s3_attempts = attempts\<rparr>"

section \<open>The bucket is a store as documented\<close>

lemma bucket_contents_simps [simp]:
  "bucket_contents (w\<lparr>bk_faults := f\<rparr>) = bucket_contents w" "bucket_contents (w\<lparr>bk_patience := p\<rparr>) = bucket_contents w"
  by (simp_all add: fun_eq_iff bucket_contents_def)

lemma serve_reads: "rqMethod rq \<in> {GET, HEAD} \<Longrightarrow> snd (serve w rq) = w"
  by (auto simp: serve_def split: target.splits http_method.splits)

lemma exchange_reads: "bucket_exchange w rq = (x, w') \<Longrightarrow> rqMethod rq \<in> {GET, HEAD} \<Longrightarrow> bucket_contents w' = bucket_contents w"
  using serve_reads [of rq "w\<lparr>bk_faults := tl (bk_faults w)\<rparr>"]
  by (auto simp: bucket_exchange_def Let_def split: fault.splits prod.splits if_splits)

text \<open>An answer that is not transient nor a refusal is the answer of the store, perhaps broken off.\<close>

lemma break_body_all: "break_body (length (rsBody r)) r = r"
  by (simp add: break_body_def)

lemma exchange_answer:
  assumes "bucket_exchange w rq = (Some resp, w')" "\<not> transient (rsStatus resp)" "rsStatus resp \<noteq> 403"
  shows "(\<exists>n. resp = break_body n (fst (serve (w\<lparr>bk_faults := tl (bk_faults w)\<rparr>) rq)))
    \<and> w' = snd (serve (w\<lparr>bk_faults := tl (bk_faults w)\<rparr>) rq)"
proof -
  obtain resp0 w2 where s: "serve (w\<lparr>bk_faults := tl (bk_faults w)\<rparr>) rq = (resp0, w2)" by force
  define f where "f = (if bk_faults w = [] then Fine else hd (bk_faults w))"
  note run = assms(1) [unfolded bucket_exchange_def Let_def s f_def [symmetric]]
  show ?thesis
  proof (cases f)
    case Fine
    then show ?thesis using run break_body_all [of resp0] by (auto simp: s) metis
  next
    case (Busy st)
    then show ?thesis using run assms(2) by (auto simp: answer_def transient_def split: if_splits)
  qed (use run assms(3) in \<open>auto simp: s answer_def\<close>)
qed

lemma break_body_simps [simp]: "rsStatus (break_body n r) = rsStatus r" "rsLength (break_body n r) = rsLength r"
  by (simp_all add: break_body_def)

interpretation buckets: object_store "bucket_s3 att" bucket_contents for att
proof
  fix w w' :: bucket and rq x resp k a b ok bs
  show "bucket_contents w' = bucket_contents w" if "s3_exchange (bucket_s3 att) w rq = (x, w')" "rqMethod rq \<in> {GET, HEAD}" for x
    using that exchange_reads by (simp add: bucket_s3_def)
  show "bucket_contents w' = bucket_contents w" if "s3_pause (bucket_s3 att) w = (ok, w')" for ok
    using that by (auto simp: bucket_s3_def split: if_splits)
  show "bucket_contents w' = bucket_contents w" if "s3_rewind (bucket_s3 att) w = (ok, w')" for ok
    using that by (auto simp: bucket_s3_def)
  show "a \<le> b \<and> (\<exists>bs. bucket_contents w k = Some bs \<and> nat a < length bs \<and>
        (let part = take (nat (b - a + 1)) (drop (nat a) bs) in
         if rsBodyFails resp then length (rsBody resp) < length part else rsBody resp = part))"
    if x: "s3_exchange (bucket_s3 att) w rq = (Some resp, w')" and rq: "rqMethod rq = GET" "rqTarget rq = ObjectKey k"
      "rqRange rq = Some (a, b)" "0 \<le> a" and st: "rsStatus resp = 206"
  proof -
    have "bucket_exchange w rq = (Some resp, w')" "\<not> transient (rsStatus resp)" "rsStatus resp \<noteq> 403"
      using x st by (simp_all add: bucket_s3_def transient_def)
    from exchange_answer [OF this] obtain n where n: "resp = break_body n (serve_get w k (rqRange rq))"
      using rq by (auto simp: serve_def serve_get_def)
    then have "rsStatus (serve_get w k (rqRange rq)) = 206" using st by auto
    then obtain bs where bs: "bucket_contents w k = Some bs" "a \<le> b" "nat a < length bs"
      "serve_get w k (rqRange rq) = (let part = take (nat (b - a + 1)) (drop (nat a) bs) in answer 206 part (int (length part)))"
      using rq by (auto simp: serve_get_def answer_def split: option.splits if_splits)
    then show ?thesis using n by (auto simp: Let_def answer_def break_body_def split: if_splits)
  qed
  show "a \<le> b \<and> length bs \<le> nat a"
    if x: "s3_exchange (bucket_s3 att) w rq = (Some resp, w')" and rq: "rqMethod rq = GET" "rqTarget rq = ObjectKey k"
      "rqRange rq = Some (a, b)" "0 \<le> a" and st: "rsStatus resp = 416" "bucket_contents w k = Some bs"
  proof -
    have "bucket_exchange w rq = (Some resp, w')" "\<not> transient (rsStatus resp)" "rsStatus resp \<noteq> 403"
      using x st by (simp_all add: bucket_s3_def transient_def)
    from exchange_answer [OF this] obtain n where n: "resp = break_body n (serve_get w k (rqRange rq))"
      using rq by (auto simp: serve_def serve_get_def)
    then have "rsStatus (serve_get w k (rqRange rq)) = 416" using st by auto
    then show ?thesis using rq st by (auto simp: serve_get_def answer_def Let_def split: if_splits)
  qed
  show "\<exists>bs. bucket_contents w k = Some bs \<and> rsLength resp = int (length bs)"
    if x: "s3_exchange (bucket_s3 att) w rq = (Some resp, w')" and rq: "rqMethod rq = HEAD" "rqTarget rq = ObjectKey k"
      and st: "200 \<le> rsStatus resp" "rsStatus resp < 300" "0 \<le> rsLength resp"
  proof -
    have "bucket_exchange w rq = (Some resp, w')" "\<not> transient (rsStatus resp)" "rsStatus resp \<noteq> 403"
      using x st by (auto simp: bucket_s3_def transient_def)
    from exchange_answer [OF this] show ?thesis
      using rq st by (auto simp: serve_def answer_def split: option.splits)
  qed
  show "int (length bs) \<le> max_i64" if "bucket_contents w k = Some bs"
    using that by (auto simp: bucket_contents_def split: option.splits if_splits)
qed

section \<open>Writes\<close>

lemma contents_update:
  "int (length bs) \<le> max_i64 \<Longrightarrow> bucket_contents (w\<lparr>bk_objects := AList.update k bs (bk_objects w)\<rparr>) = (bucket_contents w)(k \<mapsto> bs)"
  by (auto simp: fun_eq_iff bucket_contents_def map_of_update_if)

lemma contents_delete:
  "bucket_contents (w\<lparr>bk_objects := AList.delete k (bk_objects w)\<rparr>) = (bucket_contents w)(k := None)"
  by (auto simp: fun_eq_iff bucket_contents_def delete_conv)

lemma serve_effect:
  assumes "serve w rq = (r, w')" "rqTarget rq = ObjectKey k"
  shows "bucket_contents w' \<in> {bucket_contents w, effect (rqMethod rq) k (rqBody rq) (bucket_contents w)}"
    and "rsStatus r < 300 \<Longrightarrow> bucket_contents w' = effect (rqMethod rq) k (rqBody rq) (bucket_contents w)"
  using assms contents_update [of "rqBody rq" k w]
  by (auto simp: serve_def answer_def effect_def contents_delete split: http_method.splits if_splits)

lemma exchange_effect:
  assumes "bucket_exchange w rq = (x, w')" "rqTarget rq = ObjectKey k"
  shows "bucket_contents w' \<in> {bucket_contents w, effect (rqMethod rq) k (rqBody rq) (bucket_contents w)}"
    and "x = Some resp \<Longrightarrow> rsStatus resp < 300 \<Longrightarrow> bucket_contents w' = effect (rqMethod rq) k (rqBody rq) (bucket_contents w)"
proof -
  let ?w1 = "w\<lparr>bk_faults := tl (bk_faults w)\<rparr>"
  obtain r w2 where s: "serve ?w1 rq = (r, w2)" by force
  note sv = serve_effect [OF s assms(2), simplified]
  define f where "f = (if bk_faults w = [] then Fine else hd (bk_faults w))"
  note run = assms(1) [unfolded bucket_exchange_def Let_def s f_def [symmetric]]
  show "bucket_contents w' \<in> {bucket_contents w, effect (rqMethod rq) k (rqBody rq) (bucket_contents w)}"
    using run sv(1) by (cases f) auto
  assume "x = Some resp" "rsStatus resp < 300"
  moreover have "rsStatus (break_body n r) = rsStatus r" for n by (simp add: break_body_def)
  ultimately show "bucket_contents w' = effect (rqMethod rq) k (rqBody rq) (bucket_contents w)"
    using run sv(2) by (cases f) (auto simp: answer_def transient_def split: if_splits)
qed

interpretation kept: durable_store "bucket_s3 att" bucket_contents for att
  using exchange_effect by unfold_locales (simp_all add: bucket_s3_def)

lemma WriteObjectFrom_replaces:
  "bucket_contents (snd (s3_WriteObjectFrom (bucket_s3 3) \<lparr>bk_objects = [(''a'', [1])], bk_faults = [], bk_patience = 0, bk_seeks = True\<rparr> ''a''
     \<lparr>src_bytes = [2], src_fails = False\<rparr> 1)) ''a'' = Some [2]"
  by (simp add: s3_WriteObjectFrom_def bucket_s3_def bucket_exchange_def serve_def bucket_contents_def checkObject_def HasPrefix_def
      hashFrom_def answer_def transient_def max_i64_def numeral_3_eq_3)

section \<open>Transient failures\<close>

definition passing :: "fault \<Rightarrow> bool" where
  "passing f \<longleftrightarrow> (case f of Lost \<Rightarrow> True | Unheard \<Rightarrow> True | Busy s \<Rightarrow> True | _ \<Rightarrow> False)"

lemma exchange_passing:
  assumes "bk_faults w = f # fs" "passing f" "rqMethod rq \<in> {GET, HEAD}"
  shows "\<exists>x. bucket_exchange w rq = (x, w\<lparr>bk_faults := fs\<rparr>) \<and> (x = None \<or> transient (rsStatus (the x)))"
proof (cases f)
  case (Busy s)
  then show ?thesis using assms by (simp add: bucket_exchange_def answer_def transient_def)
qed (use assms serve_reads [OF assms(3), of "w\<lparr>bk_faults := fs\<rparr>"] in \<open>simp_all add: bucket_exchange_def passing_def case_prod_unfold\<close>)

lemma send_loop_rides:
  assumes "list_all passing fs" "length fs < n" "length fs \<le> bk_patience w" "rqMethod rq \<in> {GET, HEAD}" "bk_faults w = fs @ rest"
  shows "send_loop (bucket_s3 att) rq n w
    = send_loop (bucket_s3 att) rq (n - length fs) (w\<lparr>bk_faults := rest, bk_patience := bk_patience w - length fs\<rparr>)"
  using assms
proof (induction fs arbitrary: n w)
  case (Cons f fs)
  obtain m where m: "n = Suc (Suc m)" using Cons.prems(2) by (cases n; cases "n - 1") auto
  let ?w1 = "w\<lparr>bk_faults := fs @ rest\<rparr>"
  obtain x where x: "bucket_exchange w rq = (x, ?w1)" "x = None \<or> transient (rsStatus (the x))"
    using exchange_passing [of w f "fs @ rest" rq] Cons.prems by auto
  have "send_loop (bucket_s3 att) rq n w = send_loop (bucket_s3 att) rq (Suc m) (?w1\<lparr>bk_patience := bk_patience w - 1\<rparr>)"
    using x Cons.prems(3) by (auto simp: m bucket_s3_def)
  also have "\<dots> = send_loop (bucket_s3 att) rq (Suc m - length fs)
      (?w1\<lparr>bk_patience := bk_patience w - 1, bk_faults := rest, bk_patience := bk_patience w - 1 - length fs\<rparr>)"
    using Cons.IH [of "Suc m" "?w1\<lparr>bk_patience := bk_patience w - 1\<rparr>"] Cons.prems m by simp
  finally show ?case using m by simp
qed auto

lemma ReadRange_rides:
  assumes fs: "bk_faults w = fs @ Fine # rest" "list_all passing fs" "int (length fs) < att" "length fs \<le> bk_patience w"
    and obj: "checkObject obj" "bucket_contents w obj = Some bs" and r: "0 \<le> off" "0 < len" "off + len \<le> max_i64"
  shows "fst (s3_ReadRange (bucket_s3 att) w obj off len)
    = (if nat off + nat len \<le> length bs then Inr (take (nat len) (drop (nat off) bs)) else Inl ErrOutOfRange)"
proof -
  let ?rq = "\<lparr>rqMethod = GET, rqTarget = ObjectKey obj, rqRange = Some (off, off + len - 1), rqBody = []\<rparr>"
  let ?w1 = "w\<lparr>bk_faults := Fine # rest, bk_patience := bk_patience w - length fs\<rparr>"
  have wr: "wrap64 (off + len - 1) = off + len - 1" using r by (intro wrap64_id') (simp_all add: min_i64_def)
  have "nat att - length fs \<noteq> 0" using fs(3) by linarith
  then obtain m where m: "nat att - length fs = Suc m" by (metis not0_implies_Suc)
  have loop: "send_loop (bucket_s3 att) ?rq (nat att) w = send_loop (bucket_s3 att) ?rq (Suc m) ?w1"
    using send_loop_rides [OF fs(2), of "nat att" w ?rq "Fine # rest" att] fs m by simp
  define resp where "resp = (if length bs \<le> nat off then answer 416 [] 0
      else let part = take (nat len) (drop (nat off) bs) in answer 206 part (int (length part)))"
  have g: "serve_get v obj (Some (off, off + len - 1)) = resp" if "bucket_contents v = bucket_contents w" for v
    using obj(2) r that by (simp add: serve_get_def resp_def)
  have "\<not> transient (rsStatus resp)" by (simp add: resp_def answer_def transient_def Let_def)
  then have "\<exists>v. send_loop (bucket_s3 att) ?rq (nat att) w = (Inr resp, v)"
    unfolding loop using g by (simp add: bucket_s3_def bucket_exchange_def serve_def)
  then obtain v where s: "s3_send (bucket_s3 att) GET obj [] (Some (off, off + len - 1)) w = (Inr resp, v)"
    using obj(1) by (auto simp: s3_send_def bucket_s3_def)
  show ?thesis
  proof (cases "length bs \<le> nat off")
    case True
    then show ?thesis using r by (simp add: s3_ReadRange_def wr s resp_def answer_def)
  next
    case False
    let ?part = "take (nat len) (drop (nat off) bs)"
    have resp: "rsStatus resp = 206" "errorFor resp = None" "read_body resp len = Some ?part"
      using False by (simp_all add: resp_def answer_def errorFor_def read_body_def Let_def)
    have "fst (s3_ReadRange (bucket_s3 att) w obj off len) = (if int (length ?part) \<noteq> len then Inl ErrOutOfRange else Inr ?part)"
      using r(2) by (simp add: s3_ReadRange_def wr s resp)
    moreover have "int (length ?part) = len \<longleftrightarrow> nat off + nat len \<le> length bs" using False r by (auto simp: min_def)
    ultimately show ?thesis by simp
  qed
qed

section \<open>Listings\<close>

lemma less_append: "xs < xs @ (y # ys :: string)"
  by (induction xs) simp_all

lemma item_dir: "CHR ''/'' \<notin> set n \<Longrightarrow> item_of full (full @ n @ ''/'' @ r) = IPrefix (full @ n @ ''/'')"
  by (simp add: item_of_def takeWhile_append)

lemma item_file: "CHR ''/'' \<notin> set n \<Longrightarrow> item_of full (full @ n) = IKey (full @ n)"
  by (simp add: item_of_def)

lemma Trim_dir: "TrimSuffix (TrimPrefix (full @ n @ ''/'') full) ''/'' = n"
  by (simp add: TrimSuffix_def TrimPrefix_def HasPrefix_def HasSuffix_def)

lemma set_list_items:
  "set (list_items ks q) = item_of (lqPrefix q) ` {k \<in> set ks. HasPrefix k (lqPrefix q) \<and> lqAfter q < k}"
  by (auto simp: list_items_def)

definition stored :: "bucket \<Rightarrow> string list" where
  "stored w = filter (\<lambda>k. bucket_contents w k \<noteq> None) (map fst (bk_objects w))"

lemma stored_iff: "k \<in> set (stored w) \<longleftrightarrow> bucket_contents w k \<noteq> None"
  by (auto simp: stored_def bucket_contents_def image_iff split: option.splits if_splits dest: map_of_SomeD) (metis fst_conv map_of_SomeD)

lemma items_dir:
  "IPrefix p \<in> set (list_items ks q) \<longleftrightarrow> (\<exists>n r. CHR ''/'' \<notin> set n \<and> p = lqPrefix q @ n @ ''/''
     \<and> lqPrefix q @ n @ ''/'' @ r \<in> set ks \<and> lqAfter q < lqPrefix q @ n @ ''/'' @ r)" (is "?l \<longleftrightarrow> ?r")
proof
  assume ?l
  then obtain k where k: "k \<in> set ks" "HasPrefix k (lqPrefix q)" "lqAfter q < k" "IPrefix p = item_of (lqPrefix q) k"
    by (auto simp: set_list_items)
  define rest where "rest = drop (length (lqPrefix q)) k"
  have kr: "k = lqPrefix q @ rest" using k(2) by (metis HasPrefix_def append_take_drop_id rest_def)
  have s: "CHR ''/'' \<in> set rest" "p = lqPrefix q @ takeWhile (\<lambda>c. c \<noteq> CHR ''/'') rest @ ''/''"
    using k(4) by (auto simp: item_of_def Let_def rest_def split: if_splits)
  define n where "n = takeWhile (\<lambda>c. c \<noteq> CHR ''/'') rest"
  have "CHR ''/'' \<notin> set n" by (auto simp: n_def dest: set_takeWhileD)
  moreover obtain r where "rest = n @ CHR ''/'' # r"
  proof -
    have "dropWhile (\<lambda>c. c \<noteq> CHR ''/'') rest \<noteq> []" using s(1) by (simp add: dropWhile_eq_Nil_conv)
    then obtain c r where c: "dropWhile (\<lambda>c. c \<noteq> CHR ''/'') rest = c # r" by (meson neq_Nil_conv)
    then have "c = CHR ''/''" by (metis (mono_tags, lifting) dropWhile_eq_Cons_conv)
    then show thesis using that [of r] c takeWhile_dropWhile_id [of "\<lambda>c. c \<noteq> CHR ''/''" rest] by (simp add: n_def)
  qed
  ultimately have "CHR ''/'' \<notin> set n" "k = lqPrefix q @ n @ ''/'' @ r" using kr by simp_all
  then show ?r using k(1,3) s(2) unfolding n_def by blast
next
  assume ?r
  then obtain n r where nr: "CHR ''/'' \<notin> set n" "p = lqPrefix q @ n @ ''/''"
    "lqPrefix q @ n @ ''/'' @ r \<in> set ks" "lqAfter q < lqPrefix q @ n @ ''/'' @ r" by blast
  have "HasPrefix (lqPrefix q @ n @ ''/'' @ r) (lqPrefix q)" by (simp add: HasPrefix_def)
  then show ?l using item_dir [OF nr(1), of "lqPrefix q" r] nr by (auto simp: set_list_items image_iff)
qed

lemma items_file:
  "IKey k \<in> set (list_items ks q) \<longleftrightarrow> (\<exists>n. CHR ''/'' \<notin> set n \<and> k = lqPrefix q @ n \<and> k \<in> set ks \<and> lqAfter q < k)" (is "?l \<longleftrightarrow> ?r")
proof
  assume ?l
  then have k: "k \<in> set ks" "HasPrefix k (lqPrefix q)" "lqAfter q < k" "CHR ''/'' \<notin> set (drop (length (lqPrefix q)) k)"
    by (auto simp: set_list_items item_of_def Let_def split: if_splits)
  moreover have "k = lqPrefix q @ drop (length (lqPrefix q)) k" using k(2) by (metis HasPrefix_def append_take_drop_id)
  ultimately show ?r by blast
next
  assume ?r
  then obtain n where n: "CHR ''/'' \<notin> set n" "k = lqPrefix q @ n" "k \<in> set ks" "lqAfter q < k" by blast
  have "HasPrefix k (lqPrefix q)" by (simp add: n HasPrefix_def)
  then show ?l using item_file [OF n(1), of "lqPrefix q"] n by (auto simp: set_list_items image_iff)
qed

definition page_of :: "bucket \<Rightarrow> item list \<Rightarrow> listing" where
  "page_of w page =
     \<lparr>lsContents = concat (map (\<lambda>i. case i of IKey k \<Rightarrow> [(k, int (length (the (bucket_contents w k))))] | IPrefix p \<Rightarrow> []) page),
      lsCommonPrefixes = concat (map (\<lambda>i. case i of IKey k \<Rightarrow> [] | IPrefix p \<Rightarrow> [p]) page)\<rparr>"

lemma page_entries:
  "set (entries_of full (page_of w page)) =
     (\<lambda>n. \<lparr>eName = n, eDir = True, eBytes = 0\<rparr>) ` {n. n \<noteq> '''' \<and> (\<exists>p. IPrefix p \<in> set page \<and> n = TrimSuffix (TrimPrefix p full) ''/'')}
     \<union> {\<lparr>eName = TrimPrefix k full, eDir = False, eBytes = int (length (the (bucket_contents w k)))\<rparr> | k. IKey k \<in> set page \<and> TrimPrefix k full \<noteq> ''''}"
proof -
  have "set (lsContents (page_of w page)) = (\<lambda>k. (k, int (length (the (bucket_contents w k))))) ` {k. IKey k \<in> set page}"
    unfolding page_of_def by (force split: item.splits)
  moreover have "set (lsCommonPrefixes (page_of w page)) = {p. IPrefix p \<in> set page}"
    unfolding page_of_def by (force split: item.splits)
  ultimately show ?thesis unfolding entries_of_def by (auto simp: image_iff)
qed

lemma page_length: "length (entries_of full (page_of w page)) \<le> length page"
proof -
  have "length (lsContents (page_of w page)) + length (lsCommonPrefixes (page_of w page)) = length page"
    by (induction page) (auto simp: page_of_def split: item.splits)
  moreover have "length (entries_of full ls) \<le> length (lsCommonPrefixes ls) + length (lsContents ls)" for ls
    unfolding entries_of_def length_append length_map by (intro add_mono order_trans [OF length_filter_le]) simp_all
  ultimately show ?thesis by (metis add.commute)
qed

text \<open>The names of a level, as a listing after a name should give them.\<close>

definition level_after :: "bucket \<Rightarrow> string \<Rightarrow> string \<Rightarrow> Entry set" where
  "level_after w full bound =
     (\<lambda>n. \<lparr>eName = n, eDir = True, eBytes = 0\<rparr>) ` {n. n \<noteq> '''' \<and> CHR ''/'' \<notin> set n \<and>
        (\<exists>r. bucket_contents w (full @ n @ ''/'' @ r) \<noteq> None \<and> bound < full @ n @ ''/'' @ r)}
     \<union> {\<lparr>eName = n, eDir = False, eBytes = int (length bs)\<rparr> | n bs. n \<noteq> '''' \<and> CHR ''/'' \<notin> set n
        \<and> bucket_contents w (full @ n) = Some bs \<and> bound < full @ n}"

lemma items_entries:
  "set (entries_of (lqPrefix q) (page_of w (list_items (stored w) q))) = level_after w (lqPrefix q) (lqAfter q)"
proof -
  have tp: "TrimPrefix (lqPrefix q @ n) (lqPrefix q) = n" for n by (simp add: TrimPrefix_def HasPrefix_def)
  have d: "(\<exists>p. IPrefix p \<in> set (list_items (stored w) q) \<and> n = TrimSuffix (TrimPrefix p (lqPrefix q)) ''/'')
      \<longleftrightarrow> CHR ''/'' \<notin> set n \<and> (\<exists>r. bucket_contents w (lqPrefix q @ n @ ''/'' @ r) \<noteq> None \<and> lqAfter q < lqPrefix q @ n @ ''/'' @ r)" for n
    unfolding items_dir stored_iff using Trim_dir by metis
  have f: "{\<lparr>eName = TrimPrefix k (lqPrefix q), eDir = False, eBytes = int (length (the (bucket_contents w k)))\<rparr> | k.
        IKey k \<in> set (list_items (stored w) q) \<and> TrimPrefix k (lqPrefix q) \<noteq> ''''}
      = {\<lparr>eName = n, eDir = False, eBytes = int (length bs)\<rparr> | n bs. n \<noteq> '''' \<and> CHR ''/'' \<notin> set n
        \<and> bucket_contents w (lqPrefix q @ n) = Some bs \<and> lqAfter q < lqPrefix q @ n}"
    unfolding items_file stored_iff using tp by (auto 0 4) (metis option.sel)
  show ?thesis unfolding page_entries level_after_def d f by auto
qed

text \<open>A listing the store answers in one page is the level.\<close>

lemma List_page:
  assumes "bk_faults w = [] \<or> hd (bk_faults w) = Fine"
    and q: "q = \<lparr>lqPrefix = level_of prefix, lqAfter = (if after \<noteq> '''' then level_of prefix @ after else ''''), lqMax = limit\<rparr>"
    and fit: "int (length (list_items (stored w) q)) \<le> min limit 1000"
  shows "\<exists>es w'. s3_List (bucket_s3 att) w prefix after limit = (Inr es, w') \<and> set es = level_after w (level_of prefix) (lqAfter q)
    \<and> sorted (map eName es)"
proof -
  have st: "stored (w\<lparr>bk_faults := f\<rparr>) = stored w" for f by (simp add: stored_def)
  have "lqMax q = limit" by (simp add: q)
  then have "length (list_items (stored w) q) \<le> nat (min (lqMax q) 1000)" using fit by linarith
  then have "take (nat (min (lqMax q) 1000)) (list_items (stored w) q) = list_items (stored w) q" by simp
  then have pg: "list_page (w\<lparr>bk_faults := tl (bk_faults w)\<rparr>) q = page_of w (list_items (stored w) q)"
    by (simp add: list_page_def page_of_def stored_def [symmetric] st [unfolded stored_def] Let_def) (simp add: stored_def)
  let ?es = "entries_of (level_of prefix) (page_of w (list_items (stored w) q))"
  have "length ?es \<le> nat limit" using page_length [of "level_of prefix" w "list_items (stored w) q"] fit by linarith
  then have t: "take (nat limit) (sort_key eName ?es) = sort_key eName ?es" by simp
  have "bucket_exchange w (list_request (level_of prefix) after limit)
      = (Some ((answer 200 [] 0)\<lparr>rsListing := Some (page_of w (list_items (stored w) q))\<rparr>), w\<lparr>bk_faults := tl (bk_faults w)\<rparr>)"
    using assms(1) pg by (auto simp: bucket_exchange_def list_request_def serve_def q)
  then have "s3_List (bucket_s3 att) w prefix after limit = (Inr (sort_key eName ?es), w\<lparr>bk_faults := tl (bk_faults w)\<rparr>)"
    by (simp add: s3_List_def bucket_s3_def answer_def errorFor_def t)
  then show ?thesis using items_entries [of q w] by (simp add: q)
qed

text \<open>Listing after a directory returns it again.\<close>

lemma List_repeats:
  assumes "bk_faults w = [] \<or> hd (bk_faults w) = Fine" "n \<noteq> ''''" "CHR ''/'' \<notin> set n" "bucket_contents w (level_of prefix @ n @ ''/'' @ r) \<noteq> None"
    and "int (length (list_items (stored w) \<lparr>lqPrefix = level_of prefix, lqAfter = level_of prefix @ n, lqMax = limit\<rparr>)) \<le> min limit 1000"
  shows "\<exists>es w'. s3_List (bucket_s3 att) w prefix n limit = (Inr es, w') \<and> \<lparr>eName = n, eDir = True, eBytes = 0\<rparr> \<in> set es"
proof -
  have "level_of prefix @ n < level_of prefix @ n @ ''/'' @ r" using less_append [of "level_of prefix @ n" "CHR ''/''" r] by simp
  then have "\<lparr>eName = n, eDir = True, eBytes = 0\<rparr> \<in> level_after w (level_of prefix) (level_of prefix @ n)"
    using assms(2-4) unfolding level_after_def by blast
  then show ?thesis using List_page [OF assms(1) refl, of prefix n limit att] assms(2,5) by auto
qed

end
