(* ===== verification/Go_Sha256.thy ===== *)
theory Go_Sha256
  imports Go_Text
begin

text \<open>
  SHA-256 and HMAC as \<open>crypto/sha256\<close> and \<open>crypto/hmac\<close> compute them (FIPS 180-4 and FIPS 198-1), on
  32-bit words written as integers with the wrap-around spelled out, and \<open>hex.EncodeToString\<close>. The S3 driver signs with them and sends the digest of what
  it writes. The digest of no bytes is evaluated here, since the driver carries it as a constant.
\<close>

unbundle bit_operations_syntax

section \<open>The compression function\<close>

abbreviation w32 :: "int \<Rightarrow> int" where
  "w32 x \<equiv> take_bit 32 x"

definition rotr :: "nat \<Rightarrow> int \<Rightarrow> int" where
  "rotr n x = drop_bit n x OR push_bit (32 - n) (take_bit n x)"

text \<open>
  The constant of a round is the first 32 bits of the fractional part of the cube root of a prime, one for
  each of the first 64 primes. They are listed with their primes; \<open>sha_roots_exact\<close> checks each against
  its prime, and \<open>sha_roots_primes\<close> that no prime is missing.
\<close>

definition sha_roots :: "(int \<times> int) list" where
  "sha_roots = [
     (2, 0x428a2f98), (3, 0x71374491), (5, 0xb5c0fbcf), (7, 0xe9b5dba5), (11, 0x3956c25b),
     (13, 0x59f111f1), (17, 0x923f82a4), (19, 0xab1c5ed5), (23, 0xd807aa98), (29, 0x12835b01),
     (31, 0x243185be), (37, 0x550c7dc3), (41, 0x72be5d74), (43, 0x80deb1fe), (47, 0x9bdc06a7),
     (53, 0xc19bf174), (59, 0xe49b69c1), (61, 0xefbe4786), (67, 0x0fc19dc6), (71, 0x240ca1cc),
     (73, 0x2de92c6f), (79, 0x4a7484aa), (83, 0x5cb0a9dc), (89, 0x76f988da), (97, 0x983e5152),
     (101, 0xa831c66d), (103, 0xb00327c8), (107, 0xbf597fc7), (109, 0xc6e00bf3), (113, 0xd5a79147),
     (127, 0x06ca6351), (131, 0x14292967), (137, 0x27b70a85), (139, 0x2e1b2138), (149, 0x4d2c6dfc),
     (151, 0x53380d13), (157, 0x650a7354), (163, 0x766a0abb), (167, 0x81c2c92e), (173, 0x92722c85),
     (179, 0xa2bfe8a1), (181, 0xa81a664b), (191, 0xc24b8b70), (193, 0xc76c51a3), (197, 0xd192e819),
     (199, 0xd6990624), (211, 0xf40e3585), (223, 0x106aa070), (227, 0x19a4c116), (229, 0x1e376c08),
     (233, 0x2748774c), (239, 0x34b0bcb5), (241, 0x391c0cb3), (251, 0x4ed8aa4a), (257, 0x5b9cca4f),
     (263, 0x682e6ff3), (269, 0x748f82ee), (271, 0x78a5636f), (277, 0x84c87814), (281, 0x8cc70208),
     (283, 0x90befffa), (293, 0xa4506ceb), (307, 0xbef9a3f7), (311, 0xc67178f2)]"

definition sha_k :: "int list" where
  "sha_k = map snd sha_roots"

definition root_bits :: "int \<Rightarrow> int \<Rightarrow> bool" where
  "root_bits p k \<longleftrightarrow> list_ex (\<lambda>i. let r = i * 2 ^ 32 + k in r ^ 3 \<le> p * 2 ^ 96 \<and> p * 2 ^ 96 < (r + 1) ^ 3) [1, 2, 3, 4, 5, 6]"

lemma sha_roots_exact: "list_all (\<lambda>(p, k). root_bits p k) sha_roots"
  by code_simp

lemma sha_roots_primes: "map fst sha_roots = filter (\<lambda>n. list_all (\<lambda>d. n mod d \<noteq> 0 \<or> n = d) [2, 3, 5, 7, 11, 13, 17]) [2..311]"
  by code_simp

record sha_state =
  sA :: "int"
  sB :: "int"
  sC :: "int"
  sD :: "int"
  sE :: "int"
  sF :: "int"
  sG :: "int"
  sH :: "int"

definition sha_init :: sha_state where
  "sha_init = \<lparr>sA = 0x6a09e667, sB = 0xbb67ae85, sC = 0x3c6ef372, sD = 0xa54ff53a,
     sE = 0x510e527f, sF = 0x9b05688c, sG = 0x1f83d9ab, sH = 0x5be0cd19\<rparr>"

definition sha_round :: "sha_state \<Rightarrow> int \<times> int \<Rightarrow> sha_state" where
  "sha_round s kw =
     (let t1 = sH s + (rotr 6 (sE s) XOR rotr 11 (sE s) XOR rotr 25 (sE s)) + ((sE s AND sF s) XOR ((0xffffffff XOR sE s) AND sG s)) + fst kw + snd kw;
          t2 = (rotr 2 (sA s) XOR rotr 13 (sA s) XOR rotr 22 (sA s)) + ((sA s AND sB s) XOR (sA s AND sC s) XOR (sB s AND sC s)) in
      \<lparr>sA = w32 (t1 + t2), sB = sA s, sC = sB s, sD = sC s, sE = w32 (sD s + t1), sF = sE s, sG = sF s, sH = sG s\<rparr>)"

text \<open>The message schedule, newest word first: each new word is made of the last sixteen.\<close>

definition sha_next :: "int list \<Rightarrow> int" where
  "sha_next ws =
     (let v1 = ws ! 1; v2 = ws ! 14 in
      w32 ((rotr 17 v1 XOR rotr 19 v1 XOR drop_bit 10 v1) + ws ! 6 + (rotr 7 v2 XOR rotr 18 v2 XOR drop_bit 3 v2) + ws ! 15))"

primrec sha_extend :: "nat \<Rightarrow> int list \<Rightarrow> int list" where
  "sha_extend 0 ws = ws"
| "sha_extend (Suc n) ws = sha_extend n (sha_next ws # ws)"

fun sha_words :: "bytes \<Rightarrow> int list" where
  "sha_words (a # b # c # d # bs) =
     (push_bit 24 (uint a) OR push_bit 16 (uint b) OR push_bit 8 (uint c) OR uint d) # sha_words bs"
| "sha_words _ = []"

definition sha_block :: "sha_state \<Rightarrow> bytes \<Rightarrow> sha_state" where
  "sha_block s p =
     (let t = foldl sha_round s (zip sha_k (rev (sha_extend 48 (rev (sha_words p))))) in
      \<lparr>sA = w32 (sA s + sA t), sB = w32 (sB s + sB t), sC = w32 (sC s + sC t), sD = w32 (sD s + sD t),
       sE = w32 (sE s + sE t), sF = w32 (sF s + sF t), sG = w32 (sG s + sG t), sH = w32 (sH s + sH t)\<rparr>)"

section \<open>Digests\<close>

definition sha_padded :: "bytes \<Rightarrow> bytes" where
  "sha_padded m =
     m @ [0x80] @ replicate ((119 - length m mod 64) mod 64) 0
       @ map (\<lambda>i. word_of_int (take_bit 8 (drop_bit i (8 * int (length m))))) [56, 48, 40, 32, 24, 16, 8, 0]"

function sha_blocks :: "sha_state \<Rightarrow> bytes \<Rightarrow> sha_state" where
  "sha_blocks s m = (if m = [] then s else sha_blocks (sha_block s (take 64 m)) (drop 64 m))"
  by auto
termination by (relation "measure (\<lambda>(_, m). length m)") auto

declare sha_blocks.simps [simp del]

definition word_bytes :: "int \<Rightarrow> bytes" where
  "word_bytes x = map (\<lambda>i. word_of_int (take_bit 8 (drop_bit i x))) [24, 16, 8, 0]"

definition Sum256 :: "bytes \<Rightarrow> bytes" where
  "Sum256 m =
     (let s = sha_blocks sha_init (sha_padded m) in
      concat (map word_bytes [sA s, sB s, sC s, sD s, sE s, sF s, sG s, sH s]))"

definition hmac_key :: "bytes \<Rightarrow> bytes" where
  "hmac_key key = (let k = (if 64 < length key then Sum256 key else key) in k @ replicate (64 - length k) 0)"

definition hmac_sum :: "bytes \<Rightarrow> bytes \<Rightarrow> bytes" where
  "hmac_sum key msg =
     Sum256 (map (\<lambda>b. b XOR 0x5c) (hmac_key key) @ Sum256 (map (\<lambda>b. b XOR 0x36) (hmac_key key) @ msg))"

definition hex_digit :: "nat \<Rightarrow> char" where
  "hex_digit n = ''0123456789abcdef'' ! n"

definition hex_string :: "bytes \<Rightarrow> string" where
  "hex_string bs = concat (map (\<lambda>b. [hex_digit (unat (drop_bit 4 b)), hex_digit (unat (b AND 15))]) bs)"

lemma length_Sum256 [simp]: "length (Sum256 m) = 32"
  by (simp add: Sum256_def Let_def word_bytes_def)

lemma padded_blocks: "length (sha_padded m) mod 64 = 0"
proof -
  have "(x mod 64 + 1 + (119 - x mod 64) mod 64 + 8) mod 64 = 0" for x :: nat
  proof (cases "x mod 64 \<le> 55")
    case True
    then have "(119 - x mod 64) mod 64 = 55 - x mod 64" using mod_add_self1 [of 64 "55 - x mod 64"] by simp
    then show ?thesis using True by simp
  next
    case False
    moreover have "x mod 64 < 64" by simp
    ultimately have "(119 - x mod 64) mod 64 = 119 - x mod 64" by simp
    then show ?thesis using False \<open>x mod 64 < 64\<close> by simp
  qed
  from this [of "length m"] have "(length m + (9 + (119 - length m mod 64) mod 64)) mod 64 = 0"
    using mod_add_left_eq [of "length m" 64 "9 + (119 - length m mod 64) mod 64"] by (simp add: ac_simps)
  then show ?thesis by (simp add: sha_padded_def ac_simps)
qed



lemma sum_empty: "hex_string (Sum256 []) = ''e3b0c44298fc1c149afbf4c8996fb92427ae41e4649b934ca495991b7852b855''"
  by code_simp

lemma sum_abc: "hex_string (Sum256 (of_text ''abc'')) = ''ba7816bf8f01cfea414140de5dae2223b00361a396177a9cb410ff61f20015ad''"
  by code_simp

end
