(* ===== verification/Topology.thy ===== *)
theory Topology
  imports Go_Path
begin

text \<open>
  What a machine says about itself (\<open>internal/topology/fact.go\<close>, \<open>internal/topology/topology.go\<close>): facts
  with where they came from, and discovery over the files of sysfs.

  A fact is one of the three ways the package makes one, since its fields are not exported. The file
  system is what the operations of \<open>os\<close> answer: the contents of a file or a failure, the names in a
  directory, that it is not there, or that it cannot be read, the target of a link, and whether a path
  can be reached.

  The lemmas: an unknown rack answers neither question about two nodes; a device is local only when
  its name is a namespace of NVMe and the kernel says its controller is on PCIe
  (\<open>classifyLocality_local\<close>); the pattern of a namespace is the one the code compiles
  (\<open>nvmeController_iff\<close>); an accelerator has the class, the vendor and the driver of one; no disk is
  listed that is a partition, is stacked on others or is known to be empty.
\<close>

section \<open>Facts\<close>

datatype Provenance = Unknown | Discovered | Declared

definition provenance_String :: "Provenance \<Rightarrow> string" where
  "provenance_String p = (case p of Discovered \<Rightarrow> ''discovered'' | Declared \<Rightarrow> ''declared'' | Unknown \<Rightarrow> ''unknown'')"

datatype 'a Fact = UnknownValue | DiscoveredValue 'a | DeclaredValue 'a

definition fact_Provenance :: "'a Fact \<Rightarrow> Provenance" where
  "fact_Provenance f = (case f of UnknownValue \<Rightarrow> Unknown | DiscoveredValue _ \<Rightarrow> Discovered | DeclaredValue _ \<Rightarrow> Declared)"

definition Known :: "'a Fact \<Rightarrow> 'a option" where
  "Known f = (case f of UnknownValue \<Rightarrow> None | DiscoveredValue v \<Rightarrow> Some v | DeclaredValue v \<Rightarrow> Some v)"

definition fact_Or :: "'a Fact \<Rightarrow> 'a \<Rightarrow> 'a" where
  "fact_Or f fallback = (case Known f of Some v \<Rightarrow> v | None \<Rightarrow> fallback)"

lemma Known_simps [simp]:
  "Known UnknownValue = None" "Known (DiscoveredValue v) = Some v" "Known (DeclaredValue v) = Some v"
  by (simp_all add: Known_def)

lemma Known_None [simp]: "Known f = None \<longleftrightarrow> f = UnknownValue"
  by (cases f) simp_all

section \<open>Nodes\<close>

record Accelerator =
  PCIAddress :: string
  aVendor :: string
  aDevice :: string
  VendorName :: string
  aNUMA :: "int Fact"

record Disk =
  dkName :: string
  SizeBytes :: "int Fact"
  Rotational :: "bool Fact"
  dkLocal :: "bool Fact"

record Node =
  Rack :: "string Fact"
  NUMANodes :: "int Fact"
  Accelerators :: "Accelerator list"
  Disks :: "Disk list"
  RDMA :: "bool Fact"
  RDMAActive :: "bool Fact"

definition WithDeclaredRack :: "Node \<Rightarrow> string \<Rightarrow> Node" where
  "WithDeclaredRack n rack = (if TrimSpace rack = '''' then n else n\<lparr>Rack := DeclaredValue rack\<rparr>)"

definition SameRack :: "Node \<Rightarrow> Node \<Rightarrow> bool" where
  "SameRack a b \<longleftrightarrow>
     (case (Known (Rack a), Known (Rack b)) of (Some ra, Some rb) \<Rightarrow> ra = rb | _ \<Rightarrow> False)"

definition DifferentRacks :: "Node \<Rightarrow> Node \<Rightarrow> bool" where
  "DifferentRacks a b \<longleftrightarrow>
     (case (Known (Rack a), Known (Rack b)) of (Some ra, Some rb) \<Rightarrow> ra \<noteq> rb | _ \<Rightarrow> False)"

section \<open>The file system\<close>

datatype dir_read = Entries "string list" | NotThere | Unreadable

record sysfs =
  sysRead :: "string \<Rightarrow> string option"
  sysDir :: "string \<Rightarrow> dir_read"
  sysLink :: "string \<Rightarrow> string option"
  sysStat :: "string \<Rightarrow> bool"

definition dir_names :: "dir_read \<Rightarrow> string list option" where
  "dir_names d = (case d of Entries ns \<Rightarrow> Some ns | _ \<Rightarrow> None)"

text \<open>\<open>filepath.Base\<close>: the last part, a dot for nothing, a slash for slashes only.\<close>

definition filepath_Base :: "string \<Rightarrow> string" where
  "filepath_Base p =
     (if p = '''' then ''.''
      else let q = rev (dropWhile (\<lambda>c. c = CHR ''/'') (rev p)) in
           if q = '''' then ''/'' else rev (takeWhile (\<lambda>c. c \<noteq> CHR ''/'') (rev q)))"

fun Contains :: "string \<Rightarrow> string \<Rightarrow> bool" where
  "Contains [] t \<longleftrightarrow> t = []"
| "Contains (c # s) t \<longleftrightarrow> HasPrefix (c # s) t \<or> Contains s t"

definition hasAnyPrefix :: "string \<Rightarrow> string list \<Rightarrow> bool" where
  "hasAnyPrefix s prefixes = list_ex (HasPrefix s) prefixes"

definition readTrimmed :: "sysfs \<Rightarrow> string \<Rightarrow> string" where
  "readTrimmed fs p = (case sysRead fs p of None \<Rightarrow> '''' | Some b \<Rightarrow> TrimSpace b)"

definition readNUMA :: "sysfs \<Rightarrow> string \<Rightarrow> int Fact" where
  "readNUMA fs p =
     (let s = readTrimmed fs p in
      if s = '''' then UnknownValue
      else case Atoi s of
        None \<Rightarrow> UnknownValue
      | Some n \<Rightarrow> if n < 0 then UnknownValue else DiscoveredValue n)"

definition readSectors :: "sysfs \<Rightarrow> string \<Rightarrow> int Fact" where
  "readSectors fs p =
     (let s = readTrimmed fs p in
      if s = '''' then UnknownValue
      else case ParseInt s of
        (sectors, err) \<Rightarrow> if err \<noteq> None \<or> sectors < 0 then UnknownValue else DiscoveredValue (wrap64 (sectors * 512)))"

definition readBool :: "sysfs \<Rightarrow> string \<Rightarrow> bool Fact" where
  "readBool fs p =
     (let s = readTrimmed fs p in
      if s = ''0'' then DiscoveredValue False else if s = ''1'' then DiscoveredValue True else UnknownValue)"

section \<open>NUMA domains and accelerators\<close>

definition acceleratorVendors :: "(string, string) gomap" where
  "acceleratorVendors = [(''0x10de'', ''NVIDIA''), (''0x1002'', ''AMD''), (''0x8086'', ''Intel'')]"

definition computeDrivers :: "string list" where
  "computeDrivers = [''nvidia'', ''nvidia_drm'', ''amdgpu'', ''xe'']"

definition displayClasses :: "string list" where
  "displayClasses = [''0x0300'', ''0x0302'']"

definition is_numa_dir :: "string \<Rightarrow> bool" where
  "is_numa_dir name \<longleftrightarrow> HasPrefix name ''node'' \<and> Atoi (TrimPrefix name ''node'') \<noteq> None"

definition discoverNUMA :: "sysfs \<Rightarrow> string \<Rightarrow> int Fact" where
  "discoverNUMA fs rt =
     (case dir_names (sysDir fs (path_Join [rt, ''sys/devices/system/node''])) of
        None \<Rightarrow> UnknownValue
      | Some entries \<Rightarrow>
          let n = int (length (filter is_numa_dir entries)) in
          if n = 0 then UnknownValue else DiscoveredValue n)"

definition hasComputeDriver :: "sysfs \<Rightarrow> string \<Rightarrow> bool" where
  "hasComputeDriver fs dir =
     (case sysLink fs (path_Join [dir, ''driver'']) of
        None \<Rightarrow> False
      | Some target \<Rightarrow> filepath_Base target \<in> set computeDrivers)"

definition accelerator_at :: "sysfs \<Rightarrow> string \<Rightarrow> string \<Rightarrow> Accelerator option" where
  "accelerator_at fs base name =
     (let dir = path_Join [base, name] in
      if \<not> hasAnyPrefix (readTrimmed fs (path_Join [dir, ''class''])) displayClasses then None
      else let vendor = readTrimmed fs (path_Join [dir, ''vendor'']) in
        case map_of acceleratorVendors vendor of
          None \<Rightarrow> None
        | Some vname \<Rightarrow>
            if \<not> hasComputeDriver fs dir then None
            else Some \<lparr>PCIAddress = name, aVendor = vendor, aDevice = readTrimmed fs (path_Join [dir, ''device'']),
                       VendorName = vname, aNUMA = readNUMA fs (path_Join [dir, ''numa_node''])\<rparr>)"

definition discoverAccelerators :: "sysfs \<Rightarrow> string \<Rightarrow> Accelerator list" where
  "discoverAccelerators fs rt =
     (let base = path_Join [rt, ''sys/bus/pci/devices''] in
      case dir_names (sysDir fs base) of
        None \<Rightarrow> []
      | Some entries \<Rightarrow> sort_key PCIAddress (List.map_filter (accelerator_at fs base) entries))"

section \<open>Disks\<close>

definition networkBlockPrefixes :: "string list" where
  "networkBlockPrefixes = [''nbd'', ''rbd'', ''drbd'']"

definition localNVMeTransports :: "string list" where
  "localNVMeTransports = [''pcie'']"

text \<open>\<open>^(nvme[0-9]+)n[0-9]+(?:p[0-9]+)?$\<close>, and its first group.\<close>

definition all_digits :: "string \<Rightarrow> bool" where
  "all_digits s \<longleftrightarrow> s \<noteq> [] \<and> list_all is_digit s"

definition nvmeController :: "string \<Rightarrow> string" where
  "nvmeController namespace =
     (case CutPrefix namespace ''nvme'' of
        None \<Rightarrow> ''''
      | Some s \<Rightarrow>
          let ctrl = takeWhile is_digit s; rest = dropWhile is_digit s in
          if ctrl = '''' \<or> \<not> HasPrefix rest ''n'' then ''''
          else let ns = takeWhile is_digit (tl rest); part = dropWhile is_digit (tl rest) in
            if ns \<noteq> '''' \<and> (part = '''' \<or> (HasPrefix part ''p'' \<and> all_digits (tl part))) then ''nvme'' @ ctrl else '''')"

definition classifyNVMe :: "sysfs \<Rightarrow> string \<Rightarrow> string \<Rightarrow> bool Fact" where
  "classifyNVMe fs rt name =
     (let ctrl = nvmeController name in
      if ctrl = '''' then UnknownValue
      else let transport = readTrimmed fs (path_Join [rt, ''sys/class/nvme'', ctrl, ''transport'']) in
        if transport = '''' then UnknownValue else DiscoveredValue (transport \<in> set localNVMeTransports))"

definition classifyLocality :: "sysfs \<Rightarrow> string \<Rightarrow> string \<Rightarrow> bool Fact" where
  "classifyLocality fs rt name =
     (if hasAnyPrefix name networkBlockPrefixes then DiscoveredValue False
      else if HasPrefix name ''nvme'' then classifyNVMe fs rt name
      else UnknownValue)"

definition isStacked :: "sysfs \<Rightarrow> string \<Rightarrow> bool" where
  "isStacked fs dir =
     (case sysDir fs (path_Join [dir, ''slaves'']) of Entries ns \<Rightarrow> ns \<noteq> [] | _ \<Rightarrow> False)"

definition isSkippableBlockDevice :: "string \<Rightarrow> bool" where
  "isSkippableBlockDevice name = hasAnyPrefix name [''loop'', ''dm-'', ''ram'', ''zram'', ''sr'']"

definition disk_at :: "sysfs \<Rightarrow> string \<Rightarrow> string \<Rightarrow> string \<Rightarrow> Disk option" where
  "disk_at fs rt base name =
     (let dir = path_Join [base, name] in
      if isSkippableBlockDevice name then None
      else if sysStat fs (path_Join [dir, ''partition'']) then None
      else if isStacked fs dir then None
      else let sz = readSectors fs (path_Join [dir, ''size'']) in
        if Known sz = Some 0 then None
        else Some \<lparr>dkName = name, SizeBytes = sz, Rotational = readBool fs (path_Join [dir, ''queue/rotational'']),
                   dkLocal = classifyLocality fs rt name\<rparr>)"

definition discoverDisks :: "sysfs \<Rightarrow> string \<Rightarrow> Disk list" where
  "discoverDisks fs rt =
     (let base = path_Join [rt, ''sys/class/block''] in
      case dir_names (sysDir fs base) of
        None \<Rightarrow> []
      | Some entries \<Rightarrow> sort_key dkName (List.map_filter (disk_at fs rt base) entries))"

section \<open>RDMA\<close>

definition infiniband :: "string \<Rightarrow> string list \<Rightarrow> string" where
  "infiniband rt parts = path_Join ([rt, ''sys/class/infiniband''] @ parts)"

definition discoverRDMA :: "sysfs \<Rightarrow> string \<Rightarrow> bool Fact" where
  "discoverRDMA fs rt =
     (if \<not> sysStat fs (path_Join [rt, ''sys/class'']) then UnknownValue
      else case sysDir fs (infiniband rt []) of
        NotThere \<Rightarrow> DiscoveredValue False
      | Unreadable \<Rightarrow> UnknownValue
      | Entries ns \<Rightarrow> DiscoveredValue (ns \<noteq> []))"

text \<open>The states of the ports of a device that said something.\<close>

definition port_states :: "sysfs \<Rightarrow> string \<Rightarrow> string \<Rightarrow> string list" where
  "port_states fs rt d =
     (case dir_names (sysDir fs (infiniband rt [d, ''ports''])) of
        None \<Rightarrow> []
      | Some ports \<Rightarrow> filter (\<lambda>s. s \<noteq> '''') (map (\<lambda>port. readTrimmed fs (infiniband rt [d, ''ports'', port, ''state''])) ports))"

text \<open>The walk over devices and ports: whether a port was seen up, and whether any was seen at all.\<close>

fun walk_states :: "bool \<Rightarrow> string list \<Rightarrow> bool Fact" where
  "walk_states looked [] = (if looked then DiscoveredValue False else UnknownValue)"
| "walk_states looked (state # states) =
     (if Contains state ''ACTIVE'' then DiscoveredValue True else walk_states True states)"

definition discoverRDMAActive :: "sysfs \<Rightarrow> string \<Rightarrow> bool Fact" where
  "discoverRDMAActive fs rt =
     (case Known (discoverRDMA fs rt) of
        None \<Rightarrow> UnknownValue
      | Some present \<Rightarrow>
          if \<not> present then DiscoveredValue False
          else case dir_names (sysDir fs (infiniband rt [])) of
            None \<Rightarrow> UnknownValue
          | Some devices \<Rightarrow> walk_states False (concat (map (port_states fs rt) devices)))"

definition Discover :: "sysfs \<Rightarrow> string \<Rightarrow> Node" where
  "Discover fs rt = \<lparr>Rack = UnknownValue, NUMANodes = discoverNUMA fs rt, Accelerators = discoverAccelerators fs rt,
     Disks = discoverDisks fs rt, RDMA = discoverRDMA fs rt, RDMAActive = discoverRDMAActive fs rt\<rparr>"

section \<open>Racks\<close>

lemma rack_declared: "fact_Provenance (Rack (WithDeclaredRack (Discover fs rt) rack)) = (if TrimSpace rack = '''' then Unknown else Declared)"
  by (simp add: WithDeclaredRack_def Discover_def fact_Provenance_def)

lemma SameRack_iff: "SameRack a b \<longleftrightarrow> (\<exists>r. Known (Rack a) = Some r \<and> Known (Rack b) = Some r)"
  by (auto simp: SameRack_def split: option.splits)

lemma DifferentRacks_iff: "DifferentRacks a b \<longleftrightarrow> (\<exists>r s. Known (Rack a) = Some r \<and> Known (Rack b) = Some s \<and> r \<noteq> s)"
  by (auto simp: DifferentRacks_def split: option.splits)

lemmas rack_questions = SameRack_iff DifferentRacks_iff

lemma declared_rack: "Known (Rack (WithDeclaredRack (Discover fs rt) r)) = (if TrimSpace r = '''' then None else Some r)"
  by (simp add: WithDeclaredRack_def Discover_def)

section \<open>Locality\<close>

lemma takeWhile_digits:
  assumes "list_all is_digit a" "rest = [] \<or> \<not> is_digit (hd rest)"
  shows "takeWhile is_digit (a @ rest) = a" "dropWhile is_digit (a @ rest) = rest"
proof -
  have "takeWhile is_digit rest = [] \<and> dropWhile is_digit rest = rest" using assms(2) by (cases rest) simp_all
  then show "takeWhile is_digit (a @ rest) = a" "dropWhile is_digit (a @ rest) = rest"
    using assms(1) by (simp_all add: list_all_iff takeWhile_append2 dropWhile_append2)
qed

lemma digit_runs: "list_all is_digit (takeWhile is_digit s)" "s = takeWhile is_digit s @ dropWhile is_digit s"
  by (auto simp: list_all_iff dest: set_takeWhileD)

lemma HasPrefix_single: "HasPrefix s [c] \<longleftrightarrow> (\<exists>r. s = c # r)"
  by (cases s) (auto simp: HasPrefix_def)

lemma letters_not_digits: "\<not> is_digit (CHR ''n'')" "\<not> is_digit (CHR ''p'')"
  by (simp_all add: is_digit_def)

text \<open>The controller is the first group of the pattern, and is empty exactly where the pattern does not
  match.\<close>

lemma nvmeController_match:
  assumes "all_digits a" "all_digits b" "part = '''' \<or> (\<exists>c. part = ''p'' @ c \<and> all_digits c)"
  shows "nvmeController (''nvme'' @ a @ ''n'' @ b @ part) = ''nvme'' @ a"
proof -
  have "part = [] \<or> \<not> is_digit (hd part)" using assms(3) letters_not_digits by auto
  then have "takeWhile is_digit (b @ part) = b" "dropWhile is_digit (b @ part) = part"
    using assms(2) takeWhile_digits [of b part] by (simp_all add: all_digits_def)
  moreover have "takeWhile is_digit (a @ CHR ''n'' # b @ part) = a" "dropWhile is_digit (a @ CHR ''n'' # b @ part) = CHR ''n'' # b @ part"
    using assms(1) takeWhile_digits [of a "CHR ''n'' # b @ part"] letters_not_digits by (simp_all add: all_digits_def)
  ultimately show ?thesis
    using assms by (auto simp: nvmeController_def CutPrefix_def HasPrefix_def all_digits_def)
qed

lemma nvmeController_iff:
  "nvmeController name = ctrl \<and> ctrl \<noteq> '''' \<longleftrightarrow>
   (\<exists>a b part. name = ''nvme'' @ a @ ''n'' @ b @ part \<and> ctrl = ''nvme'' @ a \<and> all_digits a \<and> all_digits b
      \<and> (part = '''' \<or> (\<exists>c. part = ''p'' @ c \<and> all_digits c)))" (is "?l \<longleftrightarrow> ?r")
proof
  assume l: ?l
  define s where "s = drop 4 name"
  define rest where "rest = dropWhile is_digit s"
  define part where "part = dropWhile is_digit (tl rest)"
  have "HasPrefix name ''nvme''" using l by (auto simp: nvmeController_def CutPrefix_def split: if_splits)
  then have "take 4 name = ''nvme''" by (simp add: HasPrefix_def numeral_eq_Suc)
  then have n: "name = ''nvme'' @ s" unfolding s_def by (metis append_take_drop_id)
  then have c: "takeWhile is_digit s \<noteq> []" "HasPrefix rest ''n''" "takeWhile is_digit (tl rest) \<noteq> []"
     "part = '''' \<or> (HasPrefix part ''p'' \<and> all_digits (tl part))" "ctrl = ''nvme'' @ takeWhile is_digit s"
    using l by (auto simp: nvmeController_def CutPrefix_def HasPrefix_def rest_def part_def Let_def split: if_splits)
  have "s = takeWhile is_digit s @ ''n'' @ takeWhile is_digit (tl rest) @ part"
    using c(2) digit_runs(2) [of s] digit_runs(2) [of "tl rest"] unfolding rest_def [symmetric] part_def [symmetric] HasPrefix_single
    by (metis append_Cons append_Nil list.sel(3))
  moreover have "part = '''' \<or> (\<exists>c. part = ''p'' @ c \<and> all_digits c)" using c(4) by (auto simp: HasPrefix_single)
  ultimately show ?r using n c(1,3,5) digit_runs(1) unfolding all_digits_def by (metis append.assoc)
next
  assume ?r
  then show ?l using nvmeController_match by force
qed

lemma nvme_prefix: "nvmeController name \<noteq> '''' \<Longrightarrow> HasPrefix name ''nvme'' \<and> \<not> hasAnyPrefix name networkBlockPrefixes"
  using nvmeController_iff [of name "nvmeController name"] by (auto simp: HasPrefix_def hasAnyPrefix_def networkBlockPrefixes_def)

definition transport_of :: "sysfs \<Rightarrow> string \<Rightarrow> string \<Rightarrow> string" where
  "transport_of fs rt name = readTrimmed fs (path_Join [rt, ''sys/class/nvme'', nvmeController name, ''transport''])"

lemma classifyLocality_local:
  "Known (classifyLocality fs rt name) = Some True \<longleftrightarrow> nvmeController name \<noteq> '''' \<and> transport_of fs rt name = ''pcie''"
  using nvme_prefix [of name]
  by (auto simp: classifyLocality_def classifyNVMe_def transport_of_def localNVMeTransports_def Let_def)

lemma classifyLocality_remote:
  "Known (classifyLocality fs rt name) = Some False \<longleftrightarrow>
     hasAnyPrefix name networkBlockPrefixes \<or> (nvmeController name \<noteq> '''' \<and> transport_of fs rt name \<notin> {'''', ''pcie''})"
  using nvme_prefix [of name]
  by (auto simp: classifyLocality_def classifyNVMe_def transport_of_def localNVMeTransports_def Let_def)

text \<open>A partition is as local as the namespace it is cut from.\<close>

lemma classify_partition:
  assumes "all_digits a" "all_digits b" "all_digits c"
  shows "classifyLocality fs rt (''nvme'' @ a @ ''n'' @ b @ ''p'' @ c) = classifyLocality fs rt (''nvme'' @ a @ ''n'' @ b)"
proof -
  have "nvmeController (''nvme'' @ a @ ''n'' @ b @ ''p'' @ c) = ''nvme'' @ a" "nvmeController (''nvme'' @ a @ ''n'' @ b) = ''nvme'' @ a"
    using nvmeController_match [OF assms(1,2), of "''p'' @ c"] nvmeController_match [OF assms(1,2), of "''''"] assms(3) by auto
  moreover have "classifyLocality fs rt (''nvme'' @ s) = classifyNVMe fs rt (''nvme'' @ s)" for s
    by (simp add: classifyLocality_def hasAnyPrefix_def networkBlockPrefixes_def HasPrefix_def)
  ultimately show ?thesis by (simp add: classifyNVMe_def)
qed

section \<open>What is listed\<close>

lemma set_map_filter_iff: "x \<in> set (List.map_filter f xs) \<longleftrightarrow> (\<exists>n\<in>set xs. f n = Some x)"
  by (induction xs) (auto simp: List.map_filter_def)

lemma accelerator_listed:
  "acc \<in> set (discoverAccelerators fs rt) \<longleftrightarrow>
     (\<exists>entries. sysDir fs (path_Join [rt, ''sys/bus/pci/devices'']) = Entries entries
        \<and> (\<exists>n\<in>set entries. accelerator_at fs (path_Join [rt, ''sys/bus/pci/devices'']) n = Some acc))"
  by (auto simp: discoverAccelerators_def Let_def dir_names_def set_map_filter_iff split: dir_read.splits)

text \<open>An accelerator is one by its class, its vendor and the driver that is bound to it.\<close>

lemma accelerator_signals:
  assumes "acc \<in> set (discoverAccelerators fs rt)"
  defines "dir \<equiv> path_Join [path_Join [rt, ''sys/bus/pci/devices''], PCIAddress acc]"
  shows "hasAnyPrefix (readTrimmed fs (path_Join [dir, ''class''])) displayClasses"
    and "map_of acceleratorVendors (readTrimmed fs (path_Join [dir, ''vendor''])) = Some (VendorName acc)"
    and "hasComputeDriver fs dir"
  using assms(1) unfolding accelerator_listed dir_def
  by (auto simp: accelerator_at_def Let_def split: if_splits option.splits)

lemma disk_listed:
  "d \<in> set (discoverDisks fs rt) \<longleftrightarrow>
     (\<exists>entries. sysDir fs (path_Join [rt, ''sys/class/block'']) = Entries entries
        \<and> (\<exists>n\<in>set entries. disk_at fs rt (path_Join [rt, ''sys/class/block'']) n = Some d))"
  by (auto simp: discoverDisks_def Let_def dir_names_def set_map_filter_iff split: dir_read.splits)

lemma disk_signals:
  assumes "d \<in> set (discoverDisks fs rt)"
  defines "dir \<equiv> path_Join [path_Join [rt, ''sys/class/block''], dkName d]"
  shows "\<not> sysStat fs (path_Join [dir, ''partition''])" "\<not> isStacked fs dir" "Known (SizeBytes d) \<noteq> Some 0"
    "dkLocal d = classifyLocality fs rt (dkName d)"
  using assms(1) unfolding disk_listed dir_def by (auto simp: disk_at_def Let_def split: if_splits)

text \<open>The kernel lists a device once, and the result lists it once, in order.\<close>

lemma map_filter_names:
  assumes "\<And>n x. f n = Some x \<Longrightarrow> g x = n" "distinct ns"
  shows "distinct (map g (List.map_filter f ns))"
proof -
  have "map g (List.map_filter f ns) = filter (\<lambda>n. f n \<noteq> None) ns"
    using assms(1) by (induction ns) (auto simp: List.map_filter_def)
  then show ?thesis using assms(2) by simp
qed

lemma disks_sorted:
  assumes "\<And>p ns. sysDir fs p = Entries ns \<Longrightarrow> distinct ns"
  shows "sorted (map dkName (discoverDisks fs rt))" "distinct (map dkName (discoverDisks fs rt))"
proof -
  show "sorted (map dkName (discoverDisks fs rt))" by (simp add: discoverDisks_def Let_def split: option.splits)
  have "disk_at fs rt base n = Some x \<Longrightarrow> dkName x = n" for base n x by (auto simp: disk_at_def Let_def split: if_splits)
  then have "distinct (map dkName (List.map_filter (disk_at fs rt base) ns))" if "distinct ns" for base ns
    using that by (rule map_filter_names)
  moreover have "distinct (map dkName (sort_key dkName xs)) \<longleftrightarrow> distinct (map dkName xs)" for xs
    by (metis mset_eq_imp_distinct_iff mset_map mset_sort)
  ultimately have d: "distinct (map dkName (sort_key dkName (List.map_filter (disk_at fs rt base) ns)))" if "distinct ns" for base ns
    using that by blast
  show "distinct (map dkName (discoverDisks fs rt))"
    unfolding discoverDisks_def Let_def dir_names_def using assms d by (auto split: dir_read.splits)
qed

section \<open>Readings\<close>

lemma readNUMA_range: "Known (readNUMA fs p) = Some n \<Longrightarrow> 0 \<le> n \<and> in_i64 n"
  by (auto simp: readNUMA_def Let_def Atoi_def split: option.splits if_splits prod.splits)

lemma readSectors_exact:
  assumes "TrimSpace b = dec_int sectors" "sysRead fs p = Some b" "0 \<le> sectors" "in_i64 (sectors * 512)"
  shows "readSectors fs p = DiscoveredValue (sectors * 512)"
proof -
  have "in_i64 sectors" using assms(3,4) by (simp add: in_i64_def i64_defs)
  moreover have "dec_int sectors \<noteq> []" using dec_nat_digits [of "nat sectors"] assms(3) by (simp add: dec_int_def)
  ultimately show ?thesis using assms by (simp add: readSectors_def readTrimmed_def ParseInt_dec wrap64_id)
qed

lemma walk_states_up: "Known (walk_states looked ss) = Some True \<longleftrightarrow> (\<exists>s\<in>set ss. Contains s ''ACTIVE'')"
  by (induction ss arbitrary: looked) auto

lemma walk_states_unknown: "walk_states looked ss = UnknownValue \<longleftrightarrow> \<not> looked \<and> ss = []"
  by (induction ss arbitrary: looked) simp_all

text \<open>A port that is up is a port of a device that is there.\<close>

lemma RDMA_up_present: "Known (discoverRDMAActive fs rt) = Some True \<Longrightarrow> Known (discoverRDMA fs rt) = Some True"
  by (auto simp: discoverRDMAActive_def split: option.splits if_splits)

lemma RDMA_nothing_looked: "\<not> sysStat fs (path_Join [rt, ''sys/class'']) \<Longrightarrow> discoverRDMA fs rt = UnknownValue \<and> discoverRDMAActive fs rt = UnknownValue"
  by (simp add: discoverRDMA_def discoverRDMAActive_def)

end
