(* ===== verification/Pool_Storage.thy ===== *)
theory Pool_Storage
  imports Topology
begin

text \<open>
  The file system under the pools (\<open>internal/topology/pool_unix.go\<close>): its size, the device that holds
  it, whether that device is local, and what the agent's own files occupy on it.

  The machine is what its system calls answer: \<open>statfs\<close> and \<open>stat\<close> by path, the working directory, the
  table of the mount table, and the tree a walk of a directory meets, in which an entry may have gone or
  may fail. A path is measured on its parts, since \<open>filepath.Dir\<close> of a cleaned path drops the last of
  them (\<open>filepath_Dir_render\<close>).

  The lemmas: the walk up to the nearest directory that exists finds it; the device is the source of
  the innermost mount the path is under, the later of two equal ones (\<open>deviceForPath_innermost\<close>); a
  count of what is occupied is complete or unknown (\<open>OccupiedBytes_complete\<close>). A mount point with a
  space in it is written with an escape in the table and never matches (\<open>escaped_mount_missed\<close>).
\<close>

section \<open>System calls\<close>

datatype 'a sys_result = Answer 'a | ENOENT | Fails

record statfs =
  Bsize :: int
  fBlocks :: int
  Bavail :: int

record machine =
  m_sysfs :: sysfs
  m_statfs :: "string \<Rightarrow> statfs sys_result"
  m_stat :: "string \<Rightarrow> int sys_result"
  m_cwd :: "string option"
  m_file :: "string \<Rightarrow> string option"

record PoolStorage =
  TotalBytes :: "int Fact"
  AvailableBytes :: "int Fact"
  psDevice :: string
  psLocal :: "bool Fact"

section \<open>Paths\<close>

definition filepath_Abs :: "machine \<Rightarrow> string \<Rightarrow> string option" where
  "filepath_Abs m p = (if HasPrefix p ''/'' then Some (path_Clean p) else map_option (\<lambda>wd. path_Join [wd, p]) (m_cwd m))"

definition filepath_Dir :: "string \<Rightarrow> string" where
  "filepath_Dir p = path_Clean (rev (dropWhile (\<lambda>c. c \<noteq> CHR ''/'') (rev p)))"

text \<open>The walk up, on the parts of the path, the last one first.\<close>

fun statfs_up :: "machine \<Rightarrow> string list \<Rightarrow> statfs option" where
  "statfs_up m rparts =
     (case m_statfs m (render True (rev rparts)) of
        Answer st \<Rightarrow> Some st
      | Fails \<Rightarrow> None
      | ENOENT \<Rightarrow> (case rparts of [] \<Rightarrow> None | _ # up \<Rightarrow> statfs_up m up))"

declare statfs_up.simps [simp del]

definition statfsNearest :: "machine \<Rightarrow> string \<Rightarrow> statfs option" where
  "statfsNearest m p = (case filepath_Abs m p of None \<Rightarrow> None | Some dir \<Rightarrow> statfs_up m (rev (clean_parts dir)))"

section \<open>The mount table\<close>

text \<open>\<open>strings.Fields\<close>, and the lines a \<open>bufio.Scanner\<close> gives: each without its line feed and a carriage
  return before it, up to the first that does not fit its buffer.\<close>

fun fields_from :: "string \<Rightarrow> string \<Rightarrow> string list" where
  "fields_from acc [] = (if acc = [] then [] else [rev acc])"
| "fields_from acc (c # s) =
     (if is_space c then (if acc = [] then [] else [rev acc]) @ fields_from [] s else fields_from (c # acc) s)"

definition Fields :: "string \<Rightarrow> string list" where
  "Fields s = fields_from [] s"

definition scan_lines :: "string \<Rightarrow> string list" where
  "scan_lines s =
     (let ls = Split s (CHR 0x0A);
          ls' = (if last ls = [] then butlast ls else ls) in
      map (\<lambda>l. TrimSuffix l [CHR 0x0D]) (takeWhile (\<lambda>l. length l < 65536) ls'))"

text \<open>The field two after the first hyphen that has one there.\<close>

fun source_after :: "string list \<Rightarrow> string option" where
  "source_after (f # a # b # fs) = (if f = ''-'' then Some b else source_after (a # b # fs))"
| "source_after _ = None"

definition parseMountinfoLine :: "string \<Rightarrow> (string \<times> string) option" where
  "parseMountinfoLine line =
     (let fields = Fields line in
      if length fields < 5 then None
      else map_option (\<lambda>source. (fields ! 4, source)) (source_after fields))"

definition underMount :: "string \<Rightarrow> string \<Rightarrow> bool" where
  "underMount p mount \<longleftrightarrow> mount = ''/'' \<or> p = mount \<or> HasPrefix p (mount @ ''/'')"

definition blockDeviceName :: "string \<Rightarrow> string" where
  "blockDeviceName source =
     (if \<not> HasPrefix source ''/dev/'' then ''''
      else let name = TrimPrefix source ''/dev/'' in
           if name = '''' \<or> CHR ''/'' \<in> set name then rev (takeWhile (\<lambda>c. c \<noteq> CHR ''/'') (rev name)) else name)"

definition mount_step :: "string \<Rightarrow> string \<times> string \<Rightarrow> string \<Rightarrow> string \<times> string" where
  "mount_step ap best line =
     (case parseMountinfoLine line of
        None \<Rightarrow> best
      | Some (mountPoint, source) \<Rightarrow>
          if \<not> underMount ap mountPoint then best
          else if length (fst best) \<le> length mountPoint then (mountPoint, source) else best)"

definition deviceForPath :: "machine \<Rightarrow> string \<Rightarrow> string \<Rightarrow> string" where
  "deviceForPath m mountinfo p =
     (case filepath_Abs m p of
        None \<Rightarrow> ''''
      | Some ap \<Rightarrow>
          (case m_file m mountinfo of
             None \<Rightarrow> ''''
           | Some table \<Rightarrow> blockDeviceName (snd (foldl (mount_step ap) ('''', '''') (scan_lines table)))))"

section \<open>Describing a pool\<close>

definition DescribePool :: "machine \<Rightarrow> string \<Rightarrow> string \<Rightarrow> string \<Rightarrow> PoolStorage" where
  "DescribePool m rt mountinfo p =
     (if p = '''' then \<lparr>TotalBytes = UnknownValue, AvailableBytes = UnknownValue, psDevice = '''', psLocal = UnknownValue\<rparr>
      else let sizes = (case statfsNearest m p of
                 Some st \<Rightarrow> if Bsize st > 0
                   then (DiscoveredValue (wrap64 (wrap64 (fBlocks st) * Bsize st)), DiscoveredValue (wrap64 (wrap64 (Bavail st) * Bsize st)))
                   else (UnknownValue, UnknownValue)
               | None \<Rightarrow> (UnknownValue, UnknownValue));
               device = deviceForPath m mountinfo p in
           \<lparr>TotalBytes = fst sizes, AvailableBytes = snd sizes, psDevice = device,
            psLocal = (if device \<noteq> '''' then classifyLocality (m_sysfs m) rt device else UnknownValue)\<rparr>)"

definition PoolStorage_String :: "PoolStorage \<Rightarrow> string" where
  "PoolStorage_String ps =
     (let device = (if psDevice ps = '''' then ''unknown device'' else psDevice ps);
          local = (case Known (psLocal ps) of Some v \<Rightarrow> if v then ''local'' else ''not local'' | None \<Rightarrow> ''locality unknown'') in
      case Known (TotalBytes ps) of
        None \<Rightarrow> device @ '' ('' @ local @ ''), size unknown''
      | Some t \<Rightarrow> device @ '' ('' @ local @ ''), '' @ dec_int t @ '' bytes total, ''
          @ dec_int (fact_Or (AvailableBytes ps) 0) @ '' available'')"

datatype reach_error = NotReached string

definition SameFilesystem :: "machine \<Rightarrow> string \<Rightarrow> string \<Rightarrow> reach_error + bool" where
  "SameFilesystem m a b =
     (case m_stat m a of
        Answer da \<Rightarrow> (case m_stat m b of Answer db \<Rightarrow> Inr (da = db) | _ \<Rightarrow> Inl (NotReached b))
      | _ \<Rightarrow> Inl (NotReached a))"

section \<open>What is occupied\<close>

text \<open>What a walk meets: a regular file with its block count, or that has gone, or that cannot be asked,
  or that has no count; a directory with its entries, or that has gone, or that cannot be read; anything
  else.\<close>

datatype info = Blocks int | InfoGone | InfoFails | NoCount

datatype tree = TFile info | TDir "tree list" | TDirGone | TDirFails | TOther

datatype root_entry = RootTree tree | RootGone | RootFails

datatype walk_end = GoOn | SkipDir | SkipAll | WalkFails

definition whenVanished :: "bool \<Rightarrow> bool \<Rightarrow> walk_end" where
  "whenVanished isRoot isDir = (if isRoot then SkipAll else if isDir then SkipDir else GoOn)"

definition count_file :: "int \<Rightarrow> info \<Rightarrow> int \<times> walk_end" where
  "count_file acc i =
     (case i of
        Blocks b \<Rightarrow> (wrap64 (acc + wrap64 (b * 512)), GoOn)
      | InfoGone \<Rightarrow> (acc, GoOn)
      | InfoFails \<Rightarrow> (acc, WalkFails)
      | NoCount \<Rightarrow> (acc, WalkFails))"

text \<open>\<open>filepath.WalkDir\<close> below its root: a directory that asks to be skipped is skipped there.\<close>

fun walk_tree :: "bool \<Rightarrow> int \<Rightarrow> tree \<Rightarrow> int \<times> walk_end"
and walk_list :: "int \<Rightarrow> tree list \<Rightarrow> int \<times> walk_end" where
  "walk_tree isRoot acc (TFile i) = count_file acc i"
| "walk_tree isRoot acc TOther = (acc, GoOn)"
| "walk_tree isRoot acc TDirGone =
     (acc, case whenVanished isRoot True of SkipDir \<Rightarrow> GoOn | e \<Rightarrow> e)"
| "walk_tree isRoot acc TDirFails = (acc, WalkFails)"
| "walk_tree isRoot acc (TDir ts) = walk_list acc ts"
| "walk_list acc [] = (acc, GoOn)"
| "walk_list acc (t # ts) =
     (case walk_tree False acc t of
        (acc', GoOn) \<Rightarrow> walk_list acc' ts
      | (acc', SkipDir) \<Rightarrow> (acc', GoOn)
      | (acc', e) \<Rightarrow> (acc', e))"

definition WalkDir :: "int \<Rightarrow> root_entry \<Rightarrow> int option" where
  "WalkDir acc r =
     (case (case r of RootGone \<Rightarrow> (acc, whenVanished True False) | RootFails \<Rightarrow> (acc, WalkFails) | RootTree t \<Rightarrow> walk_tree True acc t) of
        (acc', WalkFails) \<Rightarrow> None
      | (acc', _) \<Rightarrow> Some acc')"

fun occupied_from :: "int \<Rightarrow> (string \<times> root_entry) list \<Rightarrow> int Fact" where
  "occupied_from acc [] = DiscoveredValue acc"
| "occupied_from acc ((p, r) # rs) =
     (if p = '''' then occupied_from acc rs
      else case WalkDir acc r of None \<Rightarrow> UnknownValue | Some acc' \<Rightarrow> occupied_from acc' rs)"

definition OccupiedBytes :: "(string \<times> root_entry) list \<Rightarrow> int Fact" where
  "OccupiedBytes paths = occupied_from 0 paths"

section \<open>The nearest directory\<close>

lemma clean_steps_trailing: "clean_steps r acc (ss @ [[]]) = clean_steps r acc ss"
  by (simp add: clean_steps_append)

lemma filepath_Dir_render:
  assumes "norm True cs"
  shows "filepath_Dir (render True cs) = render True (butlast cs)"
proof (cases cs rule: rev_cases)
  case Nil
  then show ?thesis by (simp add: filepath_Dir_def render_def path_Clean_def clean_parts_def HasPrefix_def)
next
  case (snoc xs x)
  have nx: "norm True xs" using norm_butlast [OF assms] by (simp add: snoc)
  have x: "CHR ''/'' \<notin> set x" using norm_no_slash [OF assms, of x] by (simp add: snoc)
  have split: "render True cs = (render True xs @ (if xs = [] then [] else ''/'')) @ x"
    by (cases "xs = []") (simp_all add: snoc render_def Join_append)
  have "dropWhile (\<lambda>c. c \<noteq> CHR ''/'') (rev x @ u) = dropWhile (\<lambda>c. c \<noteq> CHR ''/'') u" for u
    using x by (intro dropWhile_append2) auto
  then have d: "rev (dropWhile (\<lambda>c. c \<noteq> CHR ''/'') (rev (render True cs))) = render True xs @ (if xs = [] then [] else ''/'')"
    unfolding split by (simp add: render_def)
  have p: "HasPrefix (render True xs @ u) ''/''" for u by (simp add: render_def HasPrefix_def)
  have "clean_parts (render True xs @ (if xs = [] then [] else ''/'')) = xs"
  proof (cases "xs = []")
    case False
    then have "Split (render True xs @ ''/'') (CHR ''/'') = Split (render True xs) (CHR ''/'') @ [[]]"
      using Split_append [of "render True xs" "CHR ''/''" "[]"] by simp
    moreover have "clean_steps True [] (Split (render True xs) (CHR ''/'')) = xs"
      using render_parts [OF nx] by (simp add: clean_parts_def)
    ultimately show ?thesis using False p [of "''/''"] by (simp add: clean_parts_def clean_steps_trailing)
  qed (simp add: clean_parts_def render_def HasPrefix_def)
  then have "filepath_Dir (render True cs) = render True xs" unfolding filepath_Dir_def d path_Clean_def using p by simp
  then show ?thesis by (simp add: snoc)
qed

lemma statfs_up_nearest:
  "statfs_up m (rev cs) = Some st \<longleftrightarrow>
     (\<exists>k\<le>length cs. m_statfs m (render True (take k cs)) = Answer st \<and> (\<forall>j. k < j \<and> j \<le> length cs \<longrightarrow> m_statfs m (render True (take j cs)) = ENOENT))"
proof (induction cs rule: rev_induct)
  case Nil
  then show ?case by (subst statfs_up.simps) (auto split: sys_result.splits)
next
  case (snoc x xs)
  have all: "(\<forall>j. k < j \<and> j \<le> length (xs @ [x]) \<longrightarrow> P j) \<longleftrightarrow> (k < Suc (length xs) \<longrightarrow> P (Suc (length xs))) \<and> (\<forall>j. k < j \<and> j \<le> length xs \<longrightarrow> P j)" for k P
    by (auto simp: le_Suc_eq)
  show ?case
  proof (cases "m_statfs m (render True (xs @ [x]))")
    case ENOENT
    then have "statfs_up m (rev (xs @ [x])) = statfs_up m (rev xs)" by (subst statfs_up.simps) simp
    moreover have "(\<exists>k\<le>length (xs @ [x]). m_statfs m (render True (take k (xs @ [x]))) = Answer st
        \<and> (\<forall>j. k < j \<and> j \<le> length (xs @ [x]) \<longrightarrow> m_statfs m (render True (take j (xs @ [x]))) = ENOENT))
      \<longleftrightarrow> (\<exists>k\<le>length xs. m_statfs m (render True (take k xs)) = Answer st
        \<and> (\<forall>j. k < j \<and> j \<le> length xs \<longrightarrow> m_statfs m (render True (take j xs)) = ENOENT))"
      unfolding all using ENOENT by (auto simp: le_Suc_eq)
    ultimately show ?thesis using snoc.IH by simp
  next
    case (Answer s)
    then have "statfs_up m (rev (xs @ [x])) = Some s" by (subst statfs_up.simps) simp
    then show ?thesis unfolding all using Answer by (force simp: le_Suc_eq)
  next
    case Fails
    then have "statfs_up m (rev (xs @ [x])) = None" by (subst statfs_up.simps) simp
    then show ?thesis unfolding all using Fails by (auto simp: le_Suc_eq)
  qed
qed

section \<open>The innermost mount\<close>

definition mounts_over :: "string \<Rightarrow> string list \<Rightarrow> (string \<times> string) list" where
  "mounts_over ap ls = filter (\<lambda>m. underMount ap (fst m)) (List.map_filter parseMountinfoLine ls)"

definition innermost :: "(string \<times> string) list \<Rightarrow> string \<times> string \<Rightarrow> bool" where
  "innermost ms m \<longleftrightarrow> (\<exists>i<length ms. m = ms ! i \<and> (\<forall>j<length ms. length (fst (ms ! j)) \<le> length (fst (ms ! i))
      \<and> (i < j \<longrightarrow> length (fst (ms ! j)) < length (fst (ms ! i)))))"

lemma mount_fold: "foldl (mount_step ap) best ls = foldl (\<lambda>b m. if length (fst b) \<le> length (fst m) then m else b) best (mounts_over ap ls)"
  by (induction ls arbitrary: best) (auto simp: mounts_over_def mount_step_def List.map_filter_def split: option.splits)

lemma innermost_fold:
  assumes "ms \<noteq> []"
  shows "innermost ms (foldl (\<lambda>b m. if length (fst b) \<le> length (fst m) then m else b) ('''', '''') ms)"
  using assms
proof (induction ms rule: rev_induct)
  case (snoc m ms)
  let ?f = "foldl (\<lambda>b m. if length (fst b) \<le> length (fst m) then m else b) ('''', '''')"
  show ?case
  proof (cases "ms = []")
    case False
    then obtain i where i: "i < length ms" "?f ms = ms ! i" "\<forall>j<length ms. length (fst (ms ! j)) \<le> length (fst (ms ! i))
      \<and> (i < j \<longrightarrow> length (fst (ms ! j)) < length (fst (ms ! i)))" using snoc.IH unfolding innermost_def by blast
    show ?thesis
    proof (cases "length (fst (ms ! i)) \<le> length (fst m)")
      case True
      then show ?thesis using i unfolding innermost_def
        by (intro exI [of _ "length ms"]) (auto simp: nth_append less_Suc_eq intro: order_trans)
    next
      case False
      then show ?thesis using i unfolding innermost_def by (intro exI [of _ i]) (auto simp: nth_append less_Suc_eq)
    qed
  qed (simp add: innermost_def)
qed simp

lemma deviceForPath_innermost:
  assumes "filepath_Abs m p = Some ap" "m_file m mountinfo = Some table"
  shows "deviceForPath m mountinfo p =
     (if mounts_over ap (scan_lines table) = [] then '''' else blockDeviceName (snd (foldl (mount_step ap) ('''', '''') (scan_lines table))))"
    and "mounts_over ap (scan_lines table) \<noteq> [] \<Longrightarrow> innermost (mounts_over ap (scan_lines table)) (foldl (mount_step ap) ('''', '''') (scan_lines table))"
  using assms innermost_fold unfolding mount_fold by (auto simp: deviceForPath_def mount_fold blockDeviceName_def HasPrefix_def)

text \<open>The device a pool is described with, in one statement: the block device of the innermost mount.\<close>

lemma deviceForPath_source:
  assumes "deviceForPath m mountinfo p = dev" "dev \<noteq> ''''"
  shows "\<exists>ap table mount source. filepath_Abs m p = Some ap \<and> m_file m mountinfo = Some table
    \<and> innermost (mounts_over ap (scan_lines table)) (mount, source) \<and> dev = blockDeviceName source"
proof -
  obtain ap table where a: "filepath_Abs m p = Some ap" "m_file m mountinfo = Some table"
    using assms by (auto simp: deviceForPath_def split: option.splits)
  obtain mount source where f: "foldl (mount_step ap) ('''', '''') (scan_lines table) = (mount, source)" by fastforce
  have "mounts_over ap (scan_lines table) \<noteq> []" using deviceForPath_innermost(1) [OF a] assms by auto
  then show ?thesis using deviceForPath_innermost [OF a] f assms a by auto
qed

lemma DescribePool_local:
  "Known (psLocal (DescribePool m rt mountinfo p)) = Some True \<longleftrightarrow>
     p \<noteq> '''' \<and> nvmeController (deviceForPath m mountinfo p) \<noteq> '''' \<and> transport_of (m_sysfs m) rt (deviceForPath m mountinfo p) = ''pcie''"
proof (cases "deviceForPath m mountinfo p = ''''")
  case True
  moreover have "nvmeController '''' = ''''" by (simp add: nvmeController_def CutPrefix_def HasPrefix_def)
  ultimately show ?thesis by (simp add: DescribePool_def Let_def)
next
  case False
  then show ?thesis by (simp add: DescribePool_def Let_def classifyLocality_local)
qed

section \<open>What is occupied, all of it or nothing\<close>

fun tree_bytes :: "tree \<Rightarrow> int" and trees_bytes :: "tree list \<Rightarrow> int" where
  "tree_bytes (TFile (Blocks b)) = b * 512"
| "tree_bytes (TFile _) = 0"
| "tree_bytes (TDir ts) = trees_bytes ts"
| "tree_bytes TDirGone = 0"
| "tree_bytes TDirFails = 0"
| "tree_bytes TOther = 0"
| "trees_bytes [] = 0"
| "trees_bytes (t # ts) = tree_bytes t + trees_bytes ts"

fun tree_fails :: "tree \<Rightarrow> bool" and trees_fail :: "tree list \<Rightarrow> bool" where
  "tree_fails (TFile i) \<longleftrightarrow> i = InfoFails \<or> i = NoCount"
| "tree_fails (TDir ts) \<longleftrightarrow> trees_fail ts"
| "tree_fails TDirGone \<longleftrightarrow> False"
| "tree_fails TDirFails \<longleftrightarrow> True"
| "tree_fails TOther \<longleftrightarrow> False"
| "trees_fail [] \<longleftrightarrow> False"
| "trees_fail (t # ts) \<longleftrightarrow> tree_fails t \<or> trees_fail ts"

definition root_bytes :: "root_entry \<Rightarrow> int" where
  "root_bytes r = (case r of RootTree t \<Rightarrow> tree_bytes t | _ \<Rightarrow> 0)"

definition root_fails :: "root_entry \<Rightarrow> bool" where
  "root_fails r = (case r of RootTree t \<Rightarrow> tree_fails t | RootGone \<Rightarrow> False | RootFails \<Rightarrow> True)"

lemma wrap64_add_wrap_right: "wrap64 (a + wrap64 b) = wrap64 (a + b)"
  using wrap64_add_wrap [of b a] by (simp add: add.commute)

lemma walk_complete:
  "snd (walk_tree isRoot acc t) = (if tree_fails t then WalkFails else if isRoot \<and> t = TDirGone then SkipAll else GoOn) \<and>
   (\<not> tree_fails t \<longrightarrow> in_i64 acc \<longrightarrow> fst (walk_tree isRoot acc t) = wrap64 (acc + tree_bytes t))"
  "snd (walk_list acc ts) = (if trees_fail ts then WalkFails else GoOn) \<and>
   (\<not> trees_fail ts \<longrightarrow> in_i64 acc \<longrightarrow> fst (walk_list acc ts) = wrap64 (acc + trees_bytes ts))"
proof (induction isRoot acc t and acc ts rule: walk_tree_walk_list.induct)
  case (1 isRoot acc i)
  then show ?case by (cases i) (simp_all add: count_file_def wrap64_id wrap64_add_wrap_right)
next
  case (7 acc t ts)
  obtain acc' e where w: "walk_tree False acc t = (acc', e)" by fastforce
  show ?case
  proof (cases "tree_fails t")
    case True
    then show ?thesis using 7(1) w by simp
  next
    case False
    then have e: "e = GoOn" "in_i64 acc \<longrightarrow> acc' = wrap64 (acc + tree_bytes t)" using 7(1) w by simp_all
    then show ?thesis using 7(2) [OF w [symmetric] e(1)] w False
      by (auto simp: wrap64_range wrap64_add_wrap add.assoc)
  qed
qed (simp_all add: whenVanished_def wrap64_id)

lemma WalkDir_complete:
  "in_i64 acc \<Longrightarrow> WalkDir acc r = (if root_fails r then None else Some (wrap64 (acc + root_bytes r)))"
proof (cases r)
  case (RootTree t)
  obtain acc' e where w: "walk_tree True acc t = (acc', e)" by fastforce
  assume "in_i64 acc"
  then show ?thesis using walk_complete(1) [of True acc t] w by (auto simp: RootTree WalkDir_def root_fails_def root_bytes_def)
qed (simp_all add: WalkDir_def root_fails_def root_bytes_def whenVanished_def wrap64_id)

definition paths_bytes :: "(string \<times> root_entry) list \<Rightarrow> int" where
  "paths_bytes paths = sum_list (map (\<lambda>(p, r). if p = '''' then 0 else root_bytes r) paths)"

lemma occupied_complete:
  "in_i64 acc \<Longrightarrow> occupied_from acc paths =
     (if \<exists>(p, r)\<in>set paths. p \<noteq> '''' \<and> root_fails r then UnknownValue else DiscoveredValue (wrap64 (acc + paths_bytes paths)))"
  by (induction acc paths rule: occupied_from.induct)
    (auto simp: paths_bytes_def WalkDir_complete wrap64_id wrap64_range wrap64_add_wrap add.assoc)

lemma OccupiedBytes_complete:
  "OccupiedBytes paths =
     (if \<exists>(p, r)\<in>set paths. p \<noteq> '''' \<and> root_fails r then UnknownValue else DiscoveredValue (wrap64 (paths_bytes paths)))"
  unfolding OccupiedBytes_def using occupied_complete [of 0 paths] by (simp add: in_i64_def i64_defs)

section \<open>Mount points that are written with an escape\<close>

text \<open>How the kernel writes a mount point into the table: a space, a tab, a line feed and a backslash as a
  backslash and three octal digits.\<close>

definition mangle_char :: "char \<Rightarrow> string" where
  "mangle_char c = (if c = CHR '' '' then CHR 0x5C # ''040'' else if c = CHR 0x09 then CHR 0x5C # ''011'' else if c = CHR 0x0A then CHR 0x5C # ''012''
     else if c = CHR 0x5C then CHR 0x5C # ''134'' else [c])"

definition mangle :: "string \<Rightarrow> string" where
  "mangle s = concat (map mangle_char s)"

lemma mangle_backslash: "\<exists>c\<in>set s. mangle_char c \<noteq> [c] \<Longrightarrow> CHR 0x5C \<in> set (mangle s)"
  by (force simp: mangle_def mangle_char_def split: if_splits)

lemma escaped_mount_missed:
  assumes "\<exists>c\<in>set mount. mangle_char c \<noteq> [c]" "CHR 0x5C \<notin> set p"
  shows "\<not> underMount p (mangle mount)"
proof
  assume u: "underMount p (mangle mount)"
  have b: "CHR 0x5C \<in> set (mangle mount)" using mangle_backslash [OF assms(1)] .
  then have "mangle mount \<noteq> ''/''" by auto
  then have "p = mangle mount \<or> HasPrefix p (mangle mount @ ''/'')" using u by (simp add: underMount_def)
  then have "set (mangle mount) \<subseteq> set p"
    unfolding HasPrefix_def by (metis Un_iff set_append set_take_subset subset_eq order_refl)
  then show False using b assms(2) by blast
qed

end
