(* ===== verification/Agent_Main.thy ===== *)
theory Agent_Main
  imports Pool_Storage Node_Agent Kubelet Agent_Health
begin

text \<open>
  What the agent decides as it starts (\<open>cmd/forebay-agent/main.go\<close>): how much of its node's disk it may
  lend, whether the file system under the pools may be lent at all, draining for an upgrade, and the
  pod input that is proved usable in the background. What it prints is not modelled.

  The lemmas: an agent that starts never promises more than the file system can deliver, where that
  could be measured (\<open>start_delivers\<close>); without an operator's word it only lends a device the kernel
  says is on PCIe (\<open>start_local\<close>); a drain that reports success has nothing left on loan
  (\<open>drainNode_honest\<close>), and one that fails without a fault fails for guaranteed leases only
  (\<open>drainNode_staging\<close>); the pod input has one attempt in flight at most and keeps what it built
  (\<open>pending_inv\<close>).
\<close>

section \<open>Flags\<close>

record main_flags =
  fBorrowed :: string
  fJournal :: string
  fCapacity :: int
  fReserved :: int
  fReclaim :: duration
  fTenant :: int
  fStaging :: int
  fSysroot :: string
  fMountinfo :: string
  fAutonomy :: bool

datatype run_error =
  NoHeartbeatDir | NotAlive health_error | NoDeadline | BadPaths | BadConfig agent_error
  | NotLocal string | LocalityUnknown | NotMeasured | NoReserve | BadAccounting pool_error
  | PromisesTooMuch int int | NotOpened agent_error

text \<open>\<open>--liveness\<close>: a heartbeat that cannot be read is not a verdict.\<close>

definition liveness_check :: "string \<Rightarrow> heartbeat_file \<Rightarrow> duration \<Rightarrow> time \<Rightarrow> run_error option" where
  "liveness_check borrowed f staleAfter now =
     (if borrowed = '''' then Some NoHeartbeatDir
      else case CheckLiveness f staleAfter now of
        None \<Rightarrow> None
      | Some ErrUnreadable \<Rightarrow> None
      | Some e \<Rightarrow> Some (NotAlive e))"

definition main_lease_config :: "main_flags \<Rightarrow> lease_config" where
  "main_lease_config fl = DefaultConfig\<lparr>ReclaimWithin := fReclaim fl, Autonomy := fAutonomy fl,
     Quota := \<lparr>qBorrowed = fTenant fl, qGuaranteed = fStaging fl\<rparr>\<rparr>"

definition main_config :: "machine \<Rightarrow> main_flags \<Rightarrow> agent_config" where
  "main_config m fl =
     \<lparr>BorrowedDir = (if fBorrowed fl = '''' then None else map_option clean_parts (filepath_Abs m (fBorrowed fl))),
      JournalDir = (if fJournal fl = '''' then None else map_option clean_parts (filepath_Abs m (filepath_Dir (fJournal fl)))),
      acLease = main_lease_config fl\<rparr>"

definition main_Validate :: "machine \<Rightarrow> main_flags \<Rightarrow> run_error option" where
  "main_Validate m fl =
     (if fBorrowed fl \<noteq> '''' \<and> fJournal fl \<noteq> '''' \<and> (filepath_Abs m (fBorrowed fl) = None \<or> filepath_Abs m (filepath_Dir (fJournal fl)) = None)
      then Some BadPaths
      else map_option BadConfig (agent_Validate (main_config m fl)))"

section \<open>How much to lend\<close>

definition deliverableBytes :: "PoolStorage \<Rightarrow> int Fact \<Rightarrow> int option" where
  "deliverableBytes ps occupied =
     (case Known (AvailableBytes ps) of
        None \<Rightarrow> None
      | Some available \<Rightarrow> map_option (\<lambda>ours. wrap64 (available + ours)) (Known occupied))"

text \<open>The capacity and the reserve, discovered when the operator gave no capacity.\<close>

definition discover_accounting :: "main_flags \<Rightarrow> PoolStorage \<Rightarrow> int option \<Rightarrow> run_error + accounting" where
  "discover_accounting fl ps deliverable =
     (case Known (psLocal ps) of
        Some False \<Rightarrow> Inl (NotLocal (psDevice ps))
      | None \<Rightarrow> Inl LocalityUnknown
      | Some True \<Rightarrow>
          (case Known (TotalBytes ps) of
             None \<Rightarrow> Inl NotMeasured
           | Some tot \<Rightarrow>
               if tot = 0 then Inl NotMeasured
               else let acc = \<lparr>Capacity = tot, Reserved = fReserved fl, Borrowed = 0\<rparr> in
                 case deliverable of
                   Some dv \<Rightarrow> let reserve = wrap64 (Capacity acc - dv) in
                     Inr (if Reserved acc < reserve then acc\<lparr>Reserved := reserve\<rparr> else acc)
                 | None \<Rightarrow> if 0 < Reserved acc then Inr acc else Inl NoReserve))"

definition plan_accounting :: "main_flags \<Rightarrow> PoolStorage \<Rightarrow> int option \<Rightarrow> run_error + accounting" where
  "plan_accounting fl ps deliverable =
     (case (if fCapacity fl = 0 then discover_accounting fl ps deliverable
            else Inr \<lparr>Capacity = fCapacity fl, Reserved = fReserved fl, Borrowed = 0\<rparr>) of
        Inl e \<Rightarrow> Inl e
      | Inr acc \<Rightarrow>
          (case acct_Validate acc of
             Some e \<Rightarrow> Inl (BadAccounting e)
           | None \<Rightarrow>
               let promised = wrap64 (Capacity acc - Reserved acc) in
               case deliverable of
                 Some dv \<Rightarrow> if dv < promised then Inl (PromisesTooMuch promised dv) else Inr acc
               | None \<Rightarrow> Inr acc))"

text \<open>\<open>run\<close> up to the agent it opens: \<open>pooled\<close> is what a walk of the pool meets.\<close>

definition start :: "machine \<Rightarrow> main_flags \<Rightarrow> root_entry \<Rightarrow> open_env \<Rightarrow> (string, int) gomap \<Rightarrow> file_journal \<Rightarrow> time
    \<Rightarrow> run_error + agent \<times> reconciliation" where
  "start m fl pooled env d j now =
     (if fReclaim fl \<le> 0 then Inl NoDeadline
      else case main_Validate m fl of
        Some e \<Rightarrow> Inl e
      | None \<Rightarrow>
          let ps = DescribePool m (fSysroot fl) (fMountinfo fl) (fBorrowed fl);
              dv = deliverableBytes ps (OccupiedBytes [(fBorrowed fl, pooled)]) in
          (case plan_accounting fl ps dv of
             Inl e \<Rightarrow> Inl e
           | Inr acc \<Rightarrow>
               (case Open env (main_config m fl) acc d j now of
                  Inl e \<Rightarrow> Inl (NotOpened e)
                | Inr r \<Rightarrow> Inr r)))"

section \<open>Draining\<close>

datatype drain_error = DrainStopped agent_error | DrainPartWay lease_error | StillStuck int int | StillStaging int

fun still_sums :: "lease list \<Rightarrow> int \<Rightarrow> int \<Rightarrow> int \<times> int" where
  "still_sums [] staging stuck = (staging, stuck)"
| "still_sums (l # ls) staging stuck =
     (if lClass l = Guaranteed then still_sums ls (wrap64 (staging + lSize l)) stuck
      else still_sums ls staging (wrap64 (stuck + lSize l)))"

definition stillHeld :: "lease list \<Rightarrow> drain_error option" where
  "stillHeld remaining =
     (case still_sums remaining 0 0 of
        (staging, stuck) \<Rightarrow>
          if 0 < stuck then Some (StillStuck stuck staging)
          else if 0 < staging then Some (StillStaging staging)
          else None)"

definition drainOutcome :: "reclamation \<Rightarrow> agent_error option \<Rightarrow> lease list \<Rightarrow> drain_error option" where
  "drainOutcome rec err remaining =
     (if err \<noteq> None \<and> err \<noteq> Some ErrDeadlineMissed then Some (DrainStopped (the err))
      else case Err (rcResult rec) of
        Some e \<Rightarrow> Some (DrainPartWay e)
      | None \<Rightarrow> stillHeld remaining)"

definition drainNode :: "discard_fault list \<Rightarrow> duration \<Rightarrow> agent \<Rightarrow> time \<Rightarrow> drain_error option \<times> agent" where
  "drainNode fls elapsed a now =
     (let before = Borrowed (acct (a_leases a)) in
      if before = 0 then (None, a)
      else case ReclaimCapacity fls elapsed a before now of
        (rec, err, a1) \<Rightarrow> (drainOutcome rec err (leasesLocked (a_leases a1)), a1))"

section \<open>The pod input\<close>

record kubelet_options =
  kRoot :: string
  kBorrowed :: string
  kPools :: PoolStorage

datatype pod_error = OtherFilesystem | NoToken | KubeletSilent | NoPoolSize | OtherSize int int | NoCapacity | StillChecking

text \<open>\<open>token\<close> and \<open>stats\<close> are what reading the token file and asking the kubelet for its node file
  system came to. A source is a pointer, known by the capacity it was built with; \<open>NewSource\<close> answers a
  nil pointer with its error, which as an interface is not nil.\<close>

datatype pod_src = Src int | NilSrc

definition NewSource :: "int \<Rightarrow> pod_src \<times> pod_error option" where
  "NewSource capacity = (if capacity \<le> 0 then (NilSrc, Some NoCapacity) else (Src capacity, None))"

definition NodeFS :: "int option \<Rightarrow> int option" where
  "NodeFS stats = (case stats of None \<Rightarrow> None | Some cap \<Rightarrow> if cap = 0 then None else Some cap)"

definition podSource :: "machine \<Rightarrow> kubelet_options \<Rightarrow> string option \<Rightarrow> int option \<Rightarrow> pod_src option \<times> pod_error option" where
  "podSource m opts token stats =
     (let same = SameFilesystem m (kRoot opts) (kBorrowed opts);
          built = (\<lambda>cap. case NewSource cap of (s, e) \<Rightarrow> (Some s, e)) in
      if same = Inr False then (None, Some OtherFilesystem)
      else if token = None then (None, Some NoToken)
      else case NodeFS stats of
        None \<Rightarrow> (None, Some KubeletSilent)
      | Some cap \<Rightarrow>
          (case same of
             Inr _ \<Rightarrow> built cap
           | Inl _ \<Rightarrow>
               (case Known (TotalBytes (kPools opts)) of
                  None \<Rightarrow> (None, Some NoPoolSize)
                | Some tot \<Rightarrow> if tot \<noteq> cap then (None, Some (OtherSize cap tot)) else built cap)))"

record pending =
  pBuilt :: "pod_src option"
  pLastErr :: "pod_error option"
  pBuilding :: bool

text \<open>\<open>Observe\<close> up to the call of the source, which it makes outside the lock: the source to ask, or why
  there is none. It starts an attempt when none runs.\<close>

definition pending_Observe :: "pending \<Rightarrow> (pod_error + pod_src) \<times> pending" where
  "pending_Observe p =
     (let p' = (if pBuilt p = None \<and> \<not> pBuilding p then p\<lparr>pBuilding := True\<rparr> else p) in
      (case pBuilt p of
         Some src \<Rightarrow> Inr src
       | None \<Rightarrow> (case pLastErr p of Some e \<Rightarrow> Inl e | None \<Rightarrow> Inl StillChecking), p'))"

definition attempt_done :: "pending \<Rightarrow> pod_src option \<times> pod_error option \<Rightarrow> pending" where
  "attempt_done p r = p\<lparr>pBuilt := fst r, pLastErr := snd r, pBuilding := False\<rparr>"

definition optionalSources :: "string \<Rightarrow> pod_src option \<times> pod_error option \<Rightarrow> pending option" where
  "optionalSources host first =
     (if host = '''' then None else Some (attempt_done \<lparr>pBuilt = None, pLastErr = None, pBuilding = False\<rparr> first))"

text \<open>Passes and attempts interleave: an attempt ends some time after a pass started it. \<open>running\<close> counts
  the attempts in flight.\<close>

inductive pending_step :: "pending \<times> nat \<Rightarrow> pending \<times> nat \<Rightarrow> bool" where
  observe: "pending_Observe p = (r, p') \<Longrightarrow>
     pending_step (p, running) (p', if pBuilding p' \<and> \<not> pBuilding p then Suc running else running)"
| finish: "pending_step (p, Suc running) (attempt_done p (podSource m opts token stats), running)"

inductive_cases pending_stepE: "pending_step s t"

section \<open>Tokens and routes\<close>

datatype token_error = TokenUnread | TokenEmpty

definition leaseToken :: "machine \<Rightarrow> string \<Rightarrow> token_error + string" where
  "leaseToken m p =
     (if p = '''' then Inr ''''
      else case m_file m p of
        None \<Rightarrow> Inl TokenUnread
      | Some body \<Rightarrow> let token = TrimSpace body in if token = '''' then Inl TokenEmpty else Inr token)"

text \<open>The paths \<open>serveMetrics\<close> answers, by whether there is a read path, a backend to stage into and a
  token.\<close>

definition routes :: "bool \<Rightarrow> bool \<Rightarrow> string \<Rightarrow> string list" where
  "routes serving stager token =
     [''/metrics'', ''/ready''] @ (if serving then [''/residency''] else [])
     @ (if token \<noteq> '''' then [''/leases'', ''/leases/'', ''/capacity'', ''/volumes'', ''/volumes/'']
          @ (if serving \<and> stager then [''/checkpoints''] else []) else [])"


section \<open>What an agent that starts has promised\<close>

lemma plan_accounting_ok:
  assumes plan: "plan_accounting fl ps deliverable = Inr acc"
    and rng: "in_i64 (fCapacity fl)" "in_i64 (fReserved fl)" "\<And>t. Known (TotalBytes ps) = Some t \<Longrightarrow> in_i64 t"
  shows "acct_ok acc" "Borrowed acc = 0" "deliverable = Some dv \<Longrightarrow> Capacity acc - Reserved acc \<le> dv"
    and "fCapacity fl = 0 \<Longrightarrow> Known (psLocal ps) = Some True" "fReserved fl \<le> Reserved acc"
proof -
  let ?from = "if fCapacity fl = 0 then discover_accounting fl ps deliverable
            else Inr \<lparr>Capacity = fCapacity fl, Reserved = fReserved fl, Borrowed = 0\<rparr>"
  have f: "?from = Inr acc" and v: "acct_Validate acc = None"
    and d: "\<And>dv. deliverable = Some dv \<Longrightarrow> wrap64 (Capacity acc - Reserved acc) \<le> dv"
    using plan by (auto simp: plan_accounting_def Let_def split: sum.splits option.splits if_splits)
  have "in_i64 (Capacity acc) \<and> in_i64 (Reserved acc) \<and> Borrowed acc = 0 \<and> fReserved fl \<le> Reserved acc"
    using f rng wrap64_range by (auto simp: discover_accounting_def Let_def split: option.splits bool.splits if_splits)
  then have i: "in_i64 (Capacity acc)" "in_i64 (Reserved acc)" "Borrowed acc = 0" "fReserved fl \<le> Reserved acc" by blast+
  have nn: "0 \<le> Capacity acc" "0 \<le> Reserved acc" "0 \<le> Free acc" using v by (auto simp: acct_Validate_def split: if_splits)
  have w: "wrap64 (Capacity acc - Reserved acc) = Capacity acc - Reserved acc"
    using nn(1,2) i(1,2) by (intro wrap64_id) (simp add: i64_defs)
  then have "Reserved acc \<le> Capacity acc" using nn(3) i(3) by (simp add: Free_def)
  then show "acct_ok acc" using nn i by (simp add: acct_ok_def i64_defs)
  show "Borrowed acc = 0" "fReserved fl \<le> Reserved acc" by (rule i(3)) (rule i(4))
  show "Capacity acc - Reserved acc \<le> dv" if "deliverable = Some dv" using d [OF that] w by simp
  show "Known (psLocal ps) = Some True" if "fCapacity fl = 0"
    using f that by (auto simp: discover_accounting_def split: option.splits bool.splits)
qed

text \<open>Discovery promises what the file system can deliver, or what an operator left of it.\<close>

lemma discover_exact:
  assumes "fCapacity fl = 0" "Known (TotalBytes ps) = Some t" "in_i64 t" "0 \<le> dv" "dv \<le> t"
    and "plan_accounting fl ps (Some dv) = Inr acc"
  shows "Capacity acc = t" "Capacity acc - Reserved acc = min dv (t - fReserved fl)"
proof -
  have "wrap64 (t - dv) = t - dv" using assms(3-5) by (intro wrap64_id) (simp add: i64_defs)
  then show "Capacity acc = t" "Capacity acc - Reserved acc = min dv (t - fReserved fl)"
    using assms by (auto simp: plan_accounting_def discover_accounting_def Let_def split: option.splits bool.splits if_splits)
qed

lemma Return_frame: "Return a n = (e, a') \<Longrightarrow> Capacity a' = Capacity a \<and> Reserved a' = Reserved a"
  by (auto simp: Return_def split: if_splits)

lemma Release_frame:
  assumes "Release J m i now = (n, e, m')"
  shows "Capacity (acct m') = Capacity (acct m) \<and> Reserved (acct m') = Reserved (acct m)"
  using assms by (auto simp: Release_def releaseLocked_def split: option.splits prod.splits dest!: persistLocked_frame Return_frame)

lemma drop_missing_frame:
  "drop_missing ir ids now m rec = (e, rec', m') \<Longrightarrow> Capacity (acct m') = Capacity (acct m) \<and> Reserved (acct m') = Reserved (acct m)"
proof (induction ids arbitrary: m rec)
  case (Cons i ids)
  obtain n e1 m1 where r: "Release file_ops m i now = (n, e1, m1)" by (metis prod_cases3)
  then show ?case using Cons.prems Release_frame [OF r] by (cases e1) (auto dest: Cons.IH)
qed simp

lemma Open_capacity:
  assumes acc: "acct_ok acc" "Borrowed acc = 0" and run: "Open env c acc d j now = Inr (a, rec)"
  shows "Capacity (acct (a_leases a)) = Capacity acc" "Reserved (acct (a_leases a)) = Reserved acc"
proof -
  obtain res jerr m where r: "Restore file_ops (New acc (acLease c) (Some j)) now = (res, jerr, m)" by (metis prod_cases3)
  have m: "Capacity (acct m) = Capacity acc" "Reserved (acct m) = Reserved acc"
    using fj.Restore_ok(3,4) [OF New_ok [OF acc] r] by (simp_all add: New_def)
  obtain d1 rec1 a1 where rc: "reconcile (oBad env) \<lparr>a_cfg = c, a_dir = d1, a_leases = m\<rparr> now = (None, rec1, a1)"
    and a: "a_leases a = a_leases a1"
    using run r by (auto simp: Open_def Let_def Heartbeat_def split: option.splits if_splits prod.splits)
  have "Capacity (acct (a_leases a1)) = Capacity (acct m) \<and> Reserved (acct (a_leases a1)) = Reserved (acct m)"
    using rc by (auto simp: reconcile_def Let_def split: prod.splits option.splits dest!: drop_missing_frame)
  then show "Capacity (acct (a_leases a)) = Capacity acc" "Reserved (acct (a_leases a)) = Reserved acc" using m a by simp_all
qed

lemma DescribePool_range: "Known (TotalBytes (DescribePool m rt mi p)) = Some t \<Longrightarrow> in_i64 t"
  by (auto simp: DescribePool_def Let_def wrap64_range split: option.splits if_splits)

definition main_pool :: "machine \<Rightarrow> main_flags \<Rightarrow> PoolStorage" where
  "main_pool m fl = DescribePool m (fSysroot fl) (fMountinfo fl) (fBorrowed fl)"

lemma start_cases:
  assumes "start m fl pooled env d j now = Inr (a, rec)"
  obtains acc where "plan_accounting fl (main_pool m fl) (deliverableBytes (main_pool m fl) (OccupiedBytes [(fBorrowed fl, pooled)])) = Inr acc"
    "Open env (main_config m fl) acc d j now = Inr (a, rec)" "0 < fReclaim fl" "main_Validate m fl = None"
  using assms by (auto simp: start_def main_pool_def Let_def split: if_splits option.splits sum.splits)

lemma start_delivers:
  assumes run: "start m fl pooled env d j now = Inr (a, rec)" and rng: "in_i64 (fCapacity fl)" "in_i64 (fReserved fl)"
    and dv: "deliverableBytes (main_pool m fl) (OccupiedBytes [(fBorrowed fl, pooled)]) = Some dv"
  shows "Borrowed (acct (a_leases a)) + Free (acct (a_leases a)) \<le> dv" "mgr_ok (a_leases a)"
proof -
  obtain acc where p: "plan_accounting fl (main_pool m fl) (Some dv) = Inr acc"
    and o: "Open env (main_config m fl) acc d j now = Inr (a, rec)" using start_cases [OF run] dv by metis
  have t: "in_i64 t" if "Known (TotalBytes (main_pool m fl)) = Some t" for t
    using that unfolding main_pool_def by (rule DescribePool_range)
  note ok = plan_accounting_ok [OF p rng t]
  show m: "mgr_ok (a_leases a)" by (rule Open_agrees(1) [OF ok(1,2) o])
  then have "acct_ok (acct (a_leases a))" by (simp add: mgr_ok_def)
  then show "Borrowed (acct (a_leases a)) + Free (acct (a_leases a)) \<le> dv"
    using ok(3) Open_capacity [OF ok(1,2) o] by (simp add: Free_ok)
qed

lemma start_local:
  assumes run: "start m fl pooled env d j now = Inr (a, rec)" and rng: "in_i64 (fReserved fl)" and cap: "fCapacity fl = 0"
  defines "dev \<equiv> deviceForPath m (fMountinfo fl) (fBorrowed fl)"
  shows "nvmeController dev \<noteq> ''''" "transport_of (m_sysfs m) (fSysroot fl) dev = ''pcie''"
proof -
  obtain acc dv where p: "plan_accounting fl (main_pool m fl) dv = Inr acc" using start_cases [OF run] by metis
  have "in_i64 (fCapacity fl)" using cap by (simp add: i64_defs)
  moreover have "in_i64 t" if "Known (TotalBytes (main_pool m fl)) = Some t" for t
    using that unfolding main_pool_def by (rule DescribePool_range)
  ultimately have "Known (psLocal (main_pool m fl)) = Some True" using plan_accounting_ok(4) [OF p _ rng] cap by blast
  then show "nvmeController dev \<noteq> ''''" "transport_of (m_sysfs m) (fSysroot fl) dev = ''pcie''"
    unfolding main_pool_def DescribePool_local dev_def by simp_all
qed


section \<open>What a drain leaves\<close>

lemma sizes_nonneg: "\<forall>l\<in>set ls. 0 \<le> lSize l \<Longrightarrow> 0 \<le> sizes ls"
  by (induction ls) auto

lemma sum_list_all_0: "\<forall>x\<in>set xs. f x = (0 :: int) \<Longrightarrow> sum_list (map f xs) = 0"
  by (induction xs) simp_all

lemma still_sums_exact:
  assumes "0 \<le> g" "0 \<le> s" "\<forall>l\<in>set ls. 0 \<le> lSize l" "g + s + sizes ls \<le> max_i64"
  shows "still_sums ls g s = (g + sizes (filter (\<lambda>l. lClass l = Guaranteed) ls), s + sizes (filter (\<lambda>l. lClass l \<noteq> Guaranteed) ls))"
  using assms
proof (induction ls arbitrary: g s)
  case (Cons l ls)
  have nn: "0 \<le> sizes ls" using Cons.prems(3) by (intro sizes_nonneg) simp
  then have "wrap64 (g + lSize l) = g + lSize l" "wrap64 (s + lSize l) = s + lSize l"
    using Cons.prems by (auto intro!: wrap64_id simp: i64_defs)
  then show ?case using Cons.IH [of "g + lSize l" s] Cons.IH [of g "s + lSize l"] Cons.prems by auto
qed simp

definition staged :: "agent \<Rightarrow> int" where
  "staged a = sizes (filter (\<lambda>l. lClass l = Guaranteed) (leasesLocked (a_leases a)))"

lemma stillHeld_exact:
  assumes ok: "mgr_ok m"
  defines "ls \<equiv> leasesLocked m"
  shows "stillHeld ls = (let g = sizes (filter (\<lambda>l. lClass l = Guaranteed) ls); s = sizes (filter (\<lambda>l. lClass l \<noteq> Guaranteed) ls) in
      if 0 < s then Some (StillStuck s g) else if 0 < g then Some (StillStaging g) else None)"
    and "sizes (filter (\<lambda>l. lClass l = Guaranteed) ls) + sizes (filter (\<lambda>l. lClass l \<noteq> Guaranteed) ls) = Borrowed (acct m)"
    and "0 \<le> sizes (filter P ls)"
proof -
  have nn: "\<forall>l\<in>set ls. 0 \<le> lSize l" using mgr_ok_held_size [OF ok] by (simp add: ls_def)
  have tot: "sizes ls = Borrowed (acct m)" unfolding ls_def by (rule sizes_leasesLocked [OF ok])
  then have "sizes ls \<le> max_i64" using ok by (simp add: mgr_ok_def acct_ok_def i64_defs)
  then show "stillHeld ls = (let g = sizes (filter (\<lambda>l. lClass l = Guaranteed) ls); s = sizes (filter (\<lambda>l. lClass l \<noteq> Guaranteed) ls) in
      if 0 < s then Some (StillStuck s g) else if 0 < g then Some (StillStaging g) else None)"
    using still_sums_exact [of 0 0 ls] nn by (simp add: stillHeld_def Let_def)
  show "sizes (filter (\<lambda>l. lClass l = Guaranteed) ls) + sizes (filter (\<lambda>l. lClass l \<noteq> Guaranteed) ls) = Borrowed (acct m)"
    unfolding tot [symmetric] by (induction ls) simp_all
  show "0 \<le> sizes (filter P ls)" using nn by (intro sizes_nonneg) simp
qed

lemma stillHeld_None: "mgr_ok m \<Longrightarrow> stillHeld (leasesLocked m) = None \<Longrightarrow> Borrowed (acct m) = 0"
proof -
  assume ok: "mgr_ok m" and n: "stillHeld (leasesLocked m) = None"
  let ?g = "sizes (filter (\<lambda>l. lClass l = Guaranteed) (leasesLocked m))" and ?s = "sizes (filter (\<lambda>l. lClass l \<noteq> Guaranteed) (leasesLocked m))"
  have "\<not> 0 < ?s" "\<not> 0 < ?g" using stillHeld_exact(1) [OF ok] n by (auto simp: Let_def split: if_splits)
  moreover have "0 \<le> ?s" "0 \<le> ?g" by (rule stillHeld_exact(3) [OF ok])+
  ultimately show "Borrowed (acct m) = 0" using stillHeld_exact(2) [OF ok] by linarith
qed

lemma drainNode_cases:
  assumes ok: "agent_ok a" and run: "drainNode fls t a now = (e, a')" and some: "Borrowed (acct (a_leases a)) \<noteq> 0"
  obtains rec err where "ReclaimCapacity fls t a (Borrowed (acct (a_leases a))) now = (rec, err, a')"
    "e = drainOutcome rec err (leasesLocked (a_leases a'))" "agent_ok a'"
    "0 < Borrowed (acct (a_leases a))" "in_i64 (Borrowed (acct (a_leases a)))"
proof -
  obtain rec err where r: "ReclaimCapacity fls t a (Borrowed (acct (a_leases a))) now = (rec, err, a')" "e = drainOutcome rec err (leasesLocked (a_leases a'))"
    using run some by (auto simp: drainNode_def Let_def split: prod.splits)
  have b: "in_i64 (Borrowed (acct (a_leases a)))" "0 < Borrowed (acct (a_leases a))"
    using ok some by (auto simp: agent_ok_def mgr_ok_def acct_ok_def)
  show thesis using that [OF r ReclaimCapacity_ok(1) [OF ok b(1) r(1)] b(2,1)] .
qed

lemma drainNode_honest:
  assumes ok: "agent_ok a" and run: "drainNode fls t a now = (None, a')"
  shows "Borrowed (acct (a_leases a')) = 0" "agent_ok a'"
proof -
  have "Borrowed (acct (a_leases a')) = 0 \<and> agent_ok a'"
  proof (cases "Borrowed (acct (a_leases a)) = 0")
    case True
    then show ?thesis using run ok by (simp add: drainNode_def)
  next
    case False
    obtain rec err where r: "drainOutcome rec err (leasesLocked (a_leases a')) = None" "agent_ok a'"
      by (rule drainNode_cases [OF ok run False]) metis
    then have "stillHeld (leasesLocked (a_leases a')) = None" by (auto simp: drainOutcome_def split: if_splits option.splits)
    then show ?thesis using r(2) stillHeld_None by (auto simp: agent_ok_def)
  qed
  then show "Borrowed (acct (a_leases a')) = 0" "agent_ok a'" by auto
qed

lemma ReclaimCapacity_Reclaim:
  assumes "ReclaimCapacity fls t a need now = (rec, err, a')"
  shows "Reclaim file_ops (a_leases a) need now = (rcResult rec, a_leases a')"
    and "err = (if rcFailed rec \<noteq> [] then Some ErrUnlinked else if rcOverran rec then Some ErrDeadlineMissed else None)"
  using assms by (auto simp: ReclaimCapacity_def Let_def split: prod.splits dest: discard_loop_cases)

text \<open>No drain takes staging that has not expired, whatever goes wrong.\<close>

lemma drainNode_keeps_staging:
  assumes ok: "agent_ok a" and run: "drainNode fls t a now = (e, a')"
    and l: "l \<in> held (a_leases a)" "lClass l = Guaranteed" "\<not> Expired l now"
  shows "l \<in> held (a_leases a')"
proof (cases "Borrowed (acct (a_leases a)) = 0")
  case True
  then show ?thesis using run l by (simp add: drainNode_def)
next
  case False
  obtain rec err where "ReclaimCapacity fls t a (Borrowed (acct (a_leases a))) now = (rec, err, a')"
    and b: "0 < Borrowed (acct (a_leases a))" "in_i64 (Borrowed (acct (a_leases a)))"
    by (rule drainNode_cases [OF ok run False])
  then show ?thesis
    using Reclaim_promise(4) [OF _ b ReclaimCapacity_Reclaim(1)] ok l by (auto simp: agent_ok_def)
qed

lemma drainNode_staging:
  assumes ok: "agent_ok a" and run: "drainNode [] t a now = (Some e, a')"
  shows "(\<exists>le. e = DrainPartWay le) \<or> e = StillStaging (staged a') \<and> 0 < staged a' \<and> Borrowed (acct (a_leases a')) = staged a'"
proof -
  have ne: "Borrowed (acct (a_leases a)) \<noteq> 0" using run by (auto simp: drainNode_def)
  obtain rec err where r: "ReclaimCapacity [] t a (Borrowed (acct (a_leases a))) now = (rec, err, a')"
    "Some e = drainOutcome rec err (leasesLocked (a_leases a'))" and ok': "agent_ok a'"
    and b: "0 < Borrowed (acct (a_leases a))" "in_i64 (Borrowed (acct (a_leases a)))"
    by (rule drainNode_cases [OF ok run ne])
  have m: "mgr_ok (a_leases a)" "mgr_ok (a_leases a')" using ok ok' by (simp_all add: agent_ok_def)
  note rc = ReclaimCapacity_Reclaim [OF r(1)]
  have "err = None \<or> err = Some ErrDeadlineMissed" using rc(2) ReclaimCapacity_ok(2) [OF ok b(2) r(1)] by auto
  then have o: "(\<exists>le. e = DrainPartWay le) \<or> stillHeld (leasesLocked (a_leases a')) = Some e"
    using r(2) by (auto simp: drainOutcome_def split: option.splits if_splits)
  note pr = Reclaim_promise [OF m(1) b rc(1)]
  have "\<forall>l\<in>set (filter (\<lambda>l. lClass l \<noteq> Guaranteed) (leasesLocked (a_leases a'))). lSize l = 0"
  proof (cases "0 < Shortfall (rcResult rec)")
    case True
    then show ?thesis using pr(3) by auto
  next
    case False
    then have "Borrowed (acct (a_leases a')) \<le> 0" using pr(1,2) by linarith
    then have "lSize l = 0" if "l \<in> held (a_leases a')" for l
      using mgr_ok_sizes(1) [OF m(2) that] mgr_ok_held_size [OF m(2) that] by linarith
    then show ?thesis by simp
  qed
  then have "sizes (filter (\<lambda>l. lClass l \<noteq> Guaranteed) (leasesLocked (a_leases a'))) = 0"
    by (intro sum_list_all_0) auto
  then show ?thesis using o stillHeld_exact(1,2) [OF m(2)] by (auto simp: Let_def staged_def split: if_splits)
qed


section \<open>The pod input, proved once\<close>

lemma podSource_answers: "podSource m opts token stats = (b, e) \<Longrightarrow> b = None \<longleftrightarrow> e \<noteq> None \<and> e \<noteq> Some NoCapacity"
  by (auto simp: podSource_def NewSource_def Let_def split: option.splits sum.splits if_splits)

text \<open>A source is built only over the file system the pools are on, or over one of the same size when the
  device could not be compared.\<close>

lemma podSource_same:
  assumes "podSource m opts token stats = (Some (Src cap), e)"
  shows "e = None" "0 < cap" "stats = Some cap" "token \<noteq> None"
    "SameFilesystem m (kRoot opts) (kBorrowed opts) = Inr True \<or>
     (\<exists>p. SameFilesystem m (kRoot opts) (kBorrowed opts) = Inl (NotReached p)) \<and> Known (TotalBytes (kPools opts)) = Some cap"
  using assms
  by (auto simp: podSource_def NewSource_def NodeFS_def Let_def split: option.splits sum.splits if_splits bool.splits reach_error.splits)
    (metis reach_error.exhaust)

text \<open>A nil source comes out of a kubelet that reports a negative size, beside its error, and is then asked.\<close>

lemma podSource_nil:
  assumes "SameFilesystem m (kRoot opts) (kBorrowed opts) = Inr True" "token \<noteq> None" "cap < 0"
  shows "fst (pending_Observe (attempt_done p (podSource m opts token (Some cap)))) = Inr NilSrc"
  using assms by (auto simp: podSource_def NewSource_def NodeFS_def pending_Observe_def attempt_done_def)

definition pending_ok :: "pending \<times> nat \<Rightarrow> bool" where
  "pending_ok s \<longleftrightarrow> snd s = (if pBuilding (fst s) then 1 else 0) \<and> (pBuilding (fst s) \<longrightarrow> pBuilt (fst s) = None)
     \<and> (pBuilt (fst s) = None \<longrightarrow> pLastErr (fst s) \<noteq> None)"

lemma pending_step_ok: "pending_step s t \<Longrightarrow> pending_ok s \<Longrightarrow> pending_ok t"
proof (induction rule: pending_step.induct)
  case (observe p r p' running)
  then show ?case by (auto simp: pending_ok_def pending_Observe_def Let_def split: if_splits)
next
  case (finish p running m opts token stats)
  obtain b e where "podSource m opts token stats = (b, e)" by fastforce
  then show ?case using finish podSource_answers by (auto simp: pending_ok_def attempt_done_def split: if_splits)
qed

text \<open>Whatever the order of passes and attempts: one attempt in flight at most, none once a source is
  there, and a reason whenever there is none.\<close>

lemma pending_inv:
  assumes "optionalSources host (podSource m opts token stats) = Some p" "pending_step\<^sup>*\<^sup>* (p, 0) s"
  shows "pending_ok s"
  using assms(2)
proof (induction rule: rtranclp_induct)
  case base
  obtain b e where "podSource m opts token stats = (b, e)" by fastforce
  then show ?case using assms(1) podSource_answers by (auto simp: pending_ok_def optionalSources_def attempt_done_def split: if_splits)
next
  case (step t u)
  then show ?case by (blast intro: pending_step_ok)
qed

lemma pending_keeps:
  assumes "pending_step\<^sup>*\<^sup>* s t" "pending_ok s" "pBuilt (fst s) = Some src"
  shows "pBuilt (fst t) = Some src \<and> snd t = 0"
proof -
  have "pBuilt (fst t) = Some src \<and> pending_ok t" using assms
  proof (induction rule: rtranclp_induct)
    case (step t u)
    then have "pBuilt (fst u) = Some src"
      by (auto elim!: pending_stepE simp: pending_ok_def pending_Observe_def Let_def split: if_splits)
    then show ?case using step pending_step_ok by blast
  qed simp
  then show ?thesis by (auto simp: pending_ok_def split: if_splits)
qed

text \<open>So a pass that finds no source says why, and never that the check is still running.\<close>

lemma pending_reason: "pending_ok (p, k) \<Longrightarrow> pending_Observe p = (Inl e, p') \<Longrightarrow> pLastErr p = Some e"
  by (auto simp: pending_ok_def pending_Observe_def Let_def split: option.splits)

section \<open>Routes\<close>

lemma leaseToken_empty: "leaseToken m p = Inr '''' \<longleftrightarrow> p = ''''"
  by (auto simp: leaseToken_def Let_def split: option.splits)

lemma routes_open: "set (routes serving stager '''') \<subseteq> {''/metrics'', ''/ready'', ''/residency''}"
  by (auto simp: routes_def)

end
