(* ===== verification/Agent_Serve.thy ===== *)
theory Agent_Serve
  imports Agent_Main S3_Driver File_Driver Data_Server
begin

text \<open>
  The read path of the agent as it starts (\<open>cmd/forebay-agent/serve.go\<close>, \<open>cmd/forebay-agent/backend.go\<close>)
  and the metrics of a node (\<open>internal/metrics/forebay.go\<close>, \<open>record\<close> of \<open>cmd/forebay-agent/main.go\<close>): the
  choice of a backend and the name its blocks are cached under, the lease the agent grants itself, the
  tier over it, and what each pass of the watch publishes.

  An endpoint is what parsing it as a URL gave. What reading an extent gives when the tier opens it is
  an argument.

  The lemmas: two backends share a name only if they are the same (\<open>scope_inj\<close>); a read path that
  starts holds its tier as an elastic lease of the asked size, backed by its extent
  (\<open>serveReads_tier\<close>), and has no block on any other lease: one restored from the journal is still
  held and gives the tier nothing (\<open>serveReads_restored\<close>); the counter of passes counts the passes
  (\<open>passes_counted\<close>).
\<close>

section \<open>The backend\<close>

record endpoint_url =
  uScheme :: string
  uHost :: string
  uUser :: bool

record backend_options =
  boDir :: string
  boEndpoint :: string
  boBucket :: string
  boRegion :: string

datatype backend_error =
  TwoBackends | NoBackend | NoFileDriver | HalfS3 | EndpointCredentials | NoEnvCredentials
  | BadS3 s3_config_error | NotOpenable driver_error

datatype chosen = ChoseDir "fstore backend" | ChoseS3 string int

text \<open>\<open>fstored\<close> is what the file driver makes of the directory, \<open>url\<close> what parsing gives, \<open>access\<close> and \<open>secret\<close>
  the environment. The driver over S3 is known by its region and its number of attempts.\<close>

definition openBackend :: "backend_options \<Rightarrow> fstore option \<Rightarrow> endpoint_url option \<Rightarrow> string \<Rightarrow> string \<Rightarrow> backend_error + chosen" where
  "openBackend b fstored url access secret =
     (let dir = (boDir b \<noteq> ''''); s3 = (boEndpoint b \<noteq> '''' \<or> boBucket b \<noteq> '''') in
      if dir \<and> s3 then Inl TwoBackends
      else if \<not> dir \<and> \<not> s3 then Inl NoBackend
      else if dir then
        (case fstored of
           None \<Rightarrow> Inl NoFileDriver
         | Some st \<Rightarrow> (case Driver_Backend.Open (Some file_driver) st of Inl e \<Rightarrow> Inl (NotOpenable e) | Inr be \<Rightarrow> Inr (ChoseDir be)))
      else if boEndpoint b = '''' \<or> boBucket b = '''' then Inl HalfS3
      else if (case url of Some u \<Rightarrow> uUser u | None \<Rightarrow> False) then Inl EndpointCredentials
      else if access = '''' \<or> secret = '''' then Inl NoEnvCredentials
      else (case s3_New \<lparr>cfEndpoint = map_option (\<lambda>u. (uScheme u, uHost u)) url, cfBucket = boBucket b, cfRegion = boRegion b,
                         cfAccessKey = access, cfSecretKey = secret, cfAttempts = 0\<rparr> of
              Inl e \<Rightarrow> Inl (BadS3 e)
            | Inr (region, attempts) \<Rightarrow> Inr (ChoseS3 region attempts)))"

definition endpointHost :: "string \<Rightarrow> endpoint_url option \<Rightarrow> string" where
  "endpointHost endpoint url = (case url of Some u \<Rightarrow> if uHost u \<noteq> '''' then uHost u else endpoint | None \<Rightarrow> endpoint)"

definition scope :: "machine \<Rightarrow> backend_options \<Rightarrow> endpoint_url option \<Rightarrow> string option" where
  "scope m b url =
     (if boDir b \<noteq> '''' then filepath_Abs m (boDir b)
      else Some (''s3://'' @ endpointHost (boEndpoint b) url @ ''/'' @ boBucket b))"

definition describe :: "backend_options \<Rightarrow> endpoint_url option \<Rightarrow> string" where
  "describe b url =
     (if boDir b \<noteq> '''' then ''directory '' @ boDir b
      else ''s3 '' @ endpointHost (boEndpoint b) url @ '' bucket '' @ boBucket b)"

section \<open>Serving\<close>

definition selfLease :: string where
  "selfLease = ''self-granted-tier''"

record serving_options =
  soTierBytes :: int
  soBlockBytes :: int
  soFirstReads :: int
  soMetrics :: metrics_registry
  soReady :: readiness
  soPrefetch :: "pf_config option"

definition prefetchConfig :: "bool \<Rightarrow> int \<Rightarrow> float64 \<Rightarrow> pf_config option" where
  "prefetchConfig on depth accuracy_floor = (if on then Some (pf_DefaultConfig\<lparr>Depth := depth, MinAccuracy := accuracy_floor\<rparr>) else None)"

datatype serve_error =
  NoTierBytes | BackendFails backend_error | TierFails tier_error | ReleaseFails agent_error
  | GrantFails agent_error | PathFails agent_error | NamingFails | ServerFails ds_error | ListenFails

definition tier_lease :: "int \<Rightarrow> time \<Rightarrow> lease" where
  "tier_lease n now = \<lparr>lID = selfLease, lTenant = NodeTenant, lClass = Elastic, lSize = n, lGrantedAt = now, lTerm = 365 * 24 * 60 * Minute\<rparr>"

definition first_run :: "agent_error option \<Rightarrow> bool" where
  "first_run e \<longleftrightarrow> e = None \<or> e = Some (ErrLease ErrNoSuchLease) \<or> e = Some ErrNoExtent"

text \<open>What the agent tells the read path about its leases: one that was granted, and those about to go.\<close>

definition on_granted :: "(string \<Rightarrow> byte list option) \<Rightarrow> cache \<Rightarrow> string \<Rightarrow> cache" where
  "on_granted extents tier i = (if i = selfLease then tier else snd (AddCapacity tier i (extents i)))"

fun on_releasing :: "cache \<Rightarrow> int \<Rightarrow> string list \<Rightarrow> cache \<times> int" where
  "on_releasing tier dropped [] = (tier, dropped)"
| "on_releasing tier dropped (i # is) =
     (case Revoke tier i of (n, tier') \<Rightarrow> on_releasing tier' (wrap64 (dropped + int n)) is)"

definition cacheGivenUp :: "int \<Rightarrow> int \<Rightarrow> int option \<times> int" where
  "cacheGivenUp now before = (if now = before then (None, before) else (Some (wrap64 (now - before)), now))"

definition serveReads :: "discard_fault \<Rightarrow> alloc_fault \<Rightarrow> (string \<Rightarrow> byte list option) \<Rightarrow> backend_error + 'w backend \<Rightarrow> string option
    \<Rightarrow> surroundings \<Rightarrow> bool \<Rightarrow> serving_options \<Rightarrow> agent \<Rightarrow> time \<Rightarrow> (serve_error + 'w server) \<times> agent" where
  "serveReads rf gf extents opened name env listens opts a now =
     (if soTierBytes opts \<le> 0 then (Inl NoTierBytes, a)
      else case opened of
        Inl e \<Rightarrow> (Inl (BackendFails e), a)
      | Inr backend \<Rightarrow>
          (case NewCache \<lparr>BlockSize = soBlockBytes opts, FirstReadLimit = soFirstReads opts\<rparr> of
             Inl e \<Rightarrow> (Inl (TierFails e), a)
           | Inr tier \<Rightarrow>
               (case agent_Release rf a selfLease now of
                  (_, e, a1) \<Rightarrow>
                    if \<not> first_run e then (Inl (ReleaseFails (the e)), a1)
                    else case Grant gf a1 (tier_lease (soTierBytes opts) now) now of
                      (Some e, a2) \<Rightarrow> (Inl (GrantFails e), a2)
                    | (None, a2) \<Rightarrow>
                        (case ExtentPath selfLease of
                           Inl e \<Rightarrow> (Inl (PathFails e), a2)
                         | Inr path \<Rightarrow>
                             (case AddCapacity tier selfLease (extents path) of
                                (Some e, _) \<Rightarrow> (Inl (TierFails e), a2)
                              | (None, tier1) \<Rightarrow>
                                  (case name of
                                     None \<Rightarrow> (Inl NamingFails, a2)
                                   | Some nm \<Rightarrow>
                                       (case New_server (Some tier1) (Some backend)
                                          \<lparr>cBackend = nm, cIdle = 0, cExchange = 0, cMetrics = Some (soMetrics opts),
                                           cReady = Some (soReady opts), cPrefetch = soPrefetch opts, cMaxRead = 0\<rparr> env of
                                          Inl e \<Rightarrow> (Inl (ServerFails e), a2)
                                        | Inr srv \<Rightarrow> if listens then (Inr srv, a2) else (Inl ListenFails, a2))))))))"

definition tier_resident_bytes :: "cache \<Rightarrow> int" where
  "tier_resident_bytes c = (case Stats c of (_, _, blocks) \<Rightarrow> wrap64 (int blocks * BlockSize (c_cfg c)))"

section \<open>The metrics of a node\<close>

definition readBuckets :: "float64 list" where
  "readBuckets = map rnd64 [1/10000, 25/100000, 5/10000, 1/1000, 25/10000, 5/1000, 1/100, 25/1000, 5/100, 1/10, 1/4, 1/2, 1, 5/2, 5]"

definition reclaimBuckets :: "float64 list" where
  "reclaimBuckets = map rnd64 [1/1000, 5/1000, 1/100, 5/100, 1/10, 1/4, 1/2, 1, 5, 30]"

text \<open>The names with their kinds, in the order they are registered, with the buckets of a histogram.\<close>

definition node_metrics :: "(string \<times> Kind \<times> float64 list) list" where
  "node_metrics =
     [(''forebay_read_seconds'', Histogram, readBuckets), (''forebay_read_bytes_total'', Counter, []),
      (''forebay_reads_in_flight'', Gauge, []), (''forebay_tier_hits_total'', Counter, []), (''forebay_tier_bytes'', Gauge, []),
      (''forebay_lease_bytes'', Gauge, []), (''forebay_reclaim_seconds'', Histogram, reclaimBuckets),
      (''forebay_reclaim_shortfall_bytes'', Counter, []), (''forebay_headroom_bytes'', Gauge, []),
      (''forebay_watch_passes_total'', Counter, []), (''forebay_pool_reserve_bytes'', Gauge, []),
      (''forebay_topology_degraded_total'', Counter, []), (''forebay_prefetch_blocks_total'', Counter, []),
      (''forebay_tier_saved_seconds'', Gauge, []), (''forebay_tier_saving_covered_ratio'', Gauge, [])]"

text \<open>The help texts are a function of the name.\<close>

fun register_all :: "(string \<Rightarrow> string) \<Rightarrow> (string \<times> Kind \<times> float64 list) list \<Rightarrow> metrics_registry \<Rightarrow> metrics_error option \<times> metrics_registry" where
  "register_all help [] r = (None, r)"
| "register_all help ((n, k, bs) # ms) r =
     (case mRegister r n k (help n) bs of (Some e, r') \<Rightarrow> (Some e, r') | (None, r') \<Rightarrow> register_all help ms r')"

definition Node_metrics :: "(string \<Rightarrow> string) \<Rightarrow> metrics_registry \<Rightarrow> metrics_error option \<times> metrics_registry" where
  "Node_metrics help r = register_all help node_metrics r"

definition record_pass :: "metrics_registry \<Rightarrow> tick \<Rightarrow> metrics_registry" where
  "record_pass r t =
     (let r1 = snd (mAdd r ''forebay_watch_passes_total'' [] 1);
          r2 = snd (mSet r1 ''forebay_headroom_bytes'' [] (f64_of_int (tTarget t)));
          r3 = (if 0 < tReclaimed t
                then snd (mObserve r2 ''forebay_reclaim_seconds'' [(''class'', if tBounded t then ''elastic'' else ''opportunistic'')]
                            (Seconds (tElapsed t)))
                else r2) in
      if 0 < tShortfall t then snd (mAdd r3 ''forebay_reclaim_shortfall_bytes'' [] (f64_of_int (tShortfall t))) else r3)"

definition recordTier :: "metrics_registry \<Rightarrow> (int \<times> duration \<times> float64) option \<Rightarrow> metrics_registry" where
  "recordTier r sv =
     (case sv of
        None \<Rightarrow> r
      | Some (resident, saved, cover) \<Rightarrow>
          let r1 = snd (mSet r ''forebay_tier_bytes'' [] (f64_of_int resident));
              r2 = snd (mSet r1 ''forebay_tier_saved_seconds'' [] (Seconds saved)) in
          snd (mSet r2 ''forebay_tier_saving_covered_ratio'' [] cover))"

section \<open>Names of backends\<close>

text \<open>A host has no slash, and neither a host nor a bucket is empty in a backend that was opened.\<close>

definition scope_ok :: "backend_options \<Rightarrow> endpoint_url option \<Rightarrow> bool" where
  "scope_ok b url \<longleftrightarrow> boDir b \<noteq> '''' \<or> (\<exists>u. url = Some u \<and> uHost u \<noteq> '''' \<and> CHR ''/'' \<notin> set (uHost u))"

lemma openBackend_scope_ok:
  assumes "openBackend b st url access secret = Inr c" "\<And>u. url = Some u \<Longrightarrow> CHR ''/'' \<notin> set (uHost u)"
  shows "scope_ok b url"
  using assms by (auto simp: openBackend_def scope_ok_def s3_New_def Let_def split: if_splits option.splits sum.splits prod.splits)

lemma first_slash:
  assumes "CHR ''/'' \<notin> set a" "CHR ''/'' \<notin> set c" "a @ CHR ''/'' # b = c @ CHR ''/'' # d"
  shows "a = c \<and> b = d"
  using assms by (metis Cut_append prod.inject)

definition backend_identity :: "machine \<Rightarrow> backend_options \<Rightarrow> endpoint_url option \<Rightarrow> (string option) + (string \<times> string)" where
  "backend_identity m b url =
     (if boDir b \<noteq> '''' then Inl (filepath_Abs m (boDir b)) else Inr (endpointHost (boEndpoint b) url, boBucket b))"

lemma path_Clean_hd: "HasPrefix p ''/'' \<Longrightarrow> \<exists>s. path_Clean p = CHR ''/'' # s"
  by (simp add: path_Clean_def render_def)

lemma Abs_rooted:
  assumes "filepath_Abs m p = Some q" "\<And>wd. m_cwd m = Some wd \<Longrightarrow> HasPrefix wd ''/''"
  shows "\<exists>s. q = CHR ''/'' # s"
proof (cases "HasPrefix p ''/''")
  case True
  then show ?thesis using assms(1) path_Clean_hd by (auto simp: filepath_Abs_def)
next
  case False
  then obtain wd where wd: "m_cwd m = Some wd" "q = path_Join [wd, p]" using assms(1) by (auto simp: filepath_Abs_def)
  have "HasPrefix (Join (filter (\<lambda>e. e \<noteq> []) [wd, p]) ''/'') ''/''" "wd \<noteq> []"
    using assms(2) [OF wd(1)] by (auto simp: HasPrefix_slash)
  then show ?thesis using path_Clean_hd by (simp add: wd(2) path_Join_def)
qed

lemma scope_inj:
  assumes ok: "scope_ok b url" "scope_ok b' url'" and cwd: "\<And>wd. m_cwd m = Some wd \<Longrightarrow> HasPrefix wd ''/''"
    and same: "scope m b url = Some n" "scope m b' url' = Some n"
  shows "backend_identity m b url = backend_identity m b' url'"
proof -
  have no: "\<not> (\<exists>s. ''s3://'' @ r = CHR ''/'' # s)" for r by simp
  have h: "CHR ''/'' \<notin> set (endpointHost (boEndpoint c) u)" if "scope_ok c u" "boDir c = ''''" for c u
    using that by (auto simp: scope_ok_def endpointHost_def)
  show ?thesis
  proof (cases "boDir b = ''''"; cases "boDir b' = ''''")
    assume d: "boDir b = ''''" "boDir b' = ''''"
    then have "endpointHost (boEndpoint b) url @ CHR ''/'' # boBucket b = endpointHost (boEndpoint b') url' @ CHR ''/'' # boBucket b'"
      using trans [OF same(1) same(2) [symmetric]] by (simp add: scope_def)
    from first_slash [OF h [OF ok(1) d(1)] h [OF ok(2) d(2)] this] show ?thesis using d by (simp add: backend_identity_def)
  next
    assume d: "boDir b = ''''" "boDir b' \<noteq> ''''"
    then have "filepath_Abs m (boDir b') = Some n" using same(2) by (simp add: scope_def)
    from Abs_rooted [OF this cwd] show ?thesis using same(1) d no by (auto simp: scope_def)
  next
    assume d: "boDir b \<noteq> ''''" "boDir b' = ''''"
    then have "filepath_Abs m (boDir b) = Some n" using same(1) by (simp add: scope_def)
    from Abs_rooted [OF this cwd] show ?thesis using same(2) d no by (auto simp: scope_def)
  qed (use same in \<open>simp add: scope_def backend_identity_def\<close>)
qed

section \<open>The tier of a read path that starts\<close>

lemma AddCapacity_new:
  assumes "AddCapacity c i f = (None, c')"
  obtains s where "openSlab i f (BlockSize (c_cfg c)) = Inr s" "c_heap c' = c_heap c @ [s]"
    "c_slabs c' = AList.update i (length (c_heap c)) (c_slabs c)"
  using assms by (auto simp: AddCapacity_def split: sum.splits if_splits)

lemma selfLease_valid: "validLeaseID selfLease = None"
  by code_simp

lemma serveReads_cases:
  assumes "serveReads rf gf extents opened name env listens opts a now = (Inr srv, a')"
  obtains n e a1 tier backend nm where "agent_Release rf a selfLease now = (n, e, a1)" "first_run e"
    "Grant gf a1 (tier_lease (soTierBytes opts) now) now = (None, a')" "0 < soTierBytes opts"
    "NewCache \<lparr>BlockSize = soBlockBytes opts, FirstReadLimit = soFirstReads opts\<rparr> = Inr tier"
    "AddCapacity tier selfLease (extents selfLease) = (None, sv_tier srv)" "name = Some nm" "sv_name srv = nm"
  using assms selfLease_valid
  by (auto simp: serveReads_def ExtentPath_def New_server_def Let_def split: if_splits sum.splits prod.splits option.splits)

text \<open>The lease is elastic and of the size asked for, its extent is on disk with that size, and the tier
  has the blocks that fit it.\<close>

lemma serveReads_tier:
  assumes run: "serveReads rf gf extents opened name env listens opts a now = (Inr srv, a')"
    and ok: "agent_ok a" "rf \<noteq> RemoveFails" "in_i64 (soTierBytes opts)"
    and ext: "extents selfLease = Some bytes" "int (length bytes) = soTierBytes opts"
  shows "agent_ok a'" "tier_lease (soTierBytes opts) now \<in> held (a_leases a')"
    "map_of (a_dir a') selfLease = Some (soTierBytes opts)"
    "map_of (c_slabs (sv_tier srv)) selfLease = Some 0" "s_slots (c_heap (sv_tier srv) ! 0) = nat (soTierBytes opts div soBlockBytes opts)"
proof -
  obtain n e a1 tier nm where r: "agent_Release rf a selfLease now = (n, e, a1)" "first_run e"
    and g: "Grant gf a1 (tier_lease (soTierBytes opts) now) now = (None, a')" and p: "0 < soTierBytes opts"
    and t: "NewCache \<lparr>BlockSize = soBlockBytes opts, FirstReadLimit = soFirstReads opts\<rparr> = Inr tier"
    and c: "AddCapacity tier selfLease (extents selfLease) = (None, sv_tier srv)" by (rule serveReads_cases [OF run])
  have a1: "agent_ok a1" by (rule agent_Release_ok [OF ok(1,2) r(1)])
  have sz: "in_i64 (lSize (tier_lease (soTierBytes opts) now))" using ok(3) by (simp add: tier_lease_def)
  note gc = Grant_cases [OF a1 sz g]
  show "agent_ok a'" by (rule gc(1))
  show "tier_lease (soTierBytes opts) now \<in> held (a_leases a')" using gc(2) by (simp add: tier_lease_def)
  show "map_of (a_dir a') selfLease = Some (soTierBytes opts)" using gc(2) by (simp add: tier_lease_def map_of_update_if)
  have tier: "c_heap tier = []" "c_slabs tier = []" "BlockSize (c_cfg tier) = soBlockBytes opts"
    using t by (auto simp: NewCache_def split: if_splits)
  obtain s where s: "openSlab selfLease (extents selfLease) (BlockSize (c_cfg tier)) = Inr s" "c_heap (sv_tier srv) = c_heap tier @ [s]"
    "c_slabs (sv_tier srv) = AList.update selfLease (length (c_heap tier)) (c_slabs tier)" by (rule AddCapacity_new [OF c])
  then show "map_of (c_slabs (sv_tier srv)) selfLease = Some 0" using tier by simp
  show "s_slots (c_heap (sv_tier srv) ! 0) = nat (soTierBytes opts div soBlockBytes opts)"
    using s(1,2) tier ext by (auto simp: openSlab_def Let_def split: if_splits)
qed

text \<open>A lease the node had before, which a restart restored, is still held and gives the tier no block.\<close>

lemma serveReads_restored:
  assumes run: "serveReads rf gf extents opened name env listens opts a now = (Inr srv, a')"
    and ok: "agent_ok a" "rf \<noteq> RemoveFails" "in_i64 (soTierBytes opts)"
    and l: "l \<in> held (a_leases a)" "lID l \<noteq> selfLease"
  shows "l \<in> held (a_leases a')" "map fst (c_slabs (sv_tier srv)) = [selfLease]"
proof -
  obtain n e a1 tier nm where r: "agent_Release rf a selfLease now = (n, e, a1)" "first_run e"
    and g: "Grant gf a1 (tier_lease (soTierBytes opts) now) now = (None, a')" and p: "0 < soTierBytes opts"
    and t: "NewCache \<lparr>BlockSize = soBlockBytes opts, FirstReadLimit = soFirstReads opts\<rparr> = Inr tier"
    and c: "AddCapacity tier selfLease (extents selfLease) = (None, sv_tier srv)" by (rule serveReads_cases [OF run])
  have a1: "agent_ok a1" by (rule agent_Release_ok [OF ok(1,2) r(1)])
  have "l \<in> held (a_leases a1)"
  proof -
    obtain e1 a2 where d: "discard rf a selfLease = (e1, a2)" by fastforce
    have lm: "a_leases a2 = a_leases a" using discard_cases [OF d] by simp
    show ?thesis
    proof (cases e1)
      case (Some x)
      then show ?thesis using r(1) d lm l(1) by (simp add: agent_Release_def)
    next
      case None
      obtain n1 e2 m where rl: "Release file_ops (a_leases a) selfLease now = (n1, e2, m)" by (metis prod_cases3)
      then have "a_leases a1 = m" using r(1) d None lm by (auto simp: agent_Release_def)
      moreover have "mgr_ok (a_leases a)" using ok(1) by (simp add: agent_ok_def)
      ultimately show ?thesis using Release_ok(5) [OF _ rl] l by auto
    qed
  qed
  moreover have "in_i64 (lSize (tier_lease (soTierBytes opts) now))" using ok(3) by (simp add: tier_lease_def)
  ultimately show "l \<in> held (a_leases a')" using Grant_cases(2) [OF a1 _ g] by blast
  have "c_slabs tier = []" using t by (auto simp: NewCache_def split: if_splits)
  then show "map fst (c_slabs (sv_tier srv)) = [selfLease]"
    by (rule_tac AddCapacity_new [OF c]) simp
qed

section \<open>Counting passes\<close>

lemma rnd64_near:
  assumes "1 / 10000 \<le> x"
  shows "\<bar>rnd64 x - x\<bar> \<le> x / 8"
proof -
  have x: "x \<noteq> 0" "0 < x" using assms by auto
  have "pow2 (rexp x - 52) = pow2 (rexp x) * pow2 (- 52)" by (simp only: diff_conv_add_uminus pow2_add)
  also have "\<dots> \<le> x * (1 / 4)"
  proof (intro mult_mono)
    have "pow2 (- 52) \<le> pow2 (- 2)" by (intro power_int_increasing) simp_all
    also have "pow2 (- 2) = 1 / 4" by (simp add: power_int_def power2_eq_square)
    finally show "pow2 (- 52) \<le> 1 / 4" .
  qed (use rexp_bounds(1) [OF x(1)] x(2) in simp_all)
  finally have a: "pow2 (rexp x - 52) \<le> x / 4" by simp
  have "pow2 (- 1074) \<le> pow2 (- 20)" by (intro power_int_increasing) simp_all
  also have "pow2 (- 20) = 1 / 1048576" by (simp add: power_int_def numeral_eq_Suc)
  also have "\<dots> \<le> x / 4" using assms by simp
  finally have "pow2 (max (rexp x - 52) (- 1074)) \<le> x / 4" using a by (simp add: max_def)
  then show ?thesis using rnd64_error [OF x(1)] by linarith
qed

lemma rnd64_apart:
  assumes "1 / 10000 \<le> x" "2 * x \<le> y"
  shows "rnd64 x \<le> rnd64 y"
proof -
  have "1 / 10000 \<le> y" using assms by linarith
  then show ?thesis using rnd64_near [OF assms(1)] rnd64_near [of y] assms unfolding abs_le_iff by linarith
qed

lemma sorted_apart: "sorted_wrt (\<lambda>x y. 1 / 10000 \<le> x \<and> 2 * x \<le> y) xs \<Longrightarrow> sorted (map rnd64 xs)"
  by (induction xs) (auto simp: rnd64_apart)

lemma buckets_sorted: "sorted readBuckets" "sorted reclaimBuckets"
  unfolding readBuckets_def reclaimBuckets_def by (rule sorted_apart, simp)+

lemma register_all_fresh:
  assumes "distinct (map fst ms)" "\<forall>(n, k, bs)\<in>set ms. n \<noteq> [] \<and> (k = Histogram \<longrightarrow> bs \<noteq> []) \<and> sorted bs \<and> map_of (r_metrics r) n = None"
  shows "\<exists>r'. register_all help ms r = (None, r') \<and>
    (\<forall>n. map_of (r_metrics r') n = (case map_of ms n of
        Some (k, bs) \<Rightarrow> Some \<lparr>m_kind = k, m_help = help n, m_buckets = bs, m_series = [], m_order = []\<rparr>
      | None \<Rightarrow> map_of (r_metrics r) n))"
  using assms
proof (induction ms arbitrary: r)
  case (Cons m ms)
  obtain n k bs where m: "m = (n, k, bs)" by (cases m)
  let ?e = "\<lparr>m_kind = k, m_help = help n, m_buckets = bs, m_series = [], m_order = []\<rparr>"
  let ?r = "\<lparr>r_metrics = AList.update n ?e (r_metrics r), r_order = r_order r @ [n]\<rparr>"
  have reg: "mRegister r n k (help n) bs = (None, ?r)" using Cons.prems(2) m by (auto simp: mRegister_def)
  have "\<forall>(n, k, bs)\<in>set ms. n \<noteq> [] \<and> (k = Histogram \<longrightarrow> bs \<noteq> []) \<and> sorted bs \<and> map_of (r_metrics ?r) n = None"
    using Cons.prems m by (force simp: map_of_update_if)
  then obtain r' where r': "register_all help ms ?r = (None, r')" "\<forall>x. map_of (r_metrics r') x = (case map_of ms x of
        Some (k, bs) \<Rightarrow> Some \<lparr>m_kind = k, m_help = help x, m_buckets = bs, m_series = [], m_order = []\<rparr>
      | None \<Rightarrow> map_of (r_metrics ?r) x)" using Cons.IH [of ?r] Cons.prems(1) by auto
  have "map_of ms n = None" using Cons.prems(1) m by (simp add: map_of_eq_None_iff)
  then show ?case using r' reg m by (auto simp: map_of_update_if split: option.splits)
qed simp

lemma node_names: "distinct (map fst node_metrics)"
  by (simp add: node_metrics_def)

lemma Node_registers:
  obtains r where "Node_metrics help New_metrics = (None, r)"
    "\<And>n k bs. (n, k, bs) \<in> set node_metrics \<Longrightarrow> map_of (r_metrics r) n = Some \<lparr>m_kind = k, m_help = help n, m_buckets = bs, m_series = [], m_order = []\<rparr>"
proof -
  have fresh: "\<forall>(n, k, bs)\<in>set node_metrics. n \<noteq> [] \<and> (k = Histogram \<longrightarrow> bs \<noteq> []) \<and> sorted bs \<and> map_of (r_metrics New_metrics) n = None"
    using buckets_sorted by (simp add: node_metrics_def New_metrics_def) (simp add: readBuckets_def reclaimBuckets_def)
  obtain r where r: "register_all help node_metrics New_metrics = (None, r)"
    "\<forall>n. map_of (r_metrics r) n = (case map_of node_metrics n of
        Some (k, bs) \<Rightarrow> Some \<lparr>m_kind = k, m_help = help n, m_buckets = bs, m_series = [], m_order = []\<rparr>
      | None \<Rightarrow> map_of (r_metrics New_metrics) n)"
    using register_all_fresh [OF node_names fresh, of "help"] by blast
  show thesis
  proof (rule that)
    show "Node_metrics help New_metrics = (None, r)" using r(1) by (simp add: Node_metrics_def)
    show "map_of (r_metrics r) n = Some \<lparr>m_kind = k, m_help = help n, m_buckets = bs, m_series = [], m_order = []\<rparr>"
      if "(n, k, bs) \<in> set node_metrics" for n k bs
      using r(2) map_of_is_SomeI [OF node_names that] by simp
  qed
qed

text \<open>The value of a series without labels.\<close>

definition plain_value :: "metrics_registry \<Rightarrow> string \<Rightarrow> float64" where
  "plain_value r name = (case map_of (r_metrics r) name of
     None \<Rightarrow> 0 | Some m \<Rightarrow> (case map_of (m_series m) '''' of None \<Rightarrow> 0 | Some s \<Rightarrow> s_value s))"

definition kind_of :: "metrics_registry \<Rightarrow> string \<Rightarrow> Kind option" where
  "kind_of r name = map_option m_kind (map_of (r_metrics r) name)"

lemma metrics_frame:
  assumes "n \<noteq> name"
  shows "map_of (r_metrics (snd (mAdd r name ls v))) n = map_of (r_metrics r) n"
    "map_of (r_metrics (snd (mSet r name ls v))) n = map_of (r_metrics r) n"
    "map_of (r_metrics (snd (mObserve r name ls v))) n = map_of (r_metrics r) n"
  using assms
  by (auto simp: mAdd_def mSet_def mObserve_def put_series_def map_of_update_if split: sum.splits prod.splits)

lemma mAdd_counts:
  assumes "kind_of r name = Some Counter" "0 \<le> v"
  shows "kind_of (snd (mAdd r name [] v)) name = Some Counter"
    "plain_value (snd (mAdd r name [] v)) name = f64_add (plain_value r name) v"
  using assms
  by (auto simp: kind_of_def plain_value_def mAdd_def at_series_def series_key_def put_series_def new_series_def map_of_update_if Let_def
    split: option.splits)

lemma record_pass_counts:
  assumes "kind_of r ''forebay_watch_passes_total'' = Some Counter"
  shows "kind_of (record_pass r t) ''forebay_watch_passes_total'' = Some Counter"
    "plain_value (record_pass r t) ''forebay_watch_passes_total'' = f64_add (plain_value r ''forebay_watch_passes_total'') 1"
proof -
  let ?r1 = "snd (mAdd r ''forebay_watch_passes_total'' [] 1)"
  have "map_of (r_metrics (record_pass r t)) ''forebay_watch_passes_total'' = map_of (r_metrics ?r1) ''forebay_watch_passes_total''"
    by (simp add: record_pass_def Let_def metrics_frame)
  then have "kind_of (record_pass r t) ''forebay_watch_passes_total'' = kind_of ?r1 ''forebay_watch_passes_total''"
    "plain_value (record_pass r t) ''forebay_watch_passes_total'' = plain_value ?r1 ''forebay_watch_passes_total''"
    by (simp_all add: kind_of_def plain_value_def)
  then show "kind_of (record_pass r t) ''forebay_watch_passes_total'' = Some Counter"
    "plain_value (record_pass r t) ''forebay_watch_passes_total'' = f64_add (plain_value r ''forebay_watch_passes_total'') 1"
    using mAdd_counts [OF assms, of 1] by simp_all
qed

lemma passes_counted:
  assumes "Node_metrics help New_metrics = (e, r)" "length ts < 2 ^ 53"
  shows "e = None" "plain_value (foldl record_pass r ts) ''forebay_watch_passes_total'' = of_nat (length ts)"
proof -
  obtain r0 where r0: "Node_metrics help New_metrics = (None, r0)"
    "\<And>n k bs. (n, k, bs) \<in> set node_metrics \<Longrightarrow> map_of (r_metrics r0) n = Some \<lparr>m_kind = k, m_help = help n, m_buckets = bs, m_series = [], m_order = []\<rparr>"
    by (rule Node_registers [of "help"]) auto
  then show "e = None" using assms(1) by simp
  have r: "r = r0" using r0(1) assms(1) by simp
  have "(''forebay_watch_passes_total'', Counter, []) \<in> set node_metrics" by (simp add: node_metrics_def)
  from r0(2) [OF this] have m: "kind_of r ''forebay_watch_passes_total'' = Some Counter" "plain_value r ''forebay_watch_passes_total'' = 0"
    by (simp_all add: r kind_of_def plain_value_def)
  have "kind_of (foldl record_pass r ts) ''forebay_watch_passes_total'' = Some Counter
      \<and> plain_value (foldl record_pass r ts) ''forebay_watch_passes_total'' = of_nat (length ts)" using assms(2)
  proof (induction ts rule: rev_induct)
    case (snoc t ts)
    then have ih: "kind_of (foldl record_pass r ts) ''forebay_watch_passes_total'' = Some Counter"
      "plain_value (foldl record_pass r ts) ''forebay_watch_passes_total'' = of_nat (length ts)" by auto
    have "\<bar>int (Suc (length ts))\<bar> < 2 ^ 53" using snoc.prems by simp
    from rnd64_int [OF this] have "f64_add (of_nat (length ts)) 1 = of_nat (Suc (length ts))"
      by (simp add: f64_add_def add.commute)
    then show ?case using record_pass_counts [OF ih(1), of t] ih(2) by simp
  qed (simp add: m)
  then show "plain_value (foldl record_pass r ts) ''forebay_watch_passes_total'' = of_nat (length ts)" by blast
qed

end
