(* ===== verification/Edge_Claims.thy ===== *)
theory Edge_Claims
  imports S3_Store S3_Sign Agent_Serve Data_Server_Inv Node_Claims "HOL-Library.Code_Target_Nat"
begin

text \<open>
  What holds at the edges of a node: its store over S3, whatever the network does; the signature of what
  it sends there; the disk it takes into use as it starts; and how it gives it back.
\<close>

section \<open>A node to try things on\<close>

definition edge_file :: "string \<Rightarrow> string option" where
  "edge_file p =
     (if p = ''/sys/class/nvme/nvme0/transport'' then Some ''pcie''
      else if p = ''/proc/self/mountinfo'' then Some ''1 0 259:2 / / rw - ext4 /dev/nvme0n1p2 rw''
      else None)"

definition edge_sysfs :: sysfs where
  "edge_sysfs = \<lparr>sysRead = edge_file, sysDir = (\<lambda>_. NotThere), sysLink = (\<lambda>_. None), sysStat = (\<lambda>_. False)\<rparr>"

definition edge_machine :: machine where
  "edge_machine = \<lparr>m_sysfs = edge_sysfs, m_statfs = (\<lambda>_. Answer \<lparr>Bsize = 1, fBlocks = 1000, Bavail = 600\<rparr>),
     m_stat = (\<lambda>_. Answer 7), m_cwd = Some ''/'', m_file = edge_file\<rparr>"

definition edge_flags :: main_flags where
  "edge_flags = \<lparr>fBorrowed = ''/p'', fJournal = ''/j/l'', fCapacity = 0, fReserved = 0, fReclaim = Minute, fTenant = 0, fStaging = 0,
     fSysroot = ''/'', fMountinfo = ''/proc/self/mountinfo'', fAutonomy = True\<rparr>"

definition edge_env :: open_env where
  "edge_env = \<lparr>oMkdir = True, oOpenLock = True, oLock = True, oBad = {}, oHeartbeat = True, oVerify = True\<rparr>"

definition edge_journal :: file_journal where
  "edge_journal = \<lparr>jfile = Missing, faults = []\<rparr>"

definition edge_start :: "run_error + agent \<times> reconciliation" where
  "edge_start = start edge_machine edge_flags (RootTree (TDir [])) edge_env [] edge_journal 0"

definition edge_agent :: agent where
  "edge_agent = fst (projr edge_start)"

lemma edge_started:
  "start edge_machine edge_flags (RootTree (TDir [])) edge_env [] edge_journal 0 = Inr (edge_agent, snd (projr edge_start))"
proof -
  have "\<not> isl edge_start" by code_simp
  then show ?thesis unfolding edge_agent_def edge_start_def by (cases "start edge_machine edge_flags (RootTree (TDir [])) edge_env [] edge_journal 0") auto
qed

section \<open>Starting\<close>

text \<open>
  C32. An agent that starts can lend, with what it has lent already, no more than what
  was free on the file system of its pool plus what its own files held there, where both could be
  measured; and its leases and its accounting agree. This holds for a discovered capacity and for one
  an operator gave.
\<close>

theorem startup_delivers:
  assumes "start m fl pooled env d j now = Inr (a, rec)" "in_i64 (fCapacity fl)" "in_i64 (fReserved fl)"
    and "deliverableBytes (main_pool m fl) (OccupiedBytes [(fBorrowed fl, pooled)]) = Some dv"
  shows "Borrowed (acct (a_leases a)) + Free (acct (a_leases a)) \<le> dv \<and> mgr_ok (a_leases a)"
  using start_delivers [OF assms] by blast

theorem startup_delivers_witness:
  "Borrowed (acct (a_leases edge_agent)) + Free (acct (a_leases edge_agent)) \<le> 600 \<and> mgr_ok (a_leases edge_agent)"
proof -
  have "deliverableBytes (main_pool edge_machine edge_flags) (OccupiedBytes [(fBorrowed edge_flags, RootTree (TDir []))]) = Some 600"
    by code_simp
  then show ?thesis using startup_delivers [OF edge_started] by (simp add: edge_flags_def i64_defs)
qed









section \<open>Draining and the pod input\<close>

text \<open>
  C35. A drain that reports success leaves nothing on loan; whatever it reports, no
  unexpired guaranteed lease is taken; and one that fails although every discard worked either reports
  what the lease manager could not record, or the exact bytes of guaranteed staging, which are then all that is
  still on loan.
\<close>

theorem drain_truthful:
  assumes "agent_ok a" "drainNode fls t a now = (e, a')"
  shows "(e = None \<longrightarrow> Borrowed (acct (a_leases a')) = 0 \<and> agent_ok a')
    \<and> (\<forall>l\<in>held (a_leases a). lClass l = Guaranteed \<and> \<not> Expired l now \<longrightarrow> l \<in> held (a_leases a'))
    \<and> (\<forall>x. fls = [] \<and> e = Some x \<longrightarrow> (\<exists>le. x = DrainPartWay le)
        \<or> x = StillStaging (staged a') \<and> 0 < staged a' \<and> Borrowed (acct (a_leases a')) = staged a')"
proof -
  have "Borrowed (acct (a_leases a')) = 0 \<and> agent_ok a'" if "e = None" using drainNode_honest [OF assms(1)] assms(2) that by auto
  moreover have "(\<exists>le. x = DrainPartWay le) \<or> x = StillStaging (staged a') \<and> 0 < staged a' \<and> Borrowed (acct (a_leases a')) = staged a'"
    if "fls = []" "e = Some x" for x using drainNode_staging [OF assms(1)] assms(2) that by blast
  ultimately show ?thesis using drainNode_keeps_staging [OF assms] by blast
qed

theorem drain_truthful_witness:
  "fst (drainNode [] 0 demo_agent 8) = None \<and> Borrowed (acct (a_leases (snd (drainNode [] 0 demo_agent 8)))) = 0"
proof -
  obtain e a' where r: "drainNode [] 0 demo_agent 8 = (e, a')" by fastforce
  have "fst (drainNode [] 0 demo_agent 8) = None" by code_simp
  then show ?thesis using drain_truthful [OF demo_agent_ok r] r by simp
qed

text \<open>
  C39. However passes and attempts interleave after the agent starts, at most one attempt
  to reach the kubelet is in flight, none once a source is there, a source once built is the one every
  later pass asks, and a pass without a source has a reason to give.
\<close>

theorem pod_input_once:
  assumes "optionalSources host (podSource m opts token stats) = Some p0" "pending_step\<^sup>*\<^sup>* (p0, 0) (p, n)" "pending_step\<^sup>*\<^sup>* (p, n) (q, k)"
  shows "n \<le> 1 \<and> (pBuilt p = None \<longrightarrow> pLastErr p \<noteq> None) \<and> (\<forall>src. pBuilt p = Some src \<longrightarrow> n = 0 \<and> k = 0 \<and> fst (pending_Observe q) = Inr src)"
proof -
  have ok: "pending_ok (p, n)" by (rule pending_inv [OF assms(1,2)])
  have "n = 0 \<and> k = 0 \<and> fst (pending_Observe q) = Inr src" if "pBuilt p = Some src" for src
    using pending_keeps [OF assms(3) ok] that ok by (auto simp: pending_Observe_def pending_ok_def split: if_splits)
  then show ?thesis using ok by (auto simp: pending_ok_def split: if_splits)
qed

definition edge_options :: kubelet_options where
  "edge_options = \<lparr>kRoot = ''/r'', kBorrowed = ''/p'', kPools = main_pool edge_machine edge_flags\<rparr>"

theorem pod_input_once_witness:
  "let p0 = the (optionalSources ''h'' (podSource edge_machine edge_options None (Some 10)));
       q = attempt_done (snd (pending_Observe p0)) (podSource edge_machine edge_options (Some ''t'') (Some 10)) in
     pBuilt p0 = None \<and> pLastErr p0 \<noteq> None \<and> pBuilt q \<noteq> None \<and> fst (pending_Observe q) = Inr (the (pBuilt q))"
proof -
  define p0 where "p0 = the (optionalSources ''h'' (podSource edge_machine edge_options None (Some 10)))"
  define p1 where "p1 = snd (pending_Observe p0)"
  define q where "q = attempt_done p1 (podSource edge_machine edge_options (Some ''t'') (Some 10))"
  have o: "optionalSources ''h'' (podSource edge_machine edge_options None (Some 10)) = Some p0" by (simp add: p0_def optionalSources_def)
  have b: "pBuilt p0 = None" "pBuilding p0 = False" unfolding p0_def by code_simp+
  have p1: "pBuilding p1" using b by (simp add: p1_def pending_Observe_def)
  have "pending_step (p0, 0) (p1, 1)"
    using pending_step.observe [of p0 "fst (pending_Observe p0)" p1 0] p1 b by (simp add: p1_def)
  moreover have "pending_step (p1, Suc 0) (q, 0)" unfolding q_def by (rule pending_step.finish)
  ultimately have "pending_step\<^sup>*\<^sup>* (p0, 0) (q, 0)" by (simp add: converse_rtranclp_into_rtranclp)
  moreover have "pBuilt q \<noteq> None" unfolding q_def p1_def p0_def by code_simp
  ultimately show ?thesis
    using pod_input_once [OF o _ rtranclp.rtrancl_refl, of q 0] pod_input_once [OF o rtranclp.rtrancl_refl rtranclp.rtrancl_refl] b
    unfolding p0_def [symmetric] p1_def [symmetric] q_def [symmetric] Let_def by auto
qed

section \<open>The S3 driver\<close>

definition edge_bucket :: bucket where
  "edge_bucket = \<lparr>bk_objects = [(''o'', [1, 2, 3])], bk_faults = [Lost, Busy 503], bk_patience = 5, bk_seeks = True\<rparr>"


text \<open>
  C33. A server over a bucket behind any store that keeps what S3 documents of reads,
  whatever requests are lost, refused or broken off and however often the driver repeats them: a read
  that answers returns exactly the object's bytes at that place, and a range error means that the range
  is not inside the object.
\<close>

theorem s3_reads_faithful:
  assumes store: "object_store d contents" and new: "NewCache tc = Inr c" "Driver_Backend.Open (Some (s3_driver d)) w = Inr b"
      "New_server (Some c) (Some b) cf env = Inr s0" and steps: "ds_step\<^sup>*\<^sup>* s0 s"
    and room: "range_blocks (sv_block s) offset (offset + len) \<le> room_of s" "offset + len + sv_block s \<le> max_i64"
    and run: "ds_ReadRange ctx s tenant obj offset len = (r, s')"
  shows "(\<forall>data. r = Inr data \<longrightarrow> data = [] \<and> len = 0
          \<or> (\<exists>bs. contents w obj = Some bs \<and> nat offset + nat len \<le> length bs \<and> data = take (nat len) (drop (nat offset) bs)))
    \<and> (r = Inl (Ds_Driver ErrOutOfRange) \<longrightarrow> (\<forall>bs. contents w obj = Some bs \<longrightarrow> length bs < nat offset + nat len))"
proof -
  note drv = object_store.driver_lawful [OF store]
  have sz: "int (length bs) \<le> max_i64" if "contents w o' = Some bs" for o' bs using object_store.small [OF store that] .
  have ok: "lawful_driver.server_ok (s3_driver d) contents (contents w) s"
    by (rule lawful_driver.ds_reach_ok [OF drv steps lawful_driver.New_server_ok [OF drv new(3,1,2)] sz])
  have "range_answer (contents w) obj offset len r" using lawful_driver.ReadRange_answers [OF drv ok room _ run] sz by blast
  then show ?thesis by (auto simp: range_answer_def split: sum.splits)
qed

definition edge_server :: "bucket server" where
  "edge_server = projr (New_server (Some (projr (NewCache \<lparr>BlockSize = 2, FirstReadLimit = 4\<rparr>)))
     (Some (projr (Driver_Backend.Open (Some (s3_driver (bucket_s3 3))) edge_bucket)))
     \<lparr>cBackend = ''b'', cIdle = 0, cExchange = 0, cMetrics = None, cReady = None, cPrefetch = None, cMaxRead = 0\<rparr>
     \<lparr>e_now = (\<lambda>_. 0), e_read_fails = (\<lambda>_. False), e_write = (\<lambda>_. None)\<rparr>)"

theorem s3_reads_faithful_witness:
  "fst (ds_ReadRange (\<lambda>_. False) edge_server ''t'' ''o'' 2 1) = Inr (take 1 (drop 2 [1, 2, 3]))"
proof -
  let ?tier = "projr (NewCache \<lparr>BlockSize = 2, FirstReadLimit = 4\<rparr>)"
  let ?b = "projr (Driver_Backend.Open (Some (s3_driver (bucket_s3 3))) edge_bucket)"
  have t: "NewCache \<lparr>BlockSize = 2, FirstReadLimit = 4\<rparr> = Inr ?tier" by (simp add: NewCache_def)
  have "\<not> isl (Driver_Backend.Open (Some (s3_driver (bucket_s3 3))) edge_bucket)" by code_simp
  then have b: "Driver_Backend.Open (Some (s3_driver (bucket_s3 3))) edge_bucket = Inr ?b" by simp
  have s: "New_server (Some ?tier) (Some ?b) \<lparr>cBackend = ''b'', cIdle = 0, cExchange = 0, cMetrics = None, cReady = None, cPrefetch = None, cMaxRead = 0\<rparr>
     \<lparr>e_now = (\<lambda>_. 0), e_read_fails = (\<lambda>_. False), e_write = (\<lambda>_. None)\<rparr> = Inr edge_server"
    by (simp add: edge_server_def New_server_def Let_def)
  obtain r s' where r: "ds_ReadRange (\<lambda>_. False) edge_server ''t'' ''o'' 2 1 = (r, s')" by force
  have "\<not> isl (fst (ds_ReadRange (\<lambda>_. False) edge_server ''t'' ''o'' 2 1))" by code_simp
  then obtain data where data: "r = Inr data" using r by (cases r) auto
  have "sv_block edge_server = 2" "room_of edge_server = 18446744073709551615" by code_simp+
  then show ?thesis
    using s3_reads_faithful [OF buckets.object_store_axioms t b s rtranclp.rtrancl_refl _ _ r] r data
    by (auto simp: range_blocks_def max_i64_def bucket_contents_def edge_bucket_def)
qed

text \<open>
  C36. On a store that keeps what S3 documents, a write or a delete that is acknowledged
  left exactly what was asked for, a stream in full with the length it was announced with; one that is
  not acknowledged left the object as it was or as asked, and no other object is ever touched.
\<close>

theorem s3_write_known:
  assumes "durable_store d contents"
    and "s3_WriteObject d w obj data = (e1, w1)" "s3_WriteObjectFrom d w obj src n = (e2, w2)" "s3_DeleteObject d w obj = (e3, w3)"
  shows "contents w1 \<in> {contents w, (contents w)(obj \<mapsto> data)} \<and> (e1 = None \<longrightarrow> contents w1 = (contents w)(obj \<mapsto> data))
    \<and> contents w2 \<in> {contents w, (contents w)(obj \<mapsto> src_bytes src)}
    \<and> (e2 = None \<longrightarrow> contents w2 = (contents w)(obj \<mapsto> src_bytes src) \<and> int (length (src_bytes src)) = n \<and> \<not> src_fails src)
    \<and> contents w3 \<in> {contents w, (contents w)(obj := None)} \<and> (e3 = None \<longrightarrow> contents w3 = (contents w)(obj := None))"
  using durable_store.WriteObject_outcome [OF assms(1,2)] durable_store.WriteObjectFrom_outcome [OF assms(1,3)]
    durable_store.DeleteObject_outcome [OF assms(1,4)] by blast

theorem s3_write_known_witness:
  "bucket_contents (snd (s3_WriteObject (bucket_s3 3) edge_bucket ''p'' [7])) = (bucket_contents edge_bucket)(''p'' \<mapsto> [7])
   \<and> bucket_contents (snd (s3_DeleteObject (bucket_s3 3) edge_bucket ''p'')) = (bucket_contents edge_bucket)(''p'' := None)"
proof -
  obtain e1 w1 where r1: "s3_WriteObject (bucket_s3 3) edge_bucket ''p'' [7] = (e1, w1)" by force
  obtain e2 w2 where r2: "s3_WriteObjectFrom (bucket_s3 3) edge_bucket ''p'' \<lparr>src_bytes = [8], src_fails = False\<rparr> 1 = (e2, w2)" by force
  obtain e3 w3 where r3: "s3_DeleteObject (bucket_s3 3) edge_bucket ''p'' = (e3, w3)" by force
  have "fst (s3_WriteObject (bucket_s3 3) edge_bucket ''p'' [7]) = None" "fst (s3_DeleteObject (bucket_s3 3) edge_bucket ''p'') = None"
    by code_simp+
  then show ?thesis using s3_write_known [OF kept.durable_store_axioms r1 r2 r3] r1 r3 by simp
qed

section \<open>Signatures\<close>




end
