(* ===== verification/Spec2Isabelle.thy ===== *)
theory Spec2Isabelle
  imports Node_Claims Tier_Claims Wire_Claims Data_Claims Plane_Claims Label_Claims Edge_Claims
begin

text \<open>
  Forebay lends the unused capacity of compute nodes' disks to a cache in front of a durable store
  and gives it back before the node needs it. This development models the Go code under \<open>src/\<close> as
  HOL functions over explicit state and proves what its parts promise each other.

  \<^bold>\<open>The parts and how they interact.\<close> A node's bytes are counted in one place (\<open>internal/pool\<close>). The
  lease manager (\<open>internal/lease\<close>) lends them in leases, journals every change, and takes them back in
  a fixed order. The agent (\<open>internal/agent\<close>) owns the directory where each lease has an extent; its
  pressure watch measures free space, asks its sources what will be needed soon (volumes published
  on the node, pods the kubelet lists) and reclaims down to a floor. The fast tier
  (\<open>internal/fasttier\<close>) keeps blocks in the extents it is granted and drops them when one is
  reclaimed. The data server (\<open>internal/dataserver\<close>) answers reads from the tier or from a driver
  (\<open>driver\<close>), fills the tier, predicts with a detector (\<open>internal/prefetch\<close>) and keeps score
  (\<open>internal/efficiency\<close>, \<open>internal/metrics\<close>). Readers reach it over its own frames; Kubernetes
  reaches the node through CSI (\<open>internal/csi\<close>) over gRPC (\<open>internal/grpcwire\<close>,
  \<open>internal/protowire\<close>).

  \<^bold>\<open>How Go is read.\<close> \<open>Go_Base\<close>: 64-bit integers are integers with \<open>wrap64\<close> written out at every
  operation that can leave the range, times are nanosecond counts, a Go map is an association list
  with distinct keys (one order a \<open>range\<close> may take), an error is a value. \<open>Go_Float\<close>: doubles as the
  rationals they denote, rounded to nearest even. \<open>Go_Text\<close>: strings, bytes, decimal numbers. A
  method that holds its mutex for its whole body is one atomic step. A system call that can fail
  has its outcome as an argument of the operation, so that every error path of the source is a
  branch. Code outside \<open>src/\<close> (JSON, HTTP/2, the kernel) appears as the value it carries or as such
  an outcome.

  \<^bold>\<open>Theories and source.\<close>
  \<^item> \<open>Pool\<close>: \<open>internal/pool/pool.go\<close>. \<open>Lease\<close>: every operation of \<open>internal/lease/lease.go\<close>;
    \<open>Lease_Inv\<close> proves what each does in closed form, \<open>Lease_Churn\<close> the pauses after reclaims,
    \<open>Lease_Run\<close> the invariants of every run and recovery from the journal, over the interface
    locale \<open>lease_journal\<close>. \<open>File_Journal\<close>: \<open>internal/lease/journal.go\<close>, which interprets it.
  \<^item> \<open>Node_Agent\<close>: \<open>internal/agent/agent.go\<close>, \<open>extent.go\<close>. \<open>Pressure\<close>: \<open>pressure.go\<close>. \<open>Volumes\<close>:
    \<open>internal/volumes/volumes.go\<close>. \<open>Kubelet\<close>: \<open>internal/kubelet\<close>.
  \<^item> \<open>Fast_Tier\<close>: \<open>internal/fasttier\<close>; \<open>Fast_Tier_Inv\<close> its invariant, \<open>Tier_Race\<close> the interleavings of
    a read whose copy runs outside the lock, \<open>Tier_View\<close> the tier as a block cache (locale
    \<open>block_cache\<close>).
  \<^item> \<open>Driver_Backend\<close>: \<open>driver/driver.go\<close>, \<open>backend.go\<close>, with the contracts \<open>lawful_driver\<close> and
    \<open>answering_driver\<close>. \<open>File_Driver\<close>: \<open>driver/filedriver\<close>, which interprets them.
  \<^item> \<open>Prefetch\<close>: \<open>internal/prefetch\<close>. \<open>Efficiency\<close>: \<open>internal/efficiency\<close>. \<open>Metrics\<close>:
    \<open>internal/metrics/metrics.go\<close>, \<open>ready.go\<close>. \<open>Data_Server\<close>: \<open>internal/dataserver/dataserver.go\<close>,
    \<open>ahead.go\<close>; \<open>Data_Server_Inv\<close> its correctness over any lawful driver and any block cache.
    \<open>Data_Wire\<close>: \<open>protocol.go\<close>, \<open>serve.go\<close>, \<open>client.go\<close>.
  \<^item> \<open>Proto_Wire\<close>: \<open>internal/protowire\<close>. \<open>Grpc_Wire\<close>: \<open>internal/grpcwire\<close>. \<open>Csi\<close>:
    \<open>internal/csi/message.go\<close>. \<open>Csi_Driver\<close>: \<open>driver.go\<close>, \<open>mount.go\<close>, \<open>resolve.go\<close>.
  \<^item> \<open>Lineage\<close>: \<open>internal/lineage\<close>, the graph and its ancestry query, with the reachability it computes.
  \<^item> \<open>Intent\<close>: \<open>internal/intent\<close> and what \<open>internal/kube/dataset.go\<close> derives from it. \<open>Go_Duration\<close>: the
    durations of the standard library as text. \<open>Lease_Api\<close>: \<open>internal/leaseapi\<close>, both ends of the lease
    protocol over the agent of \<open>Node_Agent\<close>. \<open>Controller\<close>: \<open>cmd/forebay-controller/plan.go\<close>, the
    reconcile pass of \<open>main.go\<close> and \<open>internal/kube/nodes.go\<close>, over the interface locale \<open>lending_node\<close>.
  \<^item> \<open>Checkpoint\<close>: \<open>internal/checkpoint\<close>, staging over the agent and over any store that meets
    \<open>streaming_store\<close>, which the directory driver behind a backend does.
  \<^item> \<open>Residency\<close>: \<open>internal/residency\<close> and the agent's reporter (\<open>cmd/forebay-agent/residency.go\<close>).
    \<open>Residency_Labels\<close>: the controller's pass over labels (\<open>cmd/forebay-controller/residency.go\<close>).
  \<^item> \<open>Go_Path\<close>: the package \<open>path\<close>. \<open>Dataset_Ref\<close>: \<open>internal/dataset\<close>. \<open>Residence\<close>: \<open>internal/residence\<close>.
    \<open>Kv_Spill\<close>: \<open>internal/kvspill\<close>. \<open>Freed\<close>: \<open>internal/freed\<close>. \<open>Agent_Health\<close>: \<open>internal/agent/liveness.go\<close>,
    \<open>residual.go\<close>.
  \<^item> \<open>S3_Driver\<close>, \<open>S3_Store\<close>: \<open>driver/s3driver/s3driver.go\<close> over an exchange with a store, the laws S3 documents as
    the locales \<open>object_store\<close> and \<open>durable_store\<close>, and a bucket with a script of failures that keeps them.
  \<^item> \<open>Go_Sha256\<close>, \<open>S3_Sign\<close>: SHA-256 and HMAC as the standard library has them, and \<open>driver/s3driver/sigv4.go\<close>
    down to the published test vector.
  \<^item> \<open>Topology\<close>, \<open>Pool_Storage\<close>: \<open>internal/topology\<close> over the files of sysfs, the mount table and statfs.
  \<^item> \<open>Agent_Main\<close>, \<open>Agent_Serve\<close>: what \<open>cmd/forebay-agent\<close> decides (\<open>main.go\<close>, \<open>serve.go\<close>, \<open>backend.go\<close>), and
    the metrics of a node (\<open>internal/metrics/forebay.go\<close>).

  \<^bold>\<open>What is shown.\<close> The numbered properties are in the theories named \<open>_Claims\<close>, each after the
  sentence it proves. \<open>Lease_Claims\<close>: no reachable state lends more than the device, the guaranteed
  share or a quota allows; a grant happens whole or not at all; a reclaim takes the cheapest leases
  first and reports a shortfall only when nothing is left to take; a restart brings back what was
  journalled. \<open>Node_Claims\<close>: every lease has its extent and no file is left over; a pass of the watch
  reaches its floor or says by how much it missed. \<open>Tier_Claims\<close>: slots are conserved, what was
  admitted is read back, and a read racing with revocation never returns another block's bytes.
  \<open>Data_Claims\<close>: a read through the tier returns exactly the object's bytes and is answered whenever
  the driver answers; the client sees what the server did; predictions follow a confirmed stride.
  \<open>Wire_Claims\<close>: encodings are read back exactly, a call returns what its handler answered, a node
  never stacks mounts.
  \<open>Plane_Claims\<close>: a proposal sent over the wire is decided exactly as the agent decides the lease it
  describes; a planning pass takes no more of a node than its share; a floor only raises what was
  asked for; statuses settle after one pass unless a merge patch cannot express the change; an
  acknowledged checkpoint is in the store or in guaranteed capacity that a reclaim leaves alone until
  its term has run out; an ancestry answer is exactly what the graph reaches.
  \<open>Label_Claims\<close>: levels do not flap, with one gap between their thresholds; a node's labels are exactly
  what its tier holds, and passes converge; fresh capacity is lent only if it reads as zeros; keys and
  paths name what they came from.
  \<open>Edge_Claims\<close>: an agent that starts promises no more than the file system under its pool can deliver, and
  without an operator's word only lends a disk the kernel reports on PCIe; what discovery returns is well
  formed; a drain that succeeds left nothing on loan; one attempt at a time reaches for the kubelet; over
  a store that keeps what S3 documents, reads are transparent and writes known, and a request is answered
  exactly when the store answers within the attempts; a signature identifies its request.

  \<^bold>\<open>Bounds and fuel.\<close> No operation is cut off by fuel. Loops are structural recursion or have a
  termination proof by a measure (decoders by the bytes left, the blocks of a read by the distance
  to its end). The number of blocks of a read is \<open>range_blocks\<close>; a read that reaches into the last
  block a 64-bit offset can count is outside the read theorems, because there the source's loop
  variable wraps. The tier's generation counter is a 64-bit word and the racing theorem asks for
  fewer than two to the 64 generations (\<open>tier_room\<close>).

  \<^bold>\<open>Not modelled.\<close> Of the commands under \<open>cmd/\<close>: flag parsing, printing and listening, and
  \<open>cmd/forebay-csi\<close>, which only wires the CSI driver; the measuring tools (\<open>internal/bench\<close>,
  \<open>internal/workload\<close>, the bench, harm and headroom commands), which time hardware; \<open>driver/conformance\<close>
  (a test suite, whose contract is the locale \<open>lawful_driver\<close>); \<open>internal/docscheck\<close> (a test of the
  documents); \<open>internal/kube\<close> and \<open>internal/volumes/http.go\<close> (HTTP clients and servers around JSON); the
  FSAL in C. Of the modelled packages: texts of errors, logging, the text exposition of metrics,
  accepting connections, contexts and deadlines beyond whether a call was cut off.
\<close>

end
